(* ===== verification/Prelude.thy ===== *)
theory Prelude
  imports Main "HOL-Library.Word" "HOL-Library.Monad_Syntax" "HOL-Library.AList"
    "HOL-Library.Signed_Division" "HOL-Library.Sublist"
begin

text \<open>
  Shared vocabulary of the development.

  \<^item> Machine integers. A Rust \<open>i64\<close> is an \<open>int\<close>; the release profile of the crate sets
    \<open>overflow-checks = false\<close>, so every \<open>i64\<close> operation that can leave the range is written
    with the wrap-around \<open>as_i64\<close> (which is also the cast \<open>as i64\<close>). A Rust \<open>u64\<close> or
    \<open>usize\<close> is a \<open>nat\<close>, with \<open>as_u64\<close> for the wrap-around. Rust's \<open>/\<close> and
    \<open>%\<close> truncate towards zero: they are \<open>sdiv\<close> and \<open>smod\<close> of the library.
  \<^item> Executions. \<open>'a exec\<close> is an option: \<open>None\<close> stands for a panic, an access through an
    invalid pointer or a loop that never returns. A Rust \<open>Result\<close> is a sum inside it
    (\<open>Inl\<close> the error), so that a returned error and a crash are never confused.
  \<^item> Vectors. \<open>vec_get\<close>, \<open>vec_set\<close> and \<open>vec_pop\<close> are \<open>Vec\<close> indexing, indexed
    assignment and \<open>pop\<close> with the bounds check written out.
\<close>

named_theorems exec_simps \<open>evaluation of the execution monad on states where it succeeds\<close>

subsection \<open>Machine integers\<close>

type_synonym PriceTicks = int
type_synonym QuantityLots = int

definition in_i64 :: "int \<Rightarrow> bool" where
  "in_i64 x \<longleftrightarrow> - (2 ^ 63) \<le> x \<and> x < 2 ^ 63"

definition as_i64 :: "int \<Rightarrow> int" where
  "as_i64 x = (x + 2 ^ 63) mod 2 ^ 64 - 2 ^ 63"

definition i64_max :: int where
  "i64_max = 2 ^ 63 - 1"

definition i64_min :: int where
  "i64_min = - (2 ^ 63)"

definition as_u64 :: "nat \<Rightarrow> nat" where
  "as_u64 n = n mod 2 ^ 64"

definition u64_pred :: "nat \<Rightarrow> nat" where
  "u64_pred n = (if n = 0 then 2 ^ 64 - 1 else n - 1)"

definition sat_i64 :: "int \<Rightarrow> int" where
  "sat_i64 x = max i64_min (min i64_max x)"

definition eq64 :: "int \<Rightarrow> int \<Rightarrow> bool" where
  "eq64 x y \<longleftrightarrow> as_i64 x = as_i64 y"

subsection \<open>Executions and vectors\<close>

type_synonym 'a exec = "'a option"

definition vec_get :: "'a list \<Rightarrow> nat \<Rightarrow> 'a option" where
  "vec_get xs i = (if i < length xs then Some (xs ! i) else None)"

definition vec_set :: "'a list \<Rightarrow> nat \<Rightarrow> 'a \<Rightarrow> 'a list option" where
  "vec_set xs i x = (if i < length xs then Some (xs[i := x]) else None)"

definition vec_pop :: "'a list \<Rightarrow> ('a \<times> 'a list) option" where
  "vec_pop xs = (if xs = [] then None else Some (last xs, butlast xs))"

definition hd_or :: "'a option \<Rightarrow> 'a list \<Rightarrow> 'a option" where
  "hd_or q xs = (case xs of [] \<Rightarrow> q | x # _ \<Rightarrow> Some x)"

definition last_or :: "'a option \<Rightarrow> 'a list \<Rightarrow> 'a option" where
  "last_or p xs = (if xs = [] then p else Some (last xs))"

subsection \<open>Lemmas on machine integers\<close>

lemma as_i64_id [simp]: "in_i64 x \<Longrightarrow> as_i64 x = x"
  by (simp add: in_i64_def as_i64_def)

lemma in_i64_as_i64 [simp, intro]: "in_i64 (as_i64 x)"
  by (simp add: in_i64_def as_i64_def)

lemma as_i64_id_iff: "as_i64 x = x \<longleftrightarrow> in_i64 x"
  by (metis as_i64_id in_i64_as_i64)

lemma as_i64_cong: "as_i64 x = as_i64 y \<longleftrightarrow> x mod 2 ^ 64 = y mod 2 ^ 64"
proof -
  have "as_i64 x = as_i64 y \<longleftrightarrow> (x + 2 ^ 63) mod 2 ^ 64 = (y + 2 ^ 63) mod 2 ^ 64"
    by (simp add: as_i64_def)
  also have "\<dots> \<longleftrightarrow> x mod 2 ^ 64 = y mod 2 ^ 64"
    using mod_add_cong [of "x + 2 ^ 63" "2 ^ 64" "y + 2 ^ 63" "- (2 ^ 63)" "- (2 ^ 63)"]
    by (auto intro: mod_add_cong)
  finally show ?thesis .
qed

lemma as_i64_mod: "as_i64 x mod 2 ^ 64 = x mod 2 ^ 64"
  by (metis as_i64_cong as_i64_id in_i64_as_i64)

lemma as_i64_add_left [simp]: "as_i64 (as_i64 x + y) = as_i64 (x + y)"
  unfolding as_i64_cong by (metis as_i64_mod mod_add_left_eq)

lemma as_i64_add_right [simp]: "as_i64 (x + as_i64 y) = as_i64 (x + y)"
  by (metis add.commute as_i64_add_left)

lemma as_i64_diff_left [simp]: "as_i64 (as_i64 x - y) = as_i64 (x - y)"
  by (metis as_i64_add_left uminus_add_conv_diff add.commute)

lemma as_i64_diff_right [simp]: "as_i64 (x - as_i64 y) = as_i64 (x - y)"
  unfolding as_i64_cong by (metis as_i64_mod mod_diff_right_eq)

lemma eq64_refl [simp]: "eq64 x x"
  by (simp add: eq64_def)

lemma eq64_trans: "eq64 x y \<Longrightarrow> eq64 y z \<Longrightarrow> eq64 x z"
  by (simp add: eq64_def)

lemma eq64_sym: "eq64 x y \<Longrightarrow> eq64 y x"
  by (simp add: eq64_def)

lemma eq64_as_i64 [simp]: "eq64 (as_i64 x) y \<longleftrightarrow> eq64 x y" "eq64 x (as_i64 y) \<longleftrightarrow> eq64 x y"
  by (simp_all add: eq64_def)

lemma eq64_add: "eq64 a b \<Longrightarrow> eq64 c d \<Longrightarrow> eq64 (a + c) (b + d)"
  unfolding eq64_def as_i64_cong by (rule mod_add_cong)

lemma eq64_diff: "eq64 a b \<Longrightarrow> eq64 c d \<Longrightarrow> eq64 (a - c) (b - d)"
  unfolding eq64_def as_i64_cong by (rule mod_diff_cong)

lemma eq64_mult: "eq64 a b \<Longrightarrow> eq64 c d \<Longrightarrow> eq64 (a * c) (b * d)"
  unfolding eq64_def as_i64_cong by (rule mod_mult_cong)

lemma eq64_uminus: "eq64 a b \<Longrightarrow> eq64 (- a) (- b)"
  using eq64_diff [of 0 0 a b] by simp

lemma eq64_exact: "eq64 x y \<Longrightarrow> in_i64 x \<Longrightarrow> in_i64 y \<Longrightarrow> x = y"
  by (simp add: eq64_def)

lemma eq64_iff: "eq64 x y \<longleftrightarrow> (\<exists>k. x = y + k * 2 ^ 64)"
proof -
  have "eq64 x y \<longleftrightarrow> 2 ^ 64 dvd x - y"
    unfolding eq64_def as_i64_cong by (rule mod_eq_dvd_iff)
  also have "\<dots> \<longleftrightarrow> (\<exists>k. x = y + k * 2 ^ 64)"
    by (auto simp: dvd_def algebra_simps)
  finally show ?thesis .
qed

lemma as_i64_eq: obtains k where "as_i64 x = x + k * 2 ^ 64"
  using eq64_iff [of "as_i64 x" x] by auto

lemma in_i64_between: "in_i64 a \<Longrightarrow> in_i64 b \<Longrightarrow> a \<le> x \<Longrightarrow> x \<le> b \<Longrightarrow> in_i64 x"
  by (auto simp: in_i64_def)

lemma in_i64_0 [simp]: "in_i64 0"
  by (simp add: in_i64_def)

lemma in_i64_diff_nonneg: "in_i64 a \<Longrightarrow> 0 \<le> b \<Longrightarrow> b \<le> a \<Longrightarrow> in_i64 (a - b)"
  by (auto simp: in_i64_def)

lemma in_i64_min [intro]: "in_i64 a \<Longrightarrow> in_i64 b \<Longrightarrow> in_i64 (min a b)"
  by (auto simp: min_def)

lemma in_i64_max [intro]: "in_i64 a \<Longrightarrow> in_i64 b \<Longrightarrow> in_i64 (max a b)"
  by (auto simp: max_def)

lemma sat_i64_id [simp]: "in_i64 x \<Longrightarrow> sat_i64 x = x"
  by (auto simp: in_i64_def sat_i64_def i64_min_def i64_max_def)

lemma in_i64_sat [simp, intro]: "in_i64 (sat_i64 x)"
  by (auto simp: in_i64_def sat_i64_def i64_min_def i64_max_def)

lemma as_u64_id [simp]: "n < 2 ^ 64 \<Longrightarrow> as_u64 n = n"
  by (simp add: as_u64_def)

lemma u64_pred_Suc [simp]: "u64_pred (Suc n) = n"
  by (simp add: u64_pred_def)

lemma u64_pred_pos: "0 < n \<Longrightarrow> u64_pred n = n - 1"
  by (simp add: u64_pred_def)

lemma as_u64_Suc: "as_u64 (Suc (as_u64 n)) = as_u64 (Suc n)"
  by (simp add: as_u64_def mod_Suc_eq)

lemma u64_pred_as_u64: "u64_pred (as_u64 (Suc n)) = as_u64 n"
  by (simp add: u64_pred_def as_u64_def mod_Suc)

lemma bind_weak_cong: "m = m' \<Longrightarrow> Option.bind m f = Option.bind m' f"
  by simp

subsection \<open>Lemmas on vectors and list ends\<close>

lemma vec_get_in [simp, exec_simps]: "i < length xs \<Longrightarrow> vec_get xs i = Some (xs ! i)"
  by (simp add: vec_get_def)

lemma vec_get_Some_iff: "vec_get xs i = Some x \<longleftrightarrow> i < length xs \<and> xs ! i = x"
  by (auto simp: vec_get_def)

lemma vec_set_in [simp, exec_simps]: "i < length xs \<Longrightarrow> vec_set xs i x = Some (xs[i := x])"
  by (simp add: vec_set_def)

lemma vec_pop_Nil [simp]: "vec_pop [] = None"
  by (simp add: vec_pop_def)

lemma vec_pop_snoc [simp]: "vec_pop (xs @ [x]) = Some (x, xs)"
  by (simp add: vec_pop_def)

lemma hd_or_simps [simp]: "hd_or q [] = q" "hd_or q (x # xs) = Some x"
  by (simp_all add: hd_or_def)

lemma last_or_simps [simp]: "last_or p [] = p" "last_or p (xs @ [x]) = Some x"
  by (simp_all add: last_or_def)

lemma last_or_Cons [simp]: "last_or p (x # xs) = last_or (Some x) xs"
  by (simp add: last_or_def)

lemma hd_or_append: "hd_or q (xs @ ys) = hd_or (hd_or q ys) xs"
  by (cases xs) simp_all

lemma last_or_append: "last_or p (xs @ ys) = last_or (last_or p xs) ys"
  by (simp add: last_or_def)

lemma hd_or_None_iff [simp]: "hd_or None xs = None \<longleftrightarrow> xs = []"
  by (cases xs) simp_all

lemma last_or_None_iff [simp]: "last_or None xs = None \<longleftrightarrow> xs = []"
  by (simp add: last_or_def)

lemma last_or_Some: "last_or None xs = Some x \<Longrightarrow> \<exists>ys. xs = ys @ [x]"
  by (metis append_butlast_last_id last_or_def not_Some_eq option.inject)

lemma nth_list_update_if: "i < length xs \<Longrightarrow> xs[i := x] ! j = (if i = j then x else xs ! j)"
  by simp

lemma distinct_subset_length:
  assumes "distinct xs" and "set xs \<subseteq> {..<n}"
  shows "length xs \<le> n"
proof -
  from assms(2) have "card (set xs) \<le> card {..<n}" by (rule card_mono [rotated]) simp
  with assms(1) show ?thesis by (simp add: distinct_card)
qed

end
