(* ===== verification/ListPool.thy ===== *)
theory ListPool
  imports Prelude
begin

text \<open>
  The order queues of \<open>src/matching/list_pool.rs\<close>: doubly linked lists whose nodes live in a
  pre-allocated pool and are linked by indices. \<open>ListNodePool\<close> is the pool, \<open>PooledList\<close>
  one queue. The representation predicate \<open>plist_rep\<close> relates a queue to the list of its node
  indices; each operation is shown to keep it and to leave the other queues of the same pool alone.
\<close>

record ListNode =
  ln_order_id :: nat
  ln_quantity_lots :: QuantityLots
  ln_next :: "nat option"
  ln_prev :: "nat option"

definition ListNode_default :: ListNode where
  "ListNode_default = \<lparr>ln_order_id = 0, ln_quantity_lots = 0, ln_next = None, ln_prev = None\<rparr>"

record ListNodePool =
  lp_nodes :: "ListNode list"
  lp_free_indices :: "nat list"
  lp_allocated :: nat
  lp_capacity :: nat

definition ListNodePool_new :: "nat \<Rightarrow> ListNodePool" where
  "ListNodePool_new capacity =
     \<lparr>lp_nodes = replicate capacity ListNode_default, lp_free_indices = [0..<capacity],
      lp_allocated = 0, lp_capacity = capacity\<rparr>"

definition lp_acquire :: "ListNodePool \<Rightarrow> nat \<Rightarrow> QuantityLots \<Rightarrow> (nat option \<times> ListNodePool) exec" where
  "lp_acquire p order_id quantity =
     (case vec_pop (lp_free_indices p) of
        None \<Rightarrow> Some (None, p)
      | Some (idx, rest) \<Rightarrow> do {
          nodes \<leftarrow> vec_set (lp_nodes p) idx
            \<lparr>ln_order_id = order_id, ln_quantity_lots = quantity, ln_next = None, ln_prev = None\<rparr>;
          Some (Some idx, p\<lparr>lp_nodes := nodes, lp_free_indices := rest,
                            lp_allocated := as_u64 (lp_allocated p + 1)\<rparr>)
        })"

definition lp_release :: "ListNodePool \<Rightarrow> nat \<Rightarrow> ListNodePool" where
  "lp_release p idx =
     p\<lparr>lp_free_indices := lp_free_indices p @ [idx], lp_allocated := u64_pred (lp_allocated p)\<rparr>"

definition lp_get :: "ListNodePool \<Rightarrow> nat \<Rightarrow> ListNode option" where
  "lp_get p idx = vec_get (lp_nodes p) idx"

text \<open>\<open>pool.get_mut(idx).unwrap().field = v\<close>: the \<open>unwrap\<close> panics out of range.\<close>

definition lp_modify :: "ListNodePool \<Rightarrow> nat \<Rightarrow> (ListNode \<Rightarrow> ListNode) \<Rightarrow> ListNodePool exec" where
  "lp_modify p idx f = do {
     n \<leftarrow> vec_get (lp_nodes p) idx;
     Some (p\<lparr>lp_nodes := (lp_nodes p)[idx := f n]\<rparr>)
   }"

definition lp_available_count :: "ListNodePool \<Rightarrow> nat" where
  "lp_available_count p =
     (if lp_allocated p \<le> lp_capacity p then lp_capacity p - lp_allocated p
      else lp_capacity p + 2 ^ 64 - lp_allocated p)"

record PooledList =
  pl_head :: "nat option"
  pl_tail :: "nat option"
  pl_count :: nat

definition PooledList_new :: PooledList where
  "PooledList_new = \<lparr>pl_head = None, pl_tail = None, pl_count = 0\<rparr>"

definition pl_is_empty :: "PooledList \<Rightarrow> bool" where
  "pl_is_empty l \<longleftrightarrow> pl_count l = 0"

definition pl_front :: "PooledList \<Rightarrow> nat option" where
  "pl_front l = pl_head l"

definition pl_push_back :: "PooledList \<Rightarrow> nat \<Rightarrow> ListNodePool \<Rightarrow> (PooledList \<times> ListNodePool) exec" where
  "pl_push_back l node_idx pool = do {
     (l, pool) \<leftarrow>
       (case pl_tail l of
          Some idx \<Rightarrow> do {
            pool \<leftarrow> lp_modify pool idx (\<lambda>n. n\<lparr>ln_next := Some node_idx\<rparr>);
            pool \<leftarrow> lp_modify pool node_idx (\<lambda>n. n\<lparr>ln_prev := Some idx\<rparr>);
            Some (l, pool)
          }
        | None \<Rightarrow> Some (l\<lparr>pl_head := Some node_idx\<rparr>, pool));
     Some (l\<lparr>pl_tail := Some node_idx, pl_count := as_u64 (pl_count l + 1)\<rparr>, pool)
   }"

definition pl_remove :: "PooledList \<Rightarrow> nat \<Rightarrow> ListNodePool \<Rightarrow> (PooledList \<times> ListNodePool) exec" where
  "pl_remove l node_idx pool = do {
     node \<leftarrow> lp_get pool node_idx;
     (l, pool) \<leftarrow>
       (case (ln_prev node, ln_next node) of
          (None, None) \<Rightarrow> Some (l\<lparr>pl_head := None, pl_tail := None\<rparr>, pool)
        | (None, Some next_idx) \<Rightarrow> do {
            pool \<leftarrow> lp_modify pool next_idx (\<lambda>n. n\<lparr>ln_prev := None\<rparr>);
            Some (l\<lparr>pl_head := Some next_idx\<rparr>, pool)
          }
        | (Some prev_idx, None) \<Rightarrow> do {
            pool \<leftarrow> lp_modify pool prev_idx (\<lambda>n. n\<lparr>ln_next := None\<rparr>);
            Some (l\<lparr>pl_tail := Some prev_idx\<rparr>, pool)
          }
        | (Some prev_idx, Some next_idx) \<Rightarrow> do {
            pool \<leftarrow> lp_modify pool prev_idx (\<lambda>n. n\<lparr>ln_next := Some next_idx\<rparr>);
            pool \<leftarrow> lp_modify pool next_idx (\<lambda>n. n\<lparr>ln_prev := Some prev_idx\<rparr>);
            Some (l, pool)
          });
     Some (l\<lparr>pl_count := u64_pred (pl_count l)\<rparr>, pool)
   }"

definition pl_clear :: "PooledList \<Rightarrow> PooledList" where
  "pl_clear l = l\<lparr>pl_head := None, pl_tail := None, pl_count := 0\<rparr>"

subsection \<open>Representation\<close>

text \<open>
  \<open>dseg nodes p xs q\<close>: the nodes \<open>xs\<close> are linked in this order, the first one points back to
  \<open>p\<close> and the last one forward to \<open>q\<close>.
\<close>

fun dseg :: "ListNode list \<Rightarrow> nat option \<Rightarrow> nat list \<Rightarrow> nat option \<Rightarrow> bool" where
  "dseg nodes p [] q \<longleftrightarrow> True"
| "dseg nodes p (x # xs) q \<longleftrightarrow>
     x < length nodes \<and> ln_prev (nodes ! x) = p \<and> ln_next (nodes ! x) = hd_or q xs \<and>
     dseg nodes (Some x) xs q"

definition plist_rep :: "ListNode list \<Rightarrow> PooledList \<Rightarrow> nat list \<Rightarrow> bool" where
  "plist_rep nodes l xs \<longleftrightarrow>
     dseg nodes None xs None \<and> distinct xs \<and> pl_head l = hd_or None xs \<and>
     pl_tail l = last_or None xs \<and> pl_count l = length xs \<and> length xs < 2 ^ 64"

text \<open>The indices of a queue, computed by following \<open>next\<close> (at most one visit per node).\<close>

fun follow_next :: "nat \<Rightarrow> ListNode list \<Rightarrow> nat option \<Rightarrow> nat list" where
  "follow_next 0 nodes c = []"
| "follow_next (Suc n) nodes None = []"
| "follow_next (Suc n) nodes (Some i) = i # follow_next n nodes (ln_next (nodes ! i))"

definition pl_indices :: "ListNode list \<Rightarrow> PooledList \<Rightarrow> nat list" where
  "pl_indices nodes l = follow_next (length nodes) nodes (pl_head l)"

text \<open>The pool invariant, for the list of indices in use.\<close>

definition lp_inv :: "ListNodePool \<Rightarrow> nat list \<Rightarrow> bool" where
  "lp_inv p used \<longleftrightarrow>
     length (lp_nodes p) = lp_capacity p \<and> lp_capacity p < 2 ^ 64 \<and>
     distinct (lp_free_indices p @ used) \<and>
     set (lp_free_indices p @ used) = {..<lp_capacity p} \<and> lp_allocated p = length used"

definition ln_item :: "ListNode \<Rightarrow> nat \<times> QuantityLots" where
  "ln_item n = (ln_order_id n, ln_quantity_lots n)"

definition pl_items :: "ListNode list \<Rightarrow> PooledList \<Rightarrow> (nat \<times> QuantityLots) list" where
  "pl_items nodes l = map (\<lambda>i. ln_item (nodes ! i)) (pl_indices nodes l)"

subsection \<open>Segments\<close>

lemma dseg_append:
  "dseg nodes p (xs @ ys) q \<longleftrightarrow> dseg nodes p xs (hd_or q ys) \<and> dseg nodes (last_or p xs) ys q"
  by (induction xs arbitrary: p) (auto simp: hd_or_append)

lemma dseg_in_range: "dseg nodes p xs q \<Longrightarrow> x \<in> set xs \<Longrightarrow> x < length nodes"
  by (induction xs arbitrary: p) auto

lemma dseg_frame:
  assumes "dseg nodes p xs q" and "length nodes' = length nodes"
    and "\<And>x. x \<in> set xs \<Longrightarrow> nodes' ! x = nodes ! x"
  shows "dseg nodes' p xs q"
  using assms by (induction xs arbitrary: p) auto

lemma dseg_update_outside: "x \<notin> set xs \<Longrightarrow> dseg (nodes[x := n]) p xs q = dseg nodes p xs q"
  by (induction xs arbitrary: p) auto

lemma dseg_set_next:
  assumes "dseg nodes p (xs @ [x]) q" and "x \<notin> set xs"
  shows "dseg (nodes[x := (nodes ! x)\<lparr>ln_next := q'\<rparr>]) p (xs @ [x]) q'"
  using assms by (auto simp: dseg_append dseg_update_outside)

lemma dseg_set_prev:
  assumes "dseg nodes p (x # xs) q" and "x \<notin> set xs"
  shows "dseg (nodes[x := (nodes ! x)\<lparr>ln_prev := p'\<rparr>]) p' (x # xs) q"
  using assms by (auto simp: dseg_update_outside)

lemma follow_next_dseg:
  "dseg nodes p xs None \<Longrightarrow> length xs \<le> n \<Longrightarrow> follow_next n nodes (hd_or None xs) = xs"
proof (induction xs arbitrary: p n)
  case Nil
  then show ?case by (cases n) auto
next
  case (Cons x xs)
  from Cons.prems(2) obtain m where "n = Suc m" "length xs \<le> m" by (cases n) auto
  with Cons.prems(1) Cons.IH [of "Some x" m] show ?case by simp
qed

lemma plist_rep_indices: "plist_rep nodes l xs \<Longrightarrow> pl_indices nodes l = xs"
  using follow_next_dseg [of nodes None xs "length nodes"]
    distinct_subset_length [of xs "length nodes"] dseg_in_range [of nodes None xs None]
  by (auto simp: plist_rep_def pl_indices_def)

lemma plist_rep_in_range: "plist_rep nodes l xs \<Longrightarrow> x \<in> set xs \<Longrightarrow> x < length nodes"
  by (auto simp: plist_rep_def dest: dseg_in_range)

lemma plist_rep_frame:
  assumes "plist_rep nodes l xs" and "length nodes' = length nodes"
    and "\<And>x. x \<in> set xs \<Longrightarrow> nodes' ! x = nodes ! x"
  shows "plist_rep nodes' l xs"
  using assms by (auto simp: plist_rep_def intro: dseg_frame)

lemma plist_rep_new: "plist_rep nodes PooledList_new []"
  by (simp add: plist_rep_def PooledList_new_def)

lemma plist_rep_is_empty: "plist_rep nodes l xs \<Longrightarrow> pl_is_empty l \<longleftrightarrow> xs = []"
  by (auto simp: plist_rep_def pl_is_empty_def)

lemma plist_rep_front: "plist_rep nodes l xs \<Longrightarrow> pl_front l = hd_or None xs"
  by (simp add: plist_rep_def pl_front_def)

subsection \<open>Pool operations\<close>

lemma lp_inv_new: "n < 2 ^ 64 \<Longrightarrow> lp_inv (ListNodePool_new n) []"
  by (auto simp: lp_inv_def ListNodePool_new_def)

lemma lp_inv_perm: "lp_inv p us \<Longrightarrow> distinct vs \<Longrightarrow> set vs = set us \<Longrightarrow> lp_inv p vs"
  by (auto simp: lp_inv_def) (metis distinct_card)

lemma lp_inv_length: "lp_inv p us \<Longrightarrow> length (lp_free_indices p) + length us = lp_capacity p"
  by (metis card_lessThan distinct_card length_append lp_inv_def)

lemma lp_acquire_full:
  assumes "lp_inv p us" and "length us = lp_capacity p"
  shows "lp_acquire p i q = Some (None, p)"
  using lp_inv_length [OF assms(1)] assms(2) by (simp add: lp_acquire_def)

lemma lp_acquire_ok:
  assumes inv: "lp_inv p us" and "length us < lp_capacity p"
  obtains idx p' where "lp_acquire p i q = Some (Some idx, p')" "idx \<notin> set us"
    "idx < length (lp_nodes p)" "lp_inv p' (idx # us)" "lp_capacity p' = lp_capacity p"
    "lp_nodes p' = (lp_nodes p)[idx :=
       \<lparr>ln_order_id = i, ln_quantity_lots = q, ln_next = None, ln_prev = None\<rparr>]"
proof -
  have "lp_free_indices p \<noteq> []" using lp_inv_length [OF inv] assms(2) by auto
  then obtain rest idx where fr: "lp_free_indices p = rest @ [idx]"
    by (metis append_butlast_last_id)
  have idx: "idx < length (lp_nodes p)" "idx \<notin> set us" using inv fr by (auto simp: lp_inv_def)
  define p' where "p' = p\<lparr>lp_nodes := (lp_nodes p)[idx :=
       \<lparr>ln_order_id = i, ln_quantity_lots = q, ln_next = None, ln_prev = None\<rparr>],
     lp_free_indices := rest, lp_allocated := as_u64 (lp_allocated p + 1)\<rparr>"
  have "lp_acquire p i q = Some (Some idx, p')"
    using fr idx by (simp add: lp_acquire_def p'_def)
  moreover have "lp_inv p' (idx # us)"
    using inv fr assms(2) by (auto simp: lp_inv_def p'_def)
  ultimately show thesis using idx by (intro that [of idx p']) (simp_all add: p'_def)
qed

lemma lp_release_ok:
  assumes "lp_inv p us" and "idx \<in> set us"
  shows "lp_inv (lp_release p idx) (remove1 idx us)"
  using assms
  by (auto simp: lp_inv_def lp_release_def length_remove1 u64_pred_def)

lemma lp_release_sel [simp]:
  "lp_nodes (lp_release p i) = lp_nodes p" "lp_capacity (lp_release p i) = lp_capacity p"
  by (simp_all add: lp_release_def)

lemma lp_inv_nodes:
  "lp_inv p us \<Longrightarrow> length nodes = length (lp_nodes p) \<Longrightarrow> lp_inv (p\<lparr>lp_nodes := nodes\<rparr>) us"
  by (simp add: lp_inv_def)

lemma lp_modify_in [exec_simps]:
  "i < length (lp_nodes p) \<Longrightarrow>
     lp_modify p i f = Some (p\<lparr>lp_nodes := (lp_nodes p)[i := f (lp_nodes p ! i)]\<rparr>)"
  by (simp add: lp_modify_def)

subsection \<open>Queue operations\<close>

text \<open>What an operation on the queue \<open>xs\<close> may change: the links of the nodes of \<open>xs\<close>,
  never a node outside it, an order id or a quantity.\<close>

definition links_only :: "nat set \<Rightarrow> ListNodePool \<Rightarrow> ListNodePool \<Rightarrow> bool" where
  "links_only X p p' \<longleftrightarrow>
     p' = p\<lparr>lp_nodes := lp_nodes p'\<rparr> \<and> length (lp_nodes p') = length (lp_nodes p) \<and>
     (\<forall>j. j \<notin> X \<longrightarrow> lp_nodes p' ! j = lp_nodes p ! j) \<and>
     (\<forall>j. ln_item (lp_nodes p' ! j) = ln_item (lp_nodes p ! j))"

lemma links_only_update:
  assumes "i \<in> X" and "i < length (lp_nodes p)" and "ln_item n = ln_item (lp_nodes p ! i)"
  shows "links_only X p (p\<lparr>lp_nodes := (lp_nodes p)[i := n]\<rparr>)"
  using assms by (auto simp: links_only_def nth_list_update_if)

lemma links_only_refl: "links_only X p p"
  by (simp add: links_only_def)

lemma links_only_trans: "links_only X p p' \<Longrightarrow> links_only X p' p'' \<Longrightarrow> links_only X p p''"
  by (cases p; cases p'; cases p'') (simp add: links_only_def)

lemma links_only_inv: "links_only X p p' \<Longrightarrow> lp_inv p us \<Longrightarrow> lp_inv p' us"
  by (cases p; cases p') (simp add: links_only_def lp_inv_def)

lemma ln_item_links [simp]:
  "ln_item (n\<lparr>ln_next := q\<rparr>) = ln_item n" "ln_item (n\<lparr>ln_prev := q\<rparr>) = ln_item n"
  by (simp_all add: ln_item_def)

lemma pl_push_back_rep:
  assumes rep: "plist_rep (lp_nodes p) l xs" and fresh: "x \<notin> set xs" "x < length (lp_nodes p)"
    and unlinked: "ln_next (lp_nodes p ! x) = None" "ln_prev (lp_nodes p ! x) = None"
    and fits: "Suc (length xs) < 2 ^ 64"
  obtains l' p' where "pl_push_back l x p = Some (l', p')" "plist_rep (lp_nodes p') l' (xs @ [x])"
    "links_only (insert x (set xs)) p p'"
proof (cases "last_or None xs")
  case None
  then have "xs = []" by simp
  with rep fresh unlinked show thesis
    by (intro that [of "l\<lparr>pl_head := Some x, pl_tail := Some x, pl_count := 1\<rparr>" p])
       (simp_all add: pl_push_back_def plist_rep_def links_only_refl)
next
  case (Some y)
  from last_or_Some [OF Some] obtain ys where xs: "xs = ys @ [y]" ..
  let ?n1 = "(lp_nodes p)[y := (lp_nodes p ! y)\<lparr>ln_next := Some x\<rparr>]"
  let ?n2 = "?n1[x := (?n1 ! x)\<lparr>ln_prev := Some y\<rparr>]"
  have y: "y < length (lp_nodes p)" "y \<notin> set ys" "x \<noteq> y"
    using rep fresh xs by (auto simp: plist_rep_def dseg_append)
  have "dseg ?n1 None xs (Some x)"
    using rep y xs by (auto simp: plist_rep_def intro: dseg_set_next)
  then have "dseg ?n2 None xs (Some x)" using fresh by (simp add: dseg_update_outside)
  then have seg: "dseg ?n2 None (xs @ [x]) None"
    using fresh unlinked y xs by (simp add: dseg_append)
  have lo: "links_only (insert x (set xs)) p (p\<lparr>lp_nodes := ?n1\<rparr>)"
    using y xs by (intro links_only_update) auto
  have "links_only (insert x (set xs)) (p\<lparr>lp_nodes := ?n1\<rparr>) (p\<lparr>lp_nodes := ?n2\<rparr>)"
    using links_only_update [of x "insert x (set xs)" "p\<lparr>lp_nodes := ?n1\<rparr>"
        "(?n1 ! x)\<lparr>ln_prev := Some y\<rparr>"] fresh by simp
  with lo have "links_only (insert x (set xs)) p (p\<lparr>lp_nodes := ?n2\<rparr>)"
    by (rule links_only_trans)
  then show thesis using rep fresh fits y xs seg
    by (intro that [of "l\<lparr>pl_tail := Some x, pl_count := Suc (pl_count l)\<rparr>" "p\<lparr>lp_nodes := ?n2\<rparr>"])
       (auto simp: pl_push_back_def plist_rep_def lp_modify_in hd_or_append last_or_append)
qed

text \<open>Unlinking \<open>x\<close> writes the forward link of its predecessor and the back link of its
  successor, if there are such nodes.\<close>

definition relink_next :: "ListNode list \<Rightarrow> nat list \<Rightarrow> nat option \<Rightarrow> ListNode list" where
  "relink_next nodes ys q =
     (case last_or None ys of None \<Rightarrow> nodes | Some y \<Rightarrow> nodes[y := (nodes ! y)\<lparr>ln_next := q\<rparr>])"

definition relink_prev :: "ListNode list \<Rightarrow> nat list \<Rightarrow> nat option \<Rightarrow> ListNode list" where
  "relink_prev nodes zs p =
     (case hd_or None zs of None \<Rightarrow> nodes | Some z \<Rightarrow> nodes[z := (nodes ! z)\<lparr>ln_prev := p\<rparr>])"

definition unlink :: "ListNode list \<Rightarrow> nat list \<Rightarrow> nat list \<Rightarrow> ListNode list" where
  "unlink nodes ys zs = relink_prev (relink_next nodes ys (hd_or None zs)) zs (last_or None ys)"

lemma relink_next_dseg:
  assumes "dseg nodes p ys q" and "distinct ys"
  shows "dseg (relink_next nodes ys q') p ys q'"
proof (cases ys rule: rev_cases)
  case (snoc ys' y)
  with assms show ?thesis by (simp add: relink_next_def dseg_set_next)
qed simp

lemma relink_prev_dseg:
  assumes "dseg nodes p zs q" and "distinct zs"
  shows "dseg (relink_prev nodes zs p') p' zs q"
proof (cases zs)
  case (Cons z zs')
  with assms show ?thesis by (simp add: relink_prev_def dseg_update_outside)
qed simp

lemma relink_outside:
  "set ys \<inter> set xs = {} \<Longrightarrow> dseg (relink_next nodes ys q') p xs q = dseg nodes p xs q"
  "set ys \<inter> set xs = {} \<Longrightarrow> dseg (relink_prev nodes ys q') p xs q = dseg nodes p xs q"
proof -
  show "dseg (relink_next nodes ys q') p xs q = dseg nodes p xs q" if "set ys \<inter> set xs = {}"
    using that by (cases ys rule: rev_cases) (simp_all add: relink_next_def dseg_update_outside)
  show "dseg (relink_prev nodes ys q') p xs q = dseg nodes p xs q" if "set ys \<inter> set xs = {}"
    using that by (cases ys) (simp_all add: relink_prev_def dseg_update_outside)
qed

lemma unlink_dseg:
  assumes "dseg nodes None (ys @ x # zs) None" and "distinct (ys @ x # zs)"
  shows "dseg (unlink nodes ys zs) None (ys @ zs) None"
proof -
  let ?n = "relink_next nodes ys (hd_or None zs)"
  have seg: "dseg nodes None ys (Some x)" "dseg nodes (Some x) zs None"
    using assms(1) by (simp_all add: dseg_append)
  have dis: "distinct ys" "distinct zs" "set ys \<inter> set zs = {}" "set zs \<inter> set ys = {}"
    using assms(2) by auto
  from seg dis have "dseg ?n None ys (hd_or None zs)" "dseg ?n (Some x) zs None"
    by (simp_all add: relink_next_dseg relink_outside)
  with dis show ?thesis
    by (simp add: unlink_def dseg_append relink_prev_dseg relink_outside)
qed

lemma relink_links_only:
  assumes "set ys \<subseteq> X" and "X \<subseteq> {..<length (lp_nodes p)}"
  shows "links_only X p (p\<lparr>lp_nodes := relink_next (lp_nodes p) ys q\<rparr>)"
    and "links_only X p (p\<lparr>lp_nodes := relink_prev (lp_nodes p) ys q\<rparr>)"
proof -
  show "links_only X p (p\<lparr>lp_nodes := relink_next (lp_nodes p) ys q\<rparr>)"
  proof (cases ys rule: rev_cases)
    case (snoc ys' y)
    then have "links_only X p (p\<lparr>lp_nodes := (lp_nodes p)[y := (lp_nodes p ! y)\<lparr>ln_next := q\<rparr>]\<rparr>)"
      using assms by (intro links_only_update) auto
    with snoc show ?thesis by (simp add: relink_next_def)
  qed (simp add: relink_next_def links_only_refl)
  show "links_only X p (p\<lparr>lp_nodes := relink_prev (lp_nodes p) ys q\<rparr>)"
  proof (cases ys)
    case (Cons y ys')
    then have "links_only X p (p\<lparr>lp_nodes := (lp_nodes p)[y := (lp_nodes p ! y)\<lparr>ln_prev := q\<rparr>]\<rparr>)"
      using assms by (intro links_only_update) auto
    with Cons show ?thesis by (simp add: relink_prev_def)
  qed (simp add: relink_prev_def links_only_refl)
qed

lemma unlink_links_only:
  assumes "set ys \<union> set zs \<subseteq> X" and "X \<subseteq> {..<length (lp_nodes p)}"
  shows "links_only X p (p\<lparr>lp_nodes := unlink (lp_nodes p) ys zs\<rparr>)"
proof -
  let ?p = "p\<lparr>lp_nodes := relink_next (lp_nodes p) ys (hd_or None zs)\<rparr>"
  have 1: "links_only X p ?p" using assms by (intro relink_links_only) auto
  then have "X \<subseteq> {..<length (lp_nodes ?p)}" using assms(2) unfolding links_only_def by simp
  with assms(1) have "links_only X ?p (?p\<lparr>lp_nodes := relink_prev (lp_nodes ?p) zs (last_or None ys)\<rparr>)"
    by (intro relink_links_only) auto
  then have "links_only X ?p (p\<lparr>lp_nodes := unlink (lp_nodes p) ys zs\<rparr>)"
    by (simp add: unlink_def)
  with 1 show ?thesis by (rule links_only_trans)
qed

lemma pl_remove_eq:
  assumes rep: "plist_rep (lp_nodes p) l (ys @ x # zs)"
  shows "pl_remove l x p =
    Some (\<lparr>pl_head = hd_or None (ys @ zs), pl_tail = last_or None (ys @ zs),
           pl_count = length (ys @ zs)\<rparr>, p\<lparr>lp_nodes := unlink (lp_nodes p) ys zs\<rparr>)"
proof -
  have "x < length (lp_nodes p)" "ln_prev (lp_nodes p ! x) = last_or None ys"
    "ln_next (lp_nodes p ! x) = hd_or None zs"
    using rep by (auto simp: plist_rep_def dseg_append)
  moreover have "l = \<lparr>pl_head = hd_or None (ys @ x # zs), pl_tail = last_or None (ys @ x # zs),
      pl_count = length (ys @ x # zs)\<rparr>"
    using rep by (simp add: plist_rep_def)
  moreover have "y < length (lp_nodes p)" if "y \<in> set (ys @ zs)" for y
    using plist_rep_in_range [OF rep] that by auto
  ultimately show ?thesis
    by (cases ys rule: rev_cases; cases zs)
       (simp_all add: pl_remove_def lp_get_def lp_modify_in unlink_def
         relink_next_def relink_prev_def hd_or_append last_or_append)
qed

lemma pl_remove_rep:
  assumes rep: "plist_rep (lp_nodes p) l (ys @ x # zs)"
  obtains l' p' where "pl_remove l x p = Some (l', p')" "plist_rep (lp_nodes p') l' (ys @ zs)"
    "links_only (set (ys @ x # zs)) p p'"
proof (rule that [OF pl_remove_eq [OF rep]])
  show "plist_rep (lp_nodes (p\<lparr>lp_nodes := unlink (lp_nodes p) ys zs\<rparr>))
    \<lparr>pl_head = hd_or None (ys @ zs), pl_tail = last_or None (ys @ zs), pl_count = length (ys @ zs)\<rparr>
    (ys @ zs)"
    using rep unlink_dseg [of "lp_nodes p" ys x zs] by (auto simp: plist_rep_def)
  show "links_only (set (ys @ x # zs)) p (p\<lparr>lp_nodes := unlink (lp_nodes p) ys zs\<rparr>)"
    using plist_rep_in_range [OF rep] by (intro unlink_links_only) auto
qed

end
