(* ===== verification/SkipList.thy ===== *)
theory SkipList
  imports ListPool
begin

unbundle bit_operations_syntax

text \<open>
  The price index of one side of the book, \<open>src/matching/skiplist.rs\<close>, at the level of its
  pointers: the arena is a vector of nodes, a raw pointer is an index into it, \<open>null\<close> is
  \<open>None\<close>, and following an invalid pointer or indexing out of an array is \<open>None\<close> of the
  execution monad. Each pointer loop of the source is a \<open>partial_function (option)\<close>, so a loop
  that does not end is \<open>None\<close> too. Correctness is in \<open>SkipListInv\<close>.
\<close>

abbreviation MAX_LEVEL :: nat where
  "MAX_LEVEL \<equiv> 12"

record SkipListNode =
  sn_price_ticks :: PriceTicks
  sn_total_quantity_lots :: QuantityLots
  sn_orders :: PooledList
  sn_level :: nat
  sn_forward :: "nat option list"

definition SkipListNode_new :: "PriceTicks \<Rightarrow> nat \<Rightarrow> SkipListNode" where
  "SkipListNode_new price level =
     \<lparr>sn_price_ticks = price, sn_total_quantity_lots = 0, sn_orders = PooledList_new,
      sn_level = level, sn_forward = replicate MAX_LEVEL None\<rparr>"

datatype SortOrder = Ascending | Descending

record SkipList =
  sl_head :: nat
  sl_level :: nat
  sl_count :: nat
  sl_order :: SortOrder
  sl_list_pool :: ListNodePool
  sl_arena :: "SkipListNode list"
  sl_free_nodes :: "nat list"
  sl_rng_state :: "64 word"
  sl_best_price :: "PriceTicks option"

text \<open>The errors of the book operations; the source returns them as message strings.\<close>

datatype BookError = LevelExists | LevelNotFound | OrderNotAtLevel | ListPoolExhausted

definition new_with_pool :: "SortOrder \<Rightarrow> nat \<Rightarrow> SkipList" where
  "new_with_pool order pool_capacity =
     (let head_price = (if order = Ascending then i64_min else i64_max)
      in \<lparr>sl_head = 0, sl_level = 0, sl_count = 0, sl_order = order,
          sl_list_pool = ListNodePool_new pool_capacity,
          sl_arena = [SkipListNode_new head_price 0], sl_free_nodes = [],
          sl_rng_state = 0x9E3779B97F4A7C15, sl_best_price = None\<rparr>)"

subsection \<open>The deterministic level draw\<close>

definition xorshift64 :: "64 word \<Rightarrow> 64 word" where
  "xorshift64 x =
     (let x = x XOR drop_bit 12 x; x = x XOR push_bit 25 x; x = x XOR drop_bit 27 x in x)"

function level_draw :: "nat \<Rightarrow> 64 word \<Rightarrow> nat" where
  "level_draw lv bits =
     (if lv < MAX_LEVEL - 1 \<and> bits AND 0b11 = 0 then level_draw (lv + 1) (drop_bit 2 bits) else lv)"
  by pat_completeness auto
termination
  by (relation "measure (\<lambda>(lv, bits). MAX_LEVEL - lv)") auto

definition random_level :: "SkipList \<Rightarrow> nat \<times> SkipList" where
  "random_level s =
     (let x = xorshift64 (sl_rng_state s); bits = x * 0x2545F4914F6CDD1D
      in (level_draw 0 bits, s\<lparr>sl_rng_state := x\<rparr>))"

subsection \<open>Pointer access\<close>

definition node_at :: "SkipList \<Rightarrow> nat \<Rightarrow> SkipListNode exec" where
  "node_at s a = vec_get (sl_arena s) a"

definition fwd_at :: "SkipList \<Rightarrow> nat \<Rightarrow> nat \<Rightarrow> nat option exec" where
  "fwd_at s a i = do { n \<leftarrow> node_at s a; vec_get (sn_forward n) i }"

definition node_modify :: "SkipList \<Rightarrow> nat \<Rightarrow> (SkipListNode \<Rightarrow> SkipListNode) \<Rightarrow> SkipList exec" where
  "node_modify s a f = do {
     n \<leftarrow> node_at s a;
     Some (s\<lparr>sl_arena := (sl_arena s)[a := f n]\<rparr>)
   }"

definition set_fwd :: "SkipList \<Rightarrow> nat \<Rightarrow> nat \<Rightarrow> nat option \<Rightarrow> SkipList exec" where
  "set_fwd s a i q = do {
     n \<leftarrow> node_at s a;
     fw \<leftarrow> vec_set (sn_forward n) i q;
     Some (s\<lparr>sl_arena := (sl_arena s)[a := n\<lparr>sn_forward := fw\<rparr>]\<rparr>)
   }"

definition before :: "SortOrder \<Rightarrow> PriceTicks \<Rightarrow> PriceTicks \<Rightarrow> bool" where
  "before order p q = (case order of Ascending \<Rightarrow> p < q | Descending \<Rightarrow> p > q)"

definition should_insert :: "SkipList \<Rightarrow> PriceTicks \<Rightarrow> PriceTicks \<Rightarrow> bool" where
  "should_insert s new_price existing_price = before (sl_order s) new_price existing_price"

subsection \<open>Searching\<close>

text \<open>The inner loop of \<open>find_update\<close> and of the three order operations, at level \<open>i\<close>.\<close>

partial_function (option) walk_level :: "SkipList \<Rightarrow> PriceTicks \<Rightarrow> nat \<Rightarrow> nat \<Rightarrow> nat exec" where
  "walk_level s price i current = do {
     fwd \<leftarrow> fwd_at s current i;
     (case fwd of
        None \<Rightarrow> Some current
      | Some f \<Rightarrow> do {
          n \<leftarrow> node_at s f;
          if sn_price_ticks n = price then Some current
          else if should_insert s price (sn_price_ticks n) then Some current
          else walk_level s price i f
        })
   }"

text \<open>The inner loop of \<open>get_node_at_price\<close>: \<open>Inr\<close> is the early return with the node.\<close>

partial_function (option) seek_level :: "SkipList \<Rightarrow> PriceTicks \<Rightarrow> nat \<Rightarrow> nat \<Rightarrow> (nat + nat) exec" where
  "seek_level s price i current = do {
     fwd \<leftarrow> fwd_at s current i;
     (case fwd of
        None \<Rightarrow> Some (Inl current)
      | Some f \<Rightarrow> do {
          n \<leftarrow> node_at s f;
          if sn_price_ticks n = price then Some (Inr f)
          else if should_insert s price (sn_price_ticks n) then Some (Inl current)
          else seek_level s price i f
        })
   }"

fun seek_levels :: "SkipList \<Rightarrow> PriceTicks \<Rightarrow> nat list \<Rightarrow> nat \<Rightarrow> nat option exec" where
  "seek_levels s price [] current = Some None"
| "seek_levels s price (i # is) current = do {
     r \<leftarrow> seek_level s price i current;
     (case r of Inr f \<Rightarrow> Some (Some f) | Inl c \<Rightarrow> seek_levels s price is c)
   }"

definition get_node_at_price :: "SkipList \<Rightarrow> PriceTicks \<Rightarrow> nat option exec" where
  "get_node_at_price s price = seek_levels s price (rev [0..<Suc (sl_level s)]) (sl_head s)"

definition get_node_mut :: "SkipList \<Rightarrow> PriceTicks \<Rightarrow> nat option exec" where
  "get_node_mut s price = seek_levels s price (rev [0..<Suc (sl_level s)]) (sl_head s)"

fun find_update_loop ::
  "SkipList \<Rightarrow> PriceTicks \<Rightarrow> nat list \<Rightarrow> nat \<Rightarrow> nat option list \<Rightarrow> (nat option list \<times> nat) exec" where
  "find_update_loop s price [] current upd = Some (upd, current)"
| "find_update_loop s price (i # is) current upd = do {
     c \<leftarrow> walk_level s price i current;
     upd \<leftarrow> vec_set upd i (Some c);
     find_update_loop s price is c upd
   }"

fun fill_head :: "nat option list \<Rightarrow> nat \<Rightarrow> nat list \<Rightarrow> nat option list exec" where
  "fill_head upd h [] = Some upd"
| "fill_head upd h (i # is) = do { upd \<leftarrow> vec_set upd i (Some h); fill_head upd h is }"

definition find_update :: "SkipList \<Rightarrow> PriceTicks \<Rightarrow> (nat option list \<times> nat) exec" where
  "find_update s price = do {
     (upd, current) \<leftarrow> find_update_loop s price (rev [0..<Suc (sl_level s)]) (sl_head s)
                          (replicate MAX_LEVEL None);
     upd \<leftarrow> fill_head upd (sl_head s) [Suc (sl_level s)..<MAX_LEVEL];
     Some (upd, current)
   }"

fun descend :: "SkipList \<Rightarrow> PriceTicks \<Rightarrow> nat list \<Rightarrow> nat \<Rightarrow> nat exec" where
  "descend s price [] current = Some current"
| "descend s price (i # is) current = do {
     c \<leftarrow> walk_level s price i current;
     descend s price is c
   }"

text \<open>The search that \<open>add_order_at_level\<close>, \<open>remove_order_at_level\<close> and
  \<open>reduce_order_quantity_at_level\<close> repeat: descend, then test the level-0 successor.\<close>

definition locate :: "SkipList \<Rightarrow> PriceTicks \<Rightarrow> nat option exec" where
  "locate s price = do {
     current \<leftarrow> descend s price (rev [0..<Suc (sl_level s)]) (sl_head s);
     next \<leftarrow> fwd_at s current 0;
     (case next of
        None \<Rightarrow> Some None
      | Some a \<Rightarrow> do { n \<leftarrow> node_at s a; Some (if sn_price_ticks n = price then Some a else None) })
   }"

subsection \<open>Inserting and removing price levels\<close>

fun link_levels :: "SkipList \<Rightarrow> nat option list \<Rightarrow> nat \<Rightarrow> nat list \<Rightarrow> SkipList exec" where
  "link_levels s upd new_ptr [] = Some s"
| "link_levels s upd new_ptr (i # is) = do {
     u \<leftarrow> vec_get upd i;
     a \<leftarrow> u;
     q \<leftarrow> fwd_at s a i;
     s \<leftarrow> set_fwd s new_ptr i q;
     s \<leftarrow> set_fwd s a i (Some new_ptr);
     link_levels s upd new_ptr is
   }"

definition alloc_node :: "SkipList \<Rightarrow> PriceTicks \<Rightarrow> nat \<Rightarrow> (nat \<times> SkipList) exec" where
  "alloc_node s price new_level =
     (case vec_pop (sl_free_nodes s) of
        Some (ptr, rest) \<Rightarrow> do {
          s \<leftarrow> node_modify s ptr (\<lambda>_. SkipListNode_new price new_level);
          Some (ptr, s\<lparr>sl_free_nodes := rest\<rparr>)
        }
      | None \<Rightarrow>
          Some (length (sl_arena s),
                s\<lparr>sl_arena := sl_arena s @ [SkipListNode_new price new_level]\<rparr>))"

definition insert_level :: "SkipList \<Rightarrow> PriceTicks \<Rightarrow> ((BookError + unit) \<times> SkipList) exec" where
  "insert_level s price = do {
     found \<leftarrow> get_node_at_price s price;
     if found \<noteq> None then Some (Inl LevelExists, s)
     else do {
       let (new_level, s) = random_level s;
       (upd, _) \<leftarrow> find_update s price;
       (new_ptr, s) \<leftarrow> alloc_node s price new_level;
       let s = (if new_level > sl_level s then s\<lparr>sl_level := new_level\<rparr> else s);
       s \<leftarrow> link_levels s upd new_ptr [0..<Suc new_level];
       Some (Inr (), s\<lparr>sl_count := as_u64 (sl_count s + 1)\<rparr>)
     }
   }"

fun unlink_levels :: "SkipList \<Rightarrow> nat option list \<Rightarrow> nat \<Rightarrow> nat list \<Rightarrow> SkipList exec" where
  "unlink_levels s upd target [] = Some s"
| "unlink_levels s upd target (i # is) = do {
     u \<leftarrow> vec_get upd i;
     a \<leftarrow> u;
     q \<leftarrow> fwd_at s a i;
     s \<leftarrow> (if q = Some target then do { q' \<leftarrow> fwd_at s target i; set_fwd s a i q' } else Some s);
     unlink_levels s upd target is
   }"

fun shrink_level :: "SkipList \<Rightarrow> nat \<Rightarrow> nat exec" where
  "shrink_level s 0 = Some 0"
| "shrink_level s (Suc l) = do {
     q \<leftarrow> fwd_at s (sl_head s) (Suc l);
     if q = None then shrink_level s l else Some (Suc l)
   }"

definition remove_level :: "SkipList \<Rightarrow> PriceTicks \<Rightarrow> ((BookError + unit) \<times> SkipList) exec" where
  "remove_level s price = do {
     (upd, _) \<leftarrow> find_update s price;
     u \<leftarrow> vec_get upd 0;
     a \<leftarrow> u;
     q \<leftarrow> fwd_at s a 0;
     (case q of
        None \<Rightarrow> Some (Inl LevelNotFound, s)
      | Some target \<Rightarrow> do {
          n \<leftarrow> node_at s target;
          if sn_price_ticks n \<noteq> price then Some (Inl LevelNotFound, s)
          else do {
            s \<leftarrow> unlink_levels s upd target [0..<Suc (sn_level n)];
            lev \<leftarrow> shrink_level s (sl_level s);
            let s = s\<lparr>sl_level := lev, sl_count := u64_pred (sl_count s)\<rparr>;
            s \<leftarrow> node_modify s target
                   (\<lambda>n. n\<lparr>sn_orders := pl_clear (sn_orders n), sn_total_quantity_lots := 0,
                          sn_forward := replicate MAX_LEVEL None\<rparr>);
            Some (Inr (), s\<lparr>sl_free_nodes := sl_free_nodes s @ [target]\<rparr>)
          }
        })
   }"

definition sl_clear :: "SkipList \<Rightarrow> SkipList exec" where
  "sl_clear s = do {
     s \<leftarrow> node_modify s (sl_head s) (\<lambda>n. n\<lparr>sn_forward := replicate MAX_LEVEL None\<rparr>);
     Some (s\<lparr>sl_arena := take 1 (sl_arena s), sl_free_nodes := [], sl_level := 0, sl_count := 0,
             sl_best_price := None\<rparr>)
   }"

subsection \<open>Observers\<close>

definition find_node :: "SkipList \<Rightarrow> PriceTicks \<Rightarrow> (BookError + unit) exec" where
  "find_node s price = do {
     found \<leftarrow> get_node_at_price s price;
     Some (if found \<noteq> None then Inr () else Inl LevelNotFound)
   }"

definition best :: "SkipList \<Rightarrow> nat option exec" where
  "best s = fwd_at s (sl_head s) 0"

partial_function (option) best_with_orders_loop :: "SkipList \<Rightarrow> nat \<Rightarrow> nat option exec" where
  "best_with_orders_loop s current = do {
     next \<leftarrow> fwd_at s current 0;
     (case next of
        None \<Rightarrow> Some None
      | Some a \<Rightarrow> do {
          n \<leftarrow> node_at s a;
          if \<not> pl_is_empty (sn_orders n) then Some (Some a) else best_with_orders_loop s a
        })
   }"

definition best_with_orders :: "SkipList \<Rightarrow> nat option exec" where
  "best_with_orders s = best_with_orders_loop s (sl_head s)"

fun top_levels_loop :: "SkipList \<Rightarrow> nat \<Rightarrow> nat \<Rightarrow> (PriceTicks \<times> QuantityLots) list exec" where
  "top_levels_loop s 0 current = Some []"
| "top_levels_loop s (Suc limit) current = do {
     next \<leftarrow> fwd_at s current 0;
     (case next of
        None \<Rightarrow> Some []
      | Some a \<Rightarrow> do {
          n \<leftarrow> node_at s a;
          rest \<leftarrow> top_levels_loop s limit a;
          Some ((sn_price_ticks n, sn_total_quantity_lots n) # rest)
        })
   }"

definition get_top_levels :: "SkipList \<Rightarrow> nat \<Rightarrow> (PriceTicks \<times> QuantityLots) list exec" where
  "get_top_levels s limit = top_levels_loop s limit (sl_head s)"

text \<open>\<open>fill_top_levels\<close> overwrites a prefix of the caller's buffer and returns its length.\<close>

definition fill_top_levels ::
  "SkipList \<Rightarrow> (PriceTicks \<times> QuantityLots) list \<Rightarrow> (nat \<times> (PriceTicks \<times> QuantityLots) list) exec" where
  "fill_top_levels s out = do {
     ls \<leftarrow> top_levels_loop s (length out) (sl_head s);
     Some (length ls, ls @ drop (length ls) out)
   }"

text \<open>A market taker accepts every price, a limit taker those on its side of the limit.\<close>

definition acceptable :: "bool \<Rightarrow> bool \<Rightarrow> PriceTicks \<Rightarrow> PriceTicks \<Rightarrow> bool" where
  "acceptable is_market buy_taker limit price \<longleftrightarrow> is_market \<or> (if buy_taker then limit \<ge> price else limit \<le> price)"

partial_function (option) has_cumulative_loop ::
  "SkipList \<Rightarrow> QuantityLots \<Rightarrow> PriceTicks \<Rightarrow> bool \<Rightarrow> bool \<Rightarrow> nat \<Rightarrow> QuantityLots \<Rightarrow> bool exec" where
  "has_cumulative_loop s target_qty limit_price is_market buy_taker current available = do {
     next \<leftarrow> fwd_at s current 0;
     (case next of
        None \<Rightarrow> Some False
      | Some a \<Rightarrow> do {
          n \<leftarrow> node_at s a;
          let price = sn_price_ticks n;
          if \<not> acceptable is_market buy_taker limit_price price then Some False
          else do {
            let available = as_i64 (available + sn_total_quantity_lots n);
            if available \<ge> target_qty then Some True
            else has_cumulative_loop s target_qty limit_price is_market buy_taker a available
          }
        })
   }"

definition has_cumulative_quantity_until ::
  "SkipList \<Rightarrow> QuantityLots \<Rightarrow> PriceTicks \<Rightarrow> bool \<Rightarrow> bool \<Rightarrow> bool exec" where
  "has_cumulative_quantity_until s target_qty limit_price is_market buy_taker =
     has_cumulative_loop s target_qty limit_price is_market buy_taker (sl_head s) 0"

subsection \<open>Orders at a price level\<close>

definition add_order_at_level ::
  "SkipList \<Rightarrow> PriceTicks \<Rightarrow> nat \<Rightarrow> QuantityLots \<Rightarrow> ((BookError + unit) \<times> SkipList) exec" where
  "add_order_at_level s price order_id quantity = do {
     (slot, pool) \<leftarrow> lp_acquire (sl_list_pool s) order_id quantity;
     let s = s\<lparr>sl_list_pool := pool\<rparr>;
     (case slot of
        None \<Rightarrow> Some (Inl ListPoolExhausted, s)
      | Some node_idx \<Rightarrow> do {
          found \<leftarrow> locate s price;
          (case found of
             Some a \<Rightarrow> do {
               n \<leftarrow> node_at s a;
               (l, pool) \<leftarrow> pl_push_back (sn_orders n) node_idx (sl_list_pool s);
               let s = s\<lparr>sl_list_pool := pool\<rparr>;
               s \<leftarrow> node_modify s a (\<lambda>n. n\<lparr>sn_orders := l,
                      sn_total_quantity_lots := as_i64 (sn_total_quantity_lots n + quantity)\<rparr>);
               Some (Inr (), s)
             }
           | None \<Rightarrow>
               Some (Inl LevelNotFound, s\<lparr>sl_list_pool := lp_release (sl_list_pool s) node_idx\<rparr>))
        })
   }"

text \<open>The \<open>while let\<close> scan of a queue for an order id: an index outside the pool ends the scan,
  as the \<open>break\<close> of the source does.\<close>

partial_function (option) scan_queue :: "ListNodePool \<Rightarrow> nat \<Rightarrow> nat option \<Rightarrow> nat option exec" where
  "scan_queue pool order_id node_idx_opt =
     (case node_idx_opt of
        None \<Rightarrow> Some None
      | Some node_idx \<Rightarrow>
          (case lp_get pool node_idx of
             None \<Rightarrow> Some None
           | Some list_node \<Rightarrow>
               if ln_order_id list_node = order_id then Some (Some node_idx)
               else scan_queue pool order_id (ln_next list_node)))"

definition remove_order_at_level ::
  "SkipList \<Rightarrow> PriceTicks \<Rightarrow> nat \<Rightarrow> ((BookError + unit) \<times> SkipList) exec" where
  "remove_order_at_level s price order_id = do {
     found \<leftarrow> locate s price;
     (case found of
        None \<Rightarrow> Some (Inl LevelNotFound, s)
      | Some a \<Rightarrow> do {
          n \<leftarrow> node_at s a;
          hit \<leftarrow> scan_queue (sl_list_pool s) order_id (pl_front (sn_orders n));
          (case hit of
             None \<Rightarrow> Some (Inl OrderNotAtLevel, s)
           | Some node_idx \<Rightarrow> do {
               list_node \<leftarrow> lp_get (sl_list_pool s) node_idx;
               let quantity = ln_quantity_lots list_node;
               (l, pool) \<leftarrow> pl_remove (sn_orders n) node_idx (sl_list_pool s);
               let s = s\<lparr>sl_list_pool := lp_release pool node_idx\<rparr>;
               s \<leftarrow> node_modify s a (\<lambda>n. n\<lparr>sn_orders := l,
                      sn_total_quantity_lots := as_i64 (sn_total_quantity_lots n - quantity)\<rparr>);
               Some (Inr (), s)
             })
        })
   }"

definition reduce_order_quantity_at_level ::
  "SkipList \<Rightarrow> PriceTicks \<Rightarrow> nat \<Rightarrow> QuantityLots \<Rightarrow> ((BookError + unit) \<times> SkipList) exec" where
  "reduce_order_quantity_at_level s price order_id quantity = do {
     found \<leftarrow> locate s price;
     (case found of
        None \<Rightarrow> Some (Inl LevelNotFound, s)
      | Some a \<Rightarrow> do {
          n \<leftarrow> node_at s a;
          hit \<leftarrow> scan_queue (sl_list_pool s) order_id (pl_front (sn_orders n));
          (case hit of
             None \<Rightarrow> Some (Inl OrderNotAtLevel, s)
           | Some node_idx \<Rightarrow> do {
               pool \<leftarrow> lp_modify (sl_list_pool s) node_idx
                 (\<lambda>m. m\<lparr>ln_quantity_lots := max (as_i64 (ln_quantity_lots m - quantity)) 0\<rparr>);
               let s = s\<lparr>sl_list_pool := pool\<rparr>;
               s \<leftarrow> node_modify s a (\<lambda>n. n\<lparr>sn_total_quantity_lots :=
                      max (as_i64 (sn_total_quantity_lots n - quantity)) 0\<rparr>);
               Some (Inr (), s)
             })
        })
   }"

subsection \<open>The cached best price\<close>

definition get_best_price_cached :: "SkipList \<Rightarrow> (PriceTicks option \<times> SkipList) exec" where
  "get_best_price_cached s = do {
     hit \<leftarrow>
       (case sl_best_price s of
          None \<Rightarrow> Some None
        | Some price \<Rightarrow> do {
            found \<leftarrow> get_node_at_price s price;
            (case found of
               None \<Rightarrow> Some None
             | Some a \<Rightarrow> do {
                 n \<leftarrow> node_at s a;
                 Some (if \<not> pl_is_empty (sn_orders n) then Some price else None)
               })
          });
     (case hit of
        Some price \<Rightarrow> Some (Some price, s)
      | None \<Rightarrow> do {
          b \<leftarrow> best_with_orders s;
          p \<leftarrow> (case b of
                 None \<Rightarrow> Some None
               | Some a \<Rightarrow> do { n \<leftarrow> node_at s a; Some (Some (sn_price_ticks n)) });
          Some (p, s\<lparr>sl_best_price := p\<rparr>)
        })
   }"

definition invalidate_best_price_cache :: "SkipList \<Rightarrow> SkipList" where
  "invalidate_best_price_cache s = s\<lparr>sl_best_price := None\<rparr>"

declare level_draw.simps [simp del]
declare walk_level.simps [code] seek_level.simps [code] best_with_orders_loop.simps [code]
  has_cumulative_loop.simps [code] scan_queue.simps [code]

end
