(* ===== verification/SkipListInv.thy ===== *)
theory SkipListInv
  imports SkipList
begin

text \<open>
  Correctness of the pointer-level skip list. \<open>sl_shape s ns\<close> says that the nodes \<open>ns\<close> are the
  price levels in book order: at every height \<open>i\<close> the forward pointers from the head thread
  exactly the nodes of height at least \<open>i\<close>, prices are strictly sorted, and the nodes in use and
  the recycled ones partition the arena. Under it every search ends at the right node, inserting
  and removing a level keep the shape, and no pointer access can fail.
\<close>

subsection \<open>Chains of forward pointers and the shape of the list\<close>

definition fwd :: "SkipListNode list \<Rightarrow> nat \<Rightarrow> nat \<Rightarrow> nat option" where
  "fwd ar a i = sn_forward (ar ! a) ! i"

fun chain :: "SkipListNode list \<Rightarrow> nat \<Rightarrow> nat \<Rightarrow> nat list \<Rightarrow> bool" where
  "chain ar i a [] \<longleftrightarrow> fwd ar a i = None"
| "chain ar i a (b # bs) \<longleftrightarrow> fwd ar a i = Some b \<and> chain ar i b bs"

definition price_of :: "SkipListNode list \<Rightarrow> nat \<Rightarrow> PriceTicks" where
  "price_of ar a = sn_price_ticks (ar ! a)"

definition tower :: "SkipListNode list \<Rightarrow> nat \<Rightarrow> nat list \<Rightarrow> nat list" where
  "tower ar i ns = filter (\<lambda>a. i \<le> sn_level (ar ! a)) ns"

definition sl_shape :: "SkipList \<Rightarrow> nat list \<Rightarrow> bool" where
  "sl_shape s ns \<longleftrightarrow>
     sl_head s = 0 \<and> distinct (0 # ns @ sl_free_nodes s) \<and>
     set (0 # ns @ sl_free_nodes s) = {..<length (sl_arena s)} \<and>
     (\<forall>n \<in> set (sl_arena s). length (sn_forward n) = MAX_LEVEL) \<and>
     sorted_wrt (before (sl_order s)) (map (price_of (sl_arena s)) ns) \<and>
     sl_level s < MAX_LEVEL \<and> (\<forall>a \<in> set ns. sn_level (sl_arena s ! a) \<le> sl_level s) \<and>
     (\<forall>i < MAX_LEVEL. chain (sl_arena s) i 0 (tower (sl_arena s) i ns)) \<and>
     sl_count s = as_u64 (length ns)"

fun stop_result :: "SkipList \<Rightarrow> PriceTicks \<Rightarrow> nat \<Rightarrow> nat list \<Rightarrow> nat + nat" where
  "stop_result s price a [] = Inl a"
| "stop_result s price a (b # bs) =
     (if before (sl_order s) (price_of (sl_arena s) b) price then stop_result s price b bs
      else if price_of (sl_arena s) b = price then Inr b else Inl a)"

text \<open>\<open>cut s price us vs\<close>: the levels \<open>us\<close> come before the price and \<open>vs\<close> do not.\<close>

definition cut :: "SkipList \<Rightarrow> PriceTicks \<Rightarrow> nat list \<Rightarrow> nat list \<Rightarrow> bool" where
  "cut s price us vs \<longleftrightarrow>
     (\<forall>u \<in> set us. before (sl_order s) (price_of (sl_arena s) u) price) \<and>
     (\<forall>v \<in> set vs. \<not> before (sl_order s) (price_of (sl_arena s) v) price)"

definition pred :: "SkipListNode list \<Rightarrow> nat list \<Rightarrow> nat \<Rightarrow> nat" where
  "pred ar us i = last (0 # tower ar i us)"

definition target :: "SkipList \<Rightarrow> PriceTicks \<Rightarrow> nat list \<Rightarrow> nat option" where
  "target s price vs =
     (case vs of [] \<Rightarrow> None | a # _ \<Rightarrow> if price_of (sl_arena s) a = price then Some a else None)"

definition fwd_wf :: "SkipListNode list \<Rightarrow> bool" where
  "fwd_wf ar \<longleftrightarrow> (\<forall>a < length ar. length (sn_forward (ar ! a)) = MAX_LEVEL)"

text \<open>Only forward pointers differ between the two arenas.\<close>

definition fwd_only :: "SkipListNode list \<Rightarrow> SkipListNode list \<Rightarrow> bool" where
  "fwd_only ar ar' \<longleftrightarrow> length ar' = length ar \<and> fwd_wf ar' \<and>
     (\<forall>a. \<exists>f. ar' ! a = (ar ! a)\<lparr>sn_forward := f\<rparr>)"

definition upd_fwd :: "SkipListNode list \<Rightarrow> nat \<Rightarrow> nat \<Rightarrow> nat option \<Rightarrow> SkipListNode list" where
  "upd_fwd ar a i q = ar[a := (ar ! a)\<lparr>sn_forward := (sn_forward (ar ! a))[i := q]\<rparr>]"

subsection \<open>Prices in book order\<close>

lemma before_trans: "before d p q \<Longrightarrow> before d q r \<Longrightarrow> before d p r"
  by (auto simp: before_def split: SortOrder.splits)

lemma before_irrefl [simp]: "\<not> before d p p"
  by (auto simp: before_def split: SortOrder.splits)

lemma before_asym: "before d p q \<Longrightarrow> \<not> before d q p"
  by (auto simp: before_def split: SortOrder.splits)

lemma not_before: "\<not> before d p q \<longleftrightarrow> p = q \<or> before d q p"
  by (auto simp: before_def split: SortOrder.splits)

lemma sorted_before_distinct: "sorted_wrt (before d) ps \<Longrightarrow> distinct ps"
  by (induction ps) auto

lemma price_cases:
  obtains (lt) "before d p q" "p \<noteq> q" "\<not> before d q p" | (eq) "p = q" | (gt) "before d q p" "p \<noteq> q" "\<not> before d p q"
  using not_before [of d p q] before_asym [of d] by (metis before_irrefl)

lemma node_at_in [simp]: "a < length (sl_arena s) \<Longrightarrow> node_at s a = Some (sl_arena s ! a)"
  by (simp add: node_at_def)

lemma sl_shape_forward: "sl_shape s ns \<Longrightarrow> a < length (sl_arena s) \<Longrightarrow> length (sn_forward (sl_arena s ! a)) = MAX_LEVEL"
  by (auto simp: sl_shape_def)

lemma fwd_at_in:
  "sl_shape s ns \<Longrightarrow> a < length (sl_arena s) \<Longrightarrow> i < MAX_LEVEL \<Longrightarrow> fwd_at s a i = Some (fwd (sl_arena s) a i)"
  using sl_shape_forward [of s ns a] by (simp add: fwd_at_def fwd_def)

lemma sl_shape_in: "sl_shape s ns \<Longrightarrow> a \<in> set (0 # ns) \<Longrightarrow> a < length (sl_arena s)"
proof -
  assume "sl_shape s ns" "a \<in> set (0 # ns)"
  then have "a \<in> {..<length (sl_arena s)}" unfolding sl_shape_def by auto
  then show ?thesis by simp
qed

lemma chain_tail: "chain ar i a (xs @ c # ys) \<Longrightarrow> chain ar i c ys"
  by (induction xs arbitrary: a) auto

lemma chain_cong: "(\<And>b. b \<in> set (a # as) \<Longrightarrow> fwd ar' b i = fwd ar b i) \<Longrightarrow> chain ar' i a as = chain ar i a as"
  by (induction as arbitrary: a) auto

subsection \<open>Walking a chain\<close>

lemma walk_level_chain:
  assumes "sl_shape s ns" and "i < MAX_LEVEL"
  shows "chain (sl_arena s) i a as \<Longrightarrow> set (a # as) \<subseteq> set (0 # ns) \<Longrightarrow>
    walk_level s price i a =
      Some (last (a # takeWhile (\<lambda>b. before (sl_order s) (price_of (sl_arena s) b) price) as))"
proof (induction as arbitrary: a)
  case Nil
  then have "a < length (sl_arena s)" using sl_shape_in [OF assms(1)] by simp
  then show ?case using Nil assms by (simp add: walk_level.simps [of s price i a] fwd_at_in)
next
  case (Cons b bs)
  then have "a < length (sl_arena s)" "b < length (sl_arena s)" using sl_shape_in [OF assms(1)] by auto
  moreover have "fwd (sl_arena s) a i = Some b" using Cons.prems by simp
  moreover have "walk_level s price i b =
      Some (last (b # takeWhile (\<lambda>b. before (sl_order s) (price_of (sl_arena s) b) price) bs))"
    using Cons by auto
  ultimately show ?case using assms
    by (cases rule: price_cases [of "sl_order s" "price_of (sl_arena s) b" price])
       (simp_all add: walk_level.simps [of s price i a] fwd_at_in should_insert_def price_of_def)
qed

lemma seek_level_chain:
  assumes "sl_shape s ns" and "i < MAX_LEVEL"
  shows "chain (sl_arena s) i a as \<Longrightarrow> set (a # as) \<subseteq> set (0 # ns) \<Longrightarrow>
    seek_level s price i a = Some (stop_result s price a as)"
proof (induction as arbitrary: a)
  case Nil
  then have "a < length (sl_arena s)" using sl_shape_in [OF assms(1)] by simp
  then show ?case using Nil assms
    by (simp add: seek_level.simps [of s price i a] fwd_at_in)
next
  case (Cons b bs)
  then have "a < length (sl_arena s)" "b < length (sl_arena s)"
    using sl_shape_in [OF assms(1)] by auto
  moreover have "fwd (sl_arena s) a i = Some b" using Cons.prems by simp
  moreover have "seek_level s price i b = Some (stop_result s price b bs)" using Cons by simp
  ultimately show ?case using assms
    by (cases rule: price_cases [of "sl_order s" "price_of (sl_arena s) b" price])
       (simp_all add: seek_level.simps [of s price i a] fwd_at_in should_insert_def price_of_def)
qed

lemma sorted_dropWhile_before:
  "sorted_wrt (before d) (map f ns) \<Longrightarrow> v \<in> set (dropWhile (\<lambda>a. before d (f a) p) ns) \<Longrightarrow>
     \<not> before d (f v) p"
proof (induction ns)
  case (Cons a ns)
  then show ?case
    using before_trans [of d "f a" "f v" p] by (auto split: if_splits)
qed simp

lemma cut_exists:
  assumes "sl_shape s ns"
  obtains us vs where "ns = us @ vs" "cut s price us vs"
proof -
  let ?P = "\<lambda>a. before (sl_order s) (price_of (sl_arena s) a) price"
  have "sorted_wrt (before (sl_order s)) (map (price_of (sl_arena s)) ns)"
    using assms by (simp add: sl_shape_def)
  then have "cut s price (takeWhile ?P ns) (dropWhile ?P ns)"
    by (auto simp: cut_def dest: set_takeWhileD sorted_dropWhile_before)
  then show thesis by (intro that [of "takeWhile ?P ns" "dropWhile ?P ns"]) simp
qed

lemma tower_append [simp]: "tower ar i (xs @ ys) = tower ar i xs @ tower ar i ys"
  by (simp add: tower_def)

lemma tower_Nil [simp]: "tower ar i [] = []"
  by (simp add: tower_def)

lemma tower_Cons: "tower ar i (x # xs) = (if i \<le> sn_level (ar ! x) then x # tower ar i xs else tower ar i xs)"
  by (simp add: tower_def)

lemma set_tower: "set (tower ar i ns) \<subseteq> set ns"
  by (auto simp: tower_def)

lemma pred_in: "pred ar us i \<in> set (0 # us)"
proof (cases "tower ar i us = []")
  case False
  from last_in_set [OF this] set_tower [of ar i us] have "last (tower ar i us) \<in> set us" by blast
  with False show ?thesis by (simp add: pred_def)
qed (simp add: pred_def)

lemma chain_from_pred:
  assumes "chain ar i 0 (tower ar i (us @ vs))" and "i \<le> j"
  obtains ys where "chain ar i (pred ar us j) (ys @ tower ar i vs)" "set ys \<subseteq> set us"
    "last (pred ar us j # ys) = pred ar us i"
proof (cases "tower ar j us = []")
  case True
  with assms show thesis by (intro that [of "tower ar i us"]) (auto simp: pred_def set_tower)
next
  case False
  then have "pred ar us j \<in> set (tower ar j us)" by (simp add: pred_def)
  then have c: "pred ar us j \<in> set us" "i \<le> sn_level (ar ! pred ar us j)"
    using assms(2) by (auto simp: tower_def)
  then obtain as bs where us: "us = as @ pred ar us j # bs" by (meson split_list)
  have tw: "tower ar i us = tower ar i as @ pred ar us j # tower ar i bs"
    using c(2) by (subst us) (simp add: tower_Cons)
  show thesis
  proof (rule that [of "tower ar i bs"])
    show "chain ar i (pred ar us j) (tower ar i bs @ tower ar i vs)"
      using assms(1) tw chain_tail [of ar i 0 "tower ar i as" "pred ar us j"] by simp
    show "set (tower ar i bs) \<subseteq> set us" using set_tower [of ar i bs] by (subst us) auto
    show "last (pred ar us j # tower ar i bs) = pred ar us i"
      by (simp add: pred_def [of ar us i] tw)
  qed
qed

lemma takeWhile_cut:
  assumes "cut s price us vs" and "set ys \<subseteq> set us" and "set zs \<subseteq> set vs"
  shows "takeWhile (\<lambda>b. before (sl_order s) (price_of (sl_arena s) b) price) (ys @ zs) = ys"
proof -
  have "takeWhile (\<lambda>b. before (sl_order s) (price_of (sl_arena s) b) price) zs = []"
    using assms(1,3) by (cases zs) (auto simp: cut_def)
  then show ?thesis using assms(1,2) by (subst takeWhile_append2) (auto simp: cut_def)
qed

lemma stop_result_cut:
  assumes "cut s price us vs" and "set ys \<subseteq> set us"
  shows "stop_result s price a (ys @ zs) = stop_result s price (last (a # ys)) zs"
  using assms(2) by (induction ys arbitrary: a) (use assms(1) in \<open>auto simp: cut_def\<close>)

lemma sl_shape_chain:
  "sl_shape s ns \<Longrightarrow> i < MAX_LEVEL \<Longrightarrow> chain (sl_arena s) i 0 (tower (sl_arena s) i ns)"
  by (simp add: sl_shape_def)

lemma walk_level_pred:
  assumes sh: "sl_shape s (us @ vs)" and cut: "cut s price us vs" and "i < MAX_LEVEL" "i \<le> j"
  shows "walk_level s price i (pred (sl_arena s) us j) = Some (pred (sl_arena s) us i)"
proof -
  obtain ys where ys: "chain (sl_arena s) i (pred (sl_arena s) us j) (ys @ tower (sl_arena s) i vs)"
    "set ys \<subseteq> set us" "last (pred (sl_arena s) us j # ys) = pred (sl_arena s) us i"
    using chain_from_pred [OF sl_shape_chain [OF sh assms(3)] assms(4)] by blast
  have "set (pred (sl_arena s) us j # ys @ tower (sl_arena s) i vs) \<subseteq> set (0 # us @ vs)"
    using ys(2) pred_in [of "sl_arena s" us j] set_tower [of "sl_arena s" i vs] by auto
  from walk_level_chain [OF sh assms(3) ys(1) this] show ?thesis
    by (simp only: takeWhile_cut [OF cut ys(2) set_tower] ys(3))
qed

lemma pred_top: "sl_shape s (us @ vs) \<Longrightarrow> sl_level s < i \<Longrightarrow> pred (sl_arena s) us i = 0"
proof -
  assume "sl_shape s (us @ vs)" and lt: "sl_level s < i"
  then have "\<forall>a \<in> set us. sn_level (sl_arena s ! a) \<le> sl_level s" by (simp add: sl_shape_def)
  with lt have "tower (sl_arena s) i us = []" by (force simp: tower_def filter_empty_conv)
  then show ?thesis by (simp add: pred_def)
qed

lemma descend_pred:
  assumes sh: "sl_shape s (us @ vs)" and cut: "cut s price us vs"
  shows "k \<le> MAX_LEVEL \<Longrightarrow>
    descend s price (rev [0..<k]) (pred (sl_arena s) us k) = Some (pred (sl_arena s) us 0)"
proof (induction k)
  case (Suc k)
  then show ?case using walk_level_pred [OF sh cut, of k "Suc k"] by simp
qed simp

lemma sl_shape_head: "sl_shape s ns \<Longrightarrow> sl_head s = 0"
  by (simp add: sl_shape_def)

lemma sl_shape_level: "sl_shape s ns \<Longrightarrow> sl_level s < MAX_LEVEL"
  by (simp add: sl_shape_def)

lemma chain_pred_next:
  assumes "chain ar i 0 (tower ar i (us @ vs))"
  shows "fwd ar (pred ar us i) i = hd_or None (tower ar i vs)"
proof -
  obtain ys where ys: "chain ar i (pred ar us i) (ys @ tower ar i vs)"
    "last (pred ar us i # ys) = pred ar us i"
    using chain_from_pred [OF assms order_refl] by blast
  have "chain ar i (last (pred ar us i # ys)) (tower ar i vs)"
    using ys(1) chain_tail [of ar i _ "butlast ys" "last ys"]
    by (cases "ys = []") (simp_all, metis append_butlast_last_id append.assoc append_Cons append_Nil)
  then show ?thesis using ys(2) by (cases "tower ar i vs") simp_all
qed

lemma tower_0 [simp]: "tower ar 0 ns = ns"
  by (simp add: tower_def)

lemma locate_eq:
  assumes sh: "sl_shape s (us @ vs)" and cut: "cut s price us vs"
  shows "locate s price = Some (target s price vs)"
proof -
  have "descend s price (rev [0..<Suc (sl_level s)]) (sl_head s) = Some (pred (sl_arena s) us 0)"
    using descend_pred [OF sh cut, of "Suc (sl_level s)"] sl_shape_head [OF sh] sl_shape_level [OF sh]
      pred_top [OF sh, of "Suc (sl_level s)"] by simp
  moreover have "pred (sl_arena s) us 0 < length (sl_arena s)"
    using sl_shape_in [OF sh] pred_in [of "sl_arena s" us 0] by auto
  moreover have "fwd (sl_arena s) (pred (sl_arena s) us 0) 0 = hd_or None vs"
    using chain_pred_next [OF sl_shape_chain [OF sh, of 0]] by simp
  moreover have "a < length (sl_arena s)" if "a \<in> set vs" for a
    using sl_shape_in [OF sh] that by auto
  ultimately show ?thesis using sh
    by (cases vs) (simp_all add: locate_def fwd_at_in price_of_def target_def)
qed

lemma sl_shape_sorted:
  "sl_shape s ns \<Longrightarrow> sorted_wrt (before (sl_order s)) (map (price_of (sl_arena s)) ns)"
  by (simp add: sl_shape_def)

lemma tail_price:
  assumes "sl_shape s (us @ a # vs)" and "cut s price us (a # vs)" and "b \<in> set vs"
  shows "price_of (sl_arena s) b \<noteq> price" and "before (sl_order s) price (price_of (sl_arena s) b)"
proof -
  have "before (sl_order s) (price_of (sl_arena s) a) (price_of (sl_arena s) b)"
    using sl_shape_sorted [OF assms(1)] assms(3) by (simp add: sorted_wrt_append)
  moreover have "\<not> before (sl_order s) (price_of (sl_arena s) a) price"
    using assms(2) by (simp add: cut_def)
  ultimately show "before (sl_order s) price (price_of (sl_arena s) b)"
    using not_before before_trans by metis
  then show "price_of (sl_arena s) b \<noteq> price" by auto
qed

lemma stop_result_tower:
  assumes "sl_shape s (us @ vs)" and "cut s price us vs"
  shows "stop_result s price c (tower (sl_arena s) i vs) =
    (case target s price vs of
       Some a \<Rightarrow> if i \<le> sn_level (sl_arena s ! a) then Inr a else Inl c
     | None \<Rightarrow> Inl c)"
proof (cases vs)
  case (Cons a vs')
  have nb: "\<not> before (sl_order s) (price_of (sl_arena s) b) price" if "b \<in> set vs" for b
    using assms(2) that by (simp add: cut_def)
  have other: "stop_result s price c bs = Inl c" if "set bs \<subseteq> set vs'" for bs
    using that nb tail_price [of s us a vs' price] assms Cons by (cases bs) auto
  show ?thesis
    using other [OF set_tower] nb [of a] Cons other [of "tower (sl_arena s) i vs'"]
    by (simp add: target_def tower_Cons set_tower)
qed (simp add: target_def)

lemma seek_level_pred:
  assumes sh: "sl_shape s (us @ vs)" and cut: "cut s price us vs" and "i < MAX_LEVEL" "i \<le> j"
  shows "seek_level s price i (pred (sl_arena s) us j) =
    Some (stop_result s price (pred (sl_arena s) us i) (tower (sl_arena s) i vs))"
proof -
  obtain ys where ys: "chain (sl_arena s) i (pred (sl_arena s) us j) (ys @ tower (sl_arena s) i vs)"
    "set ys \<subseteq> set us" "last (pred (sl_arena s) us j # ys) = pred (sl_arena s) us i"
    using chain_from_pred [OF sl_shape_chain [OF sh assms(3)] assms(4)] by blast
  have "set (pred (sl_arena s) us j # ys @ tower (sl_arena s) i vs) \<subseteq> set (0 # us @ vs)"
    using ys(2) pred_in [of "sl_arena s" us j] set_tower [of "sl_arena s" i vs] by auto
  from seek_level_chain [OF sh assms(3) ys(1) this] show ?thesis
    by (simp only: stop_result_cut [OF cut ys(2)] ys(3))
qed

lemma seek_levels_target:
  assumes sh: "sl_shape s (us @ vs)" and cut: "cut s price us vs"
  shows "k \<le> MAX_LEVEL \<Longrightarrow> (\<And>a. target s price vs = Some a \<Longrightarrow> sn_level (sl_arena s ! a) < k) \<Longrightarrow>
    seek_levels s price (rev [0..<k]) (pred (sl_arena s) us k) = Some (target s price vs)"
proof (induction k)
  case 0
  then show ?case by (cases "target s price vs") auto
next
  case (Suc k)
  have seek: "seek_level s price k (pred (sl_arena s) us (Suc k)) =
      Some (case target s price vs of
              Some a \<Rightarrow> if k \<le> sn_level (sl_arena s ! a) then Inr a else Inl (pred (sl_arena s) us k)
            | None \<Rightarrow> Inl (pred (sl_arena s) us k))"
    using seek_level_pred [OF sh cut, of k "Suc k"] Suc.prems(1)
    by (simp add: stop_result_tower [OF sh cut])
  show ?case
  proof (cases "target s price vs")
    case None
    then show ?thesis using seek Suc by simp
  next
    case (Some a)
    then show ?thesis using seek Suc by (cases "k \<le> sn_level (sl_arena s ! a)") auto
  qed
qed

lemma get_node_at_price_eq:
  assumes sh: "sl_shape s (us @ vs)" and cut: "cut s price us vs"
  shows "get_node_at_price s price = Some (target s price vs)"
proof -
  have "sn_level (sl_arena s ! a) < Suc (sl_level s)" if "target s price vs = Some a" for a
  proof -
    have "a \<in> set (us @ vs)"
      using that by (auto simp: target_def split: list.splits if_splits)
    then show ?thesis using sh by (simp add: sl_shape_def le_imp_less_Suc)
  qed
  then show ?thesis
    using seek_levels_target [OF sh cut, of "Suc (sl_level s)"] sl_shape_head [OF sh]
      sl_shape_level [OF sh] pred_top [OF sh, of "Suc (sl_level s)"]
    by (simp add: get_node_at_price_def)
qed

lemma fill_head_ok:
  "(\<forall>i \<in> set is. i < length upd) \<Longrightarrow>
     \<exists>u. fill_head upd h is = Some u \<and> length u = length upd \<and>
       (\<forall>j < length upd. u ! j = (if j \<in> set is then Some h else upd ! j))"
proof (induction "is" arbitrary: upd)
  case (Cons i "is")
  then obtain u where "fill_head (upd[i := Some h]) h is = Some u" "length u = length upd"
    "\<forall>j < length upd. u ! j = (if j \<in> set is then Some h else upd[i := Some h] ! j)"
    using Cons.IH [of "upd[i := Some h]"] by auto
  with Cons.prems show ?case by (auto simp: nth_list_update)
qed simp

lemma find_update_loop_ok:
  assumes sh: "sl_shape s (us @ vs)" and cut: "cut s price us vs"
  shows "k \<le> MAX_LEVEL \<Longrightarrow> length upd = MAX_LEVEL \<Longrightarrow>
    \<exists>u. find_update_loop s price (rev [0..<k]) (pred (sl_arena s) us k) upd =
          Some (u, pred (sl_arena s) us 0) \<and> length u = MAX_LEVEL \<and>
        (\<forall>j < MAX_LEVEL. u ! j = (if j < k then Some (pred (sl_arena s) us j) else upd ! j))"
proof (induction k arbitrary: upd)
  case (Suc k)
  let ?c = "pred (sl_arena s) us k"
  obtain u where "find_update_loop s price (rev [0..<k]) ?c (upd[k := Some ?c]) =
          Some (u, pred (sl_arena s) us 0)" "length u = MAX_LEVEL"
    "\<forall>j < MAX_LEVEL. u ! j = (if j < k then Some (pred (sl_arena s) us j) else upd[k := Some ?c] ! j)"
    using Suc.IH [of "upd[k := Some ?c]"] Suc.prems by auto
  with Suc.prems walk_level_pred [OF sh cut, of k "Suc k"] show ?case
    by (auto simp: nth_list_update less_Suc_eq)
qed simp

lemma find_update_eq:
  assumes sh: "sl_shape s (us @ vs)" and cut: "cut s price us vs"
  shows "find_update s price =
    Some (map (\<lambda>i. Some (pred (sl_arena s) us i)) [0..<MAX_LEVEL], pred (sl_arena s) us 0)"
proof -
  let ?k = "Suc (sl_level s)"
  have k: "?k \<le> MAX_LEVEL" "pred (sl_arena s) us ?k = 0" "sl_head s = 0"
    using sl_shape_level [OF sh] pred_top [OF sh] sl_shape_head [OF sh] by auto
  obtain u where u: "find_update_loop s price (rev [0..<?k]) 0 (replicate MAX_LEVEL None) =
          Some (u, pred (sl_arena s) us 0)" "length u = MAX_LEVEL"
    "\<forall>j < MAX_LEVEL. u ! j = (if j < ?k then Some (pred (sl_arena s) us j) else None)"
    using find_update_loop_ok [OF sh cut k(1), of "replicate MAX_LEVEL None"] k(2) by auto
  obtain w where w: "fill_head u 0 [?k..<MAX_LEVEL] = Some w" "length w = MAX_LEVEL"
    "\<forall>j < MAX_LEVEL. w ! j = (if j \<in> set [?k..<MAX_LEVEL] then Some 0 else u ! j)"
    using fill_head_ok [of "[?k..<MAX_LEVEL]" u 0] u(2) by auto
  have "w = map (\<lambda>i. Some (pred (sl_arena s) us i)) [0..<MAX_LEVEL]"
  proof (rule nth_equalityI)
    fix j assume "j < length w"
    then show "w ! j = map (\<lambda>i. Some (pred (sl_arena s) us i)) [0..<MAX_LEVEL] ! j"
      using w u(3) pred_top [OF sh, of j] by (cases "j < ?k") auto
  qed (simp add: w)
  with u w k show ?thesis by (simp add: find_update_def)
qed

subsection \<open>Linking and unlinking\<close>

lemma fwd_only_refl: "fwd_wf ar \<Longrightarrow> fwd_only ar ar"
  unfolding fwd_only_def by (metis SkipListNode.surjective SkipListNode.update_convs(5))

lemma fwd_only_trans: "fwd_only ar ar' \<Longrightarrow> fwd_only ar' ar'' \<Longrightarrow> fwd_only ar ar''"
  unfolding fwd_only_def by (metis SkipListNode.surjective SkipListNode.update_convs(5))

lemma fwd_only_fields:
  assumes "fwd_only ar ar'"
  shows "length ar' = length ar" "sn_price_ticks (ar' ! a) = sn_price_ticks (ar ! a)"
    "sn_total_quantity_lots (ar' ! a) = sn_total_quantity_lots (ar ! a)"
    "sn_orders (ar' ! a) = sn_orders (ar ! a)" "sn_level (ar' ! a) = sn_level (ar ! a)"
    "price_of ar' a = price_of ar a" "tower ar' i ns = tower ar i ns"
proof -
  show 1: "length ar' = length ar" using assms by (simp add: fwd_only_def)
  obtain f where "ar' ! a = (ar ! a)\<lparr>sn_forward := f\<rparr>" using assms unfolding fwd_only_def by blast
  then show "sn_price_ticks (ar' ! a) = sn_price_ticks (ar ! a)"
    "sn_total_quantity_lots (ar' ! a) = sn_total_quantity_lots (ar ! a)"
    "sn_orders (ar' ! a) = sn_orders (ar ! a)" "sn_level (ar' ! a) = sn_level (ar ! a)"
    "price_of ar' a = price_of ar a"
    by (simp_all add: price_of_def)
  have "sn_level (ar' ! b) = sn_level (ar ! b)" for b
  proof -
    obtain f where "ar' ! b = (ar ! b)\<lparr>sn_forward := f\<rparr>" using assms unfolding fwd_only_def by blast
    then show ?thesis by simp
  qed
  then show "tower ar' i ns = tower ar i ns" by (simp add: tower_def)
qed

lemma set_fwd_in:
  assumes "fwd_wf (sl_arena s)" and "a < length (sl_arena s)" and "i < MAX_LEVEL"
  shows "set_fwd s a i q = Some (s\<lparr>sl_arena := upd_fwd (sl_arena s) a i q\<rparr>)"
  using assms by (simp add: set_fwd_def upd_fwd_def fwd_wf_def)

lemma fwd_at_wf:
  assumes "fwd_wf (sl_arena s)" and "a < length (sl_arena s)" and "i < MAX_LEVEL"
  shows "fwd_at s a i = Some (fwd (sl_arena s) a i)"
  using assms by (simp add: fwd_at_def fwd_def fwd_wf_def)

lemma upd_fwd_only:
  assumes "fwd_wf ar"
  shows "fwd_only ar (upd_fwd ar a i q)"
proof (cases "a < length ar")
  case True
  have "\<exists>f. upd_fwd ar a i q ! b = (ar ! b)\<lparr>sn_forward := f\<rparr>" for b
  proof (cases "a = b")
    case False
    then have "upd_fwd ar a i q ! b = (ar ! b)\<lparr>sn_forward := sn_forward (ar ! b)\<rparr>"
      by (simp add: upd_fwd_def)
    then show ?thesis ..
  qed (use True in \<open>auto simp: upd_fwd_def\<close>)
  with assms True show ?thesis
    by (auto simp: fwd_only_def fwd_wf_def upd_fwd_def nth_list_update)
next
  case False
  with assms show ?thesis by (simp add: upd_fwd_def list_update_beyond fwd_only_refl)
qed

lemma fwd_upd_fwd:
  assumes "fwd_wf ar" and "a < length ar" and "i < MAX_LEVEL"
  shows "fwd (upd_fwd ar a i q) b j = (if a = b \<and> i = j then q else fwd ar b j)"
  using assms by (auto simp: upd_fwd_def fwd_def fwd_wf_def nth_list_update)

lemma link_levels_ok:
  assumes "fwd_wf (sl_arena s)" and "x < length (sl_arena s)" and "distinct is"
    and "\<And>i. i \<in> set is \<Longrightarrow> i < MAX_LEVEL \<and> vec_get upd i = Some (Some (p i)) \<and>
           p i < length (sl_arena s) \<and> p i \<noteq> x"
  shows "\<exists>ar'. link_levels s upd x is = Some (s\<lparr>sl_arena := ar'\<rparr>) \<and> fwd_only (sl_arena s) ar' \<and>
    (\<forall>a j. fwd ar' a j =
       (if j \<in> set is \<and> a = x then fwd (sl_arena s) (p j) j
        else if j \<in> set is \<and> a = p j then Some x else fwd (sl_arena s) a j))"
  using assms
proof (induction "is" arbitrary: s)
  case Nil
  have "link_levels s upd x [] = Some (s\<lparr>sl_arena := sl_arena s\<rparr>)" by simp
  with Nil show ?case using fwd_only_refl by (intro exI [of _ "sl_arena s"]) simp
next
  case (Cons i "is")
  let ?ar = "sl_arena s"
  define ar1 where "ar1 = upd_fwd ?ar x i (fwd ?ar (p i) i)"
  define ar2 where "ar2 = upd_fwd ar1 (p i) i (Some x)"
  note i = Cons.prems(4) [of i, simplified]
  have o1: "fwd_only ?ar ar1" using Cons.prems(1) by (simp add: ar1_def upd_fwd_only)
  then have w1: "fwd_wf ar1" "length ar1 = length ?ar" by (simp_all add: fwd_only_def)
  have o2: "fwd_only ar1 ar2" using w1 by (simp add: ar2_def upd_fwd_only)
  then have w2: "fwd_wf ar2" "length ar2 = length ?ar" using w1 by (simp_all add: fwd_only_def)
  have f2: "fwd ar2 a j = (if j = i \<and> a = x then fwd ?ar (p i) i
      else if j = i \<and> a = p i then Some x else fwd ?ar a j)" for a j
    using i Cons.prems w1 by (auto simp: ar2_def ar1_def fwd_upd_fwd)
  have step: "link_levels s upd x (i # is) = link_levels (s\<lparr>sl_arena := ar2\<rparr>) upd x is"
    using i Cons.prems w1 by (simp add: fwd_at_wf set_fwd_in ar1_def ar2_def)
  obtain ar' where ar': "link_levels (s\<lparr>sl_arena := ar2\<rparr>) upd x is = Some (s\<lparr>sl_arena := ar'\<rparr>)"
    "fwd_only ar2 ar'" "\<And>a j. fwd ar' a j =
       (if j \<in> set is \<and> a = x then fwd ar2 (p j) j
        else if j \<in> set is \<and> a = p j then Some x else fwd ar2 a j)"
    using Cons.IH [of "s\<lparr>sl_arena := ar2\<rparr>"] Cons.prems w2 by auto
  have "fwd_only ?ar ar'" using o1 o2 ar'(2) fwd_only_trans by blast
  moreover have "fwd ar' a j = (if j \<in> set (i # is) \<and> a = x then fwd ?ar (p j) j
        else if j \<in> set (i # is) \<and> a = p j then Some x else fwd ?ar a j)" for a j
    using Cons.prems(3,4) by (auto simp: ar'(3) f2)
  ultimately show ?case using step ar'(1) by auto
qed

lemma unlink_levels_ok:
  assumes "fwd_wf (sl_arena s)" and "x < length (sl_arena s)" and "distinct is"
    and "\<And>i. i \<in> set is \<Longrightarrow> i < MAX_LEVEL \<and> vec_get upd i = Some (Some (p i)) \<and>
           p i < length (sl_arena s) \<and> p i \<noteq> x \<and> fwd (sl_arena s) (p i) i = Some x"
  shows "\<exists>ar'. unlink_levels s upd x is = Some (s\<lparr>sl_arena := ar'\<rparr>) \<and> fwd_only (sl_arena s) ar' \<and>
    (\<forall>a j. fwd ar' a j =
       (if j \<in> set is \<and> a = p j then fwd (sl_arena s) x j else fwd (sl_arena s) a j))"
  using assms
proof (induction "is" arbitrary: s)
  case Nil
  have "unlink_levels s upd x [] = Some (s\<lparr>sl_arena := sl_arena s\<rparr>)" by simp
  with Nil show ?case using fwd_only_refl by (intro exI [of _ "sl_arena s"]) simp
next
  case (Cons i "is")
  let ?ar = "sl_arena s"
  define ar1 where "ar1 = upd_fwd ?ar (p i) i (fwd ?ar x i)"
  note i = Cons.prems(4) [of i, simplified]
  have o1: "fwd_only ?ar ar1" using Cons.prems(1) by (simp add: ar1_def upd_fwd_only)
  then have w1: "fwd_wf ar1" "length ar1 = length ?ar" by (simp_all add: fwd_only_def)
  have f1: "fwd ar1 a j = (if j = i \<and> a = p i then fwd ?ar x i else fwd ?ar a j)" for a j
    using i Cons.prems by (auto simp: ar1_def fwd_upd_fwd)
  have step: "unlink_levels s upd x (i # is) = unlink_levels (s\<lparr>sl_arena := ar1\<rparr>) upd x is"
    using i Cons.prems by (simp add: fwd_at_wf set_fwd_in ar1_def)
  have "fwd ar1 (p j) j = Some x" if "j \<in> set is" for j
    using f1 Cons.prems(3,4) that by auto
  then obtain ar' where ar': "unlink_levels (s\<lparr>sl_arena := ar1\<rparr>) upd x is = Some (s\<lparr>sl_arena := ar'\<rparr>)"
    "fwd_only ar1 ar'" "\<And>a j. fwd ar' a j =
       (if j \<in> set is \<and> a = p j then fwd ar1 x j else fwd ar1 a j)"
    using Cons.IH [of "s\<lparr>sl_arena := ar1\<rparr>"] Cons.prems w1 by auto
  have "fwd_only ?ar ar'" using o1 ar'(2) fwd_only_trans by blast
  moreover have "fwd ar' a j = (if j \<in> set (i # is) \<and> a = p j then fwd ?ar x j else fwd ?ar a j)" for a j
    using Cons.prems(3,4) by (auto simp: ar'(3) f1)
  ultimately show ?case using step ar'(1) by auto
qed

lemma chain_insert:
  assumes "chain ar i a (us @ vs)" and "x \<notin> set (a # us @ vs)" and "distinct (a # us @ vs)"
    and "fwd ar' x i = fwd ar (last (a # us)) i" and "fwd ar' (last (a # us)) i = Some x"
    and "\<And>b. b \<noteq> x \<Longrightarrow> b \<noteq> last (a # us) \<Longrightarrow> fwd ar' b i = fwd ar b i"
  shows "chain ar' i a (us @ x # vs)"
  using assms
proof (induction us arbitrary: a)
  case Nil
  have "fwd ar' b i = fwd ar b i" if "b \<in> set vs" for b
    using Nil.prems(2,3) that by (intro Nil.prems(6)) auto
  then have "chain ar' i v ws = chain ar i v ws" if "vs = v # ws" for v ws
    using that by (intro chain_cong) auto
  with Nil show ?case by (cases vs) auto
next
  case (Cons u us)
  have "a \<noteq> last (u # us)" "a \<noteq> x" using Cons.prems(2,3) by auto
  then have "fwd ar' a i = fwd ar a i" using Cons.prems(6) [of a] by simp
  with Cons show ?case by simp
qed

lemma chain_remove:
  assumes "chain ar i a (us @ x # vs)" and "distinct (a # us @ x # vs)"
    and "fwd ar' (last (a # us)) i = fwd ar x i"
    and "\<And>b. b \<noteq> x \<Longrightarrow> b \<noteq> last (a # us) \<Longrightarrow> fwd ar' b i = fwd ar b i"
  shows "chain ar' i a (us @ vs)"
  using assms
proof (induction us arbitrary: a)
  case Nil
  have "fwd ar' b i = fwd ar b i" if "b \<in> set vs" for b
    using Nil.prems(2) that by (intro Nil.prems(4)) auto
  then have "chain ar' i v ws = chain ar i v ws" if "vs = v # ws" for v ws
    using that by (intro chain_cong) auto
  with Nil show ?case by (cases vs) auto
next
  case (Cons u us)
  have "a \<noteq> last (u # us)" "a \<noteq> x" using Cons.prems(2) by auto
  then have "fwd ar' a i = fwd ar a i" using Cons.prems(4) [of a] by simp
  with Cons show ?case by simp
qed

subsection \<open>Insertion\<close>

lemma level_draw_bound: "lv < MAX_LEVEL \<Longrightarrow> level_draw lv bits < MAX_LEVEL"
proof (induction lv bits rule: level_draw.induct)
  case (1 lv bits)
  then show ?case by (simp add: level_draw.simps [of lv bits])
qed

lemma random_level_bound: "fst (random_level s) < MAX_LEVEL"
  by (simp add: random_level_def Let_def level_draw_bound)

lemma sl_shape_fwd_wf: "sl_shape s ns \<Longrightarrow> fwd_wf (sl_arena s)"
  by (simp add: fwd_wf_def sl_shape_def)

lemma fwd_wf_set: "fwd_wf ar \<Longrightarrow> \<forall>n \<in> set ar. length (sn_forward n) = MAX_LEVEL"
  by (auto simp: fwd_wf_def in_set_conv_nth)

lemma SkipListNode_new_sel [simp]:
  "sn_price_ticks (SkipListNode_new p l) = p" "sn_total_quantity_lots (SkipListNode_new p l) = 0"
  "sn_orders (SkipListNode_new p l) = PooledList_new" "sn_level (SkipListNode_new p l) = l"
  "sn_forward (SkipListNode_new p l) = replicate MAX_LEVEL None"
  by (simp_all add: SkipListNode_new_def)

lemma alloc_node_ok:
  assumes sh: "sl_shape s ns"
  obtains x ar fr where "alloc_node s price lv = Some (x, s\<lparr>sl_arena := ar, sl_free_nodes := fr\<rparr>)"
    "x \<notin> set (0 # ns)" "ar ! x = SkipListNode_new price lv"
    "\<And>a. a \<in> set (0 # ns) \<Longrightarrow> ar ! a = sl_arena s ! a" "fwd_wf ar"
    "distinct (0 # x # ns @ fr)" "set (0 # x # ns @ fr) = {..<length ar}"
proof (cases "sl_free_nodes s" rule: rev_cases)
  case Nil
  let ?x = "length (sl_arena s)" and ?ar = "sl_arena s @ [SkipListNode_new price lv]"
  have set: "set (0 # ns) = {..<?x}" and dis: "distinct (0 # ns)"
    using sh Nil by (simp_all add: sl_shape_def)
  have x: "?x \<notin> set (0 # ns)" unfolding set by simp
  show thesis
  proof (rule that [of ?x "[]" ?ar])
    show "alloc_node s price lv = Some (?x, s\<lparr>sl_arena := ?ar, sl_free_nodes := []\<rparr>)"
      using Nil by (simp add: alloc_node_def)
    show "?ar ! a = sl_arena s ! a" if "a \<in> set (0 # ns)" for a
      using that unfolding set by (simp add: nth_append)
    show "fwd_wf ?ar" using sl_shape_fwd_wf [OF sh] by (auto simp: fwd_wf_def nth_append)
    have "set (0 # ?x # ns @ []) = insert ?x (set (0 # ns))" by auto
    then show "set (0 # ?x # ns @ []) = {..<length ?ar}" unfolding set by (simp add: lessThan_Suc)
    show "distinct (0 # ?x # ns @ [])" using x dis by auto
  qed (use x in simp_all)
next
  case (snoc fr x)
  let ?ar = "(sl_arena s)[x := SkipListNode_new price lv]"
  have set: "set (0 # ns @ fr @ [x]) = {..<length (sl_arena s)}" and dis: "distinct (0 # ns @ fr @ [x])"
    using sh snoc by (simp_all add: sl_shape_def)
  have "x \<in> {..<length (sl_arena s)}" unfolding set [symmetric] by simp
  then have x: "x < length (sl_arena s)" by simp
  have xn: "x \<notin> set (0 # ns)" using dis by auto
  show thesis
  proof (rule that [of x fr ?ar])
    show "alloc_node s price lv = Some (x, s\<lparr>sl_arena := ?ar, sl_free_nodes := fr\<rparr>)"
      using snoc x by (simp add: alloc_node_def node_modify_def)
    show "?ar ! a = sl_arena s ! a" if "a \<in> set (0 # ns)" for a
      using that xn by (cases "x = a") auto
    show "fwd_wf ?ar" using sl_shape_fwd_wf [OF sh] x by (auto simp: fwd_wf_def nth_list_update)
    have "set (0 # x # ns @ fr) = set (0 # ns @ fr @ [x])" by auto
    then show "set (0 # x # ns @ fr) = {..<length ?ar}" unfolding set by simp
    show "distinct (0 # x # ns @ fr)" using dis by auto
  qed (use x xn in simp_all)
qed

lemma tower_cong: "(\<And>a. a \<in> set ns \<Longrightarrow> ar' ! a = ar ! a) \<Longrightarrow> tower ar' i ns = tower ar i ns"
  by (simp add: tower_def cong: filter_cong)

lemma sl_shape_distinct: "sl_shape s ns \<Longrightarrow> distinct (0 # ns)"
  by (auto simp: sl_shape_def)

lemma distinct_tower: "distinct ns \<Longrightarrow> distinct (tower ar i ns)"
  by (simp add: tower_def)

text \<open>The chains after linking the new node \<open>x\<close> of height \<open>lv\<close> at every level up to \<open>lv\<close>.\<close>

lemma chains_after_link:
  assumes ch: "chain ar i 0 (tower ar i (us @ vs))" and dis: "distinct (0 # us @ vs)"
    and x: "x \<notin> set (0 # us @ vs)" "sn_level (ar ! x) = lv"
    and f: "\<And>a j. fwd ar' a j = (if j \<le> lv \<and> a = x then fwd ar (pred ar us j) j
              else if j \<le> lv \<and> a = pred ar us j then Some x else fwd ar a j)"
    and fo: "fwd_only ar ar'"
  shows "chain ar' i 0 (tower ar' i (us @ x # vs))"
proof -
  have tw: "tower ar' i (us @ x # vs) =
      tower ar i us @ (if i \<le> lv then [x] else []) @ tower ar i vs"
    using x(2) fo by (simp add: fwd_only_fields tower_Cons)
  have sub: "set (tower ar i us @ tower ar i vs) \<subseteq> set (us @ vs)"
    using set_tower [of ar i us] set_tower [of ar i vs] by auto
  show ?thesis
  proof (cases "i \<le> lv")
    case True
    have "pred ar us i \<noteq> x" using pred_in [of ar us i] x(1) by auto
    then have "chain ar' i 0 (tower ar i us @ x # tower ar i vs)"
    proof (intro chain_insert [of ar])
      show "x \<notin> set (0 # tower ar i us @ tower ar i vs)" using sub x(1) by auto
      show "distinct (0 # tower ar i us @ tower ar i vs)"
        using distinct_tower [of "us @ vs" ar i] dis sub by auto
    qed (use True ch f in \<open>auto simp: pred_def\<close>)
    with True tw show ?thesis by simp
  next
    case False
    then have "fwd ar' b i = fwd ar b i" for b by (simp add: f)
    then have "chain ar' i 0 (tower ar i (us @ vs)) = chain ar i 0 (tower ar i (us @ vs))"
      by (intro chain_cong)
    with False ch tw show ?thesis by simp
  qed
qed

lemma sl_shape_rng [simp]: "sl_shape (s\<lparr>sl_rng_state := r\<rparr>) ns = sl_shape s ns"
  by (simp add: sl_shape_def)

lemma cut_rng [simp]: "cut (s\<lparr>sl_rng_state := r\<rparr>) price us vs = cut s price us vs"
  by (simp add: cut_def)

lemma cut_after:
  assumes "cut s price us vs" and "target s price vs = None" and "sl_shape s (us @ vs)" and "v \<in> set vs"
  shows "before (sl_order s) price (price_of (sl_arena s) v)"
proof -
  obtain w ws where vs: "vs = w # ws" using assms(4) by (cases vs) auto
  have "\<not> before (sl_order s) (price_of (sl_arena s) w) price" using assms(1) vs by (simp add: cut_def)
  moreover have "price_of (sl_arena s) w \<noteq> price" using assms(2) vs by (simp add: target_def split: if_splits)
  ultimately have "before (sl_order s) price (price_of (sl_arena s) w)" by (simp add: not_before)
  then show ?thesis
    using assms vs tail_price(2) [of s us w ws price v] by auto
qed

lemma sl_shape_free: "sl_shape s ns \<Longrightarrow> distinct (0 # ns @ sl_free_nodes s)"
  "sl_shape s ns \<Longrightarrow> set (0 # ns @ sl_free_nodes s) = {..<length (sl_arena s)}"
  by (simp_all add: sl_shape_def)

lemma sl_shape_levels: "sl_shape s ns \<Longrightarrow> a \<in> set ns \<Longrightarrow> sn_level (sl_arena s ! a) \<le> sl_level s"
  by (simp add: sl_shape_def)

lemma sl_shape_count: "sl_shape s ns \<Longrightarrow> sl_count s = as_u64 (length ns)"
  by (simp add: sl_shape_def)

lemma insert_level_ok:
  assumes sh: "sl_shape s (us @ vs)" and cut: "cut s price us vs" and new: "target s price vs = None"
  obtains x s' where "insert_level s price = Some (Inr (), s')" "sl_shape s' (us @ x # vs)"
    "x \<notin> set (us @ vs)" "sl_list_pool s' = sl_list_pool s" "sl_order s' = sl_order s"
    "sl_best_price s' = sl_best_price s"
    "price_of (sl_arena s') x = price" "sn_total_quantity_lots (sl_arena s' ! x) = 0"
    "sn_orders (sl_arena s' ! x) = PooledList_new"
    "\<And>a. a \<in> set (us @ vs) \<Longrightarrow> price_of (sl_arena s') a = price_of (sl_arena s) a \<and>
       sn_total_quantity_lots (sl_arena s' ! a) = sn_total_quantity_lots (sl_arena s ! a) \<and>
       sn_orders (sl_arena s' ! a) = sn_orders (sl_arena s ! a)"
proof -
  obtain lv r where rl: "random_level s = (lv, s\<lparr>sl_rng_state := r\<rparr>)"
    by (simp add: random_level_def Let_def)
  have lv: "lv < MAX_LEVEL" using random_level_bound [of s] rl by simp
  let ?s0 = "s\<lparr>sl_rng_state := r\<rparr>"
  let ?upd = "map (\<lambda>i. Some (pred (sl_arena s) us i)) [0..<MAX_LEVEL]"
  have sh0: "sl_shape ?s0 (us @ vs)" using sh by simp
  obtain x ar fr where al: "alloc_node ?s0 price lv = Some (x, ?s0\<lparr>sl_arena := ar, sl_free_nodes := fr\<rparr>)"
    and x: "x \<notin> set (0 # us @ vs)" "ar ! x = SkipListNode_new price lv"
    and arold0: "\<And>a. a \<in> set (0 # us @ vs) \<Longrightarrow> ar ! a = sl_arena ?s0 ! a" and wf: "fwd_wf ar"
    and dis: "distinct (0 # x # (us @ vs) @ fr)" "set (0 # x # (us @ vs) @ fr) = {..<length ar}"
    by (rule alloc_node_ok [OF sh0, of price lv]) blast
  have arold: "ar ! a = sl_arena s ! a" if "a \<in> set (0 # us @ vs)" for a
    using arold0 [OF that] by simp
  define lev where "lev = (if lv > sl_level s then lv else sl_level s)"
  define s2 where "s2 = ?s0\<lparr>sl_arena := ar, sl_free_nodes := fr, sl_level := lev\<rparr>"
  have preds: "pred ar us i = pred (sl_arena s) us i" for i
    using tower_cong [of us ar "sl_arena s" i] arold by (simp add: pred_def)
  have inar: "a < length ar" if "a \<in> set (0 # x # us @ vs)" for a
  proof -
    have "a \<in> {..<length ar}" using that unfolding dis(2) [symmetric] by auto
    then show ?thesis by simp
  qed
  have pin: "pred ar us i < length ar" "pred ar us i \<noteq> x" for i
    using pred_in [of ar us i] x(1) inar [of "pred ar us i"] by auto
  have s2ar: "sl_arena s2 = ar" by (simp add: s2_def)
  have pre: "i < MAX_LEVEL \<and> vec_get ?upd i = Some (Some (pred ar us i)) \<and>
      pred ar us i < length ar \<and> pred ar us i \<noteq> x" if "i \<in> set [0..<Suc lv]" for i
    using that lv pin [of i] by (simp add: preds del: upt_Suc)
  obtain ar' where lk: "link_levels s2 ?upd x [0..<Suc lv] = Some (s2\<lparr>sl_arena := ar'\<rparr>)"
    and fo: "fwd_only ar ar'" and f: "\<And>a j. fwd ar' a j =
       (if j \<in> set [0..<Suc lv] \<and> a = x then fwd ar (pred ar us j) j
        else if j \<in> set [0..<Suc lv] \<and> a = pred ar us j then Some x else fwd ar a j)"
    using link_levels_ok [of s2 x "[0..<Suc lv]" ?upd "pred ar us", unfolded s2ar, OF wf _ _ pre]
      inar [of x] by (auto simp del: upt_Suc)
  define s' where "s' = s2\<lparr>sl_arena := ar', sl_count := as_u64 (sl_count s + 1)\<rparr>"
  have ins: "insert_level s price = Some (Inr (), s')"
    using get_node_at_price_eq [OF sh cut] new rl find_update_eq [OF sh0, of price] cut al lk
    by (simp add: insert_level_def s'_def s2_def lev_def split: if_splits)
  have pay: "price_of ar' a = price_of (sl_arena s) a"
    "sn_total_quantity_lots (ar' ! a) = sn_total_quantity_lots (sl_arena s ! a)"
    "sn_orders (ar' ! a) = sn_orders (sl_arena s ! a)" "sn_level (ar' ! a) = sn_level (sl_arena s ! a)"
    if "a \<in> set (us @ vs)" for a
    using arold [of a] that by (simp_all add: fwd_only_fields [OF fo] price_of_def)
  have payx: "price_of ar' x = price" "sn_total_quantity_lots (ar' ! x) = 0"
    "sn_orders (ar' ! x) = PooledList_new" "sn_level (ar' ! x) = lv"
    using x(2) by (simp_all add: fwd_only_fields [OF fo] price_of_def)
  have "chain ar' i 0 (tower ar' i (us @ x # vs))" if "i < MAX_LEVEL" for i
  proof (rule chains_after_link [OF _ _ x(1) _ _ fo])
    have "chain ar i 0 (tower (sl_arena s) i (us @ vs)) = chain (sl_arena s) i 0 (tower (sl_arena s) i (us @ vs))"
      using set_tower [of "sl_arena s" i "us @ vs"] arold
      by (intro chain_cong) (auto simp: fwd_def)
    then show "chain ar i 0 (tower ar i (us @ vs))"
      using sl_shape_chain [OF sh that] tower_cong [of "us @ vs" ar "sl_arena s" i] arold by simp
    show "distinct (0 # us @ vs)" using sl_shape_distinct [OF sh] .
    show "sn_level (ar ! x) = lv" by (simp add: x(2))
    show "fwd ar' a j = (if j \<le> lv \<and> a = x then fwd ar (pred ar us j) j
              else if j \<le> lv \<and> a = pred ar us j then Some x else fwd ar a j)" for a j
      by (simp add: f less_Suc_eq_le del: upt_Suc)
  qed
  moreover have dis': "distinct (0 # (us @ x # vs) @ fr)" "set (0 # (us @ x # vs) @ fr) = {..<length ar}"
    using dis(1) unfolding dis(2) [symmetric] by auto
  moreover have "sorted_wrt (before (sl_order s)) (map (price_of ar') (us @ x # vs))"
  proof -
    have eq: "map (price_of ar') (us @ x # vs) =
        map (price_of (sl_arena s)) us @ price # map (price_of (sl_arena s)) vs"
      using pay(1) payx(1) by simp
    show ?thesis unfolding eq
      using sl_shape_sorted [OF sh] cut cut_after [OF cut new sh]
      by (simp add: sorted_wrt_append cut_def)
  qed
  moreover have "\<forall>n \<in> set ar'. length (sn_forward n) = MAX_LEVEL"
    using fo by (intro fwd_wf_set) (simp add: fwd_only_def)
  moreover have "\<forall>a \<in> set (us @ x # vs). sn_level (ar' ! a) \<le> lev"
    using sl_shape_levels [OF sh] pay(4) payx(4) by (fastforce simp: lev_def)
  ultimately have "sl_shape s' (us @ x # vs)"
    using dis' lv fwd_only_fields(1) [OF fo] sl_shape_head [OF sh] sl_shape_level [OF sh]
      sl_shape_count [OF sh]
    unfolding sl_shape_def s'_def s2_def by (simp add: lev_def as_u64_Suc)
  then show thesis
    using that [OF ins] x(1) pay payx by (simp add: s'_def s2_def)
qed

subsection \<open>Removal\<close>

lemma shrink_level_ok:
  assumes "fwd_wf (sl_arena s)" and "sl_head s < length (sl_arena s)"
  shows "l < MAX_LEVEL \<Longrightarrow> \<exists>lev. shrink_level s l = Some lev \<and> lev \<le> l \<and>
    (\<forall>i. lev < i \<and> i \<le> l \<longrightarrow> fwd (sl_arena s) (sl_head s) i = None)"
proof (induction l)
  case (Suc l)
  then obtain lev where lev: "shrink_level s l = Some lev" "lev \<le> l"
    "\<forall>i. lev < i \<and> i \<le> l \<longrightarrow> fwd (sl_arena s) (sl_head s) i = None" by auto
  show ?case
  proof (cases "fwd (sl_arena s) (sl_head s) (Suc l)")
    case None
    with lev Suc.prems assms show ?thesis
      by (intro exI [of _ lev]) (auto simp: fwd_at_wf le_Suc_eq)
  next
    case (Some a)
    with Suc.prems assms show ?thesis by (intro exI [of _ "Suc l"]) (auto simp: fwd_at_wf)
  qed
qed simp

lemma chains_after_unlink:
  assumes ch: "chain ar i 0 (tower ar i (us @ x # vs))" and dis: "distinct (0 # us @ x # vs)"
    and f: "\<And>a j. fwd ar' a j = (if j \<le> sn_level (ar ! x) \<and> a = pred ar us j then fwd ar x j else fwd ar a j)"
  shows "chain ar' i 0 (tower ar i (us @ vs))"
proof (cases "i \<le> sn_level (ar ! x)")
  case True
  have sub: "set (tower ar i us @ x # tower ar i vs) \<subseteq> set (us @ x # vs)"
    using set_tower [of ar i us] set_tower [of ar i vs] by auto
  have "chain ar' i 0 (tower ar i us @ tower ar i vs)"
  proof (rule chain_remove [of ar _ _ _ x])
    show "chain ar i 0 (tower ar i us @ x # tower ar i vs)" using ch True by (simp add: tower_Cons)
    show "distinct (0 # tower ar i us @ x # tower ar i vs)"
      using distinct_tower [of "us @ x # vs" ar i] dis sub True by (auto simp: tower_Cons)
  qed (use True f in \<open>auto simp: pred_def\<close>)
  then show ?thesis by simp
next
  case False
  then have "fwd ar' b i = fwd ar b i" for b by (simp add: f)
  then have "chain ar' i 0 (tower ar i (us @ vs)) = chain ar i 0 (tower ar i (us @ vs))"
    by (intro chain_cong)
  with False ch show ?thesis by (simp add: tower_Cons)
qed

lemma level_from_head:
  assumes "chain ar i 0 (tower ar i ns)" and "fwd ar 0 i = None" and "a \<in> set ns"
  shows "sn_level (ar ! a) < i"
proof -
  have "tower ar i ns = []" using assms(1,2) by (cases "tower ar i ns") auto
  then show ?thesis using assms(3) by (auto simp: tower_def filter_empty_conv)
qed

lemma remove_level_ok:
  assumes sh: "sl_shape s (us @ x # vs)" and cut: "cut s price us (x # vs)"
    and hit: "price_of (sl_arena s) x = price"
  obtains s' where "remove_level s price = Some (Inr (), s')" "sl_shape s' (us @ vs)"
    "sl_list_pool s' = sl_list_pool s" "sl_order s' = sl_order s" "sl_best_price s' = sl_best_price s"
    "\<And>a. a \<in> set (us @ vs) \<Longrightarrow> price_of (sl_arena s') a = price_of (sl_arena s) a \<and>
       sn_total_quantity_lots (sl_arena s' ! a) = sn_total_quantity_lots (sl_arena s ! a) \<and>
       sn_orders (sl_arena s' ! a) = sn_orders (sl_arena s ! a)"
proof -
  let ?ar = "sl_arena s" and ?lx = "sn_level (sl_arena s ! x)"
  let ?upd = "map (\<lambda>i. Some (pred ?ar us i)) [0..<MAX_LEVEL]"
  have dis: "distinct (0 # us @ x # vs)" using sl_shape_distinct [OF sh] .
  have x: "x < length ?ar" "0 < length ?ar" using sl_shape_in [OF sh] by auto
  have lx: "?lx < MAX_LEVEL" using sl_shape_levels [OF sh, of x] sl_shape_level [OF sh] by simp
  have pin: "pred ?ar us i < length ?ar" "pred ?ar us i \<noteq> x" for i
    using pred_in [of ?ar us i] sl_shape_in [OF sh, of "pred ?ar us i"] dis by auto
  have nxt: "fwd ?ar (pred ?ar us i) i = Some x" if "i \<le> ?lx" for i
    using chain_pred_next [OF sl_shape_chain [OF sh, of i]] that lx by (simp add: tower_Cons)
  have pre: "i < MAX_LEVEL \<and> vec_get ?upd i = Some (Some (pred ?ar us i)) \<and>
      pred ?ar us i < length ?ar \<and> pred ?ar us i \<noteq> x \<and> fwd ?ar (pred ?ar us i) i = Some x"
    if "i \<in> set [0..<Suc ?lx]" for i
    using that lx pin [of i] nxt [of i] by (simp del: upt_Suc)
  obtain ar1 where ul: "unlink_levels s ?upd x [0..<Suc ?lx] = Some (s\<lparr>sl_arena := ar1\<rparr>)"
    and fo: "fwd_only ?ar ar1" and f: "\<And>a j. fwd ar1 a j =
       (if j \<in> set [0..<Suc ?lx] \<and> a = pred ?ar us j then fwd ?ar x j else fwd ?ar a j)"
    using unlink_levels_ok [of s x "[0..<Suc ?lx]", OF sl_shape_fwd_wf [OF sh] x(1) distinct_upt pre] by (auto simp del: upt_Suc)
  have f': "fwd ar1 a j = (if j \<le> ?lx \<and> a = pred ?ar us j then fwd ?ar x j else fwd ?ar a j)" for a j
    by (simp add: f less_Suc_eq_le del: upt_Suc)
  have ch1: "chain ar1 i 0 (tower ?ar i (us @ vs))" if "i < MAX_LEVEL" for i
    by (rule chains_after_unlink [OF sl_shape_chain [OF sh that] dis f'])
  have w1: "fwd_wf ar1" "length ar1 = length ?ar" using fo by (simp_all add: fwd_only_def)
  obtain lev where lev: "shrink_level (s\<lparr>sl_arena := ar1\<rparr>) (sl_level s) = Some lev" "lev \<le> sl_level s"
    "\<And>i. lev < i \<Longrightarrow> i \<le> sl_level s \<Longrightarrow> fwd ar1 0 i = None"
    using shrink_level_ok [of "s\<lparr>sl_arena := ar1\<rparr>" "sl_level s"] w1 x sl_shape_level [OF sh] sl_shape_head [OF sh]
    by auto
  define ar' where "ar' = ar1[x := (ar1 ! x)\<lparr>sn_orders := pl_clear (sn_orders (ar1 ! x)),
      sn_total_quantity_lots := 0, sn_forward := replicate MAX_LEVEL None\<rparr>]"
  define s' where "s' = s\<lparr>sl_arena := ar', sl_level := lev, sl_count := u64_pred (sl_count s),
      sl_free_nodes := sl_free_nodes s @ [x]\<rparr>"
  have fu: "find_update s price = Some (?upd, pred ?ar us 0)" by (rule find_update_eq [OF sh cut])
  have rm: "remove_level s price = Some (Inr (), s')"
    using fu pin [of 0] nxt [of 0] x hit ul lev(1) w1 sl_shape_fwd_wf [OF sh]
    by (simp add: remove_level_def fwd_at_wf price_of_def s'_def ar'_def node_modify_def node_at_def del: upt_Suc)
  have same: "ar' ! a = ar1 ! a" if "a \<noteq> x" for a using that by (simp add: ar'_def)
  have nx: "a \<noteq> x" if "a \<in> set (0 # us @ vs)" for a using that dis by auto
  have pay: "price_of ar' a = price_of ?ar a"
    "sn_total_quantity_lots (ar' ! a) = sn_total_quantity_lots (?ar ! a)"
    "sn_orders (ar' ! a) = sn_orders (?ar ! a)" "sn_level (ar' ! a) = sn_level (?ar ! a)"
    if "a \<in> set (us @ vs)" for a
    using same [OF nx [of a]] that by (simp_all add: fwd_only_fields [OF fo] price_of_def)
  have tw: "tower ar' i (us @ vs) = tower ?ar i (us @ vs)" for i
    unfolding tower_def by (intro filter_cong) (simp_all add: pay)
  have ch: "chain ar' i 0 (tower ar' i (us @ vs))" if "i < MAX_LEVEL" for i
  proof -
    have "chain ar' i 0 (tower ?ar i (us @ vs)) = chain ar1 i 0 (tower ?ar i (us @ vs))"
      using set_tower [of ?ar i "us @ vs"] nx by (intro chain_cong) (auto simp: fwd_def same)
    with ch1 [OF that] tw show ?thesis by simp
  qed
  have "sorted_wrt (before (sl_order s)) (map (price_of ar') (us @ vs))"
  proof -
    have eq: "map (price_of ar') (us @ vs) = map (price_of ?ar) (us @ vs)" using pay(1) by simp
    show ?thesis unfolding eq using sl_shape_sorted [OF sh] by (simp add: sorted_wrt_append)
  qed
  moreover have "\<forall>n \<in> set ar'. length (sn_forward n) = MAX_LEVEL"
    using w1 x by (intro fwd_wf_set) (auto simp: ar'_def fwd_wf_def nth_list_update)
  moreover have "\<forall>a \<in> set (us @ vs). sn_level (ar' ! a) \<le> lev"
  proof
    fix a assume a: "a \<in> set (us @ vs)"
    show "sn_level (ar' ! a) \<le> lev"
    proof (rule ccontr)
      assume "\<not> sn_level (ar' ! a) \<le> lev"
      then have i: "lev < sn_level (?ar ! a)" "sn_level (?ar ! a) \<le> sl_level s"
        using pay(4) [OF a] sl_shape_levels [OF sh, of a] a by auto
      have "sn_level (ar1 ! a) < sn_level (?ar ! a)"
        using level_from_head [OF _ lev(3) [OF i] a] ch1 [of "sn_level (?ar ! a)"] i sl_shape_level [OF sh]
        by (simp add: fwd_only_fields [OF fo])
      then show False by (simp add: fwd_only_fields [OF fo])
    qed
  qed
  moreover have "set (0 # (us @ vs) @ sl_free_nodes s @ [x]) = {..<length ar'}"
    using sl_shape_free(2) [OF sh] w1 by (auto simp: ar'_def)
  moreover have "distinct (0 # (us @ vs) @ sl_free_nodes s @ [x])"
    using sl_shape_free(1) [OF sh] by auto
  moreover have "u64_pred (sl_count s) = as_u64 (length (us @ vs))"
    using sl_shape_count [OF sh] u64_pred_as_u64 by simp
  ultimately have "sl_shape s' (us @ vs)"
    using ch lev(2) sl_shape_level [OF sh] sl_shape_head [OF sh]
    unfolding sl_shape_def s'_def by simp
  then show thesis
    using that [OF rm] pay by (simp add: s'_def)
qed

lemma remove_level_missing:
  assumes sh: "sl_shape s (us @ vs)" and cut: "cut s price us vs" and miss: "target s price vs = None"
  shows "remove_level s price = Some (Inl LevelNotFound, s)"
proof -
  let ?p = "pred (sl_arena s) us 0"
  have p: "?p < length (sl_arena s)" using pred_in [of "sl_arena s" us 0] sl_shape_in [OF sh] by auto
  have "fwd (sl_arena s) ?p 0 = hd_or None vs"
    using chain_pred_next [OF sl_shape_chain [OF sh, of 0]] by simp
  with p miss find_update_eq [OF sh cut] sl_shape_fwd_wf [OF sh] show ?thesis
    using sl_shape_in [OF sh]
    by (cases vs) (simp_all add: remove_level_def fwd_at_wf target_def price_of_def del: upt_Suc split: if_splits)
qed

lemma insert_level_exists:
  assumes sh: "sl_shape s (us @ vs)" and cut: "cut s price us vs" and hit: "target s price vs \<noteq> None"
  shows "insert_level s price = Some (Inl LevelExists, s)"
  using get_node_at_price_eq [OF sh cut] hit by (simp add: insert_level_def)

end
