(* ===== verification/Orders.thy ===== *)
theory Orders
  imports Prelude
begin

text \<open>
  The passive data of the matching subsystem: sides, times in force, orders, trades, fills and
  the error type, from \<open>src/matching/order.rs\<close>, \<open>trade.rs\<close> and \<open>error.rs\<close>, with the
  two constructors of an order and its three observers.
\<close>

datatype Side = Buy | Sell

datatype TimeInForce = GTC | IOC | FOK | PostOnly

record Order =
  o_id :: nat
  o_side :: Side
  o_price_ticks :: PriceTicks
  o_quantity_lots :: QuantityLots
  o_filled_lots :: QuantityLots
  o_time_in_force :: TimeInForce
  o_timestamp :: nat
  o_is_market :: bool

definition Order_new :: "nat \<Rightarrow> Side \<Rightarrow> PriceTicks \<Rightarrow> QuantityLots \<Rightarrow> TimeInForce \<Rightarrow> nat \<Rightarrow> Order" where
  "Order_new i s p q tif ts =
     \<lparr>o_id = i, o_side = s, o_price_ticks = p, o_quantity_lots = q, o_filled_lots = 0,
      o_time_in_force = tif, o_timestamp = ts, o_is_market = False\<rparr>"

definition Order_new_market :: "nat \<Rightarrow> Side \<Rightarrow> QuantityLots \<Rightarrow> nat \<Rightarrow> Order" where
  "Order_new_market i s q ts =
     \<lparr>o_id = i, o_side = s, o_price_ticks = 0, o_quantity_lots = q, o_filled_lots = 0,
      o_time_in_force = IOC, o_timestamp = ts, o_is_market = True\<rparr>"

definition Order_default :: Order where
  "Order_default =
     \<lparr>o_id = 0, o_side = Buy, o_price_ticks = 0, o_quantity_lots = 0, o_filled_lots = 0,
      o_time_in_force = GTC, o_timestamp = 0, o_is_market = False\<rparr>"

definition remaining_lots :: "Order \<Rightarrow> QuantityLots" where
  "remaining_lots ord = as_i64 (o_quantity_lots ord - o_filled_lots ord)"

definition is_filled :: "Order \<Rightarrow> bool" where
  "is_filled ord \<longleftrightarrow> remaining_lots ord \<le> 0"

definition is_valid :: "Order \<Rightarrow> bool" where
  "is_valid ord \<longleftrightarrow>
     (if o_is_market ord then True else o_price_ticks ord > 0) \<and> o_quantity_lots ord > 0"

record Trade =
  t_taker_id :: nat
  t_maker_id :: nat
  t_price_ticks :: PriceTicks
  t_quantity_lots :: QuantityLots

definition Trade_default :: Trade where
  "Trade_default =
     \<lparr>t_taker_id = 0, t_maker_id = 0, t_price_ticks = 0, t_quantity_lots = 0\<rparr>"

datatype MatchingEngineError =
    OrderNotFound
  | InvalidPrice PriceTicks
  | InvalidQuantity QuantityLots
  | AlreadyFilled
  | AlreadyCancelled
  | DuplicateOrderId nat
  | InvalidTimeInForce
  | OrderPoolExhausted
  | NodePoolExhausted
  | QueuePoolExhausted
  | AeronNotConnected
  | AeronBackPressured
  | AeronClosed

datatype OrderStatus = Accepted | PartiallyFilled | Filled | Rejected | Cancelled

text \<open>A fill is \<open>(maker_order_id, price, lots)\<close>, the element type of \<open>fills_buf\<close>.\<close>

type_synonym fill = "nat \<times> PriceTicks \<times> QuantityLots"

record PlaceOrderResult =
  r_order_id :: nat
  r_filled_lots :: QuantityLots
  r_status :: OrderStatus
  r_fills :: "fill list"

record CancelOrderResult =
  c_order_id :: nat
  c_cancelled_quantity :: QuantityLots

lemma Order_new_sel [simp]:
  "o_id (Order_new i s p q tif ts) = i" "o_side (Order_new i s p q tif ts) = s"
  "o_price_ticks (Order_new i s p q tif ts) = p" "o_quantity_lots (Order_new i s p q tif ts) = q"
  "o_filled_lots (Order_new i s p q tif ts) = 0" "o_time_in_force (Order_new i s p q tif ts) = tif"
  "o_timestamp (Order_new i s p q tif ts) = ts" "\<not> o_is_market (Order_new i s p q tif ts)"
  by (simp_all add: Order_new_def)

lemma remaining_lots_partial:
  assumes "in_i64 (o_quantity_lots ord)" and "0 \<le> o_filled_lots ord"
    and "o_filled_lots ord \<le> o_quantity_lots ord"
  shows "remaining_lots ord = o_quantity_lots ord - o_filled_lots ord"
  using assms by (simp add: remaining_lots_def in_i64_diff_nonneg)

end
