(* ===== verification/Pools.thy ===== *)
theory Pools
  imports Orders
begin

text \<open>
  The generic object pool of \<open>src/matching/pools.rs\<close>: a vector of pre-allocated objects and a
  stack of free indices. The capacity invariant says that the free indices and the indices in
  use partition the pool, so a released index can never be handed out twice.
\<close>

record 'a ObjectPool =
  op_objects :: "'a list"
  op_free_indices :: "nat list"
  op_capacity :: nat
  op_allocated :: nat

definition ObjectPool_new :: "'a \<Rightarrow> nat \<Rightarrow> 'a ObjectPool" where
  "ObjectPool_new dflt capacity =
     \<lparr>op_objects = replicate capacity dflt, op_free_indices = rev [0..<capacity],
      op_capacity = capacity, op_allocated = 0\<rparr>"

definition op_acquire :: "'a ObjectPool \<Rightarrow> nat option \<times> 'a ObjectPool" where
  "op_acquire p =
     (case vec_pop (op_free_indices p) of
        None \<Rightarrow> (None, p)
      | Some (idx, rest) \<Rightarrow>
          (Some idx, p\<lparr>op_free_indices := rest, op_allocated := as_u64 (op_allocated p + 1)\<rparr>))"

definition op_release :: "'a ObjectPool \<Rightarrow> nat \<Rightarrow> 'a ObjectPool" where
  "op_release p idx =
     p\<lparr>op_free_indices := op_free_indices p @ [idx], op_allocated := u64_pred (op_allocated p)\<rparr>"

definition op_get :: "'a ObjectPool \<Rightarrow> nat \<Rightarrow> 'a option" where
  "op_get p idx = vec_get (op_objects p) idx"

text \<open>Writing through \<open>get_mut\<close>: nothing happens when the index is out of range, as in
  \<open>if let Some(o) = pool.get_mut(i) { *o = v }\<close>.\<close>

definition op_write :: "'a ObjectPool \<Rightarrow> nat \<Rightarrow> ('a \<Rightarrow> 'a) \<Rightarrow> 'a ObjectPool" where
  "op_write p idx f =
     (case vec_get (op_objects p) idx of
        None \<Rightarrow> p
      | Some x \<Rightarrow> p\<lparr>op_objects := (op_objects p)[idx := f x]\<rparr>)"

definition op_available_count :: "'a ObjectPool \<Rightarrow> nat" where
  "op_available_count p =
     (if op_allocated p \<le> op_capacity p then op_capacity p - op_allocated p
      else op_capacity p + 2 ^ 64 - op_allocated p)"

definition op_clear :: "'a ObjectPool \<Rightarrow> 'a ObjectPool" where
  "op_clear p = p\<lparr>op_free_indices := rev [0..<op_capacity p], op_allocated := 0\<rparr>"

record Pools =
  ps_orders :: "Order ObjectPool"
  ps_trades :: "Trade ObjectPool"
  ps_queues :: "nat list ObjectPool"

definition Pools_new :: "nat \<Rightarrow> nat \<Rightarrow> Pools" where
  "Pools_new order_capacity queue_capacity =
     \<lparr>ps_orders = ObjectPool_new Order_default order_capacity,
      ps_trades = ObjectPool_new Trade_default order_capacity,
      ps_queues = ObjectPool_new [] queue_capacity\<rparr>"

definition has_space_for_order :: "Pools \<Rightarrow> bool" where
  "has_space_for_order ps \<longleftrightarrow>
     op_available_count (ps_orders ps) > 0 \<and> op_available_count (ps_queues ps) > 0"

record PoolStats =
  st_orders_allocated :: nat
  st_orders_capacity :: nat
  st_trades_allocated :: nat
  st_trades_capacity :: nat
  st_queues_allocated :: nat
  st_queues_capacity :: nat

definition pools_stats :: "Pools \<Rightarrow> PoolStats" where
  "pools_stats ps =
     \<lparr>st_orders_allocated = op_allocated (ps_orders ps), st_orders_capacity = op_capacity (ps_orders ps),
      st_trades_allocated = op_allocated (ps_trades ps), st_trades_capacity = op_capacity (ps_trades ps),
      st_queues_allocated = op_allocated (ps_queues ps), st_queues_capacity = op_capacity (ps_queues ps)\<rparr>"

text \<open>The pool invariant, for a given set of indices in use.\<close>

definition op_inv :: "'a ObjectPool \<Rightarrow> nat set \<Rightarrow> bool" where
  "op_inv p used \<longleftrightarrow>
     length (op_objects p) = op_capacity p \<and> op_capacity p < 2 ^ 64 \<and>
     distinct (op_free_indices p) \<and> set (op_free_indices p) \<inter> used = {} \<and>
     set (op_free_indices p) \<union> used = {..<op_capacity p} \<and> op_allocated p = card used"

lemma op_inv_finite: "op_inv p used \<Longrightarrow> finite used"
  by (metis finite_Un finite_lessThan op_inv_def)

lemma op_inv_new: "n < 2 ^ 64 \<Longrightarrow> op_inv (ObjectPool_new d n) {}"
  by (auto simp: op_inv_def ObjectPool_new_def)

lemma op_inv_clear: "op_inv p used \<Longrightarrow> op_inv (op_clear p) {}"
  by (auto simp: op_inv_def op_clear_def)

lemma op_free_length:
  assumes "op_inv p used"
  shows "length (op_free_indices p) + card used = op_capacity p"
proof -
  have "card (set (op_free_indices p) \<union> used) = card (set (op_free_indices p)) + card used"
    using assms op_inv_finite [OF assms] by (intro card_Un_disjoint) (auto simp: op_inv_def)
  with assms show ?thesis by (simp add: op_inv_def distinct_card)
qed

lemma op_available_count_free:
  assumes "op_inv p used"
  shows "op_available_count p = length (op_free_indices p)"
  using op_free_length [OF assms] assms by (simp add: op_available_count_def op_inv_def)

lemma op_acquire_None:
  assumes "op_inv p used" and "op_acquire p = (None, p')"
  shows "used = {..<op_capacity p}" and "p' = p"
  using assms by (auto simp: op_acquire_def op_inv_def vec_pop_def split: if_splits)

lemma op_acquire_Some:
  assumes inv: "op_inv p used" and acq: "op_acquire p = (Some idx, p')"
  shows "idx \<notin> used" and "idx < op_capacity p" and "op_inv p' (insert idx used)"
    and "op_objects p' = op_objects p" and "op_capacity p' = op_capacity p"
proof -
  from acq obtain rest where fr: "op_free_indices p = rest @ [idx]"
    and p': "p' = p\<lparr>op_free_indices := rest, op_allocated := as_u64 (op_allocated p + 1)\<rparr>"
    by (auto simp: op_acquire_def vec_pop_def split: if_splits) (metis append_butlast_last_id)
  show nu: "idx \<notin> used" and lt: "idx < op_capacity p" using inv fr by (auto simp: op_inv_def)
  have "Suc (card used) \<le> op_capacity p"
    using op_free_length [OF inv] fr by simp
  then have "as_u64 (op_allocated p + 1) = card (insert idx used)"
    using inv nu op_inv_finite [OF inv] by (simp add: op_inv_def)
  moreover have "set rest \<union> insert idx used = {..<op_capacity p}"
    using inv fr by (auto simp: op_inv_def)
  ultimately show "op_inv p' (insert idx used)"
    using inv fr p' by (auto simp: op_inv_def)
  show "op_objects p' = op_objects p" and "op_capacity p' = op_capacity p" by (simp_all add: p')
qed

lemma op_acquire_succeeds:
  assumes "op_free_indices p \<noteq> []"
  shows "\<exists>idx p'. op_acquire p = (Some idx, p')"
  using assms by (simp add: op_acquire_def vec_pop_def)

lemma op_release_inv:
  assumes inv: "op_inv p used" and mem: "idx \<in> used"
  shows "op_inv (op_release p idx) (used - {idx})"
proof -
  have "card used = Suc (card (used - {idx}))"
    using card.remove [OF op_inv_finite [OF inv] mem] by simp
  then show ?thesis
    using inv mem by (auto simp: op_inv_def op_release_def u64_pred_def)
qed

lemma op_release_sel [simp]:
  "op_objects (op_release p i) = op_objects p" "op_capacity (op_release p i) = op_capacity p"
  by (simp_all add: op_release_def)

lemma op_write_inv [simp]: "op_inv (op_write p i f) used = op_inv p used"
  by (simp add: op_inv_def op_write_def split: option.split)

lemma op_get_write:
  "op_get (op_write p i f) j = (if i = j then map_option f (op_get p j) else op_get p j)"
  by (auto simp: op_get_def op_write_def vec_get_def)

lemma op_write_sel [simp]:
  "op_free_indices (op_write p i f) = op_free_indices p"
  "op_capacity (op_write p i f) = op_capacity p" "op_allocated (op_write p i f) = op_allocated p"
  by (simp_all add: op_write_def split: option.split)

lemma op_get_release [simp]: "op_get (op_release p i) j = op_get p j"
  by (simp add: op_get_def)

lemma op_get_used: "op_inv p used \<Longrightarrow> i \<in> used \<Longrightarrow> \<exists>x. op_get p i = Some x"
  by (auto simp: op_inv_def op_get_def vec_get_def)

end
