(* ===== verification/PriceTime.thy ===== *)
theory PriceTime
  imports SkipListInv Pools "HOL-Library.Multiset"
begin

text \<open>
  The specification of one side of the book. A level is \<open>(price, total, queue)\<close>; the makers are
  the entries of all queues in priority order, by price and then by arrival. \<open>take_makers\<close> is
  the price-time rule for a taker, \<open>rest_maker\<close> says where a new order queues and
  \<open>drop_maker\<close> is cancellation. The lemmas show that the level-wise operations the book offers
  act on the makers as these three specifications do, and keep the book well formed.
\<close>

type_synonym level_view = "PriceTicks \<times> QuantityLots \<times> (nat \<times> QuantityLots) list"

type_synonym maker = "PriceTicks \<times> nat \<times> QuantityLots"

definition ins_level :: "SortOrder \<Rightarrow> PriceTicks \<Rightarrow> level_view list \<Rightarrow> level_view list" where
  "ins_level d p V =
     (if p \<in> fst ` set V then V
      else takeWhile (\<lambda>l. before d (fst l) p) V @ (p, 0, []) # dropWhile (\<lambda>l. before d (fst l) p) V)"

definition map_level ::
  "PriceTicks \<Rightarrow> (QuantityLots \<times> (nat \<times> QuantityLots) list \<Rightarrow> QuantityLots \<times> (nat \<times> QuantityLots) list) \<Rightarrow>
   level_view list \<Rightarrow> level_view list" where
  "map_level p f V = map (\<lambda>(q, lv). if q = p then (q, f lv) else (q, lv)) V"

definition del_level :: "PriceTicks \<Rightarrow> level_view list \<Rightarrow> level_view list" where
  "del_level p V = filter (\<lambda>l. fst l \<noteq> p) V"

fun remove_id :: "nat \<Rightarrow> (nat \<times> QuantityLots) list \<Rightarrow> (nat \<times> QuantityLots) list" where
  "remove_id i [] = []"
| "remove_id i (x # xs) = (if fst x = i then xs else x # remove_id i xs)"

fun reduce_id :: "nat \<Rightarrow> QuantityLots \<Rightarrow> (nat \<times> QuantityLots) list \<Rightarrow> (nat \<times> QuantityLots) list" where
  "reduce_id i q [] = []"
| "reduce_id i q (x # xs) = (if fst x = i then (i, max (as_i64 (snd x - q)) 0) # xs else x # reduce_id i q xs)"

definition view_best :: "level_view list \<Rightarrow> PriceTicks option" where
  "view_best V = map_option fst (find (\<lambda>l. snd (snd l) \<noteq> []) V)"

definition depth :: "level_view list \<Rightarrow> (PriceTicks \<times> QuantityLots) list" where
  "depth V = map (\<lambda>(p, t, xs). (p, t)) V"

text \<open>A cached best price is sound when no maker is ahead of it.\<close>

definition cache_fits :: "SortOrder \<Rightarrow> PriceTicks option \<Rightarrow> maker list \<Rightarrow> bool" where
  "cache_fits d c ms \<longleftrightarrow>
     (case c of None \<Rightarrow> True | Some p \<Rightarrow> \<forall>m \<in> set ms. \<not> before d (fst m) p)"

fun cumulative :: "(PriceTicks \<Rightarrow> bool) \<Rightarrow> QuantityLots \<Rightarrow> QuantityLots \<Rightarrow> level_view list \<Rightarrow> bool" where
  "cumulative acc goal av [] \<longleftrightarrow> False"
| "cumulative acc goal av ((p, t, xs) # V) \<longleftrightarrow>
     acc p \<and> (let av' = as_i64 (av + t) in goal \<le> av' \<or> cumulative acc goal av' V)"

text \<open>The makers in priority order: by price, then by arrival.\<close>

definition level_makers :: "level_view \<Rightarrow> maker list" where
  "level_makers l = (case l of (p, t, xs) \<Rightarrow> map (Pair p) xs)"

definition makers :: "level_view list \<Rightarrow> maker list" where
  "makers V = concat (map level_makers V)"

definition maker_id :: "maker \<Rightarrow> nat" where
  "maker_id m = fst (snd m)"

definition lots :: "maker list \<Rightarrow> int" where
  "lots ms = sum_list (map (snd \<circ> snd) ms)"

definition level_ok :: "level_view \<Rightarrow> bool" where
  "level_ok l \<longleftrightarrow> (case l of (p, t, xs) \<Rightarrow> xs \<noteq> [] \<and> t = sum_list (map snd xs))"

definition book_wf :: "level_view list \<Rightarrow> bool" where
  "book_wf V \<longleftrightarrow> (\<forall>l \<in> set V. level_ok l) \<and> (\<forall>m \<in> set (makers V). 0 < snd (snd m)) \<and>
     lots (makers V) \<le> i64_max \<and> distinct (map maker_id (makers V))"

text \<open>The specification of the three things that happen to a side of the book.\<close>

fun take_makers :: "(PriceTicks \<Rightarrow> bool) \<Rightarrow> QuantityLots \<Rightarrow> maker list \<Rightarrow> fill list \<times> maker list" where
  "take_makers acc need [] = ([], [])"
| "take_makers acc need ((p, i, q) # ms) =
     (if need \<le> 0 \<or> \<not> acc p then ([], (p, i, q) # ms)
      else if q \<le> need then let (fs, ms') = take_makers acc (need - q) ms in ((i, p, q) # fs, ms')
      else ([(i, p, need)], (p, i, q - need) # ms))"

definition rest_maker :: "SortOrder \<Rightarrow> maker \<Rightarrow> maker list \<Rightarrow> maker list" where
  "rest_maker d m ms =
     takeWhile (\<lambda>n. \<not> before d (fst m) (fst n)) ms @ m # dropWhile (\<lambda>n. \<not> before d (fst m) (fst n)) ms"

definition drop_maker :: "nat \<Rightarrow> maker list \<Rightarrow> maker list" where
  "drop_maker i ms = filter (\<lambda>m. maker_id m \<noteq> i) ms"

fun rest_level :: "SortOrder \<Rightarrow> PriceTicks \<Rightarrow> nat \<Rightarrow> QuantityLots \<Rightarrow> level_view list \<Rightarrow> level_view list" where
  "rest_level d p i q [] = [(p, as_i64 q, [(i, q)])]"
| "rest_level d p i q ((r, t, xs) # V) =
     (if r = p then (r, as_i64 (t + q), xs @ [(i, q)]) # V
      else if before d r p then (r, t, xs) # rest_level d p i q V
      else (p, as_i64 q, [(i, q)]) # (r, t, xs) # V)"

definition take_order :: "PriceTicks \<Rightarrow> nat \<Rightarrow> QuantityLots \<Rightarrow> level_view list \<Rightarrow> level_view list" where
  "take_order p i q V = map_level p (\<lambda>(t, xs). (as_i64 (t - q), remove_id i xs)) V"

definition prune :: "PriceTicks \<Rightarrow> level_view list \<Rightarrow> level_view list" where
  "prune p V = (if map_option snd (map_of V p) = Some [] then del_level p V else V)"

subsection \<open>Makers\<close>

lemma makers_simps [simp]:
  "makers [] = []" "makers ((p, t, xs) # V) = map (Pair p) xs @ makers V"
  "makers (V @ W) = makers V @ makers W"
  by (simp_all add: makers_def level_makers_def)

lemma lots_simps [simp]:
  "lots [] = 0" "lots (m # ms) = snd (snd m) + lots ms" "lots (ms @ ms') = lots ms + lots ms'"
  by (simp_all add: lots_def)

lemma lots_level [simp]: "lots (map (Pair p) xs) = sum_list (map snd xs)"
  by (induction xs) auto

lemma maker_id_simp [simp]: "maker_id (p, i, q) = i"
  by (simp add: maker_id_def)

lemma lots_nonneg: "(\<forall>m \<in> set ms. 0 < snd (snd m)) \<Longrightarrow> 0 \<le> lots ms"
  by (induction ms) auto

lemma maker_price: "m \<in> set (makers V) \<Longrightarrow> fst m \<in> fst ` set V"
  by (induction V) auto

lemma map_level_notin: "p \<notin> fst ` set V \<Longrightarrow> map_level p f V = V"
  by (induction V) (auto simp: map_level_def)

lemma map_level_Cons [simp]:
  "map_level p f ((r, lv) # V) = (r, if r = p then f lv else lv) # map_level p f V"
  by (simp add: map_level_def)

lemma map_level_Nil [simp]: "map_level p f [] = []"
  by (simp add: map_level_def)

lemma map_level_append [simp]: "map_level p f (V @ W) = map_level p f V @ map_level p f W"
  by (simp add: map_level_def)

lemma fst_map_level [simp]: "map fst (map_level p f V) = map fst V"
  by (induction V) auto

subsection \<open>Resting an order\<close>

lemma rest_level_eq:
  "sorted_wrt (before d) (map fst V) \<Longrightarrow>
     map_level p (\<lambda>(t, xs). (as_i64 (t + q), xs @ [(i, q)])) (ins_level d p V) = rest_level d p i q V"
proof (induction V)
  case (Cons l V)
  obtain r t xs where l: "l = (r, t, xs)" by (cases l)
  have after: "before d r s" if "s \<in> fst ` set V" for s using Cons.prems that l by auto
  show ?case
  proof (cases rule: price_cases [of d r p])
    case eq
    then have "p \<notin> fst ` set V" using after [of p] by auto
    with eq l show ?thesis by (simp add: ins_level_def map_level_notin)
  next
    case lt
    then have "ins_level d p (l # V) = l # ins_level d p V" using l by (auto simp: ins_level_def)
    with lt l Cons show ?thesis by simp
  next
    case gt
    then have "p \<notin> fst ` set V" using after [of p] before_asym by blast
    with gt l show ?thesis by (simp add: ins_level_def map_level_notin)
  qed
qed (simp add: ins_level_def)

lemma makers_rest:
  "sorted_wrt (before d) (map fst V) \<Longrightarrow> \<forall>l \<in> set V. snd (snd l) \<noteq> [] \<Longrightarrow>
     makers (rest_level d p i q V) = rest_maker d (p, i, q) (makers V)"
proof (induction V)
  case (Cons l V)
  obtain r t xs where l: "l = (r, t, xs)" by (cases l)
  have after: "before d r (fst m)" if "m \<in> set (makers V)" for m
    using Cons.prems(1) maker_price [OF that] l by auto
  let ?P = "\<lambda>n. \<not> before d (fst (p, i, q)) (fst n)"
  let ?lm = "map (Pair r) xs"
  have app: "takeWhile ?P (?lm @ ms) = ?lm @ takeWhile ?P ms" "dropWhile ?P (?lm @ ms) = dropWhile ?P ms"
    if "\<not> before d p r" for ms
    using that by (auto intro!: takeWhile_append2 dropWhile_append2)
  show ?case
  proof (cases rule: price_cases [of d r p])
    case eq
    have 1: "takeWhile ?P (makers V) = []" "dropWhile ?P (makers V) = makers V"
      using after eq by (cases "makers V"; auto)+
    then show ?thesis using app l eq by (simp add: rest_maker_def)
  next
    case lt
    then show ?thesis using app l lt Cons by (simp add: rest_maker_def)
  next
    case gt
    obtain j u xs' where "xs = (j, u) # xs'" using Cons.prems(2) l by (cases xs) auto
    then show ?thesis using l gt by (simp add: rest_maker_def)
  qed
qed (simp add: rest_maker_def)

lemma set_rest_maker: "set (rest_maker d m ms) = insert m (set ms)"
  by (simp add: rest_maker_def) (metis set_append takeWhile_dropWhile_id)

lemma mset_rest_maker: "mset (rest_maker d m ms) = add_mset m (mset ms)"
  by (simp add: rest_maker_def) (metis mset_append takeWhile_dropWhile_id)

lemma lots_split: "lots (takeWhile P ms) + lots (dropWhile P ms) = lots ms"
  by (induction ms) auto

lemma lots_rest_maker: "lots (rest_maker d m ms) = snd (snd m) + lots ms"
  using lots_split [of "\<lambda>n. \<not> before d (fst m) (fst n)" ms] by (simp add: rest_maker_def)

lemma level_ok_rest:
  assumes "\<forall>l \<in> set V. level_ok l" and "\<forall>m \<in> set (makers V). 0 < snd (snd m)"
    and "0 < q" and "lots (makers V) + q \<le> i64_max"
  shows "\<forall>l \<in> set (rest_level d p i q V). level_ok l"
  using assms
proof (induction V)
  case Nil
  then show ?case by (auto simp: level_ok_def in_i64_def i64_max_def)
next
  case (Cons l V)
  obtain r t xs where l: "l = (r, t, xs)" by (cases l)
  have nn: "0 \<le> lots (makers V)" using Cons.prems(2) by (intro lots_nonneg) (auto simp: l)
  have nx: "0 \<le> sum_list (map snd xs)"
    using lots_nonneg [of "map (Pair r) xs"] Cons.prems(2) by (simp add: l ball_Un)
  have t: "t = sum_list (map snd xs)" using Cons.prems(1) l by (simp add: level_ok_def)
  have "in_i64 q" "in_i64 (t + q)" using Cons.prems(3,4) nn nx t l by (auto simp: in_i64_def i64_max_def)
  moreover have "\<forall>l \<in> set (rest_level d p i q V). level_ok l"
    using Cons nn nx l by (intro Cons.IH) auto
  ultimately show ?case using Cons.prems l by (auto simp: level_ok_def)
qed


lemma book_wf_rest:
  assumes wf: "book_wf V" and so: "sorted_wrt (before d) (map fst V)" and q: "0 < q"
    and room: "lots (makers V) + q \<le> i64_max" and new: "i \<notin> set (map maker_id (makers V))"
  shows "book_wf (rest_level d p i q V)" and "makers (rest_level d p i q V) = rest_maker d (p, i, q) (makers V)"
proof -
  have ok: "\<forall>l \<in> set V. level_ok l" and pos: "\<forall>m \<in> set (makers V). 0 < snd (snd m)"
    and dis: "distinct (map maker_id (makers V))"
    using wf by (simp_all add: book_wf_def)
  have "\<forall>l \<in> set V. snd (snd l) \<noteq> []" using ok by (auto simp: level_ok_def)
  then show mk: "makers (rest_level d p i q V) = rest_maker d (p, i, q) (makers V)"
    by (rule makers_rest [OF so])
  have "mset (map maker_id (rest_maker d (p, i, q) (makers V))) = mset (i # map maker_id (makers V))"
    by (simp add: mset_rest_maker)
  then have "distinct (map maker_id (rest_maker d (p, i, q) (makers V)))"
    using dis new mset_eq_imp_distinct_iff by (metis distinct.simps(2))
  with level_ok_rest [OF ok pos q room] pos q room show "book_wf (rest_level d p i q V)"
    unfolding book_wf_def mk by (simp add: set_rest_maker lots_rest_maker)
qed

subsection \<open>Taking an order out\<close>

lemma remove_id_filter: "distinct (map fst xs) \<Longrightarrow> remove_id i xs = filter (\<lambda>x. fst x \<noteq> i) xs"
proof (induction xs)
  case (Cons x xs)
  then have "filter (\<lambda>y. fst y \<noteq> i) xs = xs" if "fst x = i" using that
    by (auto simp: filter_id_conv) (metis fst_conv image_eqI)
  with Cons show ?case by simp
qed simp

lemma remove_id_sum: "map_of xs i = Some q \<Longrightarrow> sum_list (map snd (remove_id i xs)) = sum_list (map snd xs) - q"
  by (induction xs) auto

lemma drop_maker_level:
  "drop_maker i (map (Pair p) xs) = map (Pair p) (filter (\<lambda>x. fst x \<noteq> i) xs)"
  by (induction xs) (auto simp: drop_maker_def maker_id_def)

lemma drop_maker_append [simp]: "drop_maker i (xs @ ys) = drop_maker i xs @ drop_maker i ys"
  by (simp add: drop_maker_def)

lemma map_maker_id_level [simp]: "map maker_id (map (Pair p) xs) = map fst xs"
  by (simp add: maker_id_def)

lemma makers_take_order:
  "\<forall>m \<in> set (makers V). maker_id m = i \<longrightarrow> fst m = p \<Longrightarrow> distinct (map maker_id (makers V)) \<Longrightarrow>
     makers (take_order p i q V) = drop_maker i (makers V)"
proof (induction V)
  case (Cons l V)
  obtain r t xs where l: "l = (r, t, xs)" by (cases l)
  have dis: "distinct (map fst xs)" "distinct (map maker_id (makers V))"
    using Cons.prems(2) by (simp_all add: l del: map_map)
  have IH: "makers (take_order p i q V) = drop_maker i (makers V)"
    using Cons.prems(1) dis(2) l by (intro Cons.IH) auto
  show ?case
  proof (cases "r = p")
    case True
    then show ?thesis using IH dis(1) by (simp add: l take_order_def remove_id_filter drop_maker_level)
  next
    case False
    then have "\<forall>x \<in> set xs. fst x \<noteq> i" using Cons.prems(1) by (simp add: l maker_id_def ball_Un)
    then have "filter (\<lambda>x. fst x \<noteq> i) xs = xs" by (simp add: filter_id_conv)
    with False IH show ?thesis by (simp add: l take_order_def drop_maker_level)
  qed
qed (simp add: take_order_def drop_maker_def)

lemma makers_del_level: "\<forall>l \<in> set V. fst l = p \<longrightarrow> snd (snd l) = [] \<Longrightarrow> makers (del_level p V) = makers V"
  by (induction V) (auto simp: del_level_def)

lemma makers_prune:
  assumes "distinct (map fst V)"
  shows "makers (prune p V) = makers V"
proof -
  have "\<forall>l \<in> set V. fst l = p \<longrightarrow> snd (snd l) = []" if "map_of V p = Some (t, [])" for t
  proof (intro ballI impI)
    fix l assume "l \<in> set V" "fst l = p"
    then have "map_of V p = Some (snd l)" using assms by (intro map_of_is_SomeI) (cases l; auto)+
    with that show "snd (snd l) = []" by simp
  qed
  then show ?thesis
    using makers_del_level [of V p] by (auto simp: prune_def)
qed

lemma set_prune:
  assumes "distinct (map fst V)" and "l \<in> set (prune p V)"
  shows "l \<in> set V" and "fst l = p \<longrightarrow> snd (snd l) \<noteq> []"
proof -
  show l: "l \<in> set V" using assms(2) by (auto simp: prune_def del_level_def split: if_splits)
  show "fst l = p \<longrightarrow> snd (snd l) \<noteq> []"
  proof (intro impI notI)
    assume "fst l = p" "snd (snd l) = []"
    moreover have "map_of V (fst l) = Some (snd l)" using assms(1) l by (intro map_of_is_SomeI) auto
    ultimately have "prune p V = del_level p V" by (simp add: prune_def)
    with assms(2) \<open>fst l = p\<close> show False by (simp add: del_level_def)
  qed
qed

lemma sorted_prune: "sorted_wrt R (map fst V) \<Longrightarrow> sorted_wrt R (map fst (prune p V))"
proof -
  have "sorted_wrt R (map fst (del_level p V))" if "sorted_wrt R (map fst V)"
    using that unfolding del_level_def sorted_wrt_map by (rule sorted_wrt_filter)
  then show "sorted_wrt R (map fst V) \<Longrightarrow> sorted_wrt R (map fst (prune p V))"
    by (simp add: prune_def)
qed

lemma lots_drop_le:
  "\<forall>m \<in> set ms. 0 < snd (snd m) \<Longrightarrow> lots (drop_maker i ms) \<le> lots ms"
  by (induction ms) (auto simp: drop_maker_def)

lemma maker_entry:
  assumes "(p, i, q) \<in> set (makers V)" and "distinct (map fst V)" and "distinct (map maker_id (makers V))"
  obtains t xs where "map_of V p = Some (t, xs)" "map_of xs i = Some q"
proof -
  from assms(1) obtain t xs where m: "(p, t, xs) \<in> set V" "(i, q) \<in> set xs"
    by (auto simp: makers_def level_makers_def)
  from m(1) obtain V1 V2 where "V = V1 @ (p, t, xs) # V2" by (meson split_list)
  then have "distinct (map fst xs)" using assms(3) by (simp del: map_map)
  with m assms(2) show thesis by (intro that [of t xs]) (simp_all add: map_of_is_SomeI)
qed

lemma book_wf_take:
  assumes wf: "book_wf V" and so: "sorted_wrt (before d) (map fst V)" and m: "(p, i, q) \<in> set (makers V)"
  shows "book_wf (prune p (take_order p i q V))"
    and "makers (prune p (take_order p i q V)) = drop_maker i (makers V)"
proof -
  let ?W = "take_order p i q V"
  have ok: "\<forall>l \<in> set V. level_ok l" and pos: "\<forall>m \<in> set (makers V). 0 < snd (snd m)"
    and dis: "distinct (map maker_id (makers V))" and mx: "lots (makers V) \<le> i64_max"
    using wf by (simp_all add: book_wf_def)
  have dp: "distinct (map fst V)" using so by (rule sorted_before_distinct)
  then have dw: "distinct (map fst ?W)" by (simp add: take_order_def)
  have "m' = (p, i, q)" if "m' \<in> set (makers V)" "maker_id m' = i" for m'
    using dis m that by (auto simp: distinct_map inj_on_def)
  then have mt: "makers ?W = drop_maker i (makers V)"
    using dis by (intro makers_take_order) auto
  with makers_prune [OF dw] show mk: "makers (prune p ?W) = drop_maker i (makers V)" by simp
  obtain t xs where lv: "map_of V p = Some (t, xs)" "map_of xs i = Some q"
    using maker_entry [OF m dp dis] .
  have "level_ok l" if "l \<in> set (prune p ?W)" for l
  proof -
    have lw: "l \<in> set ?W" "fst l = p \<longrightarrow> snd (snd l) \<noteq> []" using set_prune [OF dw that] by blast+
    then obtain r u ys where o: "(r, u, ys) \<in> set V"
      "l = (if r = p then (r, as_i64 (u - q), remove_id i ys) else (r, u, ys))"
      by (auto simp: take_order_def map_level_def)
    show ?thesis
    proof (cases "r = p")
      case False
      with o ok show ?thesis by auto
    next
      case True
      then have "map_of V p = Some (u, ys)" using o(1) dp by simp
      then have e: "u = t" "ys = xs" using lv by simp_all
      from o(1) obtain V1 V2 where "V = V1 @ (r, u, ys) # V2" by (meson split_list)
      then have le: "sum_list (map snd ys) \<le> lots (makers V)" "\<forall>x \<in> set ys. 0 < snd x"
        using pos lots_nonneg [of "makers V1"] lots_nonneg [of "makers V2"] by (auto simp: ball_Un)
      have u: "u = sum_list (map snd ys)" using ok o(1) by (auto simp: level_ok_def)
      have sr: "sum_list (map snd (remove_id i ys)) = u - q" using remove_id_sum lv(2) e u by simp
      have "0 \<le> sum_list (map snd (remove_id i ys))"
      proof (rule sum_list_nonneg)
        fix x assume "x \<in> set (map snd (remove_id i ys))"
        moreover have "set (remove_id i ys) \<subseteq> set ys" by (induction ys) auto
        ultimately show "0 \<le> x" using le(2) by force
      qed
      moreover have "0 < q" using pos m by auto
      ultimately have "in_i64 (u - q)" using sr u le(1) mx by (simp add: in_i64_def i64_max_def)
      with True o(2) lw(2) sr show ?thesis by (simp add: level_ok_def)
    qed
  qed
  moreover have "\<forall>m \<in> set (drop_maker i (makers V)). 0 < snd (snd m)" using pos by (auto simp: drop_maker_def)
  moreover have "distinct (map maker_id (drop_maker i (makers V)))"
    unfolding drop_maker_def using dis by (rule distinct_map_filter)
  ultimately show "book_wf (prune p ?W)"
    unfolding book_wf_def mk using lots_drop_le [OF pos, of i] mx by simp
qed


subsection \<open>Matching against the head of the book\<close>

lemma book_wf_Cons:
  assumes "book_wf ((p, t, (i, q) # xs) # V)"
  shows "0 < q" and "t = q + sum_list (map snd xs)" and "0 \<le> sum_list (map snd xs)"
    and "in_i64 q" and "in_i64 t" and "q \<le> t"
proof -
  have pos: "\<forall>m \<in> set (makers ((p, t, (i, q) # xs) # V)). 0 < snd (snd m)"
    and mx: "lots (makers ((p, t, (i, q) # xs) # V)) \<le> i64_max"
    using assms by (simp_all add: book_wf_def)
  show q: "0 < q" using pos by simp
  show t: "t = q + sum_list (map snd xs)" using assms by (simp add: book_wf_def level_ok_def)
  show s: "0 \<le> sum_list (map snd xs)"
    using lots_nonneg [of "map (Pair p) xs"] pos by (simp add: ball_Un)
  have "0 \<le> lots (makers V)" using pos by (intro lots_nonneg) simp
  with q s t mx show "in_i64 q" "in_i64 t" "q \<le> t" by (auto simp: in_i64_def i64_max_def)
qed

lemma book_wf_partial:
  assumes wf: "book_wf ((p, t, (i, q) # xs) # V)" and "0 < d" and "d < q"
  shows "book_wf ((p, t - d, (i, q - d) # xs) # V)"
    and "as_i64 (t - d) = t - d" and "as_i64 (q - d) = q - d"
proof -
  note h = book_wf_Cons [OF wf]
  show "book_wf ((p, t - d, (i, q - d) # xs) # V)"
    using wf assms(2,3) by (auto simp: book_wf_def level_ok_def)
  show "as_i64 (t - d) = t - d" "as_i64 (q - d) = q - d"
    using h assms(2,3) by (auto intro!: as_i64_id in_i64_diff_nonneg)
qed

lemma book_wf_tail:
  assumes wf: "book_wf ((p, t, (i, q) # xs) # V)"
  shows "book_wf (if xs = [] then V else (p, t - q, xs) # V)" and "as_i64 (t - q) = t - q"
proof -
  note h = book_wf_Cons [OF wf]
  have "in_i64 (t - q)" using h by (auto simp: in_i64_def)
  then show "as_i64 (t - q) = t - q" by simp
  have "lots (map (Pair p) xs @ makers V) \<le> i64_max" using wf h(1) by (simp add: book_wf_def)
  then show "book_wf (if xs = [] then V else (p, t - q, xs) # V)"
    using wf h by (auto simp: book_wf_def level_ok_def)
qed

subsection \<open>What the price-time rule guarantees\<close>

definition fill_lots :: "fill list \<Rightarrow> int" where
  "fill_lots fs = sum_list (map (snd \<circ> snd) fs)"

lemma fill_lots_simps [simp]: "fill_lots [] = 0" "fill_lots (f # fs) = snd (snd f) + fill_lots fs"
  "fill_lots (fs @ gs) = fill_lots fs + fill_lots gs"
  by (simp_all add: fill_lots_def)

text \<open>What a taker can reach: the leading makers at acceptable prices.\<close>

definition reachable :: "(PriceTicks \<Rightarrow> bool) \<Rightarrow> maker list \<Rightarrow> maker list" where
  "reachable acc ms = takeWhile (\<lambda>m. acc (fst m)) ms"

lemma take_makers_none: "need \<le> 0 \<Longrightarrow> take_makers acc need ms = ([], ms)"
  by (cases ms) auto

lemma take_makers_lots:
  "\<forall>m \<in> set ms. 0 < snd (snd m) \<Longrightarrow> 0 \<le> need \<Longrightarrow> take_makers acc need ms = (fs, ms') \<Longrightarrow>
     fill_lots fs = min need (lots (reachable acc ms)) \<and> lots ms' = lots ms - fill_lots fs"
proof (induction acc need ms arbitrary: fs ms' rule: take_makers.induct)
  case (2 acc need p i q ms)
  have nn: "0 \<le> lots (reachable acc ms)"
    using "2.prems"(1) by (intro lots_nonneg) (auto simp: reachable_def dest: set_takeWhileD)
  show ?case
  proof (cases "need \<le> 0 \<or> \<not> acc p")
    case True
    then show ?thesis using "2.prems" nn by (auto simp: reachable_def min_def split: if_splits)
  next
    case False
    show ?thesis
    proof (cases "q \<le> need")
      case True
      obtain gs ns where g: "take_makers acc (need - q) ms = (gs, ns)" by fastforce
      with False True "2.prems" have f: "fs = (i, p, q) # gs" "ms' = ns" by auto
      from "2.IH" [OF False True _ _ g] "2.prems"(1) True
      have "fill_lots gs = min (need - q) (lots (reachable acc ms)) \<and> lots ns = lots ms - fill_lots gs" by simp
      then show ?thesis using f False by (auto simp: reachable_def min_def)
    next
      case F: False
      then have "fs = [(i, p, need)]" "ms' = (p, i, q - need) # ms" using False "2.prems" by auto
      with F False nn show ?thesis by (auto simp: reachable_def min_def)
    qed
  qed
qed (simp add: reachable_def)

lemma take_makers_fills:
  "\<forall>m \<in> set ms. 0 < snd (snd m) \<Longrightarrow> take_makers acc need ms = (fs, ms') \<Longrightarrow>
     \<forall>(i, p, l) \<in> set fs. acc p \<and> 0 < l \<and> (\<exists>q. (p, i, q) \<in> set ms \<and> l \<le> q)"
proof (induction acc need ms arbitrary: fs ms' rule: take_makers.induct)
  case (2 acc need p i q ms)
  show ?case
  proof (cases "need \<le> 0 \<or> \<not> acc p")
    case True
    then show ?thesis using "2.prems" by auto
  next
    case False
    show ?thesis
    proof (cases "q \<le> need")
      case True
      obtain gs ns where g: "take_makers acc (need - q) ms = (gs, ns)" by fastforce
      with False True "2.prems" have f: "fs = (i, p, q) # gs" by auto
      from "2.IH" [OF False True _ g] "2.prems"(1)
      have "\<forall>(i, p, l) \<in> set gs. acc p \<and> 0 < l \<and> (\<exists>q. (p, i, q) \<in> set ms \<and> l \<le> q)" by simp
      then show ?thesis using f False "2.prems"(1) by fastforce
    next
      case F: False
      then have "fs = [(i, p, need)]" using False "2.prems" by auto
      with F False show ?thesis by auto
    qed
  qed
qed simp

lemma book_wf_ConsD: "book_wf (l # V) \<Longrightarrow> book_wf V"
proof -
  assume wf: "book_wf (l # V)"
  obtain p t xs where l: "l = (p, t, xs)" by (cases l)
  have "0 \<le> lots (map (Pair p) xs)" using wf by (intro lots_nonneg) (simp add: book_wf_def l ball_Un)
  with wf show "book_wf V" by (auto simp: book_wf_def l)
qed

lemma reachable_level:
  "reachable acc (map (Pair p) xs @ ms) =
     (if acc p then map (Pair p) xs @ reachable acc ms else if xs = [] then reachable acc ms else [])"
  by (induction xs) (auto simp: reachable_def)

lemma lots_reachable_le: "\<forall>m \<in> set ms. 0 < snd (snd m) \<Longrightarrow> lots (reachable acc ms) \<le> lots ms"
proof (induction ms)
  case (Cons m ms)
  then show ?case using lots_nonneg [of ms] by (auto simp: reachable_def)
qed (simp add: reachable_def)

lemma cumulative_lots:
  "book_wf V \<Longrightarrow> 0 \<le> av \<Longrightarrow> av + lots (makers V) \<le> i64_max \<Longrightarrow> av < goal \<Longrightarrow>
     cumulative acc goal av V \<longleftrightarrow> goal \<le> av + lots (reachable acc (makers V))"
proof (induction V arbitrary: av)
  case (Cons l V)
  obtain p t xs where l: "l = (p, t, xs)" by (cases l)
  have wf: "book_wf V" using Cons.prems(1) by (rule book_wf_ConsD)
  have t: "t = sum_list (map snd xs)" "xs \<noteq> []" using Cons.prems(1) by (simp_all add: l book_wf_def level_ok_def)
  have pos: "\<forall>m \<in> set (map (Pair p) xs). 0 < snd (snd m)" "\<forall>m \<in> set (makers V). 0 < snd (snd m)"
    using Cons.prems(1) by (auto simp: l book_wf_def)
  have nn: "0 \<le> t" "0 \<le> lots (makers V)" "0 \<le> lots (reachable acc (makers V))"
    using lots_nonneg [OF pos(1)] lots_nonneg [OF pos(2)] lots_nonneg [of "reachable acc (makers V)"] pos t
    by (auto simp: reachable_def dest: set_takeWhileD)
  have "in_i64 (av + t)" using Cons.prems nn t by (simp add: l in_i64_def i64_max_def)
  then have a: "as_i64 (av + t) = av + t" by simp
  have IH: "cumulative acc goal (av + t) V \<longleftrightarrow> goal \<le> av + t + lots (reachable acc (makers V))" if "av + t < goal"
    using Cons.IH [OF wf, of "av + t"] Cons.prems nn t that by (simp add: l)
  show ?case
  proof (cases "acc p")
    case True
    then have "cumulative acc goal av (l # V) \<longleftrightarrow> goal \<le> av + t \<or> cumulative acc goal (av + t) V"
      using a by (simp add: l Let_def)
    also have "\<dots> \<longleftrightarrow> goal \<le> av + t + lots (reachable acc (makers V))"
      using IH nn by linarith
    finally show ?thesis using True t by (simp add: l reachable_level add.assoc)
  next
    case False
    then show ?thesis using t Cons.prems(4) by (simp add: l reachable_level)
  qed
qed (simp add: reachable_def)


subsection \<open>The best price and its cache\<close>

lemma view_best_Nil [simp]: "view_best [] = None"
  by (simp add: view_best_def)

lemma view_best_Cons: "view_best ((p, t, xs) # V) = (if xs = [] then view_best V else Some p)"
  by (simp add: view_best_def)

lemma cache_hit:
  "sorted_wrt (before d) (map fst V) \<Longrightarrow> map_of V p = Some (t, x # xs) \<Longrightarrow>
     cache_fits d (Some p) (makers V) \<Longrightarrow> view_best V = Some p"
proof (induction V)
  case (Cons l V)
  obtain r u ys where l: "l = (r, u, ys)" by (cases l)
  show ?case
  proof (cases "r = p")
    case True
    with Cons.prems(2) show ?thesis by (simp add: l view_best_Cons)
  next
    case False
    then have m: "map_of V p = Some (t, x # xs)" using Cons.prems(2) by (simp add: l)
    then have "p \<in> fst ` set V" by (metis domI dom_map_of_conv_image_fst)
    then have "before d r p" using Cons.prems(1) by (auto simp: l)
    then have "ys = []" using Cons.prems(3) by (cases ys) (auto simp: l cache_fits_def)
    with Cons m show ?thesis by (simp add: l view_best_Cons)
  qed
qed simp

lemma cache_fits_best:
  "sorted_wrt (before d) (map fst V) \<Longrightarrow> cache_fits d (view_best V) (makers V)"
proof (induction V)
  case (Cons l V)
  obtain r u ys where l: "l = (r, u, ys)" by (cases l)
  have "before d r (fst m)" if "m \<in> set (makers V)" for m
    using Cons.prems maker_price [OF that] by (auto simp: l)
  then have "cache_fits d (Some r) (makers (l # V))" by (auto simp: l cache_fits_def dest: before_asym)
  moreover have "cache_fits d (view_best V) (makers V)" using Cons by simp
  ultimately show ?case by (auto simp: l view_best_Cons)
qed (simp add: cache_fits_def)

lemma cache_fits_subset:
  "cache_fits d c ms \<Longrightarrow> fst ` set ms' \<subseteq> fst ` set ms \<Longrightarrow> cache_fits d c ms'"
  by (force simp: cache_fits_def split: option.splits)

lemma cache_fits_None [simp]: "cache_fits d None ms"
  by (simp add: cache_fits_def)

lemma view_best_wf:
  assumes "book_wf V"
  shows "view_best V = (case V of [] \<Rightarrow> None | l # _ \<Rightarrow> Some (fst l))"
  using assms by (cases V) (auto simp: book_wf_def level_ok_def view_best_Cons)

subsection \<open>Lookups after an update\<close>

lemma makers_ins_level: "makers (ins_level d p V) = makers V"
proof -
  let ?P = "\<lambda>l. before d (fst l) p"
  have "makers (takeWhile ?P V) @ makers (dropWhile ?P V) = makers V"
    by (metis makers_simps(3) takeWhile_dropWhile_id)
  then show ?thesis by (simp add: ins_level_def)
qed

lemma map_of_ins_level: "map_of (ins_level d p V) p \<noteq> None"
  by (auto simp: ins_level_def map_of_eq_None_iff)

lemma map_of_map_level: "map_of (map_level p f V) r = (if r = p then map_option f (map_of V r) else map_of V r)"
  by (induction V) auto

lemma del_level_Cons [simp]: "del_level p ((r, lv) # V) = (if r = p then del_level p V else (r, lv) # del_level p V)"
  by (simp add: del_level_def)

lemma del_level_notin: "p \<notin> fst ` set V \<Longrightarrow> del_level p V = V"
  by (auto simp: del_level_def filter_id_conv)

subsection \<open>The price-time rule, step by step\<close>

lemma take_makers_split:
  assumes "\<And>r. acc' r \<Longrightarrow> acc r"
  shows "take_makers acc' need ms = (f1, m1) \<Longrightarrow> take_makers acc (need - fill_lots f1) m1 = (f2, m2) \<Longrightarrow>
    take_makers acc need ms = (f1 @ f2, m2)"
proof (induction ms arbitrary: need f1 m1)
  case (Cons m ms)
  obtain p i q where m: "m = (p, i, q)" by (cases m)
  show ?case
  proof (cases "need \<le> 0 \<or> \<not> acc' p")
    case True
    then show ?thesis using Cons.prems m by auto
  next
    case False
    then have n: "0 < need" "acc p" using assms by auto
    show ?thesis
    proof (cases "q \<le> need")
      case True
      obtain gs ns where g: "take_makers acc' (need - q) ms = (gs, ns)" by fastforce
      with False True Cons.prems m have f: "f1 = (i, p, q) # gs" "m1 = ns" by auto
      from Cons.IH [OF g] Cons.prems(2) f have "take_makers acc (need - q) ms = (gs @ f2, m2)"
        by (simp add: algebra_simps)
      then show ?thesis using f n True m by simp
    next
      case F: False
      then have "f1 = [(i, p, need)]" "m1 = (p, i, q - need) # ms" using False Cons.prems m by auto
      then show ?thesis using Cons.prems(2) n F m by (auto simp: take_makers_none)
    qed
  qed
qed auto

lemma take_makers_other:
  assumes "p \<notin> fst ` set V"
  shows "take_makers (\<lambda>r. r = p) need (makers V) = ([], makers V)"
proof (cases "makers V")
  case (Cons m ms)
  then have "fst m \<noteq> p" using maker_price [of m V] assms by auto
  then show ?thesis using Cons by (cases m) simp
qed simp

lemma take_makers_length: "take_makers acc need ms = (fs, ms') \<Longrightarrow> length ms' \<le> length ms"
proof (induction acc need ms arbitrary: fs ms' rule: take_makers.induct)
  case (2 acc need p i q ms)
  obtain gs ns where g: "take_makers acc (need - q) ms = (gs, ns)" by fastforce
  show ?case
  proof (cases "\<not> (need \<le> 0 \<or> \<not> acc p) \<and> q \<le> need")
    case True
    then have "length ns \<le> length ms" using "2.IH" g by blast
    with True g "2.prems" show ?thesis by auto
  qed (use "2.prems" in \<open>auto split: if_splits\<close>)
qed simp

lemma take_makers_bounds:
  assumes "\<forall>m \<in> set ms. 0 < snd (snd m)" and "0 \<le> need" and "take_makers acc need ms = (fs, ms')"
  shows "0 \<le> fill_lots fs" and "fill_lots fs \<le> need"
proof -
  have "0 \<le> lots (reachable acc ms)"
    using assms(1) by (intro lots_nonneg) (auto simp: reachable_def dest: set_takeWhileD)
  then show "0 \<le> fill_lots fs" and "fill_lots fs \<le> need" using take_makers_lots [OF assms] assms(2) by auto
qed

lemma take_makers_progress:
  assumes "take_makers acc need ((p, i, q) # ms) = (fs, ms')" and "0 < need" and "acc p"
  shows "length ms' \<le> length ms \<or> fill_lots fs = need"
proof (cases "q \<le> need")
  case True
  obtain gs ns where g: "take_makers acc (need - q) ms = (gs, ns)" by fastforce
  with assms True have "ms' = ns" by auto
  with take_makers_length [OF g] show ?thesis by simp
next
  case False
  with assms show ?thesis by auto
qed

end
