(* ===== verification/OrderBook.thy ===== *)
theory OrderBook
  imports PriceTime
begin

text \<open>
  The skip list as an order book. \<open>view\<close> reads the abstract book off the pointers, \<open>book_inv\<close>
  says that the arena, the level chains and the pooled queues are consistent, and each operation
  of \<open>src/matching/skiplist.rs\<close> is shown to act on the view as its specification in \<open>PriceTime\<close>
  does. The locale \<open>order_book\<close> is the contract of the trait \<open>OrderBook\<close>
  (\<open>src/matching/orderbook.rs\<close>) on which the matching engine relies; it is interpreted on the
  skip list.
\<close>

fun follow_fwd :: "nat \<Rightarrow> SkipListNode list \<Rightarrow> nat option \<Rightarrow> nat list" where
  "follow_fwd 0 ar c = []"
| "follow_fwd (Suc n) ar None = []"
| "follow_fwd (Suc n) ar (Some a) = a # follow_fwd n ar (fwd ar a 0)"

definition level_addrs :: "SkipList \<Rightarrow> nat list" where
  "level_addrs s = follow_fwd (length (sl_arena s)) (sl_arena s) (fwd (sl_arena s) 0 0)"

definition queue_ix :: "SkipList \<Rightarrow> nat \<Rightarrow> nat list" where
  "queue_ix s a = pl_indices (lp_nodes (sl_list_pool s)) (sn_orders (sl_arena s ! a))"

definition items_at :: "ListNodePool \<Rightarrow> nat list \<Rightarrow> (nat \<times> QuantityLots) list" where
  "items_at p xs = map (\<lambda>i. ln_item (lp_nodes p ! i)) xs"

definition level_at :: "SkipList \<Rightarrow> nat \<Rightarrow> level_view" where
  "level_at s a =
     (price_of (sl_arena s) a, sn_total_quantity_lots (sl_arena s ! a), items_at (sl_list_pool s) (queue_ix s a))"

definition view :: "SkipList \<Rightarrow> level_view list" where
  "view s = map (level_at s) (level_addrs s)"

definition book_ok :: "SkipList \<Rightarrow> nat list \<Rightarrow> bool" where
  "book_ok s ns \<longleftrightarrow> sl_shape s ns \<and>
     (\<forall>a \<in> set ns. plist_rep (lp_nodes (sl_list_pool s)) (sn_orders (sl_arena s ! a)) (queue_ix s a)) \<and>
     lp_inv (sl_list_pool s) (concat (map (queue_ix s) ns))"

definition book_inv :: "SkipList \<Rightarrow> bool" where
  "book_inv s \<longleftrightarrow> book_ok s (level_addrs s)"

subsection \<open>The addresses of the levels\<close>

lemma follow_fwd_chain:
  "chain ar 0 a ns \<Longrightarrow> length ns \<le> n \<Longrightarrow> follow_fwd n ar (fwd ar a 0) = ns"
proof (induction ns arbitrary: a n)
  case Nil
  then show ?case by (cases n) auto
next
  case (Cons b ns)
  then obtain m where "n = Suc m" "length ns \<le> m" by (cases n) auto
  with Cons show ?case by simp
qed

lemma sl_shape_addrs: "sl_shape s ns \<Longrightarrow> level_addrs s = ns"
proof -
  assume sh: "sl_shape s ns"
  have "length (0 # ns) \<le> length (sl_arena s)"
    using sl_shape_distinct [OF sh] sl_shape_in [OF sh] by (intro distinct_subset_length) auto
  with sl_shape_chain [OF sh, of 0] show ?thesis
    by (simp add: level_addrs_def follow_fwd_chain)
qed

lemma book_inv_iff: "book_inv s \<longleftrightarrow> (\<exists>ns. book_ok s ns)"
  by (metis book_inv_def book_ok_def sl_shape_addrs)

lemma book_ok_addrs: "book_ok s ns \<Longrightarrow> level_addrs s = ns"
  by (simp add: book_ok_def sl_shape_addrs)

lemma book_ok_view: "book_ok s ns \<Longrightarrow> view s = map (level_at s) ns"
  by (simp add: book_ok_addrs view_def)

lemma book_ok_shape: "book_ok s ns \<Longrightarrow> sl_shape s ns"
  by (simp add: book_ok_def)

lemma book_ok_rep:
  "book_ok s ns \<Longrightarrow> a \<in> set ns \<Longrightarrow>
     plist_rep (lp_nodes (sl_list_pool s)) (sn_orders (sl_arena s ! a)) (queue_ix s a)"
  by (simp add: book_ok_def)

lemma book_ok_pool: "book_ok s ns \<Longrightarrow> lp_inv (sl_list_pool s) (concat (map (queue_ix s) ns))"
  by (simp add: book_ok_def)

lemma fst_level_at [simp]: "fst (level_at s a) = price_of (sl_arena s) a"
  by (simp add: level_at_def)

lemma view_sorted: "book_inv s \<Longrightarrow> sorted_wrt (before (sl_order s)) (map fst (view s))"
proof -
  assume "book_inv s"
  then have "sl_shape s (level_addrs s)" by (simp add: book_inv_def book_ok_def)
  then have "sorted_wrt (before (sl_order s)) (map (price_of (sl_arena s)) (level_addrs s))"
    by (rule sl_shape_sorted)
  then show ?thesis by (simp add: view_def comp_def)
qed

lemma fst_set_view: "book_ok s ns \<Longrightarrow> fst ` set (view s) = price_of (sl_arena s) ` set ns"
  by (simp add: book_ok_view image_image)


lemma view_distinct: "book_inv s \<Longrightarrow> distinct (map fst (view s))"
  using view_sorted sorted_before_distinct by blast

subsection \<open>Changing the queue of one level\<close>

lemma sl_shape_payload:
  assumes "sl_shape s ns" and "a < length (sl_arena s)"
  shows "sl_shape (s\<lparr>sl_list_pool := p, sl_arena := (sl_arena s)[a := (sl_arena s ! a)\<lparr>sn_orders := l, sn_total_quantity_lots := t\<rparr>]\<rparr>) ns"
proof -
  let ?ar = "sl_arena s"
  define ar' where "ar' = ?ar[a := (?ar ! a)\<lparr>sn_orders := l, sn_total_quantity_lots := t\<rparr>]"
  have f: "sn_forward (ar' ! b) = sn_forward (?ar ! b)" "sn_level (ar' ! b) = sn_level (?ar ! b)"
    "price_of ar' b = price_of ?ar b" "length ar' = length ?ar" for b
    using assms(2) by (cases "b = a"; simp add: price_of_def ar'_def)+
  have "chain ar' i b bs = chain ?ar i b bs" for i b bs
    by (intro chain_cong) (simp add: fwd_def f)
  moreover have "tower ar' i ns = tower ?ar i ns" for i by (simp add: tower_def f)
  moreover have "price_of ar' = price_of ?ar" using f(3) by (rule ext)
  moreover have "\<forall>n \<in> set ar'. length (sn_forward n) = MAX_LEVEL"
    using sl_shape_fwd_wf [OF assms(1)] by (intro fwd_wf_set) (simp add: fwd_wf_def f)
  ultimately show ?thesis using assms(1) f(2,4) unfolding sl_shape_def by (simp add: ar'_def [symmetric])
qed

lemma queue_ix_frame:
  assumes "plist_rep (lp_nodes p) l xs" and "length (lp_nodes p') = length (lp_nodes p)"
    and "\<And>i. i \<in> set xs \<Longrightarrow> lp_nodes p' ! i = lp_nodes p ! i"
  shows "pl_indices (lp_nodes p') l = xs" and "plist_rep (lp_nodes p') l xs"
  using plist_rep_frame [OF assms] plist_rep_indices by blast+

lemma queue_update:
  assumes ok: "book_ok s (us @ a # vs)" and rep: "plist_rep (lp_nodes p') l' xs'"
    and len: "length (lp_nodes p') = length (lp_nodes (sl_list_pool s))"
    and frame: "\<And>b i. b \<in> set (us @ vs) \<Longrightarrow> i \<in> set (queue_ix s b) \<Longrightarrow>
        lp_nodes p' ! i = lp_nodes (sl_list_pool s) ! i"
    and inv: "lp_inv p' (xs' @ concat (map (queue_ix s) (us @ vs)))"
    and s': "s' = s\<lparr>sl_list_pool := p',
        sl_arena := (sl_arena s)[a := (sl_arena s ! a)\<lparr>sn_orders := l', sn_total_quantity_lots := t'\<rparr>]\<rparr>"
  shows "book_ok s' (us @ a # vs)" and "\<And>b. b \<in> set (us @ vs) \<Longrightarrow> level_at s' b = level_at s b"
    and "level_at s' a = (price_of (sl_arena s) a, t', items_at p' xs')"
proof -
  have sh: "sl_shape s (us @ a # vs)" using ok by (rule book_ok_shape)
  have a: "a < length (sl_arena s)" using sl_shape_in [OF sh] by auto
  have na: "b \<noteq> a" if "b \<in> set (us @ vs)" for b using that sl_shape_distinct [OF sh] by auto
  have arb: "sl_arena s' ! b = sl_arena s ! b" if "b \<in> set (us @ vs)" for b
    using na [OF that] by (simp add: s')
  have ara: "sl_arena s' ! a = (sl_arena s ! a)\<lparr>sn_orders := l', sn_total_quantity_lots := t'\<rparr>"
    using a by (simp add: s')
  have pool: "sl_list_pool s' = p'" by (simp add: s')
  have other: "queue_ix s' b = queue_ix s b"
    "plist_rep (lp_nodes p') (sn_orders (sl_arena s ! b)) (queue_ix s b)" if "b \<in> set (us @ vs)" for b
  proof -
    have "b \<in> set (us @ a # vs)" using that by auto
    from queue_ix_frame [OF book_ok_rep [OF ok this] len frame [OF that]]
    show "plist_rep (lp_nodes p') (sn_orders (sl_arena s ! b)) (queue_ix s b)" "queue_ix s' b = queue_ix s b"
      using that by (auto simp: queue_ix_def [of s'] pool arb)
  qed
  have qa: "queue_ix s' a = xs'" using plist_rep_indices [OF rep] by (simp add: queue_ix_def pool ara)
  have mp: "map (queue_ix s') us = map (queue_ix s) us" "map (queue_ix s') vs = map (queue_ix s) vs"
    using other(1) by auto
  have "sl_shape s' (us @ a # vs)" unfolding s' by (rule sl_shape_payload [OF sh a])
  moreover have "plist_rep (lp_nodes p') (sn_orders (sl_arena s' ! b)) (queue_ix s' b)"
    if "b \<in> set (us @ a # vs)" for b
    using that other arb rep qa ara by (cases "b = a") auto
  moreover have "lp_inv p' (concat (map (queue_ix s') (us @ a # vs)))"
    by (rule lp_inv_perm [OF inv]) (use inv in \<open>auto simp: mp qa lp_inv_def\<close>)
  ultimately show "book_ok s' (us @ a # vs)" by (simp add: book_ok_def pool)
  show "level_at s' b = level_at s b" if "b \<in> set (us @ vs)" for b
    using other(1) [OF that] frame [OF that] arb [OF that]
    by (simp add: level_at_def pool price_of_def items_at_def)
  show "level_at s' a = (price_of (sl_arena s) a, t', items_at p' xs')"
    by (simp add: level_at_def qa pool ara price_of_def)
qed


subsection \<open>Splitting at a price\<close>

text \<open>Every lookup falls into one of two cases: the level is there, or the price is in none.\<close>

lemma price_split:
  assumes "sl_shape s ns"
  obtains (present) us a vs where "ns = us @ a # vs" "cut s price us (a # vs)"
      "price_of (sl_arena s) a = price" "target s price (a # vs) = Some a"
    | (absent) us vs where "ns = us @ vs" "cut s price us vs" "target s price vs = None"
proof -
  obtain us vs where ns: "ns = us @ vs" "cut s price us vs" using cut_exists [OF assms] .
  show thesis
  proof (cases "target s price vs")
    case None
    with ns show thesis by (rule absent)
  next
    case (Some a)
    then obtain vs' where "vs = a # vs'" "price_of (sl_arena s) a = price"
      by (cases vs) (auto simp: target_def split: if_splits)
    with ns Some show thesis by (intro present) auto
  qed
qed

lemma other_price:
  assumes sh: "sl_shape s (us @ a # vs)" and "b \<in> set (us @ vs)"
  shows "price_of (sl_arena s) b \<noteq> price_of (sl_arena s) a"
proof -
  have "distinct (map (price_of (sl_arena s)) (us @ a # vs))"
    using sl_shape_sorted [OF sh] by (rule sorted_before_distinct)
  with assms(2) show ?thesis by auto (metis image_eqI)+
qed

lemma absent_price:
  assumes sh: "sl_shape s (us @ vs)" and cut: "cut s price us vs" and "target s price vs = None" and b: "b \<in> set (us @ vs)"
  shows "price_of (sl_arena s) b \<noteq> price"
  using cut_after [OF cut assms(3) sh, of b] cut b by (auto simp: cut_def)

lemma map_of_view_present:
  assumes ok: "book_ok s (us @ a # vs)" and "price_of (sl_arena s) a = price"
  shows "map_of (view s) price = Some (snd (level_at s a))"
proof -
  have "(price, snd (level_at s a)) \<in> set (view s)"
    using assms by (auto simp: book_ok_view level_at_def)
  moreover have "distinct (map fst (view s))" using ok book_inv_iff view_distinct by blast
  ultimately show ?thesis by (simp add: map_of_is_SomeI)
qed

lemma map_of_view_absent:
  assumes ok: "book_ok s (us @ vs)" and "cut s price us vs" and "target s price vs = None"
  shows "map_of (view s) price = None"
  using absent_price [OF book_ok_shape [OF ok] assms(2,3)] fst_set_view [OF ok]
  by (auto simp: map_of_eq_None_iff)

lemma map_level_at:
  assumes sh: "sl_shape s (us @ a # vs)" and p: "price_of (sl_arena s) a = price"
    and oth: "\<And>b. b \<in> set (us @ vs) \<Longrightarrow> level_at s' b = level_at s b"
    and at: "level_at s' a = (price, f (snd (level_at s a)))"
  shows "map (level_at s') (us @ a # vs) = map_level price f (map (level_at s) (us @ a # vs))"
proof -
  have "(case level_at s b of (q, lv) \<Rightarrow> if q = price then (q, f lv) else (q, lv)) = level_at s b"
    if "b \<in> set (us @ vs)" for b
    using other_price [OF sh that] p by (simp add: level_at_def)
  moreover have "(case level_at s a of (q, lv) \<Rightarrow> if q = price then (q, f lv) else (q, lv)) = level_at s' a"
    using p at by (simp add: level_at_def)
  ultimately show ?thesis using oth by (simp add: map_level_def)
qed


subsection \<open>Adding an order\<close>

definition resting_count :: "SkipList \<Rightarrow> nat" where
  "resting_count s = length (concat (map (snd \<circ> snd) (view s)))"

lemma length_items_at [simp]: "length (items_at p xs) = length xs"
  by (simp add: items_at_def)

lemma resting_count_ok: "book_ok s ns \<Longrightarrow> resting_count s = length (concat (map (queue_ix s) ns))"
  by (simp add: resting_count_def book_ok_view length_concat comp_def level_at_def)

lemma add_order_full:
  assumes "book_inv s" and "resting_count s = lp_capacity (sl_list_pool s)"
  shows "add_order_at_level s price i q = Some (Inl ListPoolExhausted, s)"
proof -
  obtain ns where "book_ok s ns" using assms(1) book_inv_iff by blast
  then have "lp_acquire (sl_list_pool s) i q = Some (None, sl_list_pool s)"
    using assms(2) lp_acquire_full [OF book_ok_pool] resting_count_ok by metis
  then show ?thesis by (simp add: add_order_at_level_def)
qed

lemma shape_pool [simp]:
  "sl_shape (s\<lparr>sl_list_pool := p\<rparr>) ns = sl_shape s ns"
  "cut (s\<lparr>sl_list_pool := p\<rparr>) price us vs = cut s price us vs"
  "target (s\<lparr>sl_list_pool := p\<rparr>) price vs = target s price vs"
  "node_at (s\<lparr>sl_list_pool := p\<rparr>) a = node_at s a"
  by (simp_all add: sl_shape_def cut_def target_def node_at_def cong: list.case_cong)

text \<open>What no operation on the levels and queues changes.\<close>

definition book_frame :: "SkipList \<Rightarrow> SkipList \<Rightarrow> bool" where
  "book_frame s s' \<longleftrightarrow> sl_order s' = sl_order s \<and> sl_best_price s' = sl_best_price s \<and>
     lp_capacity (sl_list_pool s') = lp_capacity (sl_list_pool s)"

lemma queue_update_view:
  assumes ok: "book_ok s (us @ a # vs)" and p: "price_of (sl_arena s) a = price"
    and rep: "plist_rep (lp_nodes p') l' xs'"
    and len: "length (lp_nodes p') = length (lp_nodes (sl_list_pool s))"
    and cap: "lp_capacity p' = lp_capacity (sl_list_pool s)"
    and frame: "\<And>b i. b \<in> set (us @ vs) \<Longrightarrow> i \<in> set (queue_ix s b) \<Longrightarrow>
        lp_nodes p' ! i = lp_nodes (sl_list_pool s) ! i"
    and inv: "lp_inv p' (xs' @ concat (map (queue_ix s) (us @ vs)))"
    and s': "s' = s\<lparr>sl_list_pool := p',
        sl_arena := (sl_arena s)[a := (sl_arena s ! a)\<lparr>sn_orders := l', sn_total_quantity_lots := t'\<rparr>]\<rparr>"
    and upd: "f (sn_total_quantity_lots (sl_arena s ! a), items_at (sl_list_pool s) (queue_ix s a)) =
        (t', items_at p' xs')"
  shows "book_inv s'" and "view s' = map_level price f (view s)" and "book_frame s s'"
proof -
  have ok': "book_ok s' (us @ a # vs)" by (rule queue_update(1) [OF ok rep len frame inv s'])
  have oth: "level_at s' b = level_at s b" if "b \<in> set (us @ vs)" for b
    by (rule queue_update(2) [OF ok rep len frame inv s' that])
  have "level_at s' a = (price_of (sl_arena s) a, t', items_at p' xs')"
    by (rule queue_update(3) [OF ok rep len frame inv s'])
  then have at: "level_at s' a = (price, f (snd (level_at s a)))"
    using upd p by (simp add: level_at_def)
  show "book_inv s'" unfolding book_inv_iff using ok' by (rule exI)
  show "view s' = map_level price f (view s)"
    using map_level_at [of s us a vs price s' f, OF book_ok_shape [OF ok] p oth at]
    by (simp only: book_ok_view [OF ok] book_ok_view [OF ok'])
  show "book_frame s s'" by (simp add: book_frame_def s' cap)
qed

lemma map_of_view_cases:
  assumes ok: "book_ok s ns" and "map_of (view s) price \<noteq> None"
  obtains us a vs where "ns = us @ a # vs" "cut s price us (a # vs)"
      "price_of (sl_arena s) a = price" "target s price (a # vs) = Some a"
proof (rule price_split [OF book_ok_shape [OF ok], of price])
  fix us vs assume "ns = us @ vs" "cut s price us vs" "target s price vs = None"
  then show thesis using map_of_view_absent [of s us vs price] ok assms(2) by simp
qed (rule that)

lemma lp_inv_disjoint:
  "lp_inv p (us @ vs) \<Longrightarrow> i \<in> set us \<Longrightarrow> i \<notin> set vs"
  by (auto simp: lp_inv_def)

lemma lp_inv_cong: "lp_inv p us \<Longrightarrow> mset vs = mset us \<Longrightarrow> lp_inv p vs"
  using lp_inv_perm mset_eq_imp_distinct_iff mset_eq_setD by (metis lp_inv_def distinct_append)

lemma book_ok_pool_split:
  "book_ok s (us @ a # vs) \<Longrightarrow> lp_inv (sl_list_pool s) (queue_ix s a @ concat (map (queue_ix s) (us @ vs)))"
  by (erule lp_inv_cong [OF book_ok_pool]) simp

lemma add_order_ok:
  assumes inv: "book_inv s" and room: "resting_count s < lp_capacity (sl_list_pool s)"
    and lvl: "map_of (view s) price \<noteq> None"
  obtains s' where "add_order_at_level s price i q = Some (Inr (), s')" "book_inv s'"
    "view s' = map_level price (\<lambda>(t, xs). (as_i64 (t + q), xs @ [(i, q)])) (view s)" "book_frame s s'"
proof -
  obtain ns where "book_ok s ns" using inv book_inv_iff by blast
  from map_of_view_cases [OF this lvl] this obtain us a vs where ok: "book_ok s (us @ a # vs)"
    and cut: "cut s price us (a # vs)" and pa: "price_of (sl_arena s) a = price"
    and tg: "target s price (a # vs) = Some a" by metis
  let ?p = "sl_list_pool s" and ?xs = "queue_ix s a" and ?rest = "concat (map (queue_ix s) (us @ vs))"
  have a: "a < length (sl_arena s)" using sl_shape_in [OF book_ok_shape [OF ok]] by auto
  have pi: "lp_inv ?p (?xs @ ?rest)" by (rule book_ok_pool_split [OF ok])
  have "length (?xs @ ?rest) < lp_capacity ?p" using room resting_count_ok [OF ok] by simp
  from lp_acquire_ok [OF pi this, of i q] obtain idx p1 where acq: "lp_acquire ?p i q = Some (Some idx, p1)"
    and idx: "idx \<notin> set (?xs @ ?rest)" "idx < length (lp_nodes ?p)" and i1: "lp_inv p1 (idx # ?xs @ ?rest)"
    and c1: "lp_capacity p1 = lp_capacity ?p" and n1: "lp_nodes p1 = (lp_nodes ?p)[idx :=
       \<lparr>ln_order_id = i, ln_quantity_lots = q, ln_next = None, ln_prev = None\<rparr>]" .
  have same1: "lp_nodes p1 ! j = lp_nodes ?p ! j" if "j \<in> set (?xs @ ?rest)" for j
    using that idx(1) n1 by (cases "j = idx") auto
  have len1: "length (lp_nodes p1) = length (lp_nodes ?p)" by (simp add: n1)
  have r1: "plist_rep (lp_nodes p1) (sn_orders (sl_arena s ! a)) ?xs"
    by (rule plist_rep_frame [OF book_ok_rep [OF ok] len1]) (use same1 in auto)
  have fits: "Suc (length ?xs) < 2 ^ 64"
    using i1 lp_inv_length [OF i1] by (simp add: lp_inv_def)
  obtain l' p2 where push: "pl_push_back (sn_orders (sl_arena s ! a)) idx p1 = Some (l', p2)"
    and r2: "plist_rep (lp_nodes p2) l' (?xs @ [idx])" and lo: "links_only (insert idx (set ?xs)) p1 p2"
    by (rule pl_push_back_rep [OF r1 _ _ _ _ fits, of idx]) (use idx n1 in auto)
  define s' where "s' = s\<lparr>sl_list_pool := p2, sl_arena := (sl_arena s)[a := (sl_arena s ! a)\<lparr>sn_orders := l',
      sn_total_quantity_lots := as_i64 (sn_total_quantity_lots (sl_arena s ! a) + q)\<rparr>]\<rparr>"
  have loc: "locate (s\<lparr>sl_list_pool := p1\<rparr>) price = Some (Some a)"
    using locate_eq [of "s\<lparr>sl_list_pool := p1\<rparr>" us "a # vs" price] book_ok_shape [OF ok] cut tg by simp
  have add: "add_order_at_level s price i q = Some (Inr (), s')"
    using acq loc push a by (simp add: add_order_at_level_def node_modify_def s'_def)
  have p2: "length (lp_nodes p2) = length (lp_nodes p1)" "lp_capacity p2 = lp_capacity p1"
    "\<And>j. j \<notin> insert idx (set ?xs) \<Longrightarrow> lp_nodes p2 ! j = lp_nodes p1 ! j"
    "\<And>j. ln_item (lp_nodes p2 ! j) = ln_item (lp_nodes p1 ! j)"
    using lo by (cases p1; cases p2; simp add: links_only_def)+
  have i2: "lp_inv p2 ((?xs @ [idx]) @ ?rest)"
    by (rule lp_inv_cong [OF links_only_inv [OF lo i1]]) simp
  have frame: "lp_nodes p2 ! j = lp_nodes ?p ! j" if "b \<in> set (us @ vs)" "j \<in> set (queue_ix s b)" for b j
  proof -
    have "j \<in> set ?rest" using that by auto
    moreover then have "j \<notin> set ?xs" using lp_inv_disjoint [OF pi] by blast
    ultimately show ?thesis using idx(1) p2(3) [of j] same1 [of j] by auto
  qed
  have items: "items_at p2 (?xs @ [idx]) = items_at ?p ?xs @ [(i, q)]"
    using p2(4) same1 idx n1 by (simp add: items_at_def ln_item_def)
  show thesis
  proof (rule that [OF add])
    note upd = queue_update_view [OF ok pa r2 _ _ frame i2 s'_def,
        where f = "\<lambda>(t, xs). (as_i64 (t + q), xs @ [(i, q)])"]
    show "book_inv s'" by (rule upd(1)) (simp_all add: p2 len1 c1 items)
    show "view s' = map_level price (\<lambda>(t, xs). (as_i64 (t + q), xs @ [(i, q)])) (view s)"
      by (rule upd(2)) (simp_all add: p2 len1 c1 items)
    show "book_frame s s'" by (rule upd(3)) (simp_all add: p2 len1 c1 items)
  qed
qed


subsection \<open>Finding an order in a queue\<close>

definition find_ix :: "ListNodePool \<Rightarrow> nat \<Rightarrow> nat list \<Rightarrow> nat option" where
  "find_ix p i xs = find (\<lambda>j. ln_order_id (lp_nodes p ! j) = i) xs"

lemma scan_queue_dseg:
  "dseg (lp_nodes p) b xs None \<Longrightarrow> scan_queue p i (hd_or None xs) = Some (find_ix p i xs)"
proof (induction xs arbitrary: b)
  case (Cons x xs)
  then have "scan_queue p i (ln_next (lp_nodes p ! x)) = Some (find_ix p i xs)"
    "x < length (lp_nodes p)" by auto
  then show ?case
    by (simp add: scan_queue.simps [of p i "Some x"] lp_get_def find_ix_def)
qed (simp add: scan_queue.simps find_ix_def)

lemma scan_queue_rep:
  "plist_rep (lp_nodes p) l xs \<Longrightarrow> scan_queue p i (pl_front l) = Some (find_ix p i xs)"
  using scan_queue_dseg [of p None xs i] by (simp add: plist_rep_def pl_front_def)

lemma find_ix_None: "find_ix p i xs = None \<longleftrightarrow> map_of (items_at p xs) i = None"
  by (auto simp: find_ix_def find_None_iff map_of_eq_None_iff items_at_def ln_item_def image_image)

lemma find_ix_Some:
  assumes "map_of (items_at p xs) i = Some q"
  obtains ys x zs where "xs = ys @ x # zs" "find_ix p i xs = Some x"
    "ln_quantity_lots (lp_nodes p ! x) = q" "ln_order_id (lp_nodes p ! x) = i"
    "\<And>y. y \<in> set ys \<Longrightarrow> ln_order_id (lp_nodes p ! y) \<noteq> i"
  using assms
proof (induction xs arbitrary: thesis)
  case (Cons a xs)
  show thesis
  proof (cases "ln_order_id (lp_nodes p ! a) = i")
    case True
    with Cons.prems(2) show thesis
      by (intro Cons.prems(1) [of "[]" a xs]) (simp_all add: find_ix_def items_at_def ln_item_def)
  next
    case False
    with Cons.prems(2) have "map_of (items_at p xs) i = Some q" by (simp add: items_at_def ln_item_def)
    from Cons.IH [OF _ this] obtain ys x zs where "xs = ys @ x # zs" "find_ix p i xs = Some x"
      "ln_quantity_lots (lp_nodes p ! x) = q" "ln_order_id (lp_nodes p ! x) = i"
      "\<And>y. y \<in> set ys \<Longrightarrow> ln_order_id (lp_nodes p ! y) \<noteq> i" by blast
    with False show thesis
      by (intro Cons.prems(1) [of "a # ys" x zs]) (auto simp: find_ix_def)
  qed
qed (simp add: items_at_def)

lemma remove_id_split:
  "\<forall>y \<in> set ys. fst y \<noteq> i \<Longrightarrow> remove_id i (ys @ (i, q) # zs) = ys @ zs"
  by (induction ys) auto

lemma reduce_id_split:
  "\<forall>y \<in> set ys. fst y \<noteq> i \<Longrightarrow>
     reduce_id i d (ys @ (i, q) # zs) = ys @ (i, max (as_i64 (q - d)) 0) # zs"
  by (induction ys) auto

lemma items_at_append [simp]: "items_at p (xs @ ys) = items_at p xs @ items_at p ys"
  by (simp add: items_at_def)

lemma items_at_Cons [simp]: "items_at p (x # xs) = ln_item (lp_nodes p ! x) # items_at p xs"
  by (simp add: items_at_def)

text \<open>The queue entry an operation by price and id works on.\<close>

lemma entry_cases:
  assumes inv: "book_inv s" and lvl: "map_of (view s) price = Some (t, items)" and entry: "map_of items i = Some q"
  obtains us a vs ys x zs where "book_ok s (us @ a # vs)" "price_of (sl_arena s) a = price"
    "locate s price = Some (Some a)" "a < length (sl_arena s)" "sn_total_quantity_lots (sl_arena s ! a) = t"
    "queue_ix s a = ys @ x # zs"
    "scan_queue (sl_list_pool s) i (pl_front (sn_orders (sl_arena s ! a))) = Some (Some x)"
    "ln_item (lp_nodes (sl_list_pool s) ! x) = (i, q)" "x < length (lp_nodes (sl_list_pool s))"
    "\<forall>y \<in> set (items_at (sl_list_pool s) ys). fst y \<noteq> i"
proof -
  obtain ns where "book_ok s ns" using inv book_inv_iff by blast
  moreover have "map_of (view s) price \<noteq> None" using lvl by simp
  ultimately obtain us a vs where ok: "book_ok s (us @ a # vs)"
    and cut: "cut s price us (a # vs)" and pa: "price_of (sl_arena s) a = price"
    and tg: "target s price (a # vs) = Some a" by (metis map_of_view_cases)
  have a: "a < length (sl_arena s)" using sl_shape_in [OF book_ok_shape [OF ok]] by auto
  have loc: "locate s price = Some (Some a)" using locate_eq [OF book_ok_shape [OF ok] cut] tg by simp
  have lv: "t = sn_total_quantity_lots (sl_arena s ! a)" "items = items_at (sl_list_pool s) (queue_ix s a)"
    using map_of_view_present [OF ok pa] lvl by (simp_all add: level_at_def)
  have rep: "plist_rep (lp_nodes (sl_list_pool s)) (sn_orders (sl_arena s ! a)) (queue_ix s a)"
    using book_ok_rep [OF ok] by simp
  from entry lv obtain ys x zs where x: "queue_ix s a = ys @ x # zs"
    "find_ix (sl_list_pool s) i (queue_ix s a) = Some x"
    "ln_quantity_lots (lp_nodes (sl_list_pool s) ! x) = q" "ln_order_id (lp_nodes (sl_list_pool s) ! x) = i"
    "\<And>y. y \<in> set ys \<Longrightarrow> ln_order_id (lp_nodes (sl_list_pool s) ! y) \<noteq> i"
    by (metis find_ix_Some)
  show thesis
  proof (rule that [OF ok pa loc a lv(1) [symmetric] x(1)])
    show "scan_queue (sl_list_pool s) i (pl_front (sn_orders (sl_arena s ! a))) = Some (Some x)"
      using scan_queue_rep [OF rep] x(2) by simp
    show "ln_item (lp_nodes (sl_list_pool s) ! x) = (i, q)" using x(3,4) by (simp add: ln_item_def)
    show "x < length (lp_nodes (sl_list_pool s))" using plist_rep_in_range [OF rep, of x] x(1) by simp
    show "\<forall>y \<in> set (items_at (sl_list_pool s) ys). fst y \<noteq> i"
      by (simp add: items_at_def ln_item_def x(5))
  qed
qed

lemma remove_order_ok:
  assumes inv: "book_inv s" and lvl: "map_of (view s) price = Some (t, items)" and entry: "map_of items i = Some q"
  obtains s' where "remove_order_at_level s price i = Some (Inr (), s')" "book_inv s'"
    "view s' = map_level price (\<lambda>(t, xs). (as_i64 (t - q), remove_id i xs)) (view s)" "book_frame s s'"
proof -
  let ?p = "sl_list_pool s"
  obtain us a vs ys x zs where ok: "book_ok s (us @ a # vs)" and pa: "price_of (sl_arena s) a = price"
    and loc: "locate s price = Some (Some a)" and a: "a < length (sl_arena s)"
    and t: "sn_total_quantity_lots (sl_arena s ! a) = t" and x: "queue_ix s a = ys @ x # zs"
    and sc: "scan_queue ?p i (pl_front (sn_orders (sl_arena s ! a))) = Some (Some x)"
    and it: "ln_item (lp_nodes ?p ! x) = (i, q)" and xl: "x < length (lp_nodes ?p)"
    and ys: "\<forall>y \<in> set (items_at ?p ys). fst y \<noteq> i"
    by (rule entry_cases [OF assms])
  let ?rest = "concat (map (queue_ix s) (us @ vs))"
  have rep: "plist_rep (lp_nodes ?p) (sn_orders (sl_arena s ! a)) (ys @ x # zs)"
    using book_ok_rep [OF ok, of a] x by simp
  have pi: "lp_inv ?p ((ys @ x # zs) @ ?rest)" using book_ok_pool_split [OF ok] x by simp
  obtain l' p1 where rm: "pl_remove (sn_orders (sl_arena s ! a)) x ?p = Some (l', p1)"
    and r1: "plist_rep (lp_nodes p1) l' (ys @ zs)" and lo: "links_only (set (ys @ x # zs)) ?p p1"
    by (rule pl_remove_rep [OF rep])
  have p1: "length (lp_nodes p1) = length (lp_nodes ?p)" "lp_capacity p1 = lp_capacity ?p"
    "\<And>j. j \<notin> set (ys @ x # zs) \<Longrightarrow> lp_nodes p1 ! j = lp_nodes ?p ! j"
    "\<And>j. ln_item (lp_nodes p1 ! j) = ln_item (lp_nodes ?p ! j)"
    using lo by (cases p1; cases ?p; simp add: links_only_def)+
  define s' where "s' = s\<lparr>sl_list_pool := lp_release p1 x, sl_arena := (sl_arena s)[a := (sl_arena s ! a)\<lparr>sn_orders := l',
      sn_total_quantity_lots := as_i64 (sn_total_quantity_lots (sl_arena s ! a) - q)\<rparr>]\<rparr>"
  have op: "remove_order_at_level s price i = Some (Inr (), s')"
    using loc sc rm a xl it by (simp add: remove_order_at_level_def node_modify_def s'_def lp_get_def ln_item_def)
  have "lp_inv p1 ((ys @ x # zs) @ ?rest)" by (rule links_only_inv [OF lo pi])
  then have "lp_inv (lp_release p1 x) (remove1 x ((ys @ x # zs) @ ?rest))" by (rule lp_release_ok) simp
  then have i2: "lp_inv (lp_release p1 x) ((ys @ zs) @ ?rest)" by (rule lp_inv_cong) simp
  have frame: "lp_nodes (lp_release p1 x) ! j = lp_nodes ?p ! j"
    if "b \<in> set (us @ vs)" "j \<in> set (queue_ix s b)" for b j
  proof -
    have "j \<in> set ?rest" using that by auto
    then have "j \<notin> set (ys @ x # zs)" using lp_inv_disjoint [OF pi] by blast
    then show ?thesis using p1(3) [of j] by simp
  qed
  have items: "remove_id i (items_at ?p ys @ (i, q) # items_at ?p zs) = items_at (lp_release p1 x) (ys @ zs)"
    using remove_id_split [OF ys] p1(4) by (simp add: items_at_def)
  have r2: "plist_rep (lp_nodes (lp_release p1 x)) l' (ys @ zs)" using r1 by simp
  show thesis
  proof (rule that [OF op])
    note upd = queue_update_view [OF ok pa r2 _ _ frame i2 s'_def,
        where f = "\<lambda>(t, xs). (as_i64 (t - q), remove_id i xs)"]
    show "book_inv s'" by (rule upd(1)) (simp_all add: p1 items x it)
    show "view s' = map_level price (\<lambda>(t, xs). (as_i64 (t - q), remove_id i xs)) (view s)"
      by (rule upd(2)) (simp_all add: p1 items x it)
    show "book_frame s s'" by (rule upd(3)) (simp_all add: p1 items x it)
  qed
qed


lemma dseg_links:
  assumes "length nodes' = length nodes"
    and "\<And>x. x \<in> set xs \<Longrightarrow> ln_next (nodes' ! x) = ln_next (nodes ! x) \<and> ln_prev (nodes' ! x) = ln_prev (nodes ! x)"
  shows "dseg nodes' p xs q = dseg nodes p xs q"
  using assms by (induction xs arbitrary: p) auto

lemma reduce_order_ok:
  assumes inv: "book_inv s" and lvl: "map_of (view s) price = Some (t, items)" and entry: "map_of items i = Some q"
  obtains s' where "reduce_order_quantity_at_level s price i d = Some (Inr (), s')" "book_inv s'"
    "view s' = map_level price (\<lambda>(t, xs). (max (as_i64 (t - d)) 0, reduce_id i d xs)) (view s)" "book_frame s s'"
proof -
  let ?p = "sl_list_pool s"
  obtain us a vs ys x zs where ok: "book_ok s (us @ a # vs)" and pa: "price_of (sl_arena s) a = price"
    and loc: "locate s price = Some (Some a)" and a: "a < length (sl_arena s)"
    and t: "sn_total_quantity_lots (sl_arena s ! a) = t" and x: "queue_ix s a = ys @ x # zs"
    and sc: "scan_queue ?p i (pl_front (sn_orders (sl_arena s ! a))) = Some (Some x)"
    and it: "ln_item (lp_nodes ?p ! x) = (i, q)" and xl: "x < length (lp_nodes ?p)"
    and ys: "\<forall>y \<in> set (items_at ?p ys). fst y \<noteq> i"
    by (rule entry_cases [OF assms])
  let ?rest = "concat (map (queue_ix s) (us @ vs))"
  define p1 where "p1 = ?p\<lparr>lp_nodes := (lp_nodes ?p)[x := (lp_nodes ?p ! x)\<lparr>ln_quantity_lots :=
      max (as_i64 (ln_quantity_lots (lp_nodes ?p ! x) - d)) 0\<rparr>]\<rparr>"
  have rep: "plist_rep (lp_nodes ?p) (sn_orders (sl_arena s ! a)) (ys @ x # zs)"
    using book_ok_rep [OF ok, of a] x by simp
  have p1: "length (lp_nodes p1) = length (lp_nodes ?p)" "lp_capacity p1 = lp_capacity ?p"
    "\<And>j. j \<noteq> x \<Longrightarrow> lp_nodes p1 ! j = lp_nodes ?p ! j"
    by (simp_all add: p1_def)
  have "ln_next (lp_nodes p1 ! j) = ln_next (lp_nodes ?p ! j) \<and> ln_prev (lp_nodes p1 ! j) = ln_prev (lp_nodes ?p ! j)" for j
    using xl by (cases "j = x") (simp_all add: p1_def)
  then have r1: "plist_rep (lp_nodes p1) (sn_orders (sl_arena s ! a)) (ys @ x # zs)"
    using rep dseg_links [OF p1(1)] by (simp add: plist_rep_def)
  have pi: "lp_inv ?p ((ys @ x # zs) @ ?rest)" using book_ok_pool_split [OF ok] x by simp
  then have i1: "lp_inv p1 ((ys @ x # zs) @ ?rest)" unfolding p1_def by (rule lp_inv_nodes) simp
  define s' where "s' = s\<lparr>sl_list_pool := p1, sl_arena := (sl_arena s)[a := (sl_arena s ! a)\<lparr>
      sn_orders := sn_orders (sl_arena s ! a),
      sn_total_quantity_lots := max (as_i64 (sn_total_quantity_lots (sl_arena s ! a) - d)) 0\<rparr>]\<rparr>"
  have op: "reduce_order_quantity_at_level s price i d = Some (Inr (), s')"
    using loc sc a xl by (simp add: reduce_order_quantity_at_level_def lp_modify_in p1_def node_modify_def s'_def)
  have frame: "lp_nodes p1 ! j = lp_nodes ?p ! j" if "b \<in> set (us @ vs)" "j \<in> set (queue_ix s b)" for b j
  proof -
    have "j \<in> set ?rest" using that by auto
    then have "j \<notin> set (ys @ x # zs)" using lp_inv_disjoint [OF pi] by blast
    then show ?thesis using p1(3) [of j] by auto
  qed
  have nx: "y \<noteq> x" if "y \<in> set ys \<union> set zs" for y using rep that by (auto simp: plist_rep_def)
  have "items_at p1 ys = items_at ?p ys" "items_at p1 zs = items_at ?p zs"
    using nx p1(3) by (auto simp: items_at_def)
  moreover have "ln_item (lp_nodes p1 ! x) = (i, max (as_i64 (q - d)) 0)"
    using it xl by (simp add: p1_def ln_item_def)
  ultimately have items: "reduce_id i d (items_at ?p ys @ (i, q) # items_at ?p zs) = items_at p1 (ys @ x # zs)"
    using reduce_id_split [OF ys] by simp
  show thesis
  proof (rule that [OF op])
    note upd = queue_update_view [OF ok pa r1 _ _ frame i1 s'_def,
        where f = "\<lambda>(t, xs). (max (as_i64 (t - d)) 0, reduce_id i d xs)"]
    show "book_inv s'" by (rule upd(1)) (use items in \<open>simp_all add: p1 x it\<close>)
    show "view s' = map_level price (\<lambda>(t, xs). (max (as_i64 (t - d)) 0, reduce_id i d xs)) (view s)"
      by (rule upd(2)) (use items in \<open>simp_all add: p1 x it\<close>)
    show "book_frame s s'" by (rule upd(3)) (use items in \<open>simp_all add: p1 x it\<close>)
  qed
qed

lemma missing_entry:
  assumes inv: "book_inv s" and lvl: "map_of (view s) price = Some (t, items)" and entry: "map_of items i = None"
  shows "remove_order_at_level s price i = Some (Inl OrderNotAtLevel, s)"
    and "reduce_order_quantity_at_level s price i d = Some (Inl OrderNotAtLevel, s)"
proof -
  obtain ns where "book_ok s ns" using inv book_inv_iff by blast
  moreover have "map_of (view s) price \<noteq> None" using lvl by simp
  ultimately obtain us a vs where ok: "book_ok s (us @ a # vs)"
    and cut: "cut s price us (a # vs)" and pa: "price_of (sl_arena s) a = price"
    and tg: "target s price (a # vs) = Some a" by (metis map_of_view_cases)
  have a: "a < length (sl_arena s)" using sl_shape_in [OF book_ok_shape [OF ok]] by auto
  have loc: "locate s price = Some (Some a)" using locate_eq [OF book_ok_shape [OF ok] cut] tg by simp
  have "items = items_at (sl_list_pool s) (queue_ix s a)"
    using map_of_view_present [OF ok pa] lvl by (simp add: level_at_def)
  then have "scan_queue (sl_list_pool s) i (pl_front (sn_orders (sl_arena s ! a))) = Some None"
    using scan_queue_rep [OF book_ok_rep [OF ok, of a]] entry find_ix_None by simp
  with loc a show "remove_order_at_level s price i = Some (Inl OrderNotAtLevel, s)"
    and "reduce_order_quantity_at_level s price i d = Some (Inl OrderNotAtLevel, s)"
    by (simp_all add: remove_order_at_level_def reduce_order_quantity_at_level_def)
qed

lemma locate_missing:
  assumes inv: "book_inv s" and lvl: "map_of (view s) price = None"
  shows "locate s price = Some None" and "get_node_at_price s price = Some None"
proof -
  obtain ns where ok: "book_ok s ns" using inv book_inv_iff by blast
  have "locate s price = Some None \<and> get_node_at_price s price = Some None"
  proof (rule price_split [OF book_ok_shape [OF ok], of price])
    fix us a vs assume "ns = us @ a # vs" "price_of (sl_arena s) a = price"
    then show ?thesis using map_of_view_present [of s us a vs price] ok lvl by simp
  next
    fix us vs assume "ns = us @ vs" "cut s price us vs" "target s price vs = None"
    then show ?thesis
      using locate_eq [of s us vs price] get_node_at_price_eq [of s us vs price] book_ok_shape [OF ok] by simp
  qed
  then show "locate s price = Some None" and "get_node_at_price s price = Some None" by simp_all
qed

lemma missing_level:
  assumes inv: "book_inv s" and lvl: "map_of (view s) price = None"
  shows "remove_order_at_level s price i = Some (Inl LevelNotFound, s)"
    and "reduce_order_quantity_at_level s price i d = Some (Inl LevelNotFound, s)"
  using locate_missing [OF assms] by (simp_all add: remove_order_at_level_def reduce_order_quantity_at_level_def)


subsection \<open>Inserting and removing levels\<close>

lemma pl_indices_new [simp]: "pl_indices nodes PooledList_new = []"
  by (rule plist_rep_indices [OF plist_rep_new])

lemma cut_take:
  assumes "cut s price us vs"
  shows "takeWhile (\<lambda>l. before (sl_order s) (fst l) price) (map (level_at s) (us @ vs)) = map (level_at s) us"
    and "dropWhile (\<lambda>l. before (sl_order s) (fst l) price) (map (level_at s) (us @ vs)) = map (level_at s) vs"
proof -
  have vs: "takeWhile (\<lambda>l. before (sl_order s) (fst l) price) (map (level_at s) vs) = []"
    using assms by (cases vs) (simp_all add: cut_def)
  have us: "\<forall>l \<in> set (map (level_at s) us). before (sl_order s) (fst l) price"
    using assms by (simp add: cut_def)
  show take: "takeWhile (\<lambda>l. before (sl_order s) (fst l) price) (map (level_at s) (us @ vs)) = map (level_at s) us"
    using takeWhile_append2 [of "map (level_at s) us" "\<lambda>l. before (sl_order s) (fst l) price"] us vs by simp
  then show "dropWhile (\<lambda>l. before (sl_order s) (fst l) price) (map (level_at s) (us @ vs)) = map (level_at s) vs"
    by (metis (no_types, lifting) map_append same_append_eq takeWhile_dropWhile_id)
qed

lemma level_at_same:
  assumes "price_of (sl_arena s') a = price_of (sl_arena s) a \<and>
       sn_total_quantity_lots (sl_arena s' ! a) = sn_total_quantity_lots (sl_arena s ! a) \<and>
       sn_orders (sl_arena s' ! a) = sn_orders (sl_arena s ! a)"
    and "sl_list_pool s' = sl_list_pool s"
  shows "level_at s' a = level_at s a" "queue_ix s' a = queue_ix s a"
  using assms by (simp_all add: level_at_def queue_ix_def)

lemma insert_level_view:
  assumes inv: "book_inv s"
  obtains r s' where "insert_level s price = Some (r, s')" "book_inv s'"
    "view s' = ins_level (sl_order s) price (view s)" "book_frame s s'"
    "r = (if price \<in> fst ` set (view s) then Inl LevelExists else Inr ())"
proof -
  obtain ns where ok: "book_ok s ns" using inv book_inv_iff by blast
  have sh: "sl_shape s ns" using ok by (rule book_ok_shape)
  show thesis
  proof (rule price_split [OF sh, of price])
    fix us a vs assume ns: "ns = us @ a # vs" and c: "cut s price us (a # vs)"
      and p: "price_of (sl_arena s) a = price" and t: "target s price (a # vs) = Some a"
    have "price \<in> fst ` set (view s)" using fst_set_view [OF ok] ns p by auto
    moreover have "insert_level s price = Some (Inl LevelExists, s)"
      using insert_level_exists [of s us "a # vs" price] sh ns c t by simp
    ultimately show thesis using inv by (intro that [of "Inl LevelExists" s]) (simp_all add: ins_level_def book_frame_def)
  next
    fix us vs assume ns: "ns = us @ vs" and c: "cut s price us vs" and t: "target s price vs = None"
    have sh': "sl_shape s (us @ vs)" using sh ns by simp
    obtain x s' where i: "insert_level s price = Some (Inr (), s')" and shx: "sl_shape s' (us @ x # vs)"
      and x: "x \<notin> set (us @ vs)" and pool: "sl_list_pool s' = sl_list_pool s" and fr: "sl_order s' = sl_order s"
      "sl_best_price s' = sl_best_price s"
      and new: "price_of (sl_arena s') x = price" "sn_total_quantity_lots (sl_arena s' ! x) = 0"
        "sn_orders (sl_arena s' ! x) = PooledList_new"
      and old: "\<forall>a \<in> set (us @ vs). price_of (sl_arena s') a = price_of (sl_arena s) a \<and>
       sn_total_quantity_lots (sl_arena s' ! a) = sn_total_quantity_lots (sl_arena s ! a) \<and>
       sn_orders (sl_arena s' ! a) = sn_orders (sl_arena s ! a)"
      using insert_level_ok [OF sh' c t] by metis
    have same: "level_at s' a = level_at s a" "queue_ix s' a = queue_ix s a" if "a \<in> set (us @ vs)" for a
      using level_at_same [OF bspec [OF old that] pool] by simp_all
    have qx: "queue_ix s' x = []" by (simp add: queue_ix_def new)
    have lx: "level_at s' x = (price, 0, [])" by (simp add: level_at_def new qx items_at_def)
    have qs: "concat (map (queue_ix s') (us @ x # vs)) = concat (map (queue_ix s) (us @ vs))"
      using same(2) qx by (simp cong: map_cong)
    have rep: "plist_rep (lp_nodes (sl_list_pool s')) (sn_orders (sl_arena s' ! a)) (queue_ix s' a)"
      if "a \<in> set (us @ x # vs)" for a
    proof (cases "a = x")
      case True
      then show ?thesis by (simp add: new qx plist_rep_new)
    next
      case False
      with that have "a \<in> set (us @ vs)" by auto
      then show ?thesis using book_ok_rep [OF ok, of a] ns same(2) old pool by simp
    qed
    have ok': "book_ok s' (us @ x # vs)"
      unfolding book_ok_def using shx rep qs book_ok_pool [OF ok] ns pool by simp
    have "price \<notin> fst ` set (view s)"
      using absent_price [OF sh' c t] fst_set_view [OF ok] ns by auto
    moreover from this have "view s' = ins_level (sl_order s) price (view s)"
      using cut_take [OF c] same(1) lx by (simp add: book_ok_view [OF ok] book_ok_view [OF ok'] ins_level_def ns)
    ultimately show thesis
      using i ok' book_inv_iff fr pool by (intro that [of "Inr ()" s']) (auto simp: book_frame_def)
  qed
qed

lemma remove_level_view:
  assumes inv: "book_inv s" and lvl: "map_of (view s) price = Some (t, [])"
  obtains s' where "remove_level s price = Some (Inr (), s')" "book_inv s'"
    "view s' = del_level price (view s)" "book_frame s s'"
proof -
  obtain ns where "book_ok s ns" using inv book_inv_iff by blast
  moreover have "map_of (view s) price \<noteq> None" using lvl by simp
  ultimately obtain us a vs where ok: "book_ok s (us @ a # vs)"
    and cut: "cut s price us (a # vs)" and pa: "price_of (sl_arena s) a = price"
    by (metis map_of_view_cases)
  have sh: "sl_shape s (us @ a # vs)" by (rule book_ok_shape [OF ok])
  have qa: "queue_ix s a = []"
    using map_of_view_present [OF ok pa] lvl by (simp add: level_at_def items_at_def)
  obtain s' where r: "remove_level s price = Some (Inr (), s')" and sh': "sl_shape s' (us @ vs)"
    and pool: "sl_list_pool s' = sl_list_pool s" and fr: "sl_order s' = sl_order s" "sl_best_price s' = sl_best_price s"
    and old: "\<forall>a \<in> set (us @ vs). price_of (sl_arena s') a = price_of (sl_arena s) a \<and>
       sn_total_quantity_lots (sl_arena s' ! a) = sn_total_quantity_lots (sl_arena s ! a) \<and>
       sn_orders (sl_arena s' ! a) = sn_orders (sl_arena s ! a)"
    using remove_level_ok [OF sh cut pa] by metis
  have same: "level_at s' b = level_at s b" "queue_ix s' b = queue_ix s b" if "b \<in> set (us @ vs)" for b
    using level_at_same [OF bspec [OF old that] pool] by simp_all
  have qs: "concat (map (queue_ix s') (us @ vs)) = concat (map (queue_ix s) (us @ a # vs))"
    using same(2) qa by (simp cong: map_cong)
  have rep: "plist_rep (lp_nodes (sl_list_pool s')) (sn_orders (sl_arena s' ! b)) (queue_ix s' b)"
    if "b \<in> set (us @ vs)" for b
    using book_ok_rep [OF ok, of b] that same(2) [OF that] old pool by auto
  have ok': "book_ok s' (us @ vs)"
    unfolding book_ok_def using sh' rep qs book_ok_pool [OF ok] pool by simp
  have "filter (\<lambda>l. fst l \<noteq> price) (map (level_at s) (us @ vs)) = map (level_at s) (us @ vs)"
    using other_price [OF sh] pa by (intro filter_True) auto
  then have "view s' = del_level price (view s)"
    using same(1) pa by (simp add: book_ok_view [OF ok] book_ok_view [OF ok'] del_level_def)
  with r ok' book_inv_iff fr pool show thesis
    by (intro that [of s']) (auto simp: book_frame_def)
qed

lemma remove_level_missing_view:
  assumes inv: "book_inv s" and lvl: "map_of (view s) price = None"
  shows "remove_level s price = Some (Inl LevelNotFound, s)"
proof -
  obtain ns where ok: "book_ok s ns" using inv book_inv_iff by blast
  show ?thesis
  proof (rule price_split [OF book_ok_shape [OF ok], of price])
    fix us a vs assume "ns = us @ a # vs" "price_of (sl_arena s) a = price"
    then show ?thesis using map_of_view_present [of s us a vs price] ok lvl by simp
  next
    fix us vs assume "ns = us @ vs" "cut s price us vs" "target s price vs = None"
    then show ?thesis using remove_level_missing [of s us vs price] book_ok_shape [OF ok] by simp
  qed
qed

subsection \<open>Observers\<close>

lemma get_node_view:
  assumes inv: "book_inv s"
  obtains (missing) "get_node_at_price s price = Some None" "map_of (view s) price = None"
    | (found) a where "get_node_at_price s price = Some (Some a)" "node_at s a = Some (sl_arena s ! a)"
       "map_of (view s) price = Some (sn_total_quantity_lots (sl_arena s ! a), items_at (sl_list_pool s) (queue_ix s a))"
       "plist_rep (lp_nodes (sl_list_pool s)) (sn_orders (sl_arena s ! a)) (queue_ix s a)"
       "sn_price_ticks (sl_arena s ! a) = price"
proof -
  obtain ns where ok: "book_ok s ns" using inv book_inv_iff by blast
  show thesis
  proof (rule price_split [OF book_ok_shape [OF ok], of price])
    fix us a vs assume ns: "ns = us @ a # vs" and p: "price_of (sl_arena s) a = price"
      and c: "cut s price us (a # vs)" "target s price (a # vs) = Some a"
    show thesis
    proof (rule found)
      show "get_node_at_price s price = Some (Some a)"
        using get_node_at_price_eq [of s us "a # vs" price] book_ok_shape [OF ok] ns c by simp
      show "node_at s a = Some (sl_arena s ! a)" using sl_shape_in [OF book_ok_shape [OF ok]] ns by simp
      show "map_of (view s) price = Some (sn_total_quantity_lots (sl_arena s ! a), items_at (sl_list_pool s) (queue_ix s a))"
        using map_of_view_present [of s us a vs price] ok ns p by (simp add: level_at_def)
      show "plist_rep (lp_nodes (sl_list_pool s)) (sn_orders (sl_arena s ! a)) (queue_ix s a)"
        using book_ok_rep [OF ok, of a] ns by simp
      show "sn_price_ticks (sl_arena s ! a) = price" using p by (simp add: price_of_def)
    qed
  next
    fix us vs assume "ns = us @ vs" "cut s price us vs" "target s price vs = None"
    then show thesis
      using missing get_node_at_price_eq [of s us vs price] book_ok_shape [OF ok] map_of_view_absent [of s us vs price] ok
      by simp
  qed
qed


text \<open>The two lookups the engine makes: is the level empty, and which order is first in it.\<close>

definition level_is_empty :: "SkipList \<Rightarrow> PriceTicks \<Rightarrow> bool \<Rightarrow> bool exec" where
  "level_is_empty s price dflt = do {
     found \<leftarrow> get_node_at_price s price;
     (case found of
        None \<Rightarrow> Some dflt
      | Some a \<Rightarrow> do { n \<leftarrow> node_at s a; Some (pl_is_empty (sn_orders n)) })
   }"

definition front_order_id :: "SkipList \<Rightarrow> PriceTicks \<Rightarrow> nat option exec" where
  "front_order_id s price = do {
     found \<leftarrow> get_node_mut s price;
     (case found of
        None \<Rightarrow> Some None
      | Some a \<Rightarrow> do {
          n \<leftarrow> node_at s a;
          Some (case pl_front (sn_orders n) of
                  None \<Rightarrow> None
                | Some node_idx \<Rightarrow> map_option ln_order_id (lp_get (sl_list_pool s) node_idx))
        })
   }"

lemma level_is_empty_view:
  assumes "book_inv s"
  shows "level_is_empty s price dflt =
    Some (case map_of (view s) price of None \<Rightarrow> dflt | Some (t, xs) \<Rightarrow> xs = [])"
  by (rule get_node_view [OF assms, of price])
     (auto simp: level_is_empty_def plist_rep_is_empty items_at_def)

lemma front_order_id_view:
  assumes "book_inv s"
  shows "front_order_id s price =
    Some (case map_of (view s) price of None \<Rightarrow> None | Some (t, xs) \<Rightarrow> map_option fst (hd_or None xs))"
proof (rule get_node_view [OF assms, of price])
  assume "get_node_at_price s price = Some None" "map_of (view s) price = None"
  then show ?thesis by (simp add: front_order_id_def get_node_mut_def get_node_at_price_def)
next
  fix a assume h: "get_node_at_price s price = Some (Some a)" "node_at s a = Some (sl_arena s ! a)"
       "map_of (view s) price = Some (sn_total_quantity_lots (sl_arena s ! a), items_at (sl_list_pool s) (queue_ix s a))"
    and rep: "plist_rep (lp_nodes (sl_list_pool s)) (sn_orders (sl_arena s ! a)) (queue_ix s a)"
  show ?thesis
  proof (cases "queue_ix s a")
    case Nil
    with h plist_rep_front [OF rep] show ?thesis
      by (simp add: front_order_id_def get_node_mut_def get_node_at_price_def items_at_def)
  next
    case (Cons x xs)
    then have "x < length (lp_nodes (sl_list_pool s))" using plist_rep_in_range [OF rep, of x] by simp
    with Cons h plist_rep_front [OF rep] show ?thesis
      by (simp add: front_order_id_def get_node_mut_def get_node_at_price_def lp_get_def ln_item_def)
  qed
qed

definition cache_ok :: "SkipList \<Rightarrow> bool" where
  "cache_ok s \<longleftrightarrow> cache_fits (sl_order s) (sl_best_price s) (makers (view s))"

lemma best_with_orders_chain:
  assumes ok: "book_ok s ns"
  shows "chain (sl_arena s) 0 a as \<Longrightarrow> set as \<subseteq> set ns \<Longrightarrow> a < length (sl_arena s) \<Longrightarrow>
    best_with_orders_loop s a = Some (find (\<lambda>b. queue_ix s b \<noteq> []) as)"
proof (induction as arbitrary: a)
  case Nil
  then show ?case
    using fwd_at_in [OF book_ok_shape [OF ok], of a 0] by (simp add: best_with_orders_loop.simps [of s a])
next
  case (Cons b bs)
  have b: "b < length (sl_arena s)" using Cons.prems(2) sl_shape_in [OF book_ok_shape [OF ok]] by simp
  have "pl_is_empty (sn_orders (sl_arena s ! b)) \<longleftrightarrow> queue_ix s b = []"
    using plist_rep_is_empty [OF book_ok_rep [OF ok]] Cons.prems(2) by simp
  moreover have "best_with_orders_loop s b = Some (find (\<lambda>b. queue_ix s b \<noteq> []) bs)"
    using Cons b by simp
  ultimately show ?case
    using fwd_at_in [OF book_ok_shape [OF ok], of a 0] Cons.prems b
    by (simp add: best_with_orders_loop.simps [of s a])
qed

lemma find_map_levels:
  "find (\<lambda>l. snd (snd l) \<noteq> []) (map (level_at s) ns) = map_option (level_at s) (find (\<lambda>b. queue_ix s b \<noteq> []) ns)"
  by (induction ns) (simp_all add: level_at_def items_at_def)

lemma best_with_orders_view:
  assumes inv: "book_inv s"
  obtains (none) "best_with_orders s = Some None" "view_best (view s) = None"
    | (some) a where "best_with_orders s = Some (Some a)" "node_at s a = Some (sl_arena s ! a)"
        "view_best (view s) = Some (sn_price_ticks (sl_arena s ! a))"
proof -
  obtain ns where ok: "book_ok s ns" using inv book_inv_iff by blast
  note sh = book_ok_shape [OF ok]
  have "0 < length (sl_arena s)" using sl_shape_in [OF sh, of 0] by simp
  then have b: "best_with_orders s = Some (find (\<lambda>b. queue_ix s b \<noteq> []) ns)"
    using best_with_orders_chain [OF ok, of 0 ns] sl_shape_chain [OF sh, of 0] sl_shape_head [OF sh]
    by (simp add: best_with_orders_def)
  have bp: "view_best (view s) = map_option (price_of (sl_arena s)) (find (\<lambda>b. queue_ix s b \<noteq> []) ns)"
    by (simp add: view_best_def book_ok_view [OF ok] find_map_levels option.map_comp comp_def)
  show thesis
  proof (cases "find (\<lambda>b. queue_ix s b \<noteq> []) ns")
    case None
    with b bp show thesis by (intro none) simp_all
  next
    case (Some a)
    then have "a \<in> set ns" by (auto simp: find_Some_iff)
    then have "a < length (sl_arena s)" using sl_shape_in [OF sh] by simp
    with b bp Some show thesis by (intro some) (simp_all add: price_of_def)
  qed
qed

lemma get_best_price_cached_view:
  assumes inv: "book_inv s" and cache: "cache_ok s"
  shows "get_best_price_cached s = Some (view_best (view s), s\<lparr>sl_best_price := view_best (view s)\<rparr>)"
proof -
  have miss: "(do { b \<leftarrow> best_with_orders s;
          p \<leftarrow> (case b of None \<Rightarrow> Some None
               | Some a \<Rightarrow> do { n \<leftarrow> node_at s a; Some (Some (sn_price_ticks n)) });
          Some (p, s\<lparr>sl_best_price := p\<rparr>) }) = Some (view_best (view s), s\<lparr>sl_best_price := view_best (view s)\<rparr>)"
    by (rule best_with_orders_view [OF inv]) simp_all
  show ?thesis
  proof (cases "sl_best_price s")
    case None
    with miss show ?thesis by (simp add: get_best_price_cached_def)
  next
    case (Some p)
    show ?thesis
    proof (rule get_node_view [OF inv, of p])
      assume "get_node_at_price s p = Some None"
      with Some miss show ?thesis by (simp add: get_best_price_cached_def)
    next
      fix a assume h: "get_node_at_price s p = Some (Some a)" "node_at s a = Some (sl_arena s ! a)"
         "map_of (view s) p = Some (sn_total_quantity_lots (sl_arena s ! a), items_at (sl_list_pool s) (queue_ix s a))"
        and rep: "plist_rep (lp_nodes (sl_list_pool s)) (sn_orders (sl_arena s ! a)) (queue_ix s a)"
      show ?thesis
      proof (cases "queue_ix s a")
        case Nil
        with Some miss h plist_rep_is_empty [OF rep] show ?thesis by (simp add: get_best_price_cached_def)
      next
        case (Cons x xs)
        have "view_best (view s) = Some p"
          using cache_hit [OF view_sorted [OF inv], of p] h(3) Cons cache Some
          by (simp add: cache_ok_def)
        moreover have "s\<lparr>sl_best_price := Some p\<rparr> = s" using Some by simp
        ultimately show ?thesis
          using Some h Cons plist_rep_is_empty [OF rep] by (simp add: get_best_price_cached_def)
      qed
    qed
  qed
qed


lemma best_view:
  assumes inv: "book_inv s"
  shows "best s = Some (hd_or None (level_addrs s))"
    and "a \<in> set (level_addrs s) \<Longrightarrow> node_at s a = Some (sl_arena s ! a)"
proof -
  have sh: "sl_shape s (level_addrs s)" using inv by (simp add: book_inv_def book_ok_def)
  show "best s = Some (hd_or None (level_addrs s))"
    using sl_shape_chain [OF sh, of 0] fwd_at_in [OF sh, of 0 0] sl_shape_in [OF sh, of 0] sl_shape_head [OF sh]
    by (cases "level_addrs s") (simp_all add: best_def)
  show "a \<in> set (level_addrs s) \<Longrightarrow> node_at s a = Some (sl_arena s ! a)"
    using sl_shape_in [OF sh, of a] by simp
qed

lemma top_levels_chain:
  assumes sh: "sl_shape s ns"
  shows "chain (sl_arena s) 0 a as \<Longrightarrow> set as \<subseteq> set ns \<Longrightarrow> a < length (sl_arena s) \<Longrightarrow>
    top_levels_loop s n a = Some (take n (map (\<lambda>b. (sn_price_ticks (sl_arena s ! b), sn_total_quantity_lots (sl_arena s ! b))) as))"
proof (induction n arbitrary: a as)
  case (Suc n)
  show ?case
  proof (cases as)
    case Nil
    with Suc.prems fwd_at_in [OF sh, of a 0] show ?thesis by simp
  next
    case (Cons b bs)
    then have b: "b < length (sl_arena s)" using Suc.prems(2) sl_shape_in [OF sh] by simp
    from Cons Suc.prems have "top_levels_loop s n b =
        Some (take n (map (\<lambda>b. (sn_price_ticks (sl_arena s ! b), sn_total_quantity_lots (sl_arena s ! b))) bs))"
      by (intro Suc.IH b) auto
    with Cons b Suc.prems fwd_at_in [OF sh, of a 0] show ?thesis by simp
  qed
qed simp

lemma top_levels_loop_view:
  assumes inv: "book_inv s"
  shows "top_levels_loop s n (sl_head s) = Some (take n (depth (view s)))"
proof -
  have sh: "sl_shape s (level_addrs s)" using inv by (simp add: book_inv_def book_ok_def)
  show ?thesis
    using top_levels_chain [OF sh, of 0 "level_addrs s" n] sl_shape_chain [OF sh, of 0] sl_shape_in [OF sh, of 0]
      sl_shape_head [OF sh]
    by (simp add: depth_def view_def level_at_def price_of_def comp_def)
qed

lemma get_top_levels_view:
  "book_inv s \<Longrightarrow> get_top_levels s n = Some (take n (depth (view s)))"
  by (simp add: get_top_levels_def top_levels_loop_view)

lemma fill_top_levels_view:
  "book_inv s \<Longrightarrow> fill_top_levels s out =
     Some (min (length out) (length (view s)),
       take (length out) (depth (view s)) @ drop (min (length out) (length (view s))) out)"
  by (simp add: fill_top_levels_def top_levels_loop_view depth_def min.commute)

text \<open>The fillability scan of a fill-or-kill order.\<close>

lemma has_cumulative_chain:
  assumes sh: "sl_shape s ns"
  shows "chain (sl_arena s) 0 a as \<Longrightarrow> set as \<subseteq> set ns \<Longrightarrow> a < length (sl_arena s) \<Longrightarrow>
    has_cumulative_loop s goal limit mkt buy a av =
      Some (cumulative (acceptable mkt buy limit) goal av (map (level_at s) as))"
proof (induction as arbitrary: a av)
  case Nil
  then show ?case using fwd_at_in [OF sh, of a 0] by (simp add: has_cumulative_loop.simps [of s goal limit mkt buy a])
next
  case (Cons b bs)
  have b: "b < length (sl_arena s)" using Cons.prems(2) sl_shape_in [OF sh] by simp
  have "has_cumulative_loop s goal limit mkt buy b av' =
      Some (cumulative (acceptable mkt buy limit) goal av' (map (level_at s) bs))" for av'
    using Cons b by simp
  moreover obtain xs where "level_at s b = (sn_price_ticks (sl_arena s ! b), sn_total_quantity_lots (sl_arena s ! b), xs)"
    by (simp add: level_at_def price_of_def)
  ultimately show ?case
    using b Cons.prems fwd_at_in [OF sh, of a 0]
    by (subst has_cumulative_loop.simps) (simp add: Let_def)
qed

lemma has_cumulative_view:
  assumes inv: "book_inv s"
  shows "has_cumulative_quantity_until s goal limit mkt buy =
    Some (cumulative (acceptable mkt buy limit) goal 0 (view s))"
proof -
  have sh: "sl_shape s (level_addrs s)" using inv by (simp add: book_inv_def book_ok_def)
  show ?thesis
    using has_cumulative_chain [OF sh, of 0 "level_addrs s"] sl_shape_chain [OF sh, of 0] sl_shape_in [OF sh, of 0]
      sl_shape_head [OF sh]
    by (simp add: has_cumulative_quantity_until_def view_def)
qed

subsection \<open>The empty book, the cache and clearing\<close>

lemma book_ok_new:
  assumes "n < 2 ^ 64"
  shows "book_ok (new_with_pool d n) []"
  using lp_inv_new [OF assms]
  by (simp add: book_ok_def sl_shape_def new_with_pool_def Let_def lessThan_Suc fwd_def as_u64_def)

lemma new_book:
  assumes "n < 2 ^ 64"
  shows "book_inv (new_with_pool d n)" and "view (new_with_pool d n) = []" and "cache_ok (new_with_pool d n)"
    and "sl_order (new_with_pool d n) = d" and "lp_capacity (sl_list_pool (new_with_pool d n)) = n"
proof -
  show "book_inv (new_with_pool d n)" unfolding book_inv_iff by (rule exI, rule book_ok_new [OF assms])
  show "view (new_with_pool d n) = []" using book_ok_view [OF book_ok_new [OF assms]] by simp
qed (simp_all add: cache_ok_def cache_fits_def new_with_pool_def ListNodePool_new_def Let_def)

lemma cache_update [simp]:
  "level_addrs (s\<lparr>sl_best_price := c\<rparr>) = level_addrs s" "view (s\<lparr>sl_best_price := c\<rparr>) = view s"
  "book_inv (s\<lparr>sl_best_price := c\<rparr>) = book_inv s"
proof -
  show 1: "level_addrs (s\<lparr>sl_best_price := c\<rparr>) = level_addrs s" by (simp add: level_addrs_def)
  have q: "queue_ix (s\<lparr>sl_best_price := c\<rparr>) = queue_ix s" by (rule ext) (simp add: queue_ix_def)
  then have "level_at (s\<lparr>sl_best_price := c\<rparr>) = level_at s" by (intro ext) (simp add: level_at_def)
  with 1 show "view (s\<lparr>sl_best_price := c\<rparr>) = view s" by (simp add: view_def)
  show "book_inv (s\<lparr>sl_best_price := c\<rparr>) = book_inv s"
    by (simp add: book_inv_def book_ok_def 1 q sl_shape_def)
qed

lemma cache_ok_None: "sl_best_price s = None \<Longrightarrow> cache_ok s"
  by (simp add: cache_ok_def cache_fits_def)

lemma cache_ok_best:
  assumes "book_inv s"
  shows "cache_ok (s\<lparr>sl_best_price := view_best (view s)\<rparr>)"
  using cache_fits_best [OF view_sorted [OF assms]] by (simp add: cache_ok_def)

subsection \<open>The contract of an order book\<close>

text \<open>
  What the engine relies on of the trait \<open>OrderBook\<close>. \<open>frame s s'\<close> says that an operation kept
  the direction, the capacity and the cached best price. Client facts: resting an order puts it
  behind every maker of the same or a better price, taking an order out and pruning its level
  removes exactly it, and the first level can be reduced and removed in place.
\<close>

locale order_book =
  fixes inv :: "'b \<Rightarrow> bool" and levels :: "'b \<Rightarrow> level_view list" and dir :: "'b \<Rightarrow> SortOrder"
    and cap :: "'b \<Rightarrow> nat" and frame :: "'b \<Rightarrow> 'b \<Rightarrow> bool"
    and ins :: "'b \<Rightarrow> PriceTicks \<Rightarrow> ((BookError + unit) \<times> 'b) exec"
    and add :: "'b \<Rightarrow> PriceTicks \<Rightarrow> nat \<Rightarrow> QuantityLots \<Rightarrow> ((BookError + unit) \<times> 'b) exec"
    and rem :: "'b \<Rightarrow> PriceTicks \<Rightarrow> nat \<Rightarrow> ((BookError + unit) \<times> 'b) exec"
    and red :: "'b \<Rightarrow> PriceTicks \<Rightarrow> nat \<Rightarrow> QuantityLots \<Rightarrow> ((BookError + unit) \<times> 'b) exec"
    and del :: "'b \<Rightarrow> PriceTicks \<Rightarrow> ((BookError + unit) \<times> 'b) exec"
    and is_empty :: "'b \<Rightarrow> PriceTicks \<Rightarrow> bool \<Rightarrow> bool exec"
    and cached :: "'b \<Rightarrow> PriceTicks option" and best_of :: "'b \<Rightarrow> (PriceTicks option \<times> 'b) exec"
  assumes levels_sorted: "inv s \<Longrightarrow> sorted_wrt (before (dir s)) (map fst (levels s))"
    and frame_dir: "frame s s' \<Longrightarrow> dir s' = dir s"
    and frame_cap: "frame s s' \<Longrightarrow> cap s' = cap s"
    and frame_cached: "frame s s' \<Longrightarrow> cached s' = cached s"
    and frame_trans: "frame s s' \<Longrightarrow> frame s' s'' \<Longrightarrow> frame s s''"
    and ins_law: "inv s \<Longrightarrow> \<exists>r s'. ins s p = Some (r, s') \<and> inv s' \<and> frame s s' \<and>
      levels s' = ins_level (dir s) p (levels s)"
    and add_law: "inv s \<Longrightarrow> length (makers (levels s)) < cap s \<Longrightarrow> map_of (levels s) p \<noteq> None \<Longrightarrow>
      \<exists>s'. add s p i q = Some (Inr (), s') \<and> inv s' \<and> frame s s' \<and>
        levels s' = map_level p (\<lambda>(t, xs). (as_i64 (t + q), xs @ [(i, q)])) (levels s)"
    and rem_law: "inv s \<Longrightarrow> map_of (levels s) p = Some (t, xs) \<Longrightarrow> map_of xs i = Some q \<Longrightarrow>
      \<exists>s'. rem s p i = Some (Inr (), s') \<and> inv s' \<and> frame s s' \<and> levels s' = take_order p i q (levels s)"
    and red_law: "inv s \<Longrightarrow> map_of (levels s) p = Some (t, xs) \<Longrightarrow> map_of xs i = Some q \<Longrightarrow>
      \<exists>s'. red s p i n = Some (Inr (), s') \<and> inv s' \<and> frame s s' \<and>
        levels s' = map_level p (\<lambda>(t, xs). (max (as_i64 (t - n)) 0, reduce_id i n xs)) (levels s)"
    and del_law: "inv s \<Longrightarrow> map_of (levels s) p = Some (t, []) \<Longrightarrow>
      \<exists>s'. del s p = Some (Inr (), s') \<and> inv s' \<and> frame s s' \<and> levels s' = del_level p (levels s)"
    and is_empty_law: "inv s \<Longrightarrow>
      is_empty s p b = Some (case map_of (levels s) p of None \<Rightarrow> b | Some (t, xs) \<Rightarrow> xs = [])"
    and best_law: "inv s \<Longrightarrow> cache_fits (dir s) (cached s) (makers (levels s)) \<Longrightarrow>
      \<exists>s'. best_of s = Some (view_best (levels s), s') \<and> inv s' \<and> levels s' = levels s \<and> dir s' = dir s \<and>
        cap s' = cap s \<and> cached s' = view_best (levels s)"
begin

text \<open>A sound cache stays sound as long as no maker with a new price appears.\<close>

lemma cache_kept:
  assumes "cache_fits (dir s) (cached s) (makers (levels s))" and "frame s s'"
    and "fst ` set (makers (levels s')) \<subseteq> fst ` set (makers (levels s))"
  shows "cache_fits (dir s') (cached s') (makers (levels s'))"
  using cache_fits_subset [OF assms(1,3)] frame_dir [OF assms(2)] frame_cached [OF assms(2)] by simp

lemma best_head:
  assumes "inv s" and "cache_fits (dir s) (cached s) (makers (levels s))" and "book_wf (levels s)"
  shows "\<exists>s'. best_of s = Some (case levels s of [] \<Rightarrow> None | l # _ \<Rightarrow> Some (fst l), s') \<and> inv s' \<and>
    levels s' = levels s \<and> dir s' = dir s \<and> cap s' = cap s \<and>
    cache_fits (dir s') (cached s') (makers (levels s'))"
  using best_law [OF assms(1,2)] view_best_wf [OF assms(3)] cache_fits_best [OF levels_sorted [OF assms(1)]]
  by auto

lemma rest_order:
  assumes "inv s" and "length (makers (levels s)) < cap s"
  shows "\<exists>r s1 s2. ins s p = Some (r, s1) \<and> add s1 p i q = Some (Inr (), s2) \<and> inv s2 \<and> frame s s2 \<and>
    levels s2 = rest_level (dir s) p i q (levels s)"
proof -
  obtain r s1 where s1: "ins s p = Some (r, s1)" "inv s1" "frame s s1"
    "levels s1 = ins_level (dir s) p (levels s)" using ins_law [OF assms(1)] by blast
  have "makers (levels s1) = makers (levels s)" unfolding s1(4) by (rule makers_ins_level)
  then have room: "length (makers (levels s1)) < cap s1" using assms(2) frame_cap [OF s1(3)] by simp
  have "map_of (levels s1) p \<noteq> None" unfolding s1(4) by (rule map_of_ins_level)
  from add_law [OF s1(2) room this] obtain s2 where s2: "add s1 p i q = Some (Inr (), s2)" "inv s2" "frame s1 s2"
    "levels s2 = map_level p (\<lambda>(t, xs). (as_i64 (t + q), xs @ [(i, q)])) (levels s1)" by blast
  have "levels s2 = rest_level (dir s) p i q (levels s)"
    unfolding s2(4) s1(4) by (rule rest_level_eq [OF levels_sorted [OF assms(1)]])
  with s1 s2 frame_trans show ?thesis by blast
qed

lemma prune_order:
  assumes "inv s" and lv: "map_of (levels s) p = Some (t, xs)"
  shows "\<exists>s'. (do { e \<leftarrow> is_empty s p True; if e then do { (_, s) \<leftarrow> del s p; Some s } else Some s }) = Some s' \<and>
    inv s' \<and> (s' = s \<or> frame s s') \<and> levels s' = prune p (levels s)"
proof (cases "xs = []")
  case True
  then obtain s' where "del s p = Some (Inr (), s')" "inv s'" "frame s s'" "levels s' = del_level p (levels s)"
    using del_law [OF assms(1)] lv by blast
  with True lv is_empty_law [OF assms(1)] show ?thesis by (simp add: prune_def)
next
  case False
  with assms is_empty_law [OF assms(1)] show ?thesis by (simp add: prune_def)
qed

lemma drop_order:
  assumes "inv s" and lv: "map_of (levels s) p = Some (t, xs)" and en: "map_of xs i = Some q"
  shows "\<exists>s1 s'. rem s p i = Some (Inr (), s1) \<and> inv s1 \<and>
    (do { e \<leftarrow> is_empty s1 p True; if e then do { (_, s) \<leftarrow> del s1 p; Some s } else Some s1 }) = Some s' \<and>
    inv s' \<and> frame s s' \<and> levels s' = prune p (take_order p i q (levels s))"
proof -
  obtain s1 where s1: "rem s p i = Some (Inr (), s1)" "inv s1" "frame s s1" "levels s1 = take_order p i q (levels s)"
    using rem_law [OF assms] by blast
  have "map_of (levels s1) p = Some (as_i64 (t - q), remove_id i xs)"
    unfolding s1(4) take_order_def using lv by (simp add: map_of_map_level)
  from prune_order [OF s1(2) this] obtain s' where s': "(do { e \<leftarrow> is_empty s1 p True;
      if e then do { (_, s) \<leftarrow> del s1 p; Some s } else Some s1 }) = Some s'" "inv s'" "s' = s1 \<or> frame s1 s'"
    "levels s' = prune p (levels s1)" by blast
  have "frame s s'" using s'(3) s1(3) frame_trans by blast
  with s1 s' show ?thesis by (intro exI [of _ s1] exI [of _ s']) simp
qed

lemma reduce_head:
  assumes "inv s" and lv: "levels s = (p, t, (i, q) # xs) # V"
  shows "\<exists>s'. red s p i n = Some (Inr (), s') \<and> inv s' \<and> frame s s' \<and>
    levels s' = (p, max (as_i64 (t - n)) 0, (i, max (as_i64 (q - n)) 0) # xs) # V"
proof -
  have "p \<notin> fst ` set V" using levels_sorted [OF assms(1)] lv by auto
  then show ?thesis using red_law [OF assms(1), of p t "(i, q) # xs" i q n] lv by (simp add: map_level_notin)
qed

lemma remove_head:
  assumes "inv s" and lv: "levels s = (p, t, (i, q) # xs) # V"
  shows "\<exists>s1 s'. rem s p i = Some (Inr (), s1) \<and> inv s1 \<and>
    (do { e \<leftarrow> is_empty s1 p True; if e then do { (_, s) \<leftarrow> del s1 p; Some s } else Some s1 }) = Some s' \<and>
    inv s' \<and> frame s s' \<and> levels s' = (if xs = [] then V else (p, as_i64 (t - q), xs) # V)"
proof -
  have p: "p \<notin> fst ` set V" using levels_sorted [OF assms(1)] lv by auto
  have "prune p (take_order p i q (levels s)) = (if xs = [] then V else (p, as_i64 (t - q), xs) # V)"
    using p by (simp add: lv take_order_def map_level_notin prune_def del_level_notin)
  then show ?thesis using drop_order [OF assms(1), of p t "(i, q) # xs" i q] lv by simp
qed

end

text \<open>The skip list keeps the contract.\<close>

lemma resting_count_makers: "resting_count s = length (makers (view s))"
  by (simp add: resting_count_def makers_def length_concat comp_def level_makers_def case_prod_beta)

interpretation slb: order_book book_inv view sl_order "\<lambda>s. lp_capacity (sl_list_pool s)" book_frame
  insert_level add_order_at_level remove_order_at_level reduce_order_quantity_at_level remove_level
  level_is_empty sl_best_price get_best_price_cached
proof unfold_locales
  fix s p t xs i q n
  show "\<exists>r s'. insert_level s p = Some (r, s') \<and> book_inv s' \<and> book_frame s s' \<and>
      view s' = ins_level (sl_order s) p (view s)" if "book_inv s"
    using insert_level_view [OF that, of p] by metis
  show "\<exists>s'. add_order_at_level s p i q = Some (Inr (), s') \<and> book_inv s' \<and> book_frame s s' \<and>
      view s' = map_level p (\<lambda>(t, xs). (as_i64 (t + q), xs @ [(i, q)])) (view s)"
    if "book_inv s" "length (makers (view s)) < lp_capacity (sl_list_pool s)" "map_of (view s) p \<noteq> None"
    using add_order_ok [of s p i q] that resting_count_makers by metis
  show "\<exists>s'. remove_order_at_level s p i = Some (Inr (), s') \<and> book_inv s' \<and> book_frame s s' \<and>
      view s' = take_order p i q (view s)"
    if "book_inv s" "map_of (view s) p = Some (t, xs)" "map_of xs i = Some q"
    unfolding take_order_def using remove_order_ok [OF that] by metis
  show "\<exists>s'. reduce_order_quantity_at_level s p i n = Some (Inr (), s') \<and> book_inv s' \<and> book_frame s s' \<and>
      view s' = map_level p (\<lambda>(t, xs). (max (as_i64 (t - n)) 0, reduce_id i n xs)) (view s)"
    if "book_inv s" "map_of (view s) p = Some (t, xs)" "map_of xs i = Some q"
    using reduce_order_ok [OF that, of n] by metis
  show "\<exists>s'. remove_level s p = Some (Inr (), s') \<and> book_inv s' \<and> book_frame s s' \<and> view s' = del_level p (view s)"
    if "book_inv s" "map_of (view s) p = Some (t, [])"
    using remove_level_view [OF that] by metis
  show "\<exists>s'. get_best_price_cached s = Some (view_best (view s), s') \<and> book_inv s' \<and> view s' = view s \<and>
      sl_order s' = sl_order s \<and> lp_capacity (sl_list_pool s') = lp_capacity (sl_list_pool s) \<and>
      sl_best_price s' = view_best (view s)"
    if "book_inv s" "cache_fits (sl_order s) (sl_best_price s) (makers (view s))"
    using get_best_price_cached_view [OF that(1)] that by (simp add: cache_ok_def)
qed (simp_all add: view_sorted book_frame_def level_is_empty_view)

end
