(* ===== verification/Float64.thy ===== *)
theory Float64
  imports Complex_Main "HOL-Library.Log_Nat"
begin

text \<open>
  The \<open>f64\<close> arithmetic of the language, as far as the modelled code uses it.

  A value is a rational, an infinity or not a number; the two zeros are one value, which no modelled
  code can tell apart, since it divides by positive values only. \<open>rnd\<close> rounds a rational to the
  nearest value with 53 significant bits and exponents from \<open>-1074\<close>, ties to even, and
  overflows to an infinity. Every operation is the exact operation followed by \<open>rnd\<close>.
\<close>

datatype f64 = Fin rat | PInf | NInf | NaN

subsection \<open>Rounding\<close>

definition pow2 :: "int \<Rightarrow> rat" where
  "pow2 k = (if 0 \<le> k then 2 ^ nat k else 1 / 2 ^ nat (- k))"

definition ilog2 :: "rat \<Rightarrow> int" where
  "ilog2 x = (let (p, q) = quotient_of x; k = int (floorlog 2 (nat p)) - int (floorlog 2 (nat q))
     in if x < pow2 k then k - 1 else k)"

definition half_even :: "rat \<Rightarrow> int" where
  "half_even r = (let f = \<lfloor>r\<rfloor>; d = r - of_int f
     in if d < 1 / 2 then f else if 1 / 2 < d then f + 1 else if even f then f else f + 1)"

definition rnd_pos :: "rat \<Rightarrow> rat" where
  "rnd_pos x = (let e = max (ilog2 x - 52) (- 1074) in of_int (half_even (x / pow2 e)) * pow2 e)"

definition rnd :: "rat \<Rightarrow> f64" where
  "rnd x = (if x = 0 then Fin 0
     else let y = rnd_pos \<bar>x\<bar> in
       if pow2 1024 \<le> y then (if 0 < x then PInf else NInf)
       else Fin (if 0 < x then y else - y))"

subsection \<open>Operations\<close>

fun f_add :: "f64 \<Rightarrow> f64 \<Rightarrow> f64" where
  "f_add (Fin x) (Fin y) = rnd (x + y)"
| "f_add NaN _ = NaN"
| "f_add _ NaN = NaN"
| "f_add PInf NInf = NaN"
| "f_add NInf PInf = NaN"
| "f_add PInf _ = PInf"
| "f_add NInf _ = NInf"
| "f_add _ PInf = PInf"
| "f_add _ NInf = NInf"

fun f_neg :: "f64 \<Rightarrow> f64" where
  "f_neg (Fin x) = Fin (- x)"
| "f_neg PInf = NInf"
| "f_neg NInf = PInf"
| "f_neg NaN = NaN"

definition f_sub :: "f64 \<Rightarrow> f64 \<Rightarrow> f64" where
  "f_sub x y = f_add x (f_neg y)"

definition f_signed :: "bool \<Rightarrow> f64" where
  "f_signed pos = (if pos then PInf else NInf)"

fun f_mul :: "f64 \<Rightarrow> f64 \<Rightarrow> f64" where
  "f_mul (Fin x) (Fin y) = rnd (x * y)"
| "f_mul NaN _ = NaN"
| "f_mul _ NaN = NaN"
| "f_mul (Fin x) PInf = (if x = 0 then NaN else f_signed (0 < x))"
| "f_mul (Fin x) NInf = (if x = 0 then NaN else f_signed (x < 0))"
| "f_mul PInf (Fin x) = (if x = 0 then NaN else f_signed (0 < x))"
| "f_mul NInf (Fin x) = (if x = 0 then NaN else f_signed (x < 0))"
| "f_mul PInf PInf = PInf"
| "f_mul PInf NInf = NInf"
| "f_mul NInf PInf = NInf"
| "f_mul NInf NInf = PInf"

fun f_div :: "f64 \<Rightarrow> f64 \<Rightarrow> f64" where
  "f_div (Fin x) (Fin y) = (if y = 0 then if x = 0 then NaN else f_signed (0 < x) else rnd (x / y))"
| "f_div NaN _ = NaN"
| "f_div _ NaN = NaN"
| "f_div (Fin _) _ = Fin 0"
| "f_div PInf (Fin x) = f_signed (0 \<le> x)"
| "f_div NInf (Fin x) = f_signed (x < 0)"
| "f_div _ _ = NaN"

fun f_lt :: "f64 \<Rightarrow> f64 \<Rightarrow> bool" where
  "f_lt (Fin x) (Fin y) = (x < y)"
| "f_lt NaN _ = False"
| "f_lt _ NaN = False"
| "f_lt PInf _ = False"
| "f_lt _ NInf = False"
| "f_lt _ _ = True"

fun f_le :: "f64 \<Rightarrow> f64 \<Rightarrow> bool" where
  "f_le (Fin x) (Fin y) = (x \<le> y)"
| "f_le NaN _ = False"
| "f_le _ NaN = False"
| "f_le NInf _ = True"
| "f_le _ PInf = True"
| "f_le _ _ = False"

fun f_abs :: "f64 \<Rightarrow> f64" where
  "f_abs (Fin x) = Fin \<bar>x\<bar>"
| "f_abs NInf = PInf"
| "f_abs x = x"

definition f_max :: "f64 \<Rightarrow> f64 \<Rightarrow> f64" where
  "f_max x y = (if x = NaN then y else if y = NaN then x else if f_le x y then y else x)"

definition f_min :: "f64 \<Rightarrow> f64 \<Rightarrow> f64" where
  "f_min x y = (if x = NaN then y else if y = NaN then x else if f_le x y then x else y)"

definition f_clamp :: "f64 \<Rightarrow> f64 \<Rightarrow> f64 \<Rightarrow> f64" where
  "f_clamp x lo hi = (if f_lt x lo then lo else if f_lt hi x then hi else x)"

fun is_finite :: "f64 \<Rightarrow> bool" where
  "is_finite (Fin _) = True"
| "is_finite _ = False"

definition round_away :: "rat \<Rightarrow> int" where
  "round_away x = (if 0 \<le> x then \<lfloor>x + 1 / 2\<rfloor> else - \<lfloor>- x + 1 / 2\<rfloor>)"

fun f_round :: "f64 \<Rightarrow> f64" where
  "f_round (Fin x) = Fin (of_int (round_away x))"
| "f_round x = x"

definition trunc_rat :: "rat \<Rightarrow> int" where
  "trunc_rat x = (if 0 \<le> x then \<lfloor>x\<rfloor> else - \<lfloor>- x\<rfloor>)"

fun f_as_i64 :: "f64 \<Rightarrow> int" where
  "f_as_i64 (Fin x) = max (- (2 ^ 63)) (min (2 ^ 63 - 1) (trunc_rat x))"
| "f_as_i64 PInf = 2 ^ 63 - 1"
| "f_as_i64 NInf = - (2 ^ 63)"
| "f_as_i64 NaN = 0"

definition f_of_int :: "int \<Rightarrow> f64" where
  "f_of_int n = rnd (of_int n)"

subsection \<open>Powers of two\<close>

lemma pow2_powi: "pow2 k = 2 powi k"
  by (simp add: pow2_def power_int_def power_inverse field_simps)

lemma pow2_pos [simp]: "0 < pow2 k"
  by (simp add: pow2_def)

lemma pow2_nz [simp]: "pow2 k \<noteq> 0"
  using pow2_pos [of k] by linarith

lemma pow2_add: "pow2 (a + b) = pow2 a * pow2 b"
  by (simp add: pow2_powi power_int_add)

lemma pow2_diff: "pow2 (a - b) = pow2 a / pow2 b"
  by (simp add: pow2_powi power_int_diff)

lemma pow2_nat: "pow2 (int n) = 2 ^ n"
  by (simp add: pow2_def)

lemma pow2_mono: "a \<le> b \<Longrightarrow> pow2 a \<le> pow2 b"
  by (simp add: pow2_powi power_int_increasing)

lemma floorlog_two:
  assumes "0 < n"
  shows "2 ^ (floorlog 2 n - 1) \<le> n" "n < 2 ^ floorlog 2 n" "0 < floorlog 2 n"
  using floorlog_bounds [of n 2] assms by (auto simp: floorlog_def)

lemma floorlog_rat:
  assumes "0 < p"
  shows "pow2 (int (floorlog 2 (nat p)) - 1) \<le> of_int p" "of_int p < pow2 (int (floorlog 2 (nat p)))"
proof -
  let ?a = "floorlog 2 (nat p)"
  have a: "2 ^ (?a - 1) \<le> nat p" "nat p < 2 ^ ?a" "0 < ?a"
    using floorlog_two [of "nat p"] assms by simp_all
  have "int (2 ^ (?a - 1)) \<le> p" "p < int (2 ^ ?a)"
    using a(1,2) assms by linarith+
  then have "of_int (int (2 ^ (?a - 1))) \<le> (of_int p :: rat)" "(of_int p :: rat) < of_int (int (2 ^ ?a))"
    by (simp_all only: of_int_le_iff of_int_less_iff)
  moreover have "int ?a - 1 = int (?a - 1)"
    using a(3) by simp
  ultimately show "pow2 (int ?a - 1) \<le> of_int p" "of_int p < pow2 (int ?a)"
    by (simp_all only: pow2_nat of_int_of_nat_eq of_nat_power of_nat_numeral of_int_power of_int_numeral)
qed

lemma ilog2_bounds:
  assumes "0 < x"
  shows "pow2 (ilog2 x) \<le> x" "x < pow2 (ilog2 x + 1)"
proof -
  obtain p q where pq: "quotient_of x = (p, q)"
    by (cases "quotient_of x")
  have x: "x = of_int p / of_int q" and q: "0 < q"
    using quotient_of_div [OF pq] quotient_of_denom_pos [OF pq] by simp_all
  then have p: "0 < p"
    using assms by (simp add: zero_less_divide_iff)
  let ?a = "int (floorlog 2 (nat p))" and ?b = "int (floorlog 2 (nat q))"
  note P = floorlog_rat [OF p] and Q = floorlog_rat [OF q]
  have "x < pow2 ?a / pow2 (?b - 1)"
    unfolding x by (rule frac_less) (use P Q p q in auto)
  then have up: "x < pow2 (?a - ?b + 1)"
    by (simp add: pow2_diff [symmetric] algebra_simps)
  have "pow2 (?a - 1) / pow2 ?b \<le> x"
    unfolding x by (rule frac_le) (use P Q p q in \<open>auto intro: less_imp_le\<close>)
  then have lo: "pow2 (?a - ?b - 1) \<le> x"
    by (simp add: pow2_diff [symmetric] algebra_simps)
  have "ilog2 x = (if x < pow2 (?a - ?b) then ?a - ?b - 1 else ?a - ?b)"
    by (simp add: ilog2_def pq)
  then show "pow2 (ilog2 x) \<le> x" "x < pow2 (ilog2 x + 1)"
    using up lo by (auto split: if_splits)
qed

subsection \<open>Rounding error and exactness\<close>

lemma half_even_error: "\<bar>of_int (half_even r) - r\<bar> \<le> 1 / 2"
  using floor_correct [of r] by (auto simp: half_even_def Let_def abs_le_iff)

lemma half_even_int [simp]: "half_even (of_int n) = n"
  by (simp add: half_even_def)

lemma half_even_nonneg: "0 \<le> r \<Longrightarrow> 0 \<le> half_even r"
  by (auto simp: half_even_def Let_def)

lemma rnd_pos_error:
  assumes "0 < x"
  shows "\<bar>rnd_pos x - x\<bar> \<le> x / 2 ^ 53 + pow2 (- 1075)"
proof -
  define e where "e = max (ilog2 x - 52) (- 1074)"
  have "\<bar>of_int (half_even (x / pow2 e)) - x / pow2 e\<bar> * pow2 e \<le> 1 / 2 * pow2 e"
    by (rule mult_right_mono [OF half_even_error]) (simp add: less_imp_le)
  moreover have "rnd_pos x - x = (of_int (half_even (x / pow2 e)) - x / pow2 e) * pow2 e"
    by (simp add: rnd_pos_def e_def [symmetric] algebra_simps)
  ultimately have 1: "\<bar>rnd_pos x - x\<bar> \<le> 1 / 2 * pow2 e"
    by (simp add: abs_mult less_imp_le)
  have "pow2 (ilog2 x - 52) \<le> x / 2 ^ 52"
    using ilog2_bounds(1) [OF assms] pow2_nat [of 52]
    by (simp add: pow2_diff divide_right_mono)
  moreover have "pow2 (- 1074) = 2 * pow2 (- 1075)"
    using pow2_add [of 1 "- 1075"] by (simp add: pow2_def)
  moreover have "0 < x / 2 ^ 52" "x / 2 ^ 53 = 1 / 2 * (x / 2 ^ 52)"
    using assms by simp_all
  moreover have "pow2 e = pow2 (ilog2 x - 52) \<or> pow2 e = pow2 (- 1074)"
    by (simp add: e_def max_def)
  ultimately have "1 / 2 * pow2 e \<le> x / 2 ^ 53 + pow2 (- 1075)"
    using pow2_pos [of "- 1075"] by linarith
  with 1 show ?thesis
    by simp
qed

lemma rnd_pos_nonneg: "0 < x \<Longrightarrow> 0 \<le> rnd_pos x"
  by (simp add: rnd_pos_def Let_def half_even_nonneg less_imp_le)

lemma rnd_pos_exact:
  assumes "x / pow2 (max (ilog2 x - 52) (- 1074)) = of_int k"
  shows "rnd_pos x = x"
  unfolding rnd_pos_def Let_def assms half_even_int using assms by (simp add: field_simps)

lemma rnd_pos_nat:
  assumes "0 < n" "n \<le> 2 ^ 53"
  shows "rnd_pos (of_int n) = of_int n"
proof -
  let ?x = "of_int n :: rat"
  have b: "pow2 (ilog2 ?x) \<le> ?x" "?x < pow2 (ilog2 ?x + 1)"
    using ilog2_bounds [of ?x] assms(1) by simp_all
  have "(1 :: rat) \<le> ?x"
    using assms(1) by simp
  then have "pow2 0 < pow2 (ilog2 ?x + 1)"
    using b(2) by (simp add: pow2_def)
  then have lo: "0 \<le> ilog2 ?x"
    using pow2_mono [of "ilog2 ?x + 1" 0] by linarith
  have le: "?x \<le> 2 ^ 53"
    using assms(2) by (metis of_int_le_iff of_int_numeral of_int_power)
  show ?thesis
  proof (cases "ilog2 ?x \<le> 52")
    case True
    define j where "j = nat (52 - ilog2 ?x)"
    have "max (ilog2 ?x - 52) (- 1074) = - int j"
      using True lo by (simp add: j_def)
    moreover have "?x / pow2 (- int j) = of_int (n * 2 ^ j)"
      by (simp add: pow2_powi power_int_minus divide_inverse)
    ultimately show ?thesis
      by (intro rnd_pos_exact [of _ "n * 2 ^ j"]) simp
  next
    case False
    then have "pow2 53 \<le> pow2 (ilog2 ?x)"
      by (intro pow2_mono) simp
    then have "2 ^ 53 \<le> ?x"
      using b(1) pow2_nat [of 53] by simp
    with le have x: "?x = 2 ^ 53"
      by simp
    have "pow2 (ilog2 ?x) < pow2 54"
      using b(1) x pow2_nat [of 54] by simp
    then have "ilog2 ?x < 54"
      using pow2_mono [of 54 "ilog2 ?x"] by linarith
    with False have "ilog2 ?x = 53"
      by simp
    then have "max (ilog2 ?x - 52) (- 1074) = 1"
      by simp
    then show ?thesis
      by (intro rnd_pos_exact [of _ "2 ^ 52"]) (simp add: x pow2_def)
  qed
qed

lemma rnd_int [simp]:
  assumes "\<bar>n\<bar> \<le> 2 ^ 53"
  shows "rnd (of_int n) = Fin (of_int n)"
proof (cases "n = 0")
  case False
  have "rnd_pos \<bar>of_int n\<bar> = \<bar>of_int n\<bar>"
    using rnd_pos_nat [of "\<bar>n\<bar>"] False assms by simp
  moreover have "\<bar>of_int n\<bar> < pow2 1024"
  proof -
    have "\<bar>of_int n :: rat\<bar> \<le> 2 ^ 53"
      using assms by (metis of_int_abs of_int_le_iff of_int_numeral of_int_power)
    also have "\<dots> < pow2 54"
      using pow2_nat [of 54] by simp
    also have "\<dots> \<le> pow2 1024"
      by (rule pow2_mono) simp
    finally show ?thesis .
  qed
  ultimately show ?thesis
    using False by (simp add: rnd_def Let_def)
qed (simp add: rnd_def)

lemma rnd_nat: "n \<le> 2 ^ 53 \<Longrightarrow> rnd (of_nat n) = Fin (of_nat n)"
  using rnd_int [of "int n"] by simp

lemma rnd_error:
  assumes "\<bar>x\<bar> \<le> pow2 1000"
  obtains y where "rnd x = Fin y" "\<bar>y - x\<bar> \<le> \<bar>x\<bar> / 2 ^ 53 + pow2 (- 1075)"
proof (cases "x = 0")
  case True
  with that [of 0] show ?thesis
    by (simp add: rnd_def less_imp_le)
next
  case False
  have err: "\<bar>rnd_pos \<bar>x\<bar> - \<bar>x\<bar>\<bar> \<le> \<bar>x\<bar> / 2 ^ 53 + pow2 (- 1075)"
    using rnd_pos_error [of "\<bar>x\<bar>"] False by simp
  have "pow2 (- 1075) \<le> pow2 1000" "pow2 1024 = 16777216 * pow2 1000"
    using pow2_mono [of "- 1075" 1000] pow2_add [of 24 1000] by (simp_all add: pow2_def [of 24])
  moreover have small: "\<bar>x\<bar> / 2 ^ 53 \<le> \<bar>x\<bar>"
    by (simp add: field_simps)
  ultimately have "rnd_pos \<bar>x\<bar> < pow2 1024"
    using abs_le_D1 [OF err] assms small pow2_pos [of 1000] by linarith
  then have "rnd x = Fin (if 0 < x then rnd_pos \<bar>x\<bar> else - rnd_pos \<bar>x\<bar>)"
    using False by (simp add: rnd_def)
  then show ?thesis
    by (rule that) (use err False in \<open>auto simp: abs_minus_commute\<close>)
qed

lemma rnd_nonneg: "0 \<le> x \<Longrightarrow> rnd x = Fin y \<Longrightarrow> 0 \<le> y"
  using rnd_pos_nonneg [of x] by (auto simp: rnd_def Let_def split: if_splits)

lemma rnd_half:
  assumes "1 \<le> x" "x \<le> pow2 1000"
  obtains y where "rnd x = Fin y" "x / 2 \<le> y" "y \<le> 2 * x"
proof -
  have "\<bar>x\<bar> \<le> pow2 1000"
    using assms by simp
  then obtain y where y: "rnd x = Fin y" "\<bar>y - x\<bar> \<le> \<bar>x\<bar> / 2 ^ 53 + pow2 (- 1075)"
    by (rule rnd_error)
  have "pow2 (- 1075) \<le> pow2 (- 2)"
    by (rule pow2_mono) simp
  then have tiny: "pow2 (- 1075) \<le> x / 4"
    using assms(1) by (simp add: pow2_def [of "- 2"])
  moreover have "\<bar>x\<bar> / 2 ^ 53 \<le> x / 4"
    using assms(1) by simp
  ultimately have "\<bar>y - x\<bar> \<le> x / 2"
    using y(2) by linarith
  then have "y - x \<le> x / 2" "x - y \<le> x / 2"
    by (simp_all only: abs_le_iff) simp
  then have "x / 2 \<le> y" "y \<le> 2 * x"
    using assms(1) by simp_all
  with y(1) that show ?thesis
    by blast
qed

lemma rnd_rel:
  assumes "pow2 (- 900) \<le> \<bar>x\<bar>" "\<bar>x\<bar> \<le> pow2 1000"
  obtains y where "rnd x = Fin y" "\<bar>y - x\<bar> \<le> \<bar>x\<bar> / 2 ^ 52"
proof -
  obtain y where y: "rnd x = Fin y" "\<bar>y - x\<bar> \<le> \<bar>x\<bar> / 2 ^ 53 + pow2 (- 1075)"
    using assms(2) by (rule rnd_error)
  have "pow2 (- 1075) \<le> pow2 (- 900 - 53)"
    by (rule pow2_mono) simp
  also have "\<dots> = pow2 (- 900) / 2 ^ 53"
    using pow2_nat [of 53] by (simp only: pow2_diff) simp
  also have "\<dots> \<le> \<bar>x\<bar> / 2 ^ 53"
    using assms(1) by (simp add: divide_right_mono)
  finally have "\<bar>y - x\<bar> \<le> \<bar>x\<bar> / 2 ^ 53 + \<bar>x\<bar> / 2 ^ 53"
    using y(2) by simp
  also have "\<dots> = \<bar>x\<bar> / 2 ^ 52"
    by simp
  finally show ?thesis
    using y(1) that by blast
qed

lemma rnd_double:
  assumes "pow2 (- 900) \<le> x" "x \<le> pow2 1000"
  obtains y where "rnd x = Fin y" "x / 2 \<le> y" "y \<le> 2 * x"
proof -
  have x0: "0 < x"
    using assms(1) pow2_pos [of "- 900"] by linarith
  then have "pow2 (- 900) \<le> \<bar>x\<bar>" "\<bar>x\<bar> \<le> pow2 1000"
    using assms by simp_all
  then obtain y where y: "rnd x = Fin y" "\<bar>y - x\<bar> \<le> \<bar>x\<bar> / 2 ^ 52"
    by (rule rnd_rel)
  have "\<bar>x\<bar> / 2 ^ 52 \<le> x / 2"
    using x0 by (simp add: frac_le)
  then have "y - x \<le> x / 2" "x - y \<le> x / 2"
    using y(2) by (simp_all only: abs_le_iff) simp_all
  then show ?thesis
    using that [OF y(1)] x0 by simp
qed

lemma f_of_int_exact [simp]: "\<bar>n\<bar> \<le> 2 ^ 53 \<Longrightarrow> f_of_int n = Fin (of_int n)"
  by (simp add: f_of_int_def)

lemma f_le_Fin_cases: "f_min (Fin x) (Fin y) = Fin (min x y)" "f_max (Fin x) (Fin y) = Fin (max x y)"
  by (simp_all add: f_min_def f_max_def min_def max_def)

subsection \<open>Scaling and scaling back\<close>

lemma scale_round_trip:
  assumes x: "1 \<le> \<bar>x\<bar>" "\<bar>x\<bar> \<le> pow2 100" and c: "pow2 (- 100) \<le> c" "c \<le> pow2 100"
  obtains v u where "rnd (x * c) = Fin v" "rnd (v / c) = Fin u" "\<bar>u - x\<bar> \<le> \<bar>x\<bar> / 2 ^ 50"
    "\<bar>v - x * c\<bar> \<le> \<bar>x * c\<bar> / 2 ^ 52"
proof -
  have c0: "0 < c"
    using c(1) pow2_pos [of "- 100"] by linarith
  have p: "pow2 (- 900) \<le> pow2 (- 200)" "pow2 (- 200) \<le> pow2 (- 100)" "pow2 200 \<le> pow2 1000"
      "pow2 (- 100) * pow2 100 = 1" "pow2 100 * pow2 100 = pow2 200" "2 * pow2 100 \<le> pow2 1000"
      "pow2 (- 900) \<le> 1 / 2"
    using pow2_mono [of "- 900" "- 200"] pow2_mono [of "- 200" "- 100"] pow2_mono [of 200 1000]
      pow2_add [of "- 100" 100] pow2_add [of 100 100] pow2_add [of 1 100] pow2_mono [of 101 1000]
      pow2_mono [of "- 900" "- 1"]
    by (simp_all add: pow2_def [of 0] pow2_def [of 1] pow2_def [of "- 1"])
  have ac: "\<bar>x * c\<bar> = \<bar>x\<bar> * c"
    using c0 by (simp add: abs_mult)
  have "1 * pow2 (- 100) \<le> \<bar>x\<bar> * c"
    by (rule mult_mono) (use x c in \<open>simp_all add: less_imp_le\<close>)
  moreover have "\<bar>x\<bar> * c \<le> pow2 100 * pow2 100"
    by (rule mult_mono) (use x c c0 in \<open>simp_all add: less_imp_le\<close>)
  ultimately have "pow2 (- 900) \<le> \<bar>x * c\<bar>" "\<bar>x * c\<bar> \<le> pow2 1000"
    using p ac by linarith+
  then obtain v where v: "rnd (x * c) = Fin v" "\<bar>v - x * c\<bar> \<le> \<bar>x * c\<bar> / 2 ^ 52"
    by (rule rnd_rel)
  have "\<bar>v / c - x\<bar> = \<bar>v - x * c\<bar> / c"
    using c0 by (simp add: field_simps abs_divide flip: abs_mult_pos)
  also have "\<dots> \<le> \<bar>x * c\<bar> / 2 ^ 52 / c"
    by (rule divide_right_mono [OF v(2)]) (use c0 in simp)
  also have "\<dots> = \<bar>x\<bar> / 2 ^ 52"
    using c0 by (simp add: ac)
  finally have w: "\<bar>v / c - x\<bar> \<le> \<bar>x\<bar> / 2 ^ 52" .
  have half: "\<bar>x\<bar> / 2 ^ 52 \<le> \<bar>x\<bar> / 2"
    by (simp add: frac_le)
  have tri: "\<bar>x\<bar> - \<bar>v / c - x\<bar> \<le> \<bar>v / c\<bar>" "\<bar>v / c\<bar> \<le> \<bar>x\<bar> + \<bar>v / c - x\<bar>"
    using abs_triangle_ineq4 [of "v / c" "v / c - x"] abs_triangle_ineq [of x "v / c - x"] by simp_all
  then have b: "\<bar>x\<bar> / 2 \<le> \<bar>v / c\<bar>" "\<bar>v / c\<bar> \<le> 2 * \<bar>x\<bar>"
    using w half by linarith+
  then have "pow2 (- 900) \<le> \<bar>v / c\<bar>" "\<bar>v / c\<bar> \<le> pow2 1000"
    using x p by linarith+
  then obtain u where u: "rnd (v / c) = Fin u" "\<bar>u - v / c\<bar> \<le> \<bar>v / c\<bar> / 2 ^ 52"
    by (rule rnd_rel)
  have "\<bar>v / c\<bar> / 2 ^ 52 \<le> (2 * \<bar>x\<bar>) / 2 ^ 52"
    by (rule divide_right_mono [OF b(2)]) simp
  then have "\<bar>u - x\<bar> \<le> 3 * (\<bar>x\<bar> / 2 ^ 52)"
    using u(2) w abs_triangle_ineq [of "u - v / c" "v / c - x"] by simp
  also have "\<dots> \<le> \<bar>x\<bar> / 2 ^ 50"
    by simp
  finally show ?thesis
    using that v u(1) by blast
qed

lemma round_away_near:
  assumes "\<bar>u - of_int n\<bar> < 1 / 2"
  shows "round_away u = n"
proof -
  have d: "u - of_int n < 1 / 2" "of_int n - u < 1 / 2"
    using assms by (simp_all only: abs_less_iff) simp
  then have "\<lfloor>u + 1 / 2\<rfloor> = n" "\<lfloor>- u + 1 / 2\<rfloor> = - n"
    by (intro floor_unique; simp)+
  then show ?thesis
    by (simp add: round_away_def)
qed

end
