(* ===== verification/Engine.thy ===== *)
theory Engine
  imports OrderBook Float64 "HOL-Library.Product_Lexorder"
begin

text \<open>
  The matching engine, \<open>src/matching/engine.rs\<close>: its state, the handlers of the five order
  types, matching, cancellation, the resting snapshot and the depth observers. A handler returns
  the Rust \<open>Result\<close> (\<open>Inl\<close> the error) together with the new engine; \<open>None\<close> is a panic or a
  loop that does not end. The clock is the argument \<open>now_ns\<close>. The hash map \<open>orders\<close> is an
  association list with distinct keys. Prices and quantities of events and depth snapshots are
  \<open>f64\<close>, converted from ticks and lots with \<open>f_of_int\<close>, the cast \<open>as f64\<close>.

  A ring-buffer producer (\<open>rtrb\<close>) keeps what its ring has taken. Whether a push finds room depends on
  the consumer thread, so it is data of the producer: \<open>pr_full\<close> lists the pushes, counted from
  zero, that find the ring full. The engine discards the outcome of a push, and such an event is lost.
\<close>

record MarketDataConfig =
  mc_shallow_sample_interval_ns :: nat
  mc_enable_depth_increments :: bool
  mc_depth50_interval_ns :: nat
  mc_level2_interval_ns :: nat

definition MarketDataConfig_default :: MarketDataConfig where
  "MarketDataConfig_default =
     \<lparr>mc_shallow_sample_interval_ns = 10000000, mc_enable_depth_increments = False,
      mc_depth50_interval_ns = 50000000, mc_level2_interval_ns = 100000000\<rparr>"

text \<open>Events for the market-data thread; \<open>None\<close> is a sender that is not wired up.\<close>

record 'a producer =
  pr_full :: "nat list"
  pr_pushes :: nat
  pr_ring :: "'a list"

type_synonym 'a sender = "'a producer option"

definition ring_push :: "'a producer \<Rightarrow> 'a \<Rightarrow> 'a producer" where
  "ring_push p ev = p\<lparr>pr_pushes := pr_pushes p + 1,
     pr_ring := (if pr_pushes p \<in> set (pr_full p) then pr_ring p else pr_ring p @ [ev])\<rparr>"

text \<open>A chunk is written only when there is room for all of its events.\<close>

definition write_chunk :: "'a producer \<Rightarrow> 'a list \<Rightarrow> 'a producer option" where
  "write_chunk p evs =
     (if list_all (\<lambda>k. k \<notin> set (pr_full p)) [pr_pushes p..<pr_pushes p + length evs]
      then Some (p\<lparr>pr_pushes := pr_pushes p + length evs, pr_ring := pr_ring p @ evs\<rparr>) else None)"

definition push_event :: "'a sender \<Rightarrow> 'a \<Rightarrow> 'a sender" where
  "push_event s ev = map_option (\<lambda>p. ring_push p ev) s"

record TradeEvent =
  te_sequence :: nat
  te_order_id :: nat
  te_maker_order_id :: nat
  te_timestamp :: nat
  te_price :: f64
  te_quantity :: f64
  te_taker_id :: nat
  te_maker_id :: nat
  te_side :: Side

definition TradeEvent_new ::
  "nat \<Rightarrow> nat \<Rightarrow> nat \<Rightarrow> nat \<Rightarrow> f64 \<Rightarrow> f64 \<Rightarrow> Side \<Rightarrow> nat \<Rightarrow> nat \<Rightarrow> TradeEvent" where
  "TradeEvent_new sequence order_id maker_order_id timestamp price quantity side taker mk =
     \<lparr>te_sequence = sequence, te_order_id = order_id, te_maker_order_id = maker_order_id,
      te_timestamp = timestamp, te_price = price, te_quantity = quantity,
      te_taker_id = taker, te_maker_id = mk, te_side = side\<rparr>"

text \<open>\<open>DepthSnapshotEvent\<close>, \<open>Depth50SnapshotEvent\<close> and \<open>Level2SnapshotEvent\<close>: arrays of 20, 50 and 400 levels.\<close>

record DepthEvent =
  ev_timestamp :: nat
  ev_sequence :: nat
  ev_num_bids :: nat
  ev_num_asks :: nat
  ev_bids :: "(f64 \<times> f64) list"
  ev_asks :: "(f64 \<times> f64) list"

record MatchingEngine =
  me_buy_book :: SkipList
  me_sell_book :: SkipList
  me_orders :: "(nat \<times> nat) list"
  me_pools :: Pools
  me_next_order_id :: nat
  me_snapshot_sequence :: nat
  me_trade_event_sender :: "TradeEvent sender"
  me_trade_sequence :: nat
  me_depth_snapshot_sender :: "DepthEvent sender"
  me_depth50_sender :: "DepthEvent sender"
  me_level2_sender :: "DepthEvent sender"
  me_market_data_config :: MarketDataConfig
  me_depth_sampling_initialized :: bool
  me_last_shallow_sample_ns :: nat
  me_last_depth50_sample_ns :: nat
  me_last_level2_sample_ns :: nat
  me_depth_snapshot_seq :: nat
  me_depth50_seq :: nat
  me_level2_seq :: nat
  me_affected_makers_buf :: "nat list"
  me_fills_buf :: "fill list"

record PoolConfig =
  pc_order_capacity :: nat
  pc_queue_capacity :: nat

definition engine_new :: "PoolConfig \<Rightarrow> MatchingEngine" where
  "engine_new cfg =
     \<lparr>me_buy_book = new_with_pool Descending (pc_queue_capacity cfg),
      me_sell_book = new_with_pool Ascending (pc_queue_capacity cfg),
      me_orders = [], me_pools = Pools_new (pc_order_capacity cfg) (pc_queue_capacity cfg),
      me_next_order_id = 1, me_snapshot_sequence = 0, me_trade_event_sender = None, me_trade_sequence = 0,
      me_depth_snapshot_sender = None, me_depth50_sender = None, me_level2_sender = None,
      me_market_data_config = MarketDataConfig_default, me_depth_sampling_initialized = False,
      me_last_shallow_sample_ns = 0, me_last_depth50_sample_ns = 0, me_last_level2_sample_ns = 0,
      me_depth_snapshot_seq = 0, me_depth50_seq = 0, me_level2_seq = 0,
      me_affected_makers_buf = [], me_fills_buf = []\<rparr>"

definition set_market_data_config :: "MatchingEngine \<Rightarrow> MarketDataConfig \<Rightarrow> MatchingEngine" where
  "set_market_data_config e cfg = e\<lparr>me_market_data_config := cfg\<rparr>"

definition set_trade_event_sender :: "MatchingEngine \<Rightarrow> TradeEvent producer \<Rightarrow> MatchingEngine" where
  "set_trade_event_sender e sender = e\<lparr>me_trade_event_sender := Some sender\<rparr>"

definition set_depth_snapshot_sender :: "MatchingEngine \<Rightarrow> DepthEvent producer \<Rightarrow> MatchingEngine" where
  "set_depth_snapshot_sender e sender = e\<lparr>me_depth_snapshot_sender := Some sender\<rparr>"

definition set_depth50_sender :: "MatchingEngine \<Rightarrow> DepthEvent producer \<Rightarrow> MatchingEngine" where
  "set_depth50_sender e sender = e\<lparr>me_depth50_sender := Some sender\<rparr>"

definition set_level2_sender :: "MatchingEngine \<Rightarrow> DepthEvent producer \<Rightarrow> MatchingEngine" where
  "set_level2_sender e sender = e\<lparr>me_level2_sender := Some sender\<rparr>"

definition last_affected_makers :: "MatchingEngine \<Rightarrow> nat list" where
  "last_affected_makers e = me_affected_makers_buf e"

subsection \<open>Access to the two books and the order store\<close>

definition own_book :: "MatchingEngine \<Rightarrow> Side \<Rightarrow> SkipList" where
  "own_book e side = (case side of Buy \<Rightarrow> me_buy_book e | Sell \<Rightarrow> me_sell_book e)"

definition set_own_book :: "MatchingEngine \<Rightarrow> Side \<Rightarrow> SkipList \<Rightarrow> MatchingEngine" where
  "set_own_book e side b =
     (case side of Buy \<Rightarrow> e\<lparr>me_buy_book := b\<rparr> | Sell \<Rightarrow> e\<lparr>me_sell_book := b\<rparr>)"

definition opposite :: "Side \<Rightarrow> Side" where
  "opposite side = (case side of Buy \<Rightarrow> Sell | Sell \<Rightarrow> Buy)"

definition opp_book :: "MatchingEngine \<Rightarrow> Side \<Rightarrow> SkipList" where
  "opp_book e side = own_book e (opposite side)"

definition set_opp_book :: "MatchingEngine \<Rightarrow> Side \<Rightarrow> SkipList \<Rightarrow> MatchingEngine" where
  "set_opp_book e side b = set_own_book e (opposite side) b"

definition order_pool :: "MatchingEngine \<Rightarrow> Order ObjectPool" where
  "order_pool e = ps_orders (me_pools e)"

definition set_order_pool :: "MatchingEngine \<Rightarrow> Order ObjectPool \<Rightarrow> MatchingEngine" where
  "set_order_pool e p = e\<lparr>me_pools := (me_pools e)\<lparr>ps_orders := p\<rparr>\<rparr>"

definition set_trade_pool :: "MatchingEngine \<Rightarrow> Trade ObjectPool \<Rightarrow> MatchingEngine" where
  "set_trade_pool e p = e\<lparr>me_pools := (me_pools e)\<lparr>ps_trades := p\<rparr>\<rparr>"

definition contains_order :: "MatchingEngine \<Rightarrow> nat \<Rightarrow> bool" where
  "contains_order e order_id \<longleftrightarrow> map_of (me_orders e) order_id \<noteq> None"

definition get_order :: "MatchingEngine \<Rightarrow> nat \<Rightarrow> Order option" where
  "get_order e order_id =
     Option.bind (map_of (me_orders e) order_id) (\<lambda>pool_idx. op_get (order_pool e) pool_idx)"

definition get_order_fill_status :: "MatchingEngine \<Rightarrow> nat \<Rightarrow> (QuantityLots \<times> QuantityLots) option" where
  "get_order_fill_status e order_id =
     map_option (\<lambda>ord. (o_filled_lots ord, remaining_lots ord)) (get_order e order_id)"

text \<open>\<open>if let Some(&idx) = orders.get(&id) { if let Some(o) = pool.get_mut(idx) { o.filled_lots += n } }\<close>\<close>

definition add_filled :: "MatchingEngine \<Rightarrow> nat \<Rightarrow> QuantityLots \<Rightarrow> MatchingEngine" where
  "add_filled e order_id n =
     (case map_of (me_orders e) order_id of
        None \<Rightarrow> e
      | Some pool_idx \<Rightarrow>
          set_order_pool e (op_write (order_pool e) pool_idx
            (\<lambda>ord. ord\<lparr>o_filled_lots := as_i64 (o_filled_lots ord + n)\<rparr>)))"

text \<open>\<open>if let Some(idx) = orders.remove(&id) { pools.orders.release(idx) }\<close>\<close>

definition forget_order :: "MatchingEngine \<Rightarrow> nat \<Rightarrow> MatchingEngine" where
  "forget_order e order_id =
     (case map_of (me_orders e) order_id of
        None \<Rightarrow> e
      | Some idx \<Rightarrow>
          set_order_pool (e\<lparr>me_orders := AList.delete order_id (me_orders e)\<rparr>)
            (op_release (order_pool e) idx))"

subsection \<open>Observers\<close>

definition get_top_levels_side :: "MatchingEngine \<Rightarrow> nat \<Rightarrow> bool \<Rightarrow> (PriceTicks \<times> QuantityLots) list exec" where
  "get_top_levels_side e limit is_buy =
     (if is_buy then get_top_levels (me_buy_book e) limit else get_top_levels (me_sell_book e) limit)"

definition fill_top_levels_side ::
  "MatchingEngine \<Rightarrow> bool \<Rightarrow> (PriceTicks \<times> QuantityLots) list \<Rightarrow> (nat \<times> (PriceTicks \<times> QuantityLots) list) exec" where
  "fill_top_levels_side e is_buy out =
     (if is_buy then fill_top_levels (me_buy_book e) out else fill_top_levels (me_sell_book e) out)"

definition best_price_ticks :: "MatchingEngine \<Rightarrow> bool \<Rightarrow> PriceTicks option exec" where
  "best_price_ticks e is_buy = do {
     let book = (if is_buy then me_buy_book e else me_sell_book e);
     b \<leftarrow> best book;
     (case b of
        None \<Rightarrow> Some None
      | Some a \<Rightarrow> do { n \<leftarrow> node_at book a; Some (Some (sn_price_ticks n)) })
   }"

record EngineStats =
  es_total_orders :: nat
  es_buy_book_levels :: nat
  es_sell_book_levels :: nat
  es_next_order_id :: nat
  es_pools :: PoolStats

definition stats :: "MatchingEngine \<Rightarrow> EngineStats" where
  "stats e =
     \<lparr>es_total_orders = length (me_orders e), es_buy_book_levels = sl_count (me_buy_book e),
      es_sell_book_levels = sl_count (me_sell_book e), es_next_order_id = me_next_order_id e,
      es_pools = pools_stats (me_pools e)\<rparr>"

definition validate_order :: "Order \<Rightarrow> MatchingEngineError + unit" where
  "validate_order ord =
     (if \<not> o_is_market ord \<and> o_price_ticks ord \<le> 0 then Inl (InvalidPrice (o_price_ticks ord))
      else if o_quantity_lots ord \<le> 0 then Inl (InvalidQuantity (o_quantity_lots ord))
      else Inr ())"

text \<open>Depth sampling: build the due snapshots, hand them to the senders and reset the timers.\<close>

definition level_f64 :: "PriceTicks \<times> QuantityLots \<Rightarrow> f64 \<times> f64" where
  "level_f64 l = (f_of_int (fst l), f_of_int (snd l))"

definition depth_event :: "nat \<Rightarrow> nat \<Rightarrow> nat \<Rightarrow> MatchingEngine \<Rightarrow> DepthEvent exec" where
  "depth_event n now_ns seq e = do {
     (num_bids, bids) \<leftarrow> fill_top_levels (me_buy_book e) (replicate n (0, 0));
     (num_asks, asks) \<leftarrow> fill_top_levels (me_sell_book e) (replicate n (0, 0));
     Some \<lparr>ev_timestamp = now_ns, ev_sequence = seq, ev_num_bids = num_bids, ev_num_asks = num_asks,
           ev_bids = map level_f64 (take num_bids bids) @ replicate (n - num_bids) (Fin 0, Fin 0),
           ev_asks = map level_f64 (take num_asks asks) @ replicate (n - num_asks) (Fin 0, Fin 0)\<rparr>
   }"

definition sample_shallow :: "nat \<Rightarrow> MatchingEngine \<Rightarrow> MatchingEngine exec" where
  "sample_shallow now_ns e =
     (if me_depth_snapshot_sender e = None then Some e
      else do {
        event \<leftarrow> depth_event 20 now_ns (me_depth_snapshot_seq e) e;
        Some (e\<lparr>me_depth_snapshot_sender := push_event (me_depth_snapshot_sender e) event,
                me_depth_snapshot_seq := as_u64 (me_depth_snapshot_seq e + 1)\<rparr>)
      })"

definition build_depth50_event :: "MatchingEngine \<Rightarrow> nat \<Rightarrow> DepthEvent exec" where
  "build_depth50_event e now_ns = depth_event 50 now_ns (me_depth50_seq e) e"

definition build_level2_event :: "MatchingEngine \<Rightarrow> nat \<Rightarrow> DepthEvent exec" where
  "build_level2_event e now_ns = depth_event 400 now_ns (me_level2_seq e) e"

definition sample_depth50 :: "nat \<Rightarrow> MatchingEngine \<Rightarrow> MatchingEngine exec" where
  "sample_depth50 now_ns e = do {
     event \<leftarrow> build_depth50_event e now_ns;
     Some (if me_depth50_sender e = None then e
           else e\<lparr>me_depth50_sender := push_event (me_depth50_sender e) event,
                  me_depth50_seq := as_u64 (me_depth50_seq e + 1)\<rparr>)
   }"

definition sample_level2 :: "nat \<Rightarrow> MatchingEngine \<Rightarrow> MatchingEngine exec" where
  "sample_level2 now_ns e = do {
     event \<leftarrow> build_level2_event e now_ns;
     Some (if me_level2_sender e = None then e
           else e\<lparr>me_level2_sender := push_event (me_level2_sender e) event,
                  me_level2_seq := as_u64 (me_level2_seq e + 1)\<rparr>)
   }"

definition first_sample :: "nat \<Rightarrow> MatchingEngine \<Rightarrow> MatchingEngine exec" where
  "first_sample now_ns e = do {
     let cfg = me_market_data_config e;
     let e = e\<lparr>me_depth_sampling_initialized := True, me_last_shallow_sample_ns := now_ns\<rparr>;
     let e = (if mc_enable_depth_increments cfg
              then e\<lparr>me_last_depth50_sample_ns := now_ns, me_last_level2_sample_ns := now_ns\<rparr>
              else e);
     e \<leftarrow> sample_shallow now_ns e;
     if mc_enable_depth_increments cfg
     then do { e \<leftarrow> sample_depth50 now_ns e; sample_level2 now_ns e }
     else Some e
   }"

definition due_samples :: "nat \<Rightarrow> MatchingEngine \<Rightarrow> MatchingEngine exec" where
  "due_samples now_ns e = do {
     let cfg = me_market_data_config e;
     let threshold = min (2 ^ 64 - 1) (me_last_shallow_sample_ns e + mc_shallow_sample_interval_ns cfg);
     e \<leftarrow> (if now_ns \<ge> threshold
           then do { e \<leftarrow> sample_shallow now_ns e; Some (e\<lparr>me_last_shallow_sample_ns := now_ns\<rparr>) }
           else Some e);
     if mc_enable_depth_increments cfg then do {
       e \<leftarrow> (if now_ns \<ge> as_u64 (me_last_depth50_sample_ns e + mc_depth50_interval_ns cfg)
             then do { e \<leftarrow> sample_depth50 now_ns e; Some (e\<lparr>me_last_depth50_sample_ns := now_ns\<rparr>) }
             else Some e);
       if now_ns \<ge> as_u64 (me_last_level2_sample_ns e + mc_level2_interval_ns cfg)
       then do { e \<leftarrow> sample_level2 now_ns e; Some (e\<lparr>me_last_level2_sample_ns := now_ns\<rparr>) }
       else Some e
     } else Some e
   }"

definition maybe_sample_depth :: "nat \<Rightarrow> MatchingEngine \<Rightarrow> MatchingEngine exec" where
  "maybe_sample_depth now_ns e =
     (if \<not> me_depth_sampling_initialized e then first_sample now_ns e else due_samples now_ns e)"

subsection \<open>Matching\<close>

text \<open>\<open>let _ = opp.remove_order_at_level(..)\<close>, then drop the level when its queue is empty.\<close>

definition drop_level_if_empty :: "SkipList \<Rightarrow> PriceTicks \<Rightarrow> SkipList exec" where
  "drop_level_if_empty b price = do {
     e \<leftarrow> level_is_empty b price True;
     if e then do { (_, b) \<leftarrow> remove_level b price; Some b } else Some b
   }"

definition remove_and_prune :: "SkipList \<Rightarrow> PriceTicks \<Rightarrow> nat \<Rightarrow> SkipList exec" where
  "remove_and_prune b price order_id = do {
     (_, b) \<leftarrow> remove_order_at_level b price order_id;
     drop_level_if_empty b price
   }"

text \<open>
  One trade of \<open>match_order\<close>, from the point where its size is known: record it, update both
  orders and the level, take a trade record from the pool, and retire the maker if it is filled.
  \<open>logging\<close> is set in \<open>match_order\<close>, which keeps the fills for settlement, and clear in
  \<open>match_orders_batch\<close>, which has the same loop without the two buffers.
\<close>

definition settle_maker :: "Order \<Rightarrow> PriceTicks \<Rightarrow> nat \<Rightarrow> MatchingEngine \<Rightarrow> MatchingEngine exec" where
  "settle_maker order best_price counter_id e =
     (case get_order e counter_id of
        None \<Rightarrow> Some e
      | Some counter \<Rightarrow>
          if is_filled counter then do {
            (_, b) \<leftarrow> remove_order_at_level (opp_book e (o_side order)) best_price counter_id;
            let e = forget_order (set_opp_book e (o_side order) b) counter_id;
            b \<leftarrow> drop_level_if_empty (opp_book e (o_side order)) best_price;
            Some (set_opp_book e (o_side order) b)
          } else Some e)"

definition apply_trade ::
  "bool \<Rightarrow> Order \<Rightarrow> PriceTicks \<Rightarrow> nat \<Rightarrow> QuantityLots \<Rightarrow> MatchingEngine \<Rightarrow>
   ((MatchingEngineError + nat) \<times> MatchingEngine) exec" where
  "apply_trade logging order best_price counter_id trade_lots e = do {
     let e = (if logging
              then e\<lparr>me_affected_makers_buf := me_affected_makers_buf e @ [counter_id],
                     me_fills_buf := me_fills_buf e @ [(counter_id, best_price, trade_lots)]\<rparr>
              else e);
     let e = add_filled (add_filled e (o_id order) trade_lots) counter_id trade_lots;
     (_, b) \<leftarrow> reduce_order_quantity_at_level (opp_book e (o_side order)) best_price counter_id trade_lots;
     let e = set_opp_book e (o_side order) b;
     (case op_acquire (ps_trades (me_pools e)) of
        (None, p) \<Rightarrow> Some (Inl OrderPoolExhausted, set_trade_pool e p)
      | (Some trade_idx, p) \<Rightarrow> do {
          let e = set_trade_pool e (op_write p trade_idx
                    (\<lambda>t. t\<lparr>t_taker_id := o_id order, t_maker_id := counter_id,
                          t_price_ticks := best_price, t_quantity_lots := trade_lots\<rparr>));
          let e = e\<lparr>me_trade_sequence := as_u64 (me_trade_sequence e + 1)\<rparr>;
          e \<leftarrow> settle_maker order best_price counter_id e;
          Some (Inr trade_idx, e)
        })
   }"

text \<open>The event of one trade, built only when a consumer is wired up.\<close>

definition trade_event :: "nat \<Rightarrow> Order \<Rightarrow> nat \<Rightarrow> PriceTicks \<Rightarrow> QuantityLots \<Rightarrow> TradeEvent" where
  "trade_event seq order counter_id price trade_lots =
     TradeEvent_new seq (o_id order) counter_id (o_timestamp order) (f_of_int price) (f_of_int trade_lots)
       (o_side order) (o_id order) counter_id"

definition log_event ::
  "Order \<Rightarrow> nat \<Rightarrow> PriceTicks \<Rightarrow> QuantityLots \<Rightarrow> MatchingEngine \<Rightarrow> TradeEvent list \<Rightarrow> TradeEvent list" where
  "log_event order counter_id price trade_lots e trade_events =
     (if me_trade_event_sender e = None then trade_events
      else trade_events @ [trade_event (me_trade_sequence e) order counter_id price trade_lots])"

text \<open>
  The inner loop: trades at one price level. The indices of the trade records and the events of
  the trades are collected along the way.
\<close>

partial_function (option) match_level ::
  "bool \<Rightarrow> Order \<Rightarrow> PriceTicks \<Rightarrow> QuantityLots \<Rightarrow> nat list \<Rightarrow> TradeEvent list \<Rightarrow> MatchingEngine \<Rightarrow>
   ((MatchingEngineError + QuantityLots \<times> nat list \<times> TradeEvent list) \<times> MatchingEngine) exec" where
  "match_level logging order best_price filled trade_indices trade_events e =
     (if filled \<ge> o_quantity_lots order then Some (Inr (filled, trade_indices, trade_events), e)
      else do {
        front \<leftarrow> front_order_id (opp_book e (o_side order)) best_price;
        (case front of
           None \<Rightarrow> Some (Inr (filled, trade_indices, trade_events), e)
         | Some counter_id \<Rightarrow>
             (case map_of (me_orders e) counter_id of
                None \<Rightarrow> do {
                  b \<leftarrow> remove_and_prune (opp_book e (o_side order)) best_price counter_id;
                  match_level logging order best_price filled trade_indices trade_events (set_opp_book e (o_side order) b)
                }
              | Some pool_idx \<Rightarrow>
                  (case op_get (order_pool e) pool_idx of
                     None \<Rightarrow> do {
                       b \<leftarrow> remove_and_prune (opp_book e (o_side order)) best_price counter_id;
                       match_level logging order best_price filled trade_indices trade_events
                         (set_opp_book (e\<lparr>me_orders := AList.delete counter_id (me_orders e)\<rparr>) (o_side order) b)
                     }
                   | Some counter_order \<Rightarrow>
                       if remaining_lots counter_order \<le> 0 then do {
                         b \<leftarrow> remove_and_prune (opp_book e (o_side order)) best_price counter_id;
                         match_level logging order best_price filled trade_indices trade_events
                           (set_opp_book (forget_order e counter_id) (o_side order) b)
                       } else do {
                         let trade_lots = min (as_i64 (o_quantity_lots order - filled)) (remaining_lots counter_order);
                         (r, e) \<leftarrow> apply_trade logging order best_price counter_id trade_lots e;
                         (case r of
                            Inl err \<Rightarrow> Some (Inl err, e)
                          | Inr trade_idx \<Rightarrow>
                              match_level logging order best_price (as_i64 (filled + trade_lots))
                                (trade_indices @ [trade_idx])
                                (log_event order counter_id best_price trade_lots e trade_events) e)
                       })))
      })"

text \<open>The outer loop: the next best price, while it is acceptable to the taker.\<close>

partial_function (option) match_loop ::
  "bool \<Rightarrow> Order \<Rightarrow> QuantityLots \<Rightarrow> nat list \<Rightarrow> TradeEvent list \<Rightarrow> MatchingEngine \<Rightarrow>
   ((MatchingEngineError + QuantityLots \<times> nat list \<times> TradeEvent list) \<times> MatchingEngine) exec" where
  "match_loop logging order filled trade_indices trade_events e =
     (if filled \<ge> o_quantity_lots order then Some (Inr (filled, trade_indices, trade_events), e)
      else do {
        (bp, b) \<leftarrow> get_best_price_cached (opp_book e (o_side order));
        let e = set_opp_book e (o_side order) b;
        (case bp of
           None \<Rightarrow> Some (Inr (filled, trade_indices, trade_events), e)
         | Some price \<Rightarrow> do {
             found \<leftarrow> get_node_at_price b price;
             if found = None then Some (Inr (filled, trade_indices, trade_events), e)
             else if \<not> acceptable (o_is_market order) (o_side order = Buy) (o_price_ticks order) price
             then Some (Inr (filled, trade_indices, trade_events), e)
             else do {
               (r, e) \<leftarrow> match_level logging order price filled trade_indices trade_events e;
               (case r of
                  Inl err \<Rightarrow> Some (Inl err, e)
                | Inr (filled, trade_indices, trade_events) \<Rightarrow> match_loop logging order filled trade_indices trade_events e)
             }
           })
      })"

definition release_trades :: "nat list \<Rightarrow> MatchingEngine \<Rightarrow> MatchingEngine" where
  "release_trades trade_indices e =
     set_trade_pool e (foldl op_release (ps_trades (me_pools e)) trade_indices)"

definition send_trades :: "TradeEvent list \<Rightarrow> MatchingEngine \<Rightarrow> MatchingEngine" where
  "send_trades trade_events e =
     e\<lparr>me_trade_event_sender := foldl push_event (me_trade_event_sender e) trade_events\<rparr>"

definition match_order ::
  "Order \<Rightarrow> MatchingEngine \<Rightarrow> ((MatchingEngineError + QuantityLots) \<times> MatchingEngine) exec" where
  "match_order order e = do {
     (r, e) \<leftarrow> match_loop True order 0 [] [] (e\<lparr>me_affected_makers_buf := [], me_fills_buf := []\<rparr>);
     (case r of
        Inl err \<Rightarrow> Some (Inl err, e)
      | Inr (filled, trade_indices, trade_events) \<Rightarrow>
          Some (Inr filled, release_trades trade_indices (send_trades trade_events e)))
   }"

subsection \<open>Resting an order\<close>

definition add_to_book ::
  "Order \<Rightarrow> MatchingEngine \<Rightarrow> ((MatchingEngineError + unit) \<times> MatchingEngine) exec" where
  "add_to_book order e =
     (if contains_order e (o_id order) then Some (Inl (DuplicateOrderId (o_id order)), e)
      else
        (case op_acquire (order_pool e) of
           (None, p) \<Rightarrow> Some (Inl OrderPoolExhausted, set_order_pool e p)
         | (Some pool_idx, p) \<Rightarrow> do {
             let e = set_order_pool e (op_write p pool_idx (\<lambda>_. order));
             (_, b) \<leftarrow> insert_level (own_book e (o_side order)) (o_price_ticks order);
             (r, b) \<leftarrow> add_order_at_level b (o_price_ticks order) (o_id order) (remaining_lots order);
             (case r of
                Inl _ \<Rightarrow> do {
                  let e = set_order_pool e (op_release (order_pool e) pool_idx);
                  level_empty \<leftarrow> level_is_empty b (o_price_ticks order) False;
                  b \<leftarrow> (if level_empty then do { (_, b) \<leftarrow> remove_level b (o_price_ticks order); Some b }
                        else Some b);
                  Some (Inl NodePoolExhausted, set_own_book e (o_side order) b)
                }
              | Inr _ \<Rightarrow>
                  Some (Inr (),
                    set_own_book (e\<lparr>me_orders := AList.update (o_id order) pool_idx (me_orders e)\<rparr>)
                      (o_side order) (invalidate_best_price_cache b)))
           }))"

subsection \<open>The order handlers\<close>

definition fill_status :: "QuantityLots \<Rightarrow> QuantityLots \<Rightarrow> OrderStatus \<Rightarrow> OrderStatus" where
  "fill_status filled quantity unfilled =
     (if filled \<ge> quantity then Filled else if filled > 0 then PartiallyFilled else unfilled)"

definition handle_market_order ::
  "Order \<Rightarrow> MatchingEngine \<Rightarrow> ((MatchingEngineError + PlaceOrderResult) \<times> MatchingEngine) exec" where
  "handle_market_order order e = do {
     (r, e) \<leftarrow> match_order order e;
     Some (case r of
             Inl err \<Rightarrow> (Inl err, e)
           | Inr filled \<Rightarrow>
               (Inr \<lparr>r_order_id = o_id order, r_filled_lots = filled,
                     r_status = fill_status filled (o_quantity_lots order) Rejected,
                     r_fills = me_fills_buf e\<rparr>, e))
   }"

definition rejected :: "Order \<Rightarrow> PlaceOrderResult" where
  "rejected order = \<lparr>r_order_id = o_id order, r_filled_lots = 0, r_status = Rejected, r_fills = []\<rparr>"

definition handle_post_only ::
  "Order \<Rightarrow> MatchingEngine \<Rightarrow> ((MatchingEngineError + PlaceOrderResult) \<times> MatchingEngine) exec" where
  "handle_post_only order e = do {
     bp \<leftarrow> best_price_ticks e (o_side order = Sell);
     let would_match =
       (case bp of
          None \<Rightarrow> False
        | Some p \<Rightarrow> (case o_side order of Buy \<Rightarrow> o_price_ticks order \<ge> p | Sell \<Rightarrow> o_price_ticks order \<le> p));
     if would_match then Some (Inr (rejected order), e)
     else do {
       (r, e) \<leftarrow> add_to_book order e;
       Some (case r of
               Inl err \<Rightarrow> (Inl err, e)
             | Inr _ \<Rightarrow>
                 (Inr \<lparr>r_order_id = o_id order, r_filled_lots = 0, r_status = Accepted, r_fills = []\<rparr>, e))
     }
   }"

definition can_fill_fok :: "MatchingEngine \<Rightarrow> Order \<Rightarrow> bool exec" where
  "can_fill_fok e order =
     has_cumulative_quantity_until (opp_book e (o_side order)) (o_quantity_lots order)
       (o_price_ticks order) (o_is_market order) (o_side order = Buy)"

definition handle_fok ::
  "Order \<Rightarrow> MatchingEngine \<Rightarrow> ((MatchingEngineError + PlaceOrderResult) \<times> MatchingEngine) exec" where
  "handle_fok order e = do {
     can \<leftarrow> can_fill_fok e order;
     if \<not> can then Some (Inr (rejected order), e)
     else do {
       (r, e) \<leftarrow> match_order order e;
       Some (case r of
               Inl err \<Rightarrow> (Inl err, e)
             | Inr filled \<Rightarrow>
                 (Inr \<lparr>r_order_id = o_id order, r_filled_lots = filled, r_status = Filled,
                       r_fills = me_fills_buf e\<rparr>, e))
     }
   }"

definition handle_ioc ::
  "Order \<Rightarrow> MatchingEngine \<Rightarrow> ((MatchingEngineError + PlaceOrderResult) \<times> MatchingEngine) exec" where
  "handle_ioc order e = do {
     (r, e) \<leftarrow> match_order order e;
     Some (case r of
             Inl err \<Rightarrow> (Inl err, e)
           | Inr filled \<Rightarrow>
               (Inr \<lparr>r_order_id = o_id order, r_filled_lots = filled,
                     r_status = fill_status filled (o_quantity_lots order) Rejected,
                     r_fills = me_fills_buf e\<rparr>, e))
   }"

definition handle_gtc ::
  "Order \<Rightarrow> MatchingEngine \<Rightarrow> ((MatchingEngineError + PlaceOrderResult) \<times> MatchingEngine) exec" where
  "handle_gtc order e = do {
     (r, e) \<leftarrow> match_order order e;
     (case r of
        Inl err \<Rightarrow> Some (Inl err, e)
      | Inr filled \<Rightarrow> do {
          (r, e) \<leftarrow> (if filled < o_quantity_lots order
                    then add_to_book (order\<lparr>o_filled_lots := filled\<rparr>) e
                    else Some (Inr (), e));
          Some (case r of
                  Inl err \<Rightarrow> (Inl err, e)
                | Inr _ \<Rightarrow>
                    (Inr \<lparr>r_order_id = o_id order, r_filled_lots = filled,
                          r_status = fill_status filled (o_quantity_lots order) Accepted,
                          r_fills = me_fills_buf e\<rparr>, e))
        })
   }"

definition dispatch ::
  "Order \<Rightarrow> MatchingEngine \<Rightarrow> ((MatchingEngineError + PlaceOrderResult) \<times> MatchingEngine) exec" where
  "dispatch order e =
     (if o_is_market order then handle_market_order order e
      else
        (case o_time_in_force order of
           PostOnly \<Rightarrow> handle_post_only order e
         | FOK \<Rightarrow> handle_fok order e
         | IOC \<Rightarrow> handle_ioc order e
         | GTC \<Rightarrow> handle_gtc order e))"

definition place_order ::
  "nat \<Rightarrow> Order \<Rightarrow> MatchingEngine \<Rightarrow> ((MatchingEngineError + PlaceOrderResult) \<times> MatchingEngine) exec" where
  "place_order now_ns order e =
     (case validate_order order of
        Inl err \<Rightarrow> Some (Inl err, e)
      | Inr _ \<Rightarrow>
          if contains_order e (o_id order) then Some (Inl (DuplicateOrderId (o_id order)), e)
          else if \<not> has_space_for_order (me_pools e) then Some (Inl OrderPoolExhausted, e)
          else do {
            (r, e) \<leftarrow> dispatch order (e\<lparr>me_affected_makers_buf := []\<rparr>);
            (case r of
               Inl err \<Rightarrow> Some (Inl err, e)
             | Inr res \<Rightarrow> do { e \<leftarrow> maybe_sample_depth now_ns e; Some (Inr res, e) })
          })"

text \<open>\<open>place_orders\<close>: validate the whole batch first, then run the handlers one by one.\<close>

fun check_orders :: "MatchingEngine \<Rightarrow> nat list \<Rightarrow> Order list \<Rightarrow> MatchingEngineError + unit" where
  "check_orders e seen [] = Inr ()"
| "check_orders e seen (order # orders) =
     (case validate_order order of
        Inl err \<Rightarrow> Inl err
      | Inr _ \<Rightarrow>
          if contains_order e (o_id order) then Inl (DuplicateOrderId (o_id order))
          else if o_id order \<in> set seen then Inl (DuplicateOrderId (o_id order))
          else if \<not> has_space_for_order (me_pools e) then Inl OrderPoolExhausted
          else check_orders e (seen @ [o_id order]) orders)"

fun place_orders_loop ::
  "Order list \<Rightarrow> PlaceOrderResult list \<Rightarrow> MatchingEngine \<Rightarrow>
   ((MatchingEngineError + PlaceOrderResult list) \<times> MatchingEngine) exec" where
  "place_orders_loop [] results e = Some (Inr results, e)"
| "place_orders_loop (order # orders) results e = do {
     (r, e) \<leftarrow> dispatch order (e\<lparr>me_affected_makers_buf := []\<rparr>);
     (case r of
        Inl err \<Rightarrow> Some (Inl err, e)
      | Inr res \<Rightarrow> place_orders_loop orders (results @ [res]) e)
   }"

definition place_orders ::
  "Order list \<Rightarrow> MatchingEngine \<Rightarrow> ((MatchingEngineError + PlaceOrderResult list) \<times> MatchingEngine) exec" where
  "place_orders orders e =
     (case check_orders e [] orders of
        Inl err \<Rightarrow> Some (Inl err, e)
      | Inr _ \<Rightarrow> place_orders_loop orders [] e)"

text \<open>
  \<open>match_orders_batch\<close>: match and rest each order in turn; the trade events of the whole batch are
  sent at the end. Unlike \<open>add_to_book\<close>, resting here keeps the cached best price.
\<close>

fun collect_trades :: "nat list \<Rightarrow> Trade list \<Rightarrow> MatchingEngine \<Rightarrow> Trade list \<times> MatchingEngine" where
  "collect_trades [] trades e = (trades, e)"
| "collect_trades (ix # ixs) trades e =
     (let trades = (case op_get (ps_trades (me_pools e)) ix of None \<Rightarrow> trades | Some t \<Rightarrow> trades @ [t])
      in collect_trades ixs trades (set_trade_pool e (op_release (ps_trades (me_pools e)) ix)))"

definition batch_rest ::
  "Order \<Rightarrow> MatchingEngine \<Rightarrow> ((MatchingEngineError + unit) \<times> MatchingEngine) exec" where
  "batch_rest order e =
     (case op_acquire (order_pool e) of
        (None, p) \<Rightarrow> Some (Inl OrderPoolExhausted, set_order_pool e p)
      | (Some pool_idx, p) \<Rightarrow> do {
          let e = set_order_pool e (op_write p pool_idx (\<lambda>_. order));
          found \<leftarrow> get_node_at_price (own_book e (o_side order)) (o_price_ticks order);
          b \<leftarrow> (if found = None
                then do { (_, b) \<leftarrow> insert_level (own_book e (o_side order)) (o_price_ticks order); Some b }
                else Some (own_book e (o_side order)));
          (r, b) \<leftarrow> add_order_at_level b (o_price_ticks order) (o_id order)
                     (as_i64 (o_quantity_lots order - o_filled_lots order));
          (case r of
             Inl _ \<Rightarrow>
               Some (Inl NodePoolExhausted,
                 set_own_book (set_order_pool e (op_release (order_pool e) pool_idx)) (o_side order) b)
           | Inr _ \<Rightarrow>
               Some (Inr (),
                 set_own_book (e\<lparr>me_orders := AList.update (o_id order) pool_idx (me_orders e)\<rparr>)
                   (o_side order) b))
        })"

fun batch_loop ::
  "Order list \<Rightarrow> (QuantityLots \<times> Trade list) list \<Rightarrow> TradeEvent list \<Rightarrow> MatchingEngine \<Rightarrow>
   ((MatchingEngineError + (QuantityLots \<times> Trade list) list \<times> TradeEvent list) \<times> MatchingEngine) exec" where
  "batch_loop [] results all_events e = Some (Inr (results, all_events), e)"
| "batch_loop (order # orders) results all_events e = do {
     (r, e) \<leftarrow> match_loop False order 0 [] all_events e;
     (case r of
        Inl err \<Rightarrow> Some (Inl err, e)
      | Inr (filled, trade_indices, all_events) \<Rightarrow> do {
          let (trades, e) = collect_trades trade_indices [] e;
          (r, e) \<leftarrow> (if filled < o_quantity_lots order
                    then batch_rest (order\<lparr>o_filled_lots := filled\<rparr>) e
                    else Some (Inr (), e));
          (case r of
             Inl err \<Rightarrow> Some (Inl err, e)
           | Inr _ \<Rightarrow> batch_loop orders (results @ [(filled, trades)]) all_events e)
        })
   }"

definition send_batch :: "TradeEvent list \<Rightarrow> MatchingEngine \<Rightarrow> MatchingEngine" where
  "send_batch trade_events e =
     e\<lparr>me_trade_event_sender := map_option (\<lambda>p. case write_chunk p trade_events of
          Some p \<Rightarrow> p | None \<Rightarrow> foldl ring_push p trade_events) (me_trade_event_sender e)\<rparr>"

definition match_orders_batch ::
  "nat \<Rightarrow> Order list \<Rightarrow> MatchingEngine \<Rightarrow>
   ((MatchingEngineError + (QuantityLots \<times> Trade list) list) \<times> MatchingEngine) exec" where
  "match_orders_batch now_ns orders e = do {
     (r, e) \<leftarrow> batch_loop orders [] [] e;
     (case r of
        Inl err \<Rightarrow> Some (Inl err, e)
      | Inr (results, all_events) \<Rightarrow> do {
          e \<leftarrow> maybe_sample_depth now_ns (send_batch all_events e);
          Some (Inr results, e)
        })
   }"

subsection \<open>Cancellation\<close>

definition remove_from_book ::
  "nat \<Rightarrow> MatchingEngine \<Rightarrow> ((MatchingEngineError + unit) \<times> MatchingEngine) exec" where
  "remove_from_book order_id e =
     (case get_order e order_id of
        None \<Rightarrow> Some (Inl OrderNotFound, e)
      | Some order \<Rightarrow> do {
          (r, b) \<leftarrow> remove_order_at_level (own_book e (o_side order)) (o_price_ticks order) order_id;
          (case r of
             Inl _ \<Rightarrow> Some (Inl OrderNotFound, set_own_book e (o_side order) b)
           | Inr _ \<Rightarrow> do {
               b \<leftarrow> drop_level_if_empty b (o_price_ticks order);
               Some (Inr (), set_own_book e (o_side order) b)
             })
        })"

definition cancel_order_inner ::
  "nat \<Rightarrow> nat \<Rightarrow> bool \<Rightarrow> MatchingEngine \<Rightarrow> ((MatchingEngineError + CancelOrderResult) \<times> MatchingEngine) exec" where
  "cancel_order_inner now_ns order_id sample_depth e =
     (case get_order e order_id of
        None \<Rightarrow> Some (Inl OrderNotFound, e)
      | Some order \<Rightarrow>
          if is_filled order then Some (Inl AlreadyFilled, e)
          else do {
            (r, e) \<leftarrow> remove_from_book order_id e;
            (case r of
               Inl err \<Rightarrow> Some (Inl err, e)
             | Inr _ \<Rightarrow> do {
                 let e = forget_order e order_id;
                 e \<leftarrow> (if sample_depth then maybe_sample_depth now_ns e else Some e);
                 Some (Inr \<lparr>c_order_id = order_id, c_cancelled_quantity = remaining_lots order\<rparr>, e)
               })
          })"

definition cancel_order ::
  "nat \<Rightarrow> nat \<Rightarrow> MatchingEngine \<Rightarrow> ((MatchingEngineError + CancelOrderResult) \<times> MatchingEngine) exec" where
  "cancel_order now_ns order_id e = cancel_order_inner now_ns order_id True e"

fun cancel_orders_loop ::
  "nat \<Rightarrow> nat list \<Rightarrow> (nat \<times> QuantityLots) list \<Rightarrow> MatchingEngine \<Rightarrow>
   ((nat \<times> QuantityLots) list \<times> MatchingEngine) exec" where
  "cancel_orders_loop now_ns [] results e = Some (results, e)"
| "cancel_orders_loop now_ns (i # is) results e = do {
     (r, e) \<leftarrow> cancel_order_inner now_ns i False e;
     cancel_orders_loop now_ns is
       (case r of Inl _ \<Rightarrow> results | Inr c \<Rightarrow> results @ [(i, c_cancelled_quantity c)]) e
   }"

definition cancel_orders_batch ::
  "nat \<Rightarrow> nat list \<Rightarrow> MatchingEngine \<Rightarrow> ((nat \<times> QuantityLots) list \<times> MatchingEngine) exec" where
  "cancel_orders_batch now_ns order_ids e = do {
     (results, e) \<leftarrow> cancel_orders_loop now_ns order_ids [] e;
     e \<leftarrow> (if results \<noteq> [] then maybe_sample_depth now_ns e else Some e);
     Some (results, e)
   }"

subsection \<open>The depth snapshot\<close>

text \<open>\<open>src/matching/snapshot.rs\<close>: two arrays of twenty levels and how many of them are in use.\<close>

record DepthSnapshot =
  ds_timestamp :: nat
  ds_sequence :: nat
  ds_num_bids :: nat
  ds_num_asks :: nat
  ds_bids :: "(f64 \<times> f64) list"
  ds_asks :: "(f64 \<times> f64) list"

definition DepthSnapshot_new :: "nat \<Rightarrow> nat \<Rightarrow> DepthSnapshot" where
  "DepthSnapshot_new ts seq =
     \<lparr>ds_timestamp = ts, ds_sequence = seq, ds_num_bids = 0, ds_num_asks = 0,
      ds_bids = replicate 20 (Fin 0, Fin 0), ds_asks = replicate 20 (Fin 0, Fin 0)\<rparr>"

definition add_bid :: "DepthSnapshot \<Rightarrow> f64 \<Rightarrow> f64 \<Rightarrow> (string + unit) \<times> DepthSnapshot" where
  "add_bid s price quantity =
     (if ds_num_bids s \<ge> 20 then (Inl ''Too many bid levels'', s)
      else (Inr (), s\<lparr>ds_bids := (ds_bids s)[ds_num_bids s := (price, quantity)], ds_num_bids := ds_num_bids s + 1\<rparr>))"

definition add_ask :: "DepthSnapshot \<Rightarrow> f64 \<Rightarrow> f64 \<Rightarrow> (string + unit) \<times> DepthSnapshot" where
  "add_ask s price quantity =
     (if ds_num_asks s \<ge> 20 then (Inl ''Too many ask levels'', s)
      else (Inr (), s\<lparr>ds_asks := (ds_asks s)[ds_num_asks s := (price, quantity)], ds_num_asks := ds_num_asks s + 1\<rparr>))"

text \<open>The total of a level is recomputed by walking its queue and looking the orders up.\<close>

partial_function (option) walk_remaining ::
  "MatchingEngine \<Rightarrow> ListNodePool \<Rightarrow> nat option \<Rightarrow> QuantityLots \<Rightarrow> QuantityLots exec" where
  "walk_remaining e list_pool node_idx_opt total_remaining =
     (case node_idx_opt of
        None \<Rightarrow> Some total_remaining
      | Some node_idx \<Rightarrow>
          (case lp_get list_pool node_idx of
             None \<Rightarrow> Some total_remaining
           | Some list_node \<Rightarrow>
               walk_remaining e list_pool (ln_next list_node)
                 (case get_order e (ln_order_id list_node) of
                    None \<Rightarrow> total_remaining
                  | Some order \<Rightarrow> as_i64 (total_remaining + remaining_lots order))))"

definition level_remaining :: "MatchingEngine \<Rightarrow> SkipList \<Rightarrow> PriceTicks \<Rightarrow> QuantityLots exec" where
  "level_remaining e b price = do {
     found \<leftarrow> get_node_at_price b price;
     (case found of
        None \<Rightarrow> Some 0
      | Some a \<Rightarrow> do {
          n \<leftarrow> node_at b a;
          walk_remaining e (sl_list_pool b) (pl_front (sn_orders n)) 0
        })
   }"

fun snapshot_levels ::
  "MatchingEngine \<Rightarrow> SkipList \<Rightarrow>
   (DepthSnapshot \<Rightarrow> f64 \<Rightarrow> f64 \<Rightarrow> (string + unit) \<times> DepthSnapshot) \<Rightarrow>
   (PriceTicks \<times> QuantityLots) list \<Rightarrow> DepthSnapshot \<Rightarrow> DepthSnapshot exec" where
  "snapshot_levels e b add [] s = Some s"
| "snapshot_levels e b add ((price, _) # levels) s = do {
     total_remaining \<leftarrow> level_remaining e b price;
     snapshot_levels e b add levels
       (if total_remaining > 0 then snd (add s (f_of_int price) (f_of_int total_remaining)) else s)
   }"

definition generate_depth_snapshot :: "nat \<Rightarrow> MatchingEngine \<Rightarrow> DepthSnapshot exec" where
  "generate_depth_snapshot wall_ns e = do {
     let s = DepthSnapshot_new wall_ns (me_snapshot_sequence e);
     buy_levels \<leftarrow> get_top_levels (me_buy_book e) 20;
     s \<leftarrow> snapshot_levels e (me_buy_book e) add_bid buy_levels s;
     sell_levels \<leftarrow> get_top_levels (me_sell_book e) 20;
     snapshot_levels e (me_sell_book e) add_ask sell_levels s
   }"

definition publish_depth_snapshot :: "nat \<Rightarrow> MatchingEngine \<Rightarrow> ((MatchingEngineError + unit) \<times> MatchingEngine) exec" where
  "publish_depth_snapshot wall_ns e = do {
     _ \<leftarrow> generate_depth_snapshot wall_ns e;
     Some (Inr (), e\<lparr>me_snapshot_sequence := as_u64 (me_snapshot_sequence e + 1)\<rparr>)
   }"

definition tick_snapshot :: "nat \<Rightarrow> nat \<Rightarrow> MatchingEngine \<Rightarrow> ((MatchingEngineError + unit) \<times> MatchingEngine) exec" where
  "tick_snapshot wall_ns interval_ns e = publish_depth_snapshot wall_ns e"

subsection \<open>The resting snapshot\<close>

record EngineSnapshot =
  sn_orders_list :: "Order list"
  sn_next_order_id :: nat
  sn_trade_sequence :: nat

definition fold_filled :: "Order \<Rightarrow> Order" where
  "fold_filled ord = ord\<lparr>o_quantity_lots := remaining_lots ord, o_filled_lots := 0\<rparr>"

definition snapshot_resting :: "MatchingEngine \<Rightarrow> EngineSnapshot" where
  "snapshot_resting e =
     \<lparr>sn_orders_list =
        sort_key (\<lambda>ord. (o_timestamp ord, o_id ord))
          (filter (\<lambda>ord. o_quantity_lots ord > 0)
            (map fold_filled (List.map_filter (\<lambda>(i, idx). op_get (order_pool e) idx) (me_orders e)))),
      sn_next_order_id = me_next_order_id e, sn_trade_sequence = me_trade_sequence e\<rparr>"

fun restore_loop :: "nat \<Rightarrow> Order list \<Rightarrow> nat \<Rightarrow> MatchingEngine \<Rightarrow> (nat \<times> MatchingEngine) exec" where
  "restore_loop now_ns [] n e = Some (n, e)"
| "restore_loop now_ns (ord # ords) n e = do {
     (r, e) \<leftarrow> place_order now_ns (ord\<lparr>o_is_market := False\<rparr>) e;
     restore_loop now_ns ords (case r of Inl _ \<Rightarrow> n | Inr _ \<Rightarrow> n + 1) e
   }"

definition restore_resting :: "nat \<Rightarrow> EngineSnapshot \<Rightarrow> MatchingEngine \<Rightarrow> (nat \<times> MatchingEngine) exec" where
  "restore_resting now_ns snap e = do {
     (n, e) \<leftarrow> restore_loop now_ns (sn_orders_list snap) 0 e;
     Some (n, e\<lparr>me_next_order_id := sn_next_order_id snap, me_trade_sequence := sn_trade_sequence snap\<rparr>)
   }"

declare match_level.simps [code] match_loop.simps [code] walk_remaining.simps [code]

end
