(* ===== verification/EngineInv.thy ===== *)
theory EngineInv
  imports Engine
begin

text \<open>
  The invariant of the matching engine and the correctness of matching. \<open>engine_inv\<close> says that
  both books are consistent and well formed, that the cached best prices are sound, and that the
  books and the order store (hash map and pool) hold the same orders with the same remaining
  quantities. Under it \<open>match_order\<close> never panics, loops or runs out of trade records, and its fills
  and the book it leaves are those of the price-time rule \<open>take_makers\<close>.
\<close>

subsection \<open>The invariant\<close>

definition side_makers :: "MatchingEngine \<Rightarrow> Side \<Rightarrow> maker list" where
  "side_makers e side = makers (view (own_book e side))"

definition maker_of :: "Order \<Rightarrow> maker" where
  "maker_of ord = (o_price_ticks ord, o_id ord, remaining_lots ord)"

text \<open>Orders that may rest: limit orders with a positive price that are good till cancelled or post-only.\<close>

definition restable :: "Order \<Rightarrow> bool" where
  "restable ord \<longleftrightarrow> \<not> o_is_market ord \<and> 0 < o_price_ticks ord \<and> (o_time_in_force ord = GTC \<or> o_time_in_force ord = PostOnly)"

definition order_wf :: "Order \<Rightarrow> bool" where
  "order_wf ord \<longleftrightarrow> in_i64 (o_quantity_lots ord) \<and> 0 \<le> o_filled_lots ord \<and> o_filled_lots ord < o_quantity_lots ord \<and> restable ord"

definition side_order :: "Side \<Rightarrow> SortOrder" where
  "side_order side = (case side of Buy \<Rightarrow> Descending | Sell \<Rightarrow> Ascending)"

definition side_ok :: "MatchingEngine \<Rightarrow> Side \<Rightarrow> bool" where
  "side_ok e side \<longleftrightarrow>
     (let b = own_book e side in
      book_inv b \<and> sl_order b = side_order side \<and> cache_ok b \<and> book_wf (view b) \<and>
      op_capacity (order_pool e) \<le> lp_capacity (sl_list_pool b))"

definition store_ok :: "MatchingEngine \<Rightarrow> bool" where
  "store_ok e \<longleftrightarrow> distinct (map fst (me_orders e)) \<and> distinct (map snd (me_orders e)) \<and>
     op_inv (order_pool e) (snd ` set (me_orders e))"

text \<open>The books and the order store agree.\<close>

definition store_side :: "(nat \<Rightarrow> Order option) \<Rightarrow> Side \<Rightarrow> maker list \<Rightarrow> bool" where
  "store_side G side ms \<longleftrightarrow>
     (\<forall>m. m \<in> set ms \<longleftrightarrow> (\<exists>ord. G (maker_id m) = Some ord \<and> o_side ord = side \<and> m = maker_of ord))"

definition stored_wf :: "(nat \<Rightarrow> Order option) \<Rightarrow> bool" where
  "stored_wf G \<longleftrightarrow> (\<forall>i ord. G i = Some ord \<longrightarrow> o_id ord = i \<and> order_wf ord)"

definition engine_core :: "nat set \<Rightarrow> MatchingEngine \<Rightarrow> bool" where
  "engine_core T e \<longleftrightarrow> side_ok e Buy \<and> side_ok e Sell \<and> store_ok e \<and> stored_wf (get_order e) \<and>
     store_side (get_order e) Buy (side_makers e Buy) \<and> store_side (get_order e) Sell (side_makers e Sell) \<and>
     op_inv (ps_trades (me_pools e)) T \<and> op_inv (ps_queues (me_pools e)) {} \<and>
     op_capacity (ps_trades (me_pools e)) = op_capacity (order_pool e)"

definition engine_inv :: "MatchingEngine \<Rightarrow> bool" where
  "engine_inv e \<longleftrightarrow> engine_core {} e"

text \<open>What matching leaves alone.\<close>

definition match_rel :: "Side \<Rightarrow> MatchingEngine \<Rightarrow> MatchingEngine \<Rightarrow> bool" where
  "match_rel side e e' \<longleftrightarrow> own_book e' side = own_book e side \<and>
     (\<forall>i. get_order e i = None \<longrightarrow> get_order e' i = None) \<and>
     length (me_orders e') \<le> length (me_orders e) \<and>
     op_capacity (order_pool e') = op_capacity (order_pool e) \<and>
     ps_queues (me_pools e') = ps_queues (me_pools e) \<and> me_next_order_id e' = me_next_order_id e"

definition bump_filled :: "Order \<Rightarrow> QuantityLots \<Rightarrow> Order" where
  "bump_filled ord n = ord\<lparr>o_filled_lots := as_i64 (o_filled_lots ord + n)\<rparr>"

text \<open>The bookkeeping before the maker is retired: both orders, the level and the trade pool.\<close>

definition log_fill :: "bool \<Rightarrow> fill \<Rightarrow> MatchingEngine \<Rightarrow> MatchingEngine" where
  "log_fill logging f e =
     (if logging then e\<lparr>me_affected_makers_buf := me_affected_makers_buf e @ [fst f], me_fills_buf := me_fills_buf e @ [f]\<rparr>
      else e)"

text \<open>The engine after the two orders, the level and the trade pool have been updated.\<close>

definition traded :: "bool \<Rightarrow> Order \<Rightarrow> PriceTicks \<Rightarrow> nat \<Rightarrow> QuantityLots \<Rightarrow> SkipList \<Rightarrow> Trade ObjectPool \<Rightarrow> MatchingEngine \<Rightarrow> MatchingEngine" where
  "traded logging ord p c d b tp e =
     (set_trade_pool (set_opp_book (add_filled (log_fill logging (c, p, d) e) c d) (o_side ord) b) tp)
       \<lparr>me_trade_sequence := as_u64 (me_trade_sequence e + 1)\<rparr>"

abbreviation opp_makers :: "MatchingEngine \<Rightarrow> Order \<Rightarrow> maker list" where
  "opp_makers e ord \<equiv> side_makers e (opposite (o_side ord))"

text \<open>The events of a run of fills, numbered from the trade sequence on.\<close>

fun fill_events :: "nat \<Rightarrow> Order \<Rightarrow> fill list \<Rightarrow> TradeEvent list" where
  "fill_events n ord [] = []"
| "fill_events n ord ((c, p, d) # fs) =
     trade_event (as_u64 (n + 1)) ord c p d # fill_events (as_u64 (n + 1)) ord fs"

definition events_of :: "MatchingEngine \<Rightarrow> Order \<Rightarrow> fill list \<Rightarrow> TradeEvent list" where
  "events_of e ord fs = (if me_trade_event_sender e = None then [] else fill_events (me_trade_sequence e) ord fs)"

text \<open>There is a trade record for every maker that is left, as long as the taker still needs lots.\<close>

definition match_st :: "Order \<Rightarrow> QuantityLots \<Rightarrow> nat list \<Rightarrow> MatchingEngine \<Rightarrow> bool" where
  "match_st ord need tix e \<longleftrightarrow> engine_core (set tix) e \<and> distinct tix \<and> get_order e (o_id ord) = None \<and>
     (0 < need \<longrightarrow> length tix + length (opp_makers e ord) \<le> op_capacity (order_pool e))"

definition match_res ::
  "bool \<Rightarrow> Order \<Rightarrow> (PriceTicks \<Rightarrow> bool) \<Rightarrow> QuantityLots \<Rightarrow> MatchingEngine \<Rightarrow> fill list \<Rightarrow> nat list \<Rightarrow> MatchingEngine \<Rightarrow> bool" where
  "match_res logging ord acc need e fs tix' e' \<longleftrightarrow>
     match_st ord (need - fill_lots fs) tix' e' \<and> match_rel (o_side ord) e e' \<and>
     take_makers acc need (opp_makers e ord) = (fs, opp_makers e' ord) \<and>
     me_fills_buf e' = me_fills_buf e @ (if logging then fs else []) \<and>
     me_affected_makers_buf e' = me_affected_makers_buf e @ (if logging then map fst fs else []) \<and>
     me_trade_sequence e' = ((\<lambda>n. as_u64 (n + 1)) ^^ length fs) (me_trade_sequence e) \<and>
     me_trade_event_sender e' = me_trade_event_sender e"

abbreviation taker_accepts :: "Order \<Rightarrow> PriceTicks \<Rightarrow> bool" where
  "taker_accepts ord \<equiv> acceptable (o_is_market ord) (o_side ord = Buy) (o_price_ticks ord)"

subsection \<open>Selectors of the state updates\<close>

lemma own_book_set [simp]:
  "own_book (set_own_book e side b) side' = (if side' = side then b else own_book e side')"
  by (cases side; cases side') (simp_all add: own_book_def set_own_book_def)

lemma opposite_neq [simp]: "opposite side \<noteq> side" "side \<noteq> opposite side" "opposite (opposite side) = side"
  by (cases side; simp add: opposite_def)+

lemma opposite_cases: "side' = side \<or> side' = opposite side"
  by (cases side; cases side'; simp add: opposite_def)

lemma set_own_book_sel [simp]:
  "me_orders (set_own_book e side b) = me_orders e" "me_pools (set_own_book e side b) = me_pools e"
  "me_next_order_id (set_own_book e side b) = me_next_order_id e"
  "me_trade_sequence (set_own_book e side b) = me_trade_sequence e"
  "me_fills_buf (set_own_book e side b) = me_fills_buf e"
  "me_affected_makers_buf (set_own_book e side b) = me_affected_makers_buf e"
  "me_trade_event_sender (set_own_book e side b) = me_trade_event_sender e"
  "order_pool (set_own_book e side b) = order_pool e"
  "get_order (set_own_book e side b) = get_order e"
  by (cases side; simp add: set_own_book_def order_pool_def get_order_def fun_eq_iff)+

lemma own_book_upd [simp]:
  "own_book (e\<lparr>me_orders := x\<rparr>) side = own_book e side"
  "own_book (e\<lparr>me_fills_buf := f\<rparr>) side = own_book e side"
  "own_book (e\<lparr>me_trade_event_sender := s\<rparr>) side = own_book e side"
  "own_book (e\<lparr>me_affected_makers_buf := a\<rparr>) side = own_book e side"
  "own_book (e\<lparr>me_trade_sequence := n\<rparr>) side = own_book e side"
  "own_book (e\<lparr>me_next_order_id := n\<rparr>) side = own_book e side"
  "order_pool (e\<lparr>me_orders := x\<rparr>) = order_pool e"
  "order_pool (e\<lparr>me_fills_buf := f\<rparr>) = order_pool e"
  "order_pool (e\<lparr>me_trade_event_sender := s\<rparr>) = order_pool e"
  "order_pool (e\<lparr>me_affected_makers_buf := a\<rparr>) = order_pool e"
  "order_pool (e\<lparr>me_trade_sequence := n\<rparr>) = order_pool e"
  "order_pool (e\<lparr>me_next_order_id := n\<rparr>) = order_pool e"
  "get_order (e\<lparr>me_fills_buf := f\<rparr>) = get_order e"
  "get_order (e\<lparr>me_trade_event_sender := s\<rparr>) = get_order e"
  "get_order (e\<lparr>me_affected_makers_buf := a\<rparr>) = get_order e"
  "get_order (e\<lparr>me_trade_sequence := n\<rparr>) = get_order e"
  "get_order (e\<lparr>me_next_order_id := n\<rparr>) = get_order e"
  by (cases side; simp add: own_book_def order_pool_def get_order_def fun_eq_iff)+

lemma set_order_pool_sel [simp]:
  "me_orders (set_order_pool e p) = me_orders e" "order_pool (set_order_pool e p) = p"
  "ps_trades (me_pools (set_order_pool e p)) = ps_trades (me_pools e)"
  "ps_queues (me_pools (set_order_pool e p)) = ps_queues (me_pools e)"
  "me_next_order_id (set_order_pool e p) = me_next_order_id e"
  "me_trade_sequence (set_order_pool e p) = me_trade_sequence e"
  "me_fills_buf (set_order_pool e p) = me_fills_buf e"
  "me_affected_makers_buf (set_order_pool e p) = me_affected_makers_buf e"
  "me_trade_event_sender (set_order_pool e p) = me_trade_event_sender e"
  "own_book (set_order_pool e p) side = own_book e side"
  by (cases side; simp add: set_order_pool_def order_pool_def own_book_def)+

lemma set_trade_pool_sel [simp]:
  "me_orders (set_trade_pool e p) = me_orders e" "order_pool (set_trade_pool e p) = order_pool e"
  "ps_trades (me_pools (set_trade_pool e p)) = p"
  "ps_queues (me_pools (set_trade_pool e p)) = ps_queues (me_pools e)"
  "me_next_order_id (set_trade_pool e p) = me_next_order_id e"
  "me_trade_sequence (set_trade_pool e p) = me_trade_sequence e"
  "me_fills_buf (set_trade_pool e p) = me_fills_buf e"
  "me_affected_makers_buf (set_trade_pool e p) = me_affected_makers_buf e"
  "me_trade_event_sender (set_trade_pool e p) = me_trade_event_sender e"
  "own_book (set_trade_pool e p) side = own_book e side" "get_order (set_trade_pool e p) = get_order e"
  by (cases side; simp add: set_trade_pool_def order_pool_def own_book_def get_order_def fun_eq_iff)+

subsection \<open>The order store\<close>

lemma get_order_mem: "get_order e i = Some ord \<Longrightarrow> i \<in> fst ` set (me_orders e)"
  by (auto simp: get_order_def bind_eq_Some_conv dest!: map_of_SomeD intro: rev_image_eqI)

lemma get_order_None_iff:
  assumes "store_ok e"
  shows "get_order e i = None \<longleftrightarrow> map_of (me_orders e) i = None"
proof (cases "map_of (me_orders e) i")
  case (Some idx)
  then have "idx \<in> snd ` set (me_orders e)" by (metis image_eqI map_of_SomeD snd_conv)
  then obtain x where "op_get (order_pool e) idx = Some x"
    using assms op_get_used [of "order_pool e" "snd ` set (me_orders e)" idx] by (auto simp: store_ok_def)
  with Some show ?thesis by (simp add: get_order_def)
qed (simp add: get_order_def)

lemma contains_order_iff: "store_ok e \<Longrightarrow> contains_order e i \<longleftrightarrow> get_order e i \<noteq> None"
  using get_order_None_iff by (auto simp: contains_order_def)

lemma store_index_inj:
  assumes "store_ok e" and "map_of (me_orders e) i = Some idx" and "map_of (me_orders e) j = Some idx"
  shows "i = j"
proof -
  have "(i, idx) \<in> set (me_orders e)" "(j, idx) \<in> set (me_orders e)" using assms(2,3) map_of_SomeD by metis+
  then show ?thesis
    using inj_onD [of snd "set (me_orders e)" "(i, idx)" "(j, idx)"] assms(1)
    by (simp add: store_ok_def distinct_map)
qed

lemma get_order_add_filled:
  assumes "store_ok e"
  shows "get_order (add_filled e i n) =
    (get_order e)(i := map_option (\<lambda>ord. ord\<lparr>o_filled_lots := as_i64 (o_filled_lots ord + n)\<rparr>) (get_order e i))"
proof (cases "map_of (me_orders e) i")
  case None
  then show ?thesis by (auto simp: add_filled_def get_order_def fun_eq_iff)
next
  case (Some idx)
  show ?thesis
  proof (rule ext)
    fix j
    show "get_order (add_filled e i n) j = ((get_order e)(i := map_option (\<lambda>ord. ord\<lparr>o_filled_lots := as_i64 (o_filled_lots ord + n)\<rparr>) (get_order e i))) j"
    proof (cases "map_of (me_orders e) j")
      case None
      then show ?thesis using Some by (auto simp: add_filled_def get_order_def)
    next
      case S: (Some jdx)
      have "idx = jdx \<longleftrightarrow> i = j" using store_index_inj [OF assms] Some S by auto
      then show ?thesis using Some S by (auto simp: add_filled_def get_order_def op_get_write)
    qed
  qed
qed

lemma add_filled_store [simp]: "store_ok (add_filled e i n) = store_ok e"
  by (simp add: store_ok_def add_filled_def split: option.split)

lemma add_filled_sel [simp]:
  "me_orders (add_filled e i n) = me_orders e" "own_book (add_filled e i n) side = own_book e side"
  "ps_trades (me_pools (add_filled e i n)) = ps_trades (me_pools e)"
  "ps_queues (me_pools (add_filled e i n)) = ps_queues (me_pools e)"
  "op_capacity (order_pool (add_filled e i n)) = op_capacity (order_pool e)"
  "me_next_order_id (add_filled e i n) = me_next_order_id e"
  "me_trade_sequence (add_filled e i n) = me_trade_sequence e"
  "me_fills_buf (add_filled e i n) = me_fills_buf e"
  "me_affected_makers_buf (add_filled e i n) = me_affected_makers_buf e"
  "me_trade_event_sender (add_filled e i n) = me_trade_event_sender e"
  by (simp_all add: add_filled_def split: option.split)

lemma add_filled_absent: "map_of (me_orders e) i = None \<Longrightarrow> add_filled e i n = e"
  by (simp add: add_filled_def)

lemma set_delete: "set (AList.delete i xs) = {x \<in> set xs. fst x \<noteq> i}"
  by (auto simp: AList.delete_eq)

lemma forget_order_store:
  assumes "store_ok e"
  shows "store_ok (forget_order e i)" and "get_order (forget_order e i) = (get_order e)(i := None)"
proof -
  show "store_ok (forget_order e i)"
  proof (cases "map_of (me_orders e) i")
    case None
    then show ?thesis using assms by (simp add: forget_order_def)
  next
    case (Some idx)
    have m: "(i, idx) \<in> set (me_orders e)" using Some by (rule map_of_SomeD)
    have d: "distinct (map fst (me_orders e))" "distinct (map snd (me_orders e))"
      and inv: "op_inv (order_pool e) (snd ` set (me_orders e))" using assms by (simp_all add: store_ok_def)
    have "snd ` set (AList.delete i (me_orders e)) = snd ` set (me_orders e) - {idx}"
      using m d by (auto simp: set_delete distinct_map inj_on_def image_iff) force+
    moreover have "op_inv (op_release (order_pool e) idx) (snd ` set (me_orders e) - {idx})"
      using inv m by (intro op_release_inv) (auto intro: rev_image_eqI)
    moreover have "distinct (map fst (AList.delete i (me_orders e)))" "distinct (map snd (AList.delete i (me_orders e)))"
      using d by (auto simp: AList.delete_eq distinct_map_filter)
    ultimately show ?thesis using Some by (simp add: store_ok_def forget_order_def)
  qed
  show "get_order (forget_order e i) = (get_order e)(i := None)"
    by (auto simp: forget_order_def get_order_def fun_eq_iff delete_conv' split: option.split)
qed

lemma forget_order_sel [simp]:
  "own_book (forget_order e i) side = own_book e side"
  "ps_trades (me_pools (forget_order e i)) = ps_trades (me_pools e)"
  "ps_queues (me_pools (forget_order e i)) = ps_queues (me_pools e)"
  "op_capacity (order_pool (forget_order e i)) = op_capacity (order_pool e)"
  "me_next_order_id (forget_order e i) = me_next_order_id e"
  "me_trade_sequence (forget_order e i) = me_trade_sequence e"
  "me_fills_buf (forget_order e i) = me_fills_buf e"
  "me_affected_makers_buf (forget_order e i) = me_affected_makers_buf e"
  "me_trade_event_sender (forget_order e i) = me_trade_event_sender e"
  by (simp_all add: forget_order_def split: option.split)

subsection \<open>Agreement of the books with the store\<close>

lemma maker_id_maker_of [simp]: "maker_id (maker_of ord) = o_id ord"
  by (simp add: maker_of_def)

lemma store_sideD:
  "store_side G side ms \<Longrightarrow>
     m \<in> set ms \<longleftrightarrow> (\<exists>ord. G (maker_id m) = Some ord \<and> o_side ord = side \<and> m = maker_of ord)"
  unfolding store_side_def by (rule spec)

lemma store_side_upd:
  assumes "store_side G side ms" and "set ms' = {m \<in> set ms. maker_id m \<noteq> c} \<union> set_option (map_option maker_of X)"
    and "\<And>ord. X = Some ord \<Longrightarrow> o_side ord = side \<and> o_id ord = c"
  shows "store_side (G(c := X)) side ms'"
  unfolding store_side_def
proof
  fix m
  note G = store_sideD [OF assms(1), of m]
  show "m \<in> set ms' \<longleftrightarrow> (\<exists>ord. (G(c := X)) (maker_id m) = Some ord \<and> o_side ord = side \<and> m = maker_of ord)"
  proof (cases "maker_id m = c")
    case True
    then show ?thesis using assms(2,3) by auto
  next
    case False
    then have "m \<notin> set_option (map_option maker_of X)" using assms(3) by auto
    then show ?thesis using False assms(2) G by auto
  qed
qed

lemma store_side_other:
  assumes "store_side G side ms" and "\<And>ord. G c = Some ord \<Longrightarrow> o_side ord \<noteq> side"
    and "\<And>ord. X = Some ord \<Longrightarrow> o_side ord \<noteq> side"
  shows "store_side (G(c := X)) side ms"
  unfolding store_side_def
proof
  fix m
  show "m \<in> set ms \<longleftrightarrow> (\<exists>ord. (G(c := X)) (maker_id m) = Some ord \<and> o_side ord = side \<and> m = maker_of ord)"
    using store_sideD [OF assms(1), of m] assms(2,3) by (cases "maker_id m = c") auto
qed

lemma stored_wf_upd:
  assumes "stored_wf G" and "\<And>ord. X = Some ord \<Longrightarrow> o_id ord = c \<and> order_wf ord"
  shows "stored_wf (G(c := X))"
  using assms by (auto simp: stored_wf_def)

lemma engine_core_sides:
  "engine_core T e \<longleftrightarrow> (\<forall>side. side_ok e side) \<and> store_ok e \<and> stored_wf (get_order e) \<and>
     (\<forall>side. store_side (get_order e) side (side_makers e side)) \<and>
     op_inv (ps_trades (me_pools e)) T \<and> op_inv (ps_queues (me_pools e)) {} \<and>
     op_capacity (ps_trades (me_pools e)) = op_capacity (order_pool e)"
  unfolding engine_core_def by (metis (full_types) Side.exhaust)

lemma engine_coreD:
  assumes "engine_core T e"
  shows "side_ok e side" and "store_ok e" and "stored_wf (get_order e)"
    and "store_side (get_order e) side (side_makers e side)" and "op_inv (ps_trades (me_pools e)) T"
    and "op_inv (ps_queues (me_pools e)) {}" and "op_capacity (ps_trades (me_pools e)) = op_capacity (order_pool e)"
    and "book_inv (own_book e side)" and "sl_order (own_book e side) = side_order side"
    and "cache_ok (own_book e side)" and "book_wf (view (own_book e side))"
    and "op_capacity (order_pool e) \<le> lp_capacity (sl_list_pool (own_book e side))"
proof -
  show so: "side_ok e side" using assms engine_core_sides by blast
  then show "book_inv (own_book e side)" "sl_order (own_book e side) = side_order side"
    "cache_ok (own_book e side)" "book_wf (view (own_book e side))"
    "op_capacity (order_pool e) \<le> lp_capacity (sl_list_pool (own_book e side))"
    by (simp_all add: side_ok_def Let_def)
  show "store_side (get_order e) side (side_makers e side)" using assms engine_core_sides by blast
qed (use assms in \<open>simp_all add: engine_core_def\<close>)

text \<open>
  One entry \<open>c\<close> of one side changes: the book of that side, the store at \<open>c\<close> and the trades in
  use. Everything the invariant says about the other side stays.
\<close>

lemma engine_core_change:
  assumes core: "engine_core T e"
    and old: "\<And>ord. get_order e c = Some ord \<Longrightarrow> o_side ord = side"
    and new: "\<And>ord. X = Some ord \<Longrightarrow> o_side ord = side \<and> o_id ord = c \<and> order_wf ord"
    and G: "get_order e' = (get_order e)(c := X)" and st: "store_ok e'"
    and other: "own_book e' (opposite side) = own_book e (opposite side)"
    and book: "book_inv (own_book e' side)" "sl_order (own_book e' side) = sl_order (own_book e side)"
      "cache_ok (own_book e' side)" "book_wf (view (own_book e' side))"
      "lp_capacity (sl_list_pool (own_book e' side)) = lp_capacity (sl_list_pool (own_book e side))"
    and mk: "set (side_makers e' side) = {m \<in> set (side_makers e side). maker_id m \<noteq> c} \<union> set_option (map_option maker_of X)"
    and tr: "op_inv (ps_trades (me_pools e')) T'" "op_capacity (ps_trades (me_pools e')) = op_capacity (ps_trades (me_pools e))"
    and cap: "op_capacity (order_pool e') = op_capacity (order_pool e)"
    and qu: "ps_queues (me_pools e') = ps_queues (me_pools e)"
  shows "engine_core T' e'"
proof -
  note D = engine_coreD [OF core]
  have "side_ok e' side" using book D(9,12) [of side] cap by (simp add: side_ok_def Let_def)
  moreover have "side_ok e' (opposite side)" using D(1) [of "opposite side"] other cap by (simp add: side_ok_def)
  ultimately have so: "side_ok e' side'" for side' using opposite_cases [of side' side] by auto
  have "store_side (get_order e') side (side_makers e' side)"
    unfolding G using new by (intro store_side_upd [OF D(4) mk]) auto
  moreover have "store_side (get_order e') (opposite side) (side_makers e' (opposite side))"
  proof -
    have "side_makers e' (opposite side) = side_makers e (opposite side)" using other by (simp add: side_makers_def)
    then show ?thesis unfolding G using old new by (metis D(4) opposite_neq(2) store_side_other)
  qed
  ultimately have ss: "store_side (get_order e') side' (side_makers e' side')" for side'
    using opposite_cases [of side' side] by auto
  have "stored_wf (get_order e')" unfolding G using new by (intro stored_wf_upd [OF D(3)]) auto
  with so ss st tr cap qu D(6,7) show ?thesis by (simp add: engine_core_sides)
qed

subsection \<open>One trade\<close>

lemma match_rel_refl [simp]: "match_rel side e e"
  by (simp add: match_rel_def)

lemma match_rel_trans: "match_rel side e e' \<Longrightarrow> match_rel side e' e'' \<Longrightarrow> match_rel side e e''"
  by (auto simp: match_rel_def)

lemma order_wf_remaining:
  "order_wf ord \<Longrightarrow> remaining_lots ord = o_quantity_lots ord - o_filled_lots ord \<and> 0 < remaining_lots ord"
  by (auto simp: order_wf_def remaining_lots_def in_i64_diff_nonneg)

lemma head_order:
  assumes core: "engine_core T e" and V: "view (own_book e side) = (p, t, (c, q) # xs) # V"
  obtains cord where "get_order e c = Some cord" "o_side cord = side" "o_id cord = c" "o_price_ticks cord = p"
    "remaining_lots cord = q" "order_wf cord" "0 < q"
proof -
  have "(p, c, q) \<in> set (side_makers e side)" using V by (simp add: side_makers_def)
  then obtain cord where c: "get_order e c = Some cord" "o_side cord = side" "(p, c, q) = maker_of cord"
    using store_sideD [OF engine_coreD(4) [OF core], of "(p, c, q)" side] by auto
  moreover have "order_wf cord" using engine_coreD(3) [OF core] c(1) by (simp add: stored_wf_def)
  moreover from this have "0 < remaining_lots cord" using order_wf_remaining by blast
  ultimately show thesis by (intro that [of cord]) (auto simp: maker_of_def)
qed

lemma bump_filled_ok:
  assumes "order_wf ord" and "0 < n" and "n \<le> remaining_lots ord"
  shows "remaining_lots (bump_filled ord n) = remaining_lots ord - n"
    and "n < remaining_lots ord \<Longrightarrow> order_wf (bump_filled ord n)"
    and "is_filled (bump_filled ord n) \<longleftrightarrow> n = remaining_lots ord"
    and "o_side (bump_filled ord n) = o_side ord" "o_id (bump_filled ord n) = o_id ord"
      "o_price_ticks (bump_filled ord n) = o_price_ticks ord"
proof -
  have r: "remaining_lots ord = o_quantity_lots ord - o_filled_lots ord" using order_wf_remaining [OF assms(1)] by simp
  have i: "in_i64 (o_filled_lots ord + n)" using assms r by (auto simp: order_wf_def in_i64_def)
  show rem: "remaining_lots (bump_filled ord n) = remaining_lots ord - n"
    using assms r i by (auto simp: bump_filled_def remaining_lots_def order_wf_def in_i64_def intro!: as_i64_id)
  show "n < remaining_lots ord \<Longrightarrow> order_wf (bump_filled ord n)"
    using assms r i by (auto simp: bump_filled_def order_wf_def restable_def)
  show "is_filled (bump_filled ord n) \<longleftrightarrow> n = remaining_lots ord" using rem assms(3) by (auto simp: is_filled_def)
qed (simp_all add: bump_filled_def)

lemma length_forget: "length (me_orders (forget_order e i)) \<le> length (me_orders e)"
  by (auto simp: forget_order_def length_delete_le split: option.split)

lemma drop_level_if_empty_eq:
  "drop_level_if_empty b p = (do { e \<leftarrow> level_is_empty b p True; if e then do { (_, s) \<leftarrow> remove_level b p; Some s } else Some b })"
  by (simp add: drop_level_if_empty_def)

lemma log_fill_sel [simp]:
  "own_book (log_fill logging f e) side = own_book e side" "order_pool (log_fill logging f e) = order_pool e"
  "get_order (log_fill logging f e) = get_order e" "me_orders (log_fill logging f e) = me_orders e"
  "me_pools (log_fill logging f e) = me_pools e" "store_ok (log_fill logging f e) = store_ok e"
  "me_next_order_id (log_fill logging f e) = me_next_order_id e"
  "me_trade_sequence (log_fill logging f e) = me_trade_sequence e"
  "me_trade_event_sender (log_fill logging f e) = me_trade_event_sender e"
  by (simp_all add: log_fill_def store_ok_def)

lemma cache_ok_kept:
  assumes "cache_ok b" and "book_frame b b'" and "fst ` set (makers (view b')) \<subseteq> fst ` set (makers (view b))"
  shows "cache_ok b'"
  using slb.cache_kept [of b b'] assms by (simp add: cache_ok_def)

lemma acquire_trade:
  assumes "op_inv p T" and "card T < op_capacity p"
  obtains ix p' where "op_acquire p = (Some ix, p')" "ix \<notin> T" "op_inv p' (insert ix T)" "op_capacity p' = op_capacity p"
proof -
  have "op_free_indices p \<noteq> []" using op_free_length [OF assms(1)] assms(2) by auto
  then obtain ix p' where a: "op_acquire p = (Some ix, p')" using op_acquire_succeeds by blast
  from op_acquire_Some [OF assms(1) a] show thesis by (intro that [OF a])
qed

lemma traded_sel:
  "own_book (traded logging ord p c d b tp e) side = (if side = opposite (o_side ord) then b else own_book e side)"
  "me_orders (traded logging ord p c d b tp e) = me_orders e"
  "ps_trades (me_pools (traded logging ord p c d b tp e)) = tp"
  "ps_queues (me_pools (traded logging ord p c d b tp e)) = ps_queues (me_pools e)"
  "op_capacity (order_pool (traded logging ord p c d b tp e)) = op_capacity (order_pool e)"
  "store_ok (traded logging ord p c d b tp e) = store_ok e"
  "store_ok e \<Longrightarrow> get_order (traded logging ord p c d b tp e) = (get_order e)(c := map_option (\<lambda>ord. bump_filled ord d) (get_order e c))"
  "me_next_order_id (traded logging ord p c d b tp e) = me_next_order_id e"
  "me_trade_sequence (traded logging ord p c d b tp e) = as_u64 (me_trade_sequence e + 1)"
  "me_trade_event_sender (traded logging ord p c d b tp e) = me_trade_event_sender e"
  "me_fills_buf (traded logging ord p c d b tp e) = me_fills_buf (log_fill logging (c, p, d) e)"
  "me_affected_makers_buf (traded logging ord p c d b tp e) = me_affected_makers_buf (log_fill logging (c, p, d) e)"
proof -
  show "store_ok (traded logging ord p c d b tp e) = store_ok e"
    using add_filled_store [of "log_fill logging (c, p, d) e" c d] log_fill_sel(6) [of logging "(c, p, d)" e]
    by (simp add: traded_def set_opp_book_def store_ok_def)
  show "store_ok e \<Longrightarrow> get_order (traded logging ord p c d b tp e) = (get_order e)(c := map_option (\<lambda>ord. bump_filled ord d) (get_order e c))"
    using get_order_add_filled [of "log_fill logging (c, p, d) e" c d]
    by (simp add: traded_def set_opp_book_def bump_filled_def)
qed (simp_all add: traded_def set_opp_book_def)

lemma apply_trade_eq:
  assumes "get_order e (o_id ord) = None" and "store_ok e"
    and red: "reduce_order_quantity_at_level (opp_book e (o_side ord)) p c d = Some (r, b)"
    and acq: "op_acquire (ps_trades (me_pools e)) = (Some ix, tp)"
  shows "\<exists>tp'. op_inv tp' = op_inv tp \<and> op_capacity tp' = op_capacity tp \<and>
    apply_trade logging ord p c d e = (do { e' \<leftarrow> settle_maker ord p c (traded logging ord p c d b tp' e); Some (Inr ix, e') })"
proof -
  let ?f = "\<lambda>t. t\<lparr>t_taker_id := o_id ord, t_maker_id := c, t_price_ticks := p, t_quantity_lots := d\<rparr>"
  have none: "map_of (me_orders e) (o_id ord) = None" using assms(1,2) get_order_None_iff by blast
  have lg: "(if logging then e\<lparr>me_affected_makers_buf := me_affected_makers_buf e @ [c], me_fills_buf := me_fills_buf e @ [(c, p, d)]\<rparr> else e)
      = log_fill logging (c, p, d) e" by (simp add: log_fill_def)
  have "add_filled (log_fill logging (c, p, d) e) (o_id ord) d = log_fill logging (c, p, d) e"
    using none by (intro add_filled_absent) simp
  then have "apply_trade logging ord p c d e = (do { e' \<leftarrow> settle_maker ord p c (traded logging ord p c d b (op_write tp ix ?f) e); Some (Inr ix, e') })"
    using red acq by (simp add: apply_trade_def lg traded_def opp_book_def set_opp_book_def Let_def)
  moreover have "op_inv (op_write tp ix ?f) = op_inv tp" by (rule ext) simp
  ultimately show ?thesis by (intro exI [of _ "op_write tp ix ?f"]) simp
qed

lemma head_others:
  assumes "book_wf ((p, t, (c, q) # xs) # V)"
  shows "{m \<in> set (makers ((p, t, (c, q) # xs) # V)). maker_id m \<noteq> c} = set (map (Pair p) xs @ makers V)"
proof -
  have "c \<notin> set (map maker_id (map (Pair p) xs @ makers V))" using assms by (simp add: book_wf_def)
  then have "\<forall>m \<in> set (map (Pair p) xs @ makers V). maker_id m \<noteq> c" by (metis image_eqI list.set_map)
  then show ?thesis by auto
qed

lemma trade_partial:
  assumes core: "engine_core T e" and V: "view (opp_book e (o_side ord)) = (p, t, (c, q) # xs) # V"
    and d: "0 < d" "d < q" and b: "book_inv b" "book_frame (opp_book e (o_side ord)) b"
    and vb: "view b = (p, t - d, (c, q - d) # xs) # V"
    and tp: "op_inv tp T'" "op_capacity tp = op_capacity (ps_trades (me_pools e))"
  shows "settle_maker ord p c (traded logging ord p c d b tp e) = Some (traded logging ord p c d b tp e)"
    and "engine_core T' (traded logging ord p c d b tp e)"
proof -
  let ?o = "opposite (o_side ord)" and ?e = "traded logging ord p c d b tp e"
  have V': "view (own_book e ?o) = (p, t, (c, q) # xs) # V" using V by (simp add: opp_book_def)
  note D = engine_coreD [OF core]
  obtain cord where c: "get_order e c = Some cord" "o_side cord = ?o" "o_id cord = c" "o_price_ticks cord = p"
    "remaining_lots cord = q" "order_wf cord" by (rule head_order [OF core V'])
  note bf = bump_filled_ok [OF c(6) d(1)]
  have G: "get_order ?e = (get_order e)(c := Some (bump_filled cord d))" using traded_sel(7) [OF D(2)] c(1) by simp
  show "settle_maker ord p c ?e = Some ?e" using bf(3) c(5) d(2) by (simp add: settle_maker_def G)
  have wf: "book_wf ((p, t, (c, q) # xs) # V)" using D(11) [of ?o] V' by simp
  have "set (side_makers ?e ?o) = {m \<in> set (side_makers e ?o). maker_id m \<noteq> c} \<union>
      set_option (map_option maker_of (Some (bump_filled cord d)))"
    using bf(1) c(3-5) d head_others [OF wf] by (simp add: side_makers_def traded_sel maker_of_def bf V' vb)
  then show "engine_core T' ?e"
  proof (intro engine_core_change [OF core _ _ G, where T' = T' and side = ?o])
    show "cache_ok (own_book ?e ?o)"
      using cache_ok_kept [OF D(10) [of ?o], of b] b(2) V' vb by (simp add: traded_sel opp_book_def)
    show "book_wf (view (own_book ?e ?o))"
      using book_wf_partial(1) [of p t c q xs V d] D(11) [of ?o] V' d vb by (simp add: traded_sel)
  qed (use c b bf d tp D(2,9) in \<open>auto simp: traded_sel opp_book_def book_frame_def\<close>)
qed

lemma trade_full:
  assumes core: "engine_core T e" and V: "view (opp_book e (o_side ord)) = (p, t, (c, q) # xs) # V"
    and b: "book_inv b" "book_frame (opp_book e (o_side ord)) b" and vb: "view b = (p, t - q, (c, 0) # xs) # V"
    and tp: "op_inv tp T'" "op_capacity tp = op_capacity (ps_trades (me_pools e))"
  obtains e' where "settle_maker ord p c (traded logging ord p c q b tp e) = Some e'" "engine_core T' e'"
    "match_rel (o_side ord) (traded logging ord p c q b tp e) e'"
    "view (opp_book e' (o_side ord)) = (if xs = [] then V else (p, t - q, xs) # V)"
    "me_fills_buf e' = me_fills_buf (traded logging ord p c q b tp e)"
    "me_affected_makers_buf e' = me_affected_makers_buf (traded logging ord p c q b tp e)"
    "me_trade_sequence e' = me_trade_sequence (traded logging ord p c q b tp e)"
    "me_trade_event_sender e' = me_trade_event_sender (traded logging ord p c q b tp e)"
    "op_capacity (ps_trades (me_pools e')) = op_capacity tp"
proof -
  let ?o = "opposite (o_side ord)" and ?e = "traded logging ord p c q b tp e"
  have V': "view (own_book e ?o) = (p, t, (c, q) # xs) # V" using V by (simp add: opp_book_def)
  note D = engine_coreD [OF core]
  have wf: "book_wf ((p, t, (c, q) # xs) # V)" using D(11) [of ?o] V' by simp
  obtain cord where c: "get_order e c = Some cord" "o_side cord = ?o" "o_id cord = c" "o_price_ticks cord = p"
    "remaining_lots cord = q" "order_wf cord" "0 < q" by (rule head_order [OF core V'])
  have fl: "is_filled (bump_filled cord q)" using bump_filled_ok(3) [OF c(6) c(7)] c(5) by simp
  have G: "get_order ?e = (get_order e)(c := Some (bump_filled cord q))" using traded_sel(7) [OF D(2)] c(1) by simp
  obtain s1 b' where rm: "remove_order_at_level b p c = Some (Inr (), s1)" "drop_level_if_empty s1 p = Some b'"
    and b': "book_inv b'" "book_frame b b'" "view b' = (if xs = [] then V else (p, as_i64 (t - q), xs) # V)"
    using slb.remove_head [OF b(1) vb] unfolding drop_level_if_empty_eq by auto
  have fr: "book_frame (own_book e ?o) b'" using slb.frame_trans b(2) b'(2) by (simp add: opp_book_def)
  have vb': "view b' = (if xs = [] then V else (p, t - q, xs) # V)" using b'(3) book_wf_tail(2) [OF wf] by simp
  define e' where "e' = set_opp_book (forget_order (set_opp_book ?e (o_side ord) s1) c) (o_side ord) b'"
  have se: "settle_maker ord p c ?e = Some e'"
    using fl rm by (simp add: settle_maker_def G e'_def opp_book_def set_opp_book_def traded_sel)
  have st1: "store_ok (set_opp_book ?e (o_side ord) s1)"
    using D(2) traded_sel(6) by (simp add: store_ok_def set_opp_book_def)
  have G': "get_order e' = (get_order e)(c := None)"
    using forget_order_store(2) [OF st1, of c] G by (simp add: e'_def set_opp_book_def)
  have st': "store_ok e'"
    using forget_order_store(1) [OF st1, of c] by (simp add: e'_def set_opp_book_def store_ok_def)
  have ob: "own_book e' ?o = b'" "own_book e' (o_side ord) = own_book e (o_side ord)"
    by (simp_all add: e'_def set_opp_book_def traded_sel)
  have mk: "makers (view b') = map (Pair p) xs @ makers V" using vb' by simp
  have sm: "set (side_makers e' ?o) = {m \<in> set (side_makers e ?o). maker_id m \<noteq> c} \<union> set_option (map_option maker_of None)"
    using head_others [OF wf] by (simp add: side_makers_def ob V' mk)
  have "engine_core T' e'"
  proof (rule engine_core_change [OF core _ _ G' st' _ _ _ _ _ _ sm])
    show "cache_ok (own_book e' ?o)"
      using cache_ok_kept [OF D(10) fr] V' mk by (auto simp: ob)
    show "book_wf (view (own_book e' ?o))" using book_wf_tail(1) [OF wf] vb' by (simp add: ob)
  qed (use c b'(1) fr tp D(9) ob in \<open>auto simp: book_frame_def e'_def set_opp_book_def traded_sel\<close>)
  moreover have "match_rel (o_side ord) ?e e'"
    using length_forget [of "set_opp_book ?e (o_side ord) s1" c] G G' ob
    by (auto simp: match_rel_def e'_def set_opp_book_def traded_sel)
  ultimately show thesis
    using vb' ob by (intro that [OF se]) (simp_all add: opp_book_def e'_def set_opp_book_def traded_sel)
qed

subsection \<open>The matching loops\<close>

lemma match_res_trans:
  assumes "match_res logging ord acc' need e f1 tix1 e1" and "\<And>r. acc' r \<Longrightarrow> acc r"
    and "match_res logging ord acc (need - fill_lots f1) e1 f2 tix2 e2"
  shows "match_res logging ord acc need e (f1 @ f2) tix2 e2"
proof -
  have "take_makers acc need (opp_makers e ord) = (f1 @ f2, opp_makers e2 ord)"
    using take_makers_split [of acc' acc need "opp_makers e ord" f1 "opp_makers e1 ord" f2 "opp_makers e2 ord"] assms
    by (auto simp: match_res_def)
  moreover have "match_rel (o_side ord) e e2" using assms match_rel_trans by (auto simp: match_res_def)
  moreover have "((\<lambda>n. as_u64 (n + 1)) ^^ length (f1 @ f2)) = ((\<lambda>n. as_u64 (n + 1)) ^^ length f2) \<circ> ((\<lambda>n. as_u64 (n + 1)) ^^ length f1)"
    by (simp only: length_append add.commute [of "length f1"] funpow_add)
  ultimately show ?thesis using assms by (simp add: match_res_def diff_diff_eq)
qed

lemma match_res_none:
  assumes "match_st ord need tix e" and "take_makers acc need (opp_makers e ord) = ([], opp_makers e ord)"
  shows "match_res logging ord acc need e [] tix e"
  using assms by (simp add: match_res_def)

lemma trade_step:
  assumes st: "match_st ord need tix e" and V: "view (opp_book e (o_side ord)) = (p, t, (c, q) # xs) # V"
    and d: "0 < d" "d \<le> q" and need: "d = min need q"
  obtains ix e' where "apply_trade logging ord p c d e = Some (Inr ix, e')" "match_st ord (need - d) (tix @ [ix]) e'"
    "match_rel (o_side ord) e e'"
    "view (opp_book e' (o_side ord)) =
       (if d < q then (p, t - d, (c, q - d) # xs) # V else if xs = [] then V else (p, t - q, xs) # V)"
    "me_fills_buf e' = me_fills_buf e @ (if logging then [(c, p, d)] else [])"
    "me_affected_makers_buf e' = me_affected_makers_buf e @ (if logging then [c] else [])"
    "me_trade_sequence e' = as_u64 (me_trade_sequence e + 1)"
    "me_trade_event_sender e' = me_trade_event_sender e"
proof -
  let ?o = "opposite (o_side ord)"
  have V': "view (own_book e ?o) = (p, t, (c, q) # xs) # V" using V by (simp add: opp_book_def)
  have core: "engine_core (set tix) e" and dx: "distinct tix" and fresh: "get_order e (o_id ord) = None"
    and room: "length tix + length (opp_makers e ord) \<le> op_capacity (order_pool e)"
    using st d need by (simp_all add: match_st_def)
  note D = engine_coreD [OF core]
  have wf: "book_wf ((p, t, (c, q) # xs) # V)" using D(11) [of ?o] V' by simp
  note wc = book_wf_Cons [OF wf]
  have len: "length (opp_makers e ord) = Suc (length (map (Pair p) xs @ makers V))" by (simp add: side_makers_def V')
  have bi: "book_inv (opp_book e (o_side ord))" using D(8) by (simp add: opp_book_def)
  obtain b where red: "reduce_order_quantity_at_level (opp_book e (o_side ord)) p c d = Some (Inr (), b)"
    and b: "book_inv b" "book_frame (opp_book e (o_side ord)) b"
    and vb0: "view b = (p, max (as_i64 (t - d)) 0, (c, max (as_i64 (q - d)) 0) # xs) # V"
    using slb.reduce_head [OF bi V, of d] by blast
  have "in_i64 (t - d)" "in_i64 (q - d)" using wc d by (auto simp: in_i64_def)
  then have vb: "view b = (p, t - d, (c, q - d) # xs) # V" using vb0 wc d by simp
  have "card (set tix) < op_capacity (ps_trades (me_pools e))" using dx room len D(7) by (simp add: distinct_card)
  then obtain ix tp where acq: "op_acquire (ps_trades (me_pools e)) = (Some ix, tp)"
    and ix: "ix \<notin> set tix" "op_inv tp (insert ix (set tix))" "op_capacity tp = op_capacity (ps_trades (me_pools e))"
    using acquire_trade [OF D(5)] by metis
  obtain tp' where tp: "op_inv tp' = op_inv tp" "op_capacity tp' = op_capacity tp"
    and ap: "apply_trade logging ord p c d e =
      (do { e' \<leftarrow> settle_maker ord p c (traded logging ord p c d b tp' e); Some (Inr ix, e') })"
    using apply_trade_eq [OF fresh D(2) red acq] by blast
  let ?e = "traded logging ord p c d b tp' e"
  have tpi: "op_inv tp' (set (tix @ [ix]))" "op_capacity tp' = op_capacity (ps_trades (me_pools e))"
    using tp ix by simp_all
  have rel: "match_rel (o_side ord) e ?e"
    using head_order [OF core V'] by (auto simp: match_rel_def traded_sel D(2))
  have "c \<noteq> o_id ord" using head_order [OF core V'] fresh by (metis option.distinct(1))
  then have fr: "get_order ?e (o_id ord) = None" using fresh by (simp add: traded_sel D(2))
  have logs: "me_fills_buf ?e = me_fills_buf e @ (if logging then [(c, p, d)] else [])"
    "me_affected_makers_buf ?e = me_affected_makers_buf e @ (if logging then [c] else [])"
    "me_trade_sequence ?e = as_u64 (me_trade_sequence e + 1)" "me_trade_event_sender ?e = me_trade_event_sender e"
    by (simp_all add: traded_sel log_fill_def)
  show thesis
  proof (cases "d < q")
    case True
    note tr = trade_partial [OF core V d(1) True b vb tpi, where logging = logging]
    have "match_st ord (need - d) (tix @ [ix]) ?e"
      using tr(2) dx ix(1) fr need True by (simp add: match_st_def)
    then show thesis
      using tr(1) ap rel logs True vb by (intro that [of ix ?e]) (simp_all add: traded_sel opp_book_def)
  next
    case False
    then have dq: "d = q" using d(2) by simp
    obtain e' where e': "settle_maker ord p c ?e = Some e'" "engine_core (set (tix @ [ix])) e'"
      "match_rel (o_side ord) ?e e'" "view (opp_book e' (o_side ord)) = (if xs = [] then V else (p, t - q, xs) # V)"
      "me_fills_buf e' = me_fills_buf ?e" "me_affected_makers_buf e' = me_affected_makers_buf ?e"
      "me_trade_sequence e' = me_trade_sequence ?e" "me_trade_event_sender e' = me_trade_event_sender ?e"
      using trade_full [OF core V b, of tp' "set (tix @ [ix])" logging] vb tpi dq by auto
    have "makers (view (opp_book e' (o_side ord))) = map (Pair p) xs @ makers V" using e'(4) by simp
    then have "length (opp_makers e' ord) = length (map (Pair p) xs @ makers V)"
      by (simp add: side_makers_def opp_book_def)
    then have "match_st ord (need - d) (tix @ [ix]) e'"
      using e'(2,3) dx ix(1) fr room len by (auto simp: match_st_def match_rel_def traded_sel)
    then show thesis
      using e' ap rel logs dq match_rel_trans by (intro that [of ix e']) auto
  qed
qed

lemma match_stD:
  assumes "match_st ord need tix e"
  shows "book_inv (opp_book e (o_side ord))" and "book_wf (view (opp_book e (o_side ord)))" and "store_ok e"
    and "engine_core (set tix) e" and "sorted_wrt (before (sl_order (opp_book e (o_side ord)))) (map fst (view (opp_book e (o_side ord))))"
    and "cache_fits (sl_order (opp_book e (o_side ord))) (sl_best_price (opp_book e (o_side ord))) (makers (view (opp_book e (o_side ord))))"
proof -
  have core: "engine_core (set tix) e" using assms by (simp add: match_st_def)
  note D = engine_coreD [OF core]
  show "engine_core (set tix) e" by fact
  show b: "book_inv (opp_book e (o_side ord))" "book_wf (view (opp_book e (o_side ord)))" "store_ok e"
    using D(2,8,11) by (simp_all add: opp_book_def)
  show "sorted_wrt (before (sl_order (opp_book e (o_side ord)))) (map fst (view (opp_book e (o_side ord))))"
    using view_sorted [OF b(1)] .
  show "cache_fits (sl_order (opp_book e (o_side ord))) (sl_best_price (opp_book e (o_side ord))) (makers (view (opp_book e (o_side ord))))"
    using D(10) by (simp add: opp_book_def cache_ok_def)
qed

lemma opp_makers_view: "opp_makers e ord = makers (view (opp_book e (o_side ord)))"
  by (simp add: side_makers_def opp_book_def)

lemma fill_events_append:
  "fill_events n ord (f1 @ f2) = fill_events n ord f1 @ fill_events (((\<lambda>n. as_u64 (n + 1)) ^^ length f1) n) ord f2"
  by (induction n ord f1 rule: fill_events.induct) (simp_all add: funpow_Suc_right del: funpow.simps(2))

lemma events_of_append:
  assumes "me_trade_event_sender e' = me_trade_event_sender e" and "me_trade_event_sender e1 = me_trade_event_sender e"
    and "me_trade_sequence e' = me_trade_sequence e"
    and "me_trade_sequence e1 = ((\<lambda>n. as_u64 (n + 1)) ^^ length f1) (me_trade_sequence e)"
  shows "events_of e' ord f1 @ events_of e1 ord f2 = events_of e ord (f1 @ f2)"
  using assms by (simp add: events_of_def fill_events_append)

lemma events_of_Nil [simp]: "events_of e ord [] = []"
  by (simp add: events_of_def)

lemma match_level_done:
  "o_quantity_lots ord \<le> filled \<Longrightarrow> match_level logging ord p filled tix tev e = Some (Inr (filled, tix, tev), e)"
  by (simp add: match_level.simps)

lemma match_level_ok:
  assumes Q: "in_i64 (o_quantity_lots ord)"
  shows "match_st ord (o_quantity_lots ord - filled) tix e \<Longrightarrow>
    view (opp_book e (o_side ord)) = (if xs = [] then V else (p, t, xs) # V) \<Longrightarrow> p \<notin> fst ` set V \<Longrightarrow>
    0 \<le> filled \<Longrightarrow> filled \<le> o_quantity_lots ord \<Longrightarrow>
    \<exists>fs tix' e'. match_level logging ord p filled tix tev e = Some (Inr (filled + fill_lots fs, tix', tev @ events_of e ord fs), e') \<and>
      match_res logging ord (\<lambda>r. r = p) (o_quantity_lots ord - filled) e fs tix' e'"
proof (induction xs arbitrary: e tix tev filled t)
  case Nil
  then have v: "view (opp_book e (o_side ord)) = V" by simp
  then have "map_of (view (opp_book e (o_side ord))) p = None" using Nil.prems(3) by (simp add: map_of_eq_None_iff)
  then have "front_order_id (opp_book e (o_side ord)) p = Some None"
    using front_order_id_view [OF match_stD(1) [OF Nil.prems(1)]] by simp
  then have "match_level logging ord p filled tix tev e = Some (Inr (filled, tix, tev), e)" by (simp add: match_level.simps)
  moreover have "take_makers (\<lambda>r. r = p) (o_quantity_lots ord - filled) (opp_makers e ord) = ([], opp_makers e ord)"
    using take_makers_other [OF Nil.prems(3)] v by (simp add: opp_makers_view)
  ultimately show ?case using match_res_none [OF Nil.prems(1)] by (intro exI [of _ "[]"] exI [of _ tix] exI [of _ e]) simp
next
  case (Cons x xs)
  obtain c q where x: "x = (c, q)" by (cases x)
  let ?Q = "o_quantity_lots ord" and ?need = "o_quantity_lots ord - filled"
  have V: "view (opp_book e (o_side ord)) = (p, t, (c, q) # xs) # V" using Cons.prems(2) x by simp
  show ?case
  proof (cases "?Q \<le> filled")
    case True
    then show ?thesis
      using match_level_done [OF True, of logging p tix tev e] match_res_none [OF Cons.prems(1)] take_makers_none
      by (intro exI [of _ "[]"] exI [of _ tix] exI [of _ e]) simp
  next
    case False
    define d where "d = min ?need q"
    obtain cord where c: "get_order e c = Some cord" "remaining_lots cord = q" "0 < q"
      using head_order [OF match_stD(4) [OF Cons.prems(1)], of "opposite (o_side ord)" p t c q xs V] V
      by (auto simp: opp_book_def)
    obtain idx where idx: "map_of (me_orders e) c = Some idx" "op_get (order_pool e) idx = Some cord"
      using c(1) by (auto simp: get_order_def bind_eq_Some_conv)
    have dpos: "0 < d" "d \<le> q" "d \<le> ?need" using False c(3) by (auto simp: d_def)
    have i64: "as_i64 ?need = ?need" "as_i64 (filled + d) = filled + d"
      using Q Cons.prems(4) False dpos by (auto simp: in_i64_def intro!: as_i64_id)
    obtain ix e1 where ap: "apply_trade logging ord p c d e = Some (Inr ix, e1)"
      and st1: "match_st ord (?need - d) (tix @ [ix]) e1" and rel1: "match_rel (o_side ord) e e1"
      and v1: "view (opp_book e1 (o_side ord)) =
         (if d < q then (p, t - d, (c, q - d) # xs) # V else if xs = [] then V else (p, t - q, xs) # V)"
      and logs: "me_fills_buf e1 = me_fills_buf e @ (if logging then [(c, p, d)] else [])"
        "me_affected_makers_buf e1 = me_affected_makers_buf e @ (if logging then [c] else [])"
        "me_trade_sequence e1 = as_u64 (me_trade_sequence e + 1)" "me_trade_event_sender e1 = me_trade_event_sender e"
      using trade_step [OF Cons.prems(1) V dpos(1,2) d_def] by metis
    let ?tev = "log_event ord c p d e1 tev"
    have ev: "?tev @ events_of e1 ord fs = tev @ events_of e ord ((c, p, d) # fs)" for fs
      using logs by (simp add: log_event_def events_of_def)
    have front: "front_order_id (opp_book e (o_side ord)) p = Some (Some c)"
      using front_order_id_view [OF match_stD(1) [OF Cons.prems(1)]] V by simp
    have step: "match_level logging ord p filled tix tev e = match_level logging ord p (filled + d) (tix @ [ix]) ?tev e1"
      using False front idx c(2,3) ap i64 d_def
      by (simp add: match_level.simps [of logging ord p filled tix tev e] Let_def)
    have ms: "opp_makers e ord = (p, c, q) # map (Pair p) xs @ makers V" using V by (simp add: opp_makers_view)
    show ?thesis
    proof (cases "d < q")
      case True
      then have dn: "d = ?need" by (simp add: d_def)
      then have "match_level logging ord p (filled + d) (tix @ [ix]) ?tev e1 = Some (Inr (filled + d, tix @ [ix], ?tev), e1)"
        by (intro match_level_done) simp
      moreover have "match_res logging ord (\<lambda>r. r = p) ?need e [(c, p, d)] (tix @ [ix]) e1"
        using st1 rel1 v1 logs True dn ms False by (auto simp: match_res_def opp_makers_view)
      ultimately show ?thesis using step ev [of "[]"] by (intro exI [of _ "[(c, p, d)]"] exI [of _ "tix @ [ix]"] exI [of _ e1]) simp
    next
      case F: False
      then have dq: "d = q" using dpos(2) by simp
      have st1': "match_st ord (?Q - (filled + d)) (tix @ [ix]) e1" using st1 by (simp add: diff_diff_eq)
      obtain fs tix' e' where ih: "match_level logging ord p (filled + d) (tix @ [ix]) ?tev e1 = Some (Inr (filled + d + fill_lots fs, tix', ?tev @ events_of e1 ord fs), e')"
        "match_res logging ord (\<lambda>r. r = p) (?Q - (filled + d)) e1 fs tix' e'"
        using Cons.IH [OF st1' _ Cons.prems(3), of "t - q" ?tev] v1 F dpos(3) Cons.prems(4) dpos(1) by auto
      have ms1: "opp_makers e1 ord = map (Pair p) xs @ makers V" using v1 F by (simp add: opp_makers_view)
      have "take_makers (\<lambda>r. r = p) ?need (opp_makers e ord) = ((c, p, d) # fs, opp_makers e' ord)"
        using ih(2) ms ms1 dq dpos(3) False by (simp add: match_res_def diff_diff_eq)
      moreover have "match_rel (o_side ord) e e'" using rel1 ih(2) match_rel_trans by (auto simp: match_res_def)
      moreover have "match_st ord (?need - fill_lots ((c, p, d) # fs)) tix' e'" using ih(2) by (simp add: match_res_def algebra_simps)
      ultimately have "match_res logging ord (\<lambda>r. r = p) ?need e ((c, p, d) # fs) tix' e'"
        using ih(2) logs funpow_swap1 [of "\<lambda>n. as_u64 (n + 1)" "length fs" "me_trade_sequence e"]
        by (simp add: match_res_def)
      then show ?thesis using step ih(1) ev
        by (intro exI [of _ "(c, p, d) # fs"] exI [of _ tix'] exI [of _ e']) (simp add: algebra_simps)
    qed
  qed
qed

lemma match_loop_done:
  "o_quantity_lots ord \<le> filled \<Longrightarrow> match_loop logging ord filled tix tev e = Some (Inr (filled, tix, tev), e)"
  by (simp add: match_loop.simps)

text \<open>Refreshing the cached best price changes nothing the matching state depends on.\<close>

lemma recache:
  assumes st: "match_st ord need tix e"
  obtains b where "get_best_price_cached (opp_book e (o_side ord)) =
      Some (case view (opp_book e (o_side ord)) of [] \<Rightarrow> None | l # _ \<Rightarrow> Some (fst l), b)"
    "match_st ord need tix (set_opp_book e (o_side ord) b)" "view b = view (opp_book e (o_side ord))" "book_inv b"
proof -
  let ?b = "opp_book e (o_side ord)" and ?o = "opposite (o_side ord)"
  note S = match_stD [OF st]
  obtain b where b: "get_best_price_cached ?b = Some (case view ?b of [] \<Rightarrow> None | l # _ \<Rightarrow> Some (fst l), b)"
    "book_inv b" "view b = view ?b" "sl_order b = sl_order ?b" "lp_capacity (sl_list_pool b) = lp_capacity (sl_list_pool ?b)"
    "cache_fits (sl_order b) (sl_best_price b) (makers (view b))"
    using slb.best_head [OF S(1,6,2)] by blast
  let ?e = "set_opp_book e (o_side ord) b"
  have own: "own_book ?e side = (if side = ?o then b else own_book e side)" for side by (simp add: set_opp_book_def)
  have mk: "side_makers ?e side = side_makers e side" for side
    using b(3) by (simp add: side_makers_def own opp_book_def)
  have so: "side_ok ?e side" for side
    using engine_coreD(1) [OF S(4), of side] b own
    by (auto simp: side_ok_def Let_def opp_book_def cache_ok_def set_opp_book_def)
  then have "\<forall>side. side_ok ?e side" by blast
  then have "engine_core (set tix) ?e"
    using S(4) unfolding engine_core_sides mk by (simp add: set_opp_book_def store_ok_def)
  then have "match_st ord need tix ?e" using st mk by (simp add: match_st_def set_opp_book_def)
  with b show thesis by (intro that)
qed

lemma match_res_pre:
  assumes "match_res logging ord acc need (set_opp_book e (o_side ord) b) fs tix' e'" and "view b = view (opp_book e (o_side ord))"
  shows "match_res logging ord acc need e fs tix' e'"
  using assms by (simp add: match_res_def opp_makers_view opp_book_def set_opp_book_def match_rel_def)

lemma match_loop_ok:
  assumes Q: "in_i64 (o_quantity_lots ord)"
  shows "match_st ord (o_quantity_lots ord - filled) tix e \<Longrightarrow> 0 \<le> filled \<Longrightarrow> filled \<le> o_quantity_lots ord \<Longrightarrow>
    \<exists>fs tix' e'. match_loop logging ord filled tix tev e = Some (Inr (filled + fill_lots fs, tix', tev @ events_of e ord fs), e') \<and>
      match_res logging ord (taker_accepts ord) (o_quantity_lots ord - filled) e fs tix' e'"
proof (induction "if filled < o_quantity_lots ord then Suc (length (opp_makers e ord)) else 0"
    arbitrary: filled tix tev e rule: less_induct)
  case less
  let ?Q = "o_quantity_lots ord" and ?s = "o_side ord" and ?acc = "taker_accepts ord"
  show ?case
  proof (cases "?Q \<le> filled")
    case True
    then show ?thesis
      using match_loop_done [OF True, of logging tix tev e] match_res_none [OF less.prems(1)] take_makers_none
      by (intro exI [of _ "[]"] exI [of _ tix] exI [of _ e]) simp
  next
    case False
    obtain b where best: "get_best_price_cached (opp_book e ?s) = Some (case view (opp_book e ?s) of [] \<Rightarrow> None | l # _ \<Rightarrow> Some (fst l), b)"
      and st1: "match_st ord (?Q - filled) tix (set_opp_book e ?s b)" and vb: "view b = view (opp_book e ?s)" "book_inv b"
      by (rule recache [OF less.prems(1)])
    let ?e = "set_opp_book e ?s b"
    have ob: "opp_book ?e ?s = b" by (simp add: opp_book_def set_opp_book_def)
    have stop: ?thesis if "match_loop logging ord filled tix tev e = Some (Inr (filled, tix, tev), ?e)"
      "take_makers ?acc (?Q - filled) (makers (view b)) = ([], makers (view b))"
      using that match_res_pre [OF match_res_none [OF st1], of ?acc logging] vb ob
      by (intro exI [of _ "[]"] exI [of _ tix] exI [of _ ?e]) (simp add: opp_makers_view)
    show ?thesis
    proof (cases "view b")
      case Nil
      with best False vb show ?thesis by (intro stop) (simp_all add: match_loop.simps [of logging ord filled tix tev e])
    next
      case (Cons l V)
      obtain p t xs where l: "l = (p, t, xs)" by (cases l)
      have wf: "book_wf ((p, t, xs) # V)" using match_stD(2) [OF st1] ob Cons l by simp
      obtain c q xs' where xs: "xs = (c, q) # xs'" using wf by (cases xs) (auto simp: book_wf_def level_ok_def)
      have pV: "p \<notin> fst ` set V" using view_sorted [OF vb(2)] Cons l by auto
      have "view (opp_book e ?s) = (p, t, xs) # V" using vb(1) Cons l by simp
      with best have best': "get_best_price_cached (opp_book e ?s) = Some (Some p, b)" by simp
      obtain a where node: "get_node_at_price b p = Some (Some a)"
        by (rule get_node_view [OF vb(2), of p]) (use Cons l in auto)
      have mb: "makers (view b) = (p, c, q) # map (Pair p) xs' @ makers V" using Cons l xs by simp
      show ?thesis
      proof (cases "?acc p")
        case F: False
        with best' node False mb show ?thesis
          by (intro stop) (simp_all add: match_loop.simps [of logging ord filled tix tev e])
      next
        case acc: True
        have "view (opp_book ?e ?s) = (if xs = [] then V else (p, t, xs) # V)" using Cons l xs ob by simp
        from match_level_ok [OF Q st1 this pV less.prems(2,3), of logging]
        obtain f1 tix1 e1 where lev: "match_level logging ord p filled tix tev ?e = Some (Inr (filled + fill_lots f1, tix1, tev @ events_of ?e ord f1), e1)"
          and res1: "match_res logging ord (\<lambda>r. r = p) (?Q - filled) ?e f1 tix1 e1" by blast
        have step: "match_loop logging ord filled tix tev e = match_loop logging ord (filled + fill_lots f1) tix1 (tev @ events_of ?e ord f1) e1"
          using False best' node acc lev by (simp add: match_loop.simps [of logging ord filled tix tev e])
        have take: "take_makers (\<lambda>r. r = p) (?Q - filled) ((p, c, q) # map (Pair p) xs' @ makers V) = (f1, opp_makers e1 ord)"
          using res1 ob mb by (simp add: match_res_def opp_makers_view)
        have pos: "\<forall>m \<in> set ((p, c, q) # map (Pair p) xs' @ makers V). 0 < snd (snd m)"
          using wf xs by (simp add: book_wf_def)
        have fl: "0 \<le> fill_lots f1" "fill_lots f1 \<le> ?Q - filled"
          using take_makers_bounds [OF pos _ take] False by auto
        have "length (opp_makers e1 ord) < length (opp_makers e ord) \<or> fill_lots f1 = ?Q - filled"
          using take_makers_progress [OF take] False mb vb by (simp add: opp_makers_view less_Suc_eq_le)
        then have meas: "(if filled + fill_lots f1 < ?Q then Suc (length (opp_makers e1 ord)) else 0) <
            (if filled < ?Q then Suc (length (opp_makers e ord)) else 0)" using False by auto
        have st2: "match_st ord (?Q - (filled + fill_lots f1)) tix1 e1" using res1 by (simp add: match_res_def diff_diff_eq)
        obtain f2 tix2 e2 where ih: "match_loop logging ord (filled + fill_lots f1) tix1 (tev @ events_of ?e ord f1) e1 = Some (Inr (filled + fill_lots f1 + fill_lots f2, tix2, (tev @ events_of ?e ord f1) @ events_of e1 ord f2), e2)"
          "match_res logging ord ?acc (?Q - (filled + fill_lots f1)) e1 f2 tix2 e2"
          using less.hyps [OF meas st2, of "tev @ events_of ?e ord f1"] fl less.prems(2) by auto
        have "match_res logging ord ?acc (?Q - filled) ?e (f1 @ f2) tix2 e2"
          using match_res_trans [OF res1, of ?acc f2 tix2 e2] acc ih(2) by (simp add: diff_diff_eq)
        moreover have "events_of ?e ord f1 @ events_of e1 ord f2 = events_of e ord (f1 @ f2)"
          using res1 by (intro events_of_append) (auto simp: match_res_def match_rel_def set_opp_book_def)
        ultimately show ?thesis using step ih(1) match_res_pre vb(1)
          by (intro exI [of _ "f1 @ f2"] exI [of _ tix2] exI [of _ e2]) (simp add: add.assoc)
      qed
    qed
  qed
qed

subsection \<open>A whole match\<close>

lemma foldl_release:
  "op_inv p (U \<union> set tix) \<Longrightarrow> distinct tix \<Longrightarrow> U \<inter> set tix = {} \<Longrightarrow>
     op_inv (foldl op_release p tix) U \<and> op_capacity (foldl op_release p tix) = op_capacity p"
proof (induction tix arbitrary: p)
  case (Cons i tix)
  have "op_inv (op_release p i) ((U \<union> set (i # tix)) - {i})"
    using Cons.prems by (intro op_release_inv) auto
  moreover have "(U \<union> set (i # tix)) - {i} = U \<union> set tix" using Cons.prems(2,3) by auto
  ultimately show ?case using Cons.IH [of "op_release p i"] Cons.prems(2,3) by simp
qed simp

lemma card_store: "store_ok e \<Longrightarrow> length (me_orders e) \<le> op_capacity (order_pool e)"
proof -
  assume "store_ok e"
  then have "op_inv (order_pool e) (snd ` set (me_orders e))" and d: "distinct (map snd (me_orders e))"
    by (simp_all add: store_ok_def)
  from op_free_length [OF this(1)] distinct_card [OF d] show ?thesis by simp
qed

lemma makers_le_orders:
  assumes core: "engine_core T e"
  shows "length (side_makers e side) \<le> length (me_orders e)"
proof -
  note D = engine_coreD [OF core]
  have "maker_id m \<in> fst ` set (me_orders e)" if "m \<in> set (side_makers e side)" for m
    using store_sideD [OF D(4)] that get_order_mem by metis
  then have "set (map maker_id (side_makers e side)) \<subseteq> set (map fst (me_orders e))" by auto
  then have "card (set (map maker_id (side_makers e side))) \<le> card (set (map fst (me_orders e)))"
    by (intro card_mono) auto
  moreover have "distinct (map maker_id (side_makers e side))" using D(11) by (simp add: book_wf_def side_makers_def)
  moreover have "distinct (map fst (me_orders e))" using D(2) by (simp add: store_ok_def)
  ultimately show ?thesis using distinct_card length_map by metis
qed

lemma push_None [simp]: "push_event None ev = None"
  by (simp add: push_event_def)

lemma push_events_None [simp]: "foldl push_event None evs = None"
  by (induction evs) simp_all

lemma push_events: "foldl push_event (Some p) evs = Some (foldl ring_push p evs)"
  by (induction evs arbitrary: p) (simp_all add: push_event_def)

lemma send_trades_core [simp]: "engine_core T (send_trades evs e) = engine_core T e"
proof -
  have "side_ok (send_trades evs e) side = side_ok e side" "side_makers (send_trades evs e) side = side_makers e side"
    "store_ok (send_trades evs e) = store_ok e" for side
    by (simp_all add: side_ok_def side_makers_def store_ok_def send_trades_def)
  then show ?thesis by (simp add: engine_core_def) (simp add: send_trades_def)
qed

lemma release_trades_core:
  assumes "engine_core (set tix) e" and "distinct tix"
  shows "engine_inv (release_trades tix e)"
proof -
  note D = engine_coreD [OF assms(1)]
  have "op_inv (ps_trades (me_pools e)) ({} \<union> set tix)" using D(5) by simp
  from foldl_release [OF this assms(2)] have r: "op_inv (foldl op_release (ps_trades (me_pools e)) tix) {}"
    "op_capacity (foldl op_release (ps_trades (me_pools e)) tix) = op_capacity (ps_trades (me_pools e))" by simp_all
  have "side_ok (release_trades tix e) side = side_ok e side" "side_makers (release_trades tix e) side = side_makers e side"
    "store_ok (release_trades tix e) = store_ok e" for side
    by (simp_all add: side_ok_def side_makers_def store_ok_def release_trades_def)
  with assms(1) r show ?thesis by (simp add: engine_inv_def engine_core_def) (simp add: release_trades_def)
qed

lemma match_order_ok:
  assumes inv: "engine_inv e" and fresh: "get_order e (o_id ord) = None"
    and Q: "in_i64 (o_quantity_lots ord)" "0 < o_quantity_lots ord"
  obtains fs e' where "match_order ord e = Some (Inr (fill_lots fs), e')" "engine_inv e'"
    "match_rel (o_side ord) e e'" "get_order e' (o_id ord) = None"
    "take_makers (taker_accepts ord) (o_quantity_lots ord) (opp_makers e ord) = (fs, opp_makers e' ord)"
    "me_fills_buf e' = fs" "me_affected_makers_buf e' = map fst fs"
    "me_trade_sequence e' = ((\<lambda>n. as_u64 (n + 1)) ^^ length fs) (me_trade_sequence e)"
    "me_trade_event_sender e' = foldl push_event (me_trade_event_sender e) (fill_events (me_trade_sequence e) ord fs)"
proof -
  let ?e = "e\<lparr>me_affected_makers_buf := [], me_fills_buf := []\<rparr>"
  have core: "engine_core {} e" using inv by (simp add: engine_inv_def)
  have same: "side_ok ?e side = side_ok e side" "side_makers ?e side = side_makers e side" "store_ok ?e = store_ok e" for side
    by (simp_all add: side_ok_def side_makers_def store_ok_def)
  have core': "engine_core {} ?e" using core by (simp add: engine_core_def same)
  have "length (opp_makers e ord) \<le> op_capacity (order_pool e)"
    using makers_le_orders [OF core, of "opposite (o_side ord)"] card_store [OF engine_coreD(2) [OF core]] by simp
  then have "match_st ord (o_quantity_lots ord - 0) [] ?e" using core' fresh by (simp add: match_st_def same)
  from match_loop_ok [OF Q(1) this, of True "[]"] Q(2) obtain fs tix e1 where
    lp: "match_loop True ord 0 [] [] ?e = Some (Inr (fill_lots fs, tix, events_of ?e ord fs), e1)"
    and res: "match_res True ord (taker_accepts ord) (o_quantity_lots ord) ?e fs tix e1" by auto
  have st: "engine_core (set tix) e1" "distinct tix" "get_order e1 (o_id ord) = None"
    using res by (simp_all add: match_res_def match_st_def)
  let ?s = "send_trades (events_of ?e ord fs) e1"
  let ?e' = "release_trades tix ?s"
  have sm: "side_makers ?e' side = side_makers e1 side" for side
    by (simp add: side_makers_def release_trades_def send_trades_def)
  have core1: "engine_core (set tix) ?s" using st(1) by simp
  show thesis
  proof (rule that)
    show "match_order ord e = Some (Inr (fill_lots fs), ?e')" using lp by (simp add: match_order_def)
    show "engine_inv ?e'" by (rule release_trades_core [OF core1 st(2)])
    show "match_rel (o_side ord) e ?e'" using res by (simp add: match_res_def match_rel_def release_trades_def send_trades_def)
    show "me_trade_event_sender ?e' = foldl push_event (me_trade_event_sender e) (fill_events (me_trade_sequence e) ord fs)"
      using res by (cases "me_trade_event_sender e") (simp_all add: match_res_def release_trades_def send_trades_def events_of_def)
    show "take_makers (taker_accepts ord) (o_quantity_lots ord) (opp_makers e ord) = (fs, opp_makers ?e' ord)"
      using res by (simp add: match_res_def same sm)
  qed (use res st in \<open>simp_all add: match_res_def release_trades_def send_trades_def\<close>)
qed

end
