(* ===== verification/EngineSpec.thy ===== *)
theory EngineSpec
  imports EngineInv
begin

text \<open>
  What the matching engine promises. The abstract state is the list of makers of each side in
  priority order; \<open>spec_place\<close> says what an order of each type does to it and what the caller is
  told. The handlers of \<open>src/matching/engine.rs\<close> are shown to refine it, cancellation to remove
  exactly the order, and the book to stay uncrossed.
\<close>

subsection \<open>Specification\<close>

type_synonym book_state = "Side \<Rightarrow> maker list"

definition spec_match :: "Order \<Rightarrow> book_state \<Rightarrow> fill list \<times> book_state" where
  "spec_match ord M =
     (case take_makers (taker_accepts ord) (o_quantity_lots ord) (M (opposite (o_side ord))) of
        (fs, ms) \<Rightarrow> (fs, M(opposite (o_side ord) := ms)))"

definition spec_rest :: "Order \<Rightarrow> QuantityLots \<Rightarrow> book_state \<Rightarrow> book_state" where
  "spec_rest ord q M =
     M(o_side ord := rest_maker (side_order (o_side ord)) (o_price_ticks ord, o_id ord, q) (M (o_side ord)))"

definition spec_result :: "Order \<Rightarrow> fill list \<Rightarrow> OrderStatus \<Rightarrow> PlaceOrderResult" where
  "spec_result ord fs unfilled =
     \<lparr>r_order_id = o_id ord, r_filled_lots = fill_lots fs,
      r_status = fill_status (fill_lots fs) (o_quantity_lots ord) unfilled, r_fills = fs\<rparr>"

definition spec_take :: "Order \<Rightarrow> book_state \<Rightarrow> PlaceOrderResult \<times> book_state" where
  "spec_take ord M = (case spec_match ord M of (fs, M') \<Rightarrow> (spec_result ord fs Rejected, M'))"

definition spec_gtc :: "Order \<Rightarrow> book_state \<Rightarrow> PlaceOrderResult \<times> book_state" where
  "spec_gtc ord M =
     (case spec_match ord M of (fs, M') \<Rightarrow>
        (spec_result ord fs Accepted,
         if fill_lots fs < o_quantity_lots ord then spec_rest ord (o_quantity_lots ord - fill_lots fs) M' else M'))"

definition spec_fok :: "Order \<Rightarrow> book_state \<Rightarrow> PlaceOrderResult \<times> book_state" where
  "spec_fok ord M =
     (if o_quantity_lots ord \<le> lots (reachable (taker_accepts ord) (M (opposite (o_side ord))))
      then spec_take ord M else (rejected ord, M))"

definition spec_post_only :: "Order \<Rightarrow> book_state \<Rightarrow> PlaceOrderResult \<times> book_state" where
  "spec_post_only ord M =
     (case M (opposite (o_side ord)) of
        m # _ \<Rightarrow>
          if taker_accepts ord (fst m) then (rejected ord, M)
          else (spec_result ord [] Accepted, spec_rest ord (o_quantity_lots ord) M)
      | [] \<Rightarrow> (spec_result ord [] Accepted, spec_rest ord (o_quantity_lots ord) M))"

definition spec_place :: "Order \<Rightarrow> book_state \<Rightarrow> PlaceOrderResult \<times> book_state" where
  "spec_place ord M =
     (if o_is_market ord then spec_take ord M
      else (case o_time_in_force ord of
              PostOnly \<Rightarrow> spec_post_only ord M | FOK \<Rightarrow> spec_fok ord M
            | IOC \<Rightarrow> spec_take ord M | GTC \<Rightarrow> spec_gtc ord M))"

text \<open>An order the engine takes on: fresh id, valid, room for it, and lots within \<open>i64\<close>.\<close>

definition admissible :: "Order \<Rightarrow> MatchingEngine \<Rightarrow> bool" where
  "admissible ord e \<longleftrightarrow> validate_order ord = Inr () \<and> \<not> contains_order e (o_id ord) \<and>
     has_space_for_order (me_pools e) \<and> in_i64 (o_quantity_lots ord) \<and> o_filled_lots ord = 0 \<and>
     lots (side_makers e (o_side ord)) + o_quantity_lots ord \<le> i64_max"

text \<open>
  What an order publishes: sequence numbers, trade events and the makers it touched. The pools keep
  their capacity.
\<close>

definition published :: "Order \<Rightarrow> PlaceOrderResult \<Rightarrow> MatchingEngine \<Rightarrow> MatchingEngine \<Rightarrow> bool" where
  "published ord res e e' \<longleftrightarrow>
     me_trade_sequence e' = ((\<lambda>n. as_u64 (n + 1)) ^^ length (r_fills res)) (me_trade_sequence e) \<and>
     me_trade_event_sender e' =
       foldl push_event (me_trade_event_sender e) (fill_events (me_trade_sequence e) ord (r_fills res)) \<and>
     (me_affected_makers_buf e = [] \<longrightarrow> me_affected_makers_buf e' = map fst (r_fills res)) \<and>
     me_next_order_id e' = me_next_order_id e \<and>
     op_capacity (order_pool e') = op_capacity (order_pool e) \<and> ps_queues (me_pools e') = ps_queues (me_pools e)"

text \<open>Depth sampling touches its timers, counters and senders only.\<close>

definition sampled :: "MatchingEngine \<Rightarrow> MatchingEngine \<Rightarrow> bool" where
  "sampled e e' \<longleftrightarrow> me_buy_book e' = me_buy_book e \<and> me_sell_book e' = me_sell_book e \<and> me_orders e' = me_orders e \<and>
     me_pools e' = me_pools e \<and> me_fills_buf e' = me_fills_buf e \<and>
     me_affected_makers_buf e' = me_affected_makers_buf e \<and> me_next_order_id e' = me_next_order_id e \<and>
     me_trade_sequence e' = me_trade_sequence e \<and> me_trade_event_sender e' = me_trade_event_sender e"

text \<open>Makers are sorted by price, and matching stops only at an unacceptable price.\<close>

definition price_sorted :: "SortOrder \<Rightarrow> maker list \<Rightarrow> bool" where
  "price_sorted d ms \<longleftrightarrow> sorted_wrt (\<lambda>m n. \<not> before d (fst n) (fst m)) ms"

definition uncrossed :: "book_state \<Rightarrow> bool" where
  "uncrossed M \<longleftrightarrow> (\<forall>b \<in> set (M Buy). \<forall>a \<in> set (M Sell). fst b < fst a)"

lemma engine_inv_cong:
  assumes "\<And>side. own_book e' side = own_book e side" and "me_orders e' = me_orders e" and "me_pools e' = me_pools e"
  shows "engine_inv e' = engine_inv e"
proof -
  have op: "order_pool e' = order_pool e" using assms(3) by (simp add: order_pool_def)
  have "get_order e' = get_order e" using assms(2) op by (simp add: get_order_def fun_eq_iff)
  moreover have "side_ok e' side = side_ok e side" "side_makers e' side = side_makers e side" for side
    using assms(1) op by (simp_all add: side_ok_def side_makers_def)
  moreover have "store_ok e' = store_ok e" using assms(2) op by (simp add: store_ok_def)
  ultimately show ?thesis using assms(3) op by (simp add: engine_inv_def engine_core_def)
qed

lemma engine_inv_bufs [simp]:
  "engine_inv (e\<lparr>me_affected_makers_buf := a\<rparr>) = engine_inv e"
  "engine_inv (e\<lparr>me_next_order_id := n\<rparr>) = engine_inv e"
  "engine_inv (e\<lparr>me_trade_sequence := n\<rparr>) = engine_inv e"
  by (rule engine_inv_cong; simp)+

lemma side_makers_bufs [simp]:
  "side_makers (e\<lparr>me_affected_makers_buf := a\<rparr>) = side_makers e"
  "side_makers (e\<lparr>me_next_order_id := n\<rparr>) = side_makers e"
  "side_makers (e\<lparr>me_trade_sequence := n\<rparr>) = side_makers e"
  by (simp_all add: side_makers_def fun_eq_iff)

subsection \<open>Depth sampling\<close>

lemma depth_event_ok:
  assumes "engine_inv e"
  obtains ev where "depth_event n now seq e = Some ev" "ev_timestamp ev = now" "ev_sequence ev = seq"
    "ev_num_bids ev = min n (length (view (me_buy_book e)))" "ev_num_asks ev = min n (length (view (me_sell_book e)))"
    "take (ev_num_bids ev) (ev_bids ev) = map level_f64 (take n (depth (view (me_buy_book e))))"
    "take (ev_num_asks ev) (ev_asks ev) = map level_f64 (take n (depth (view (me_sell_book e))))"
proof -
  have core: "engine_core {} e" using assms by (simp add: engine_inv_def)
  have take_min: "take (min n (length xs)) xs = take n xs" for xs :: "level_view list"
    by (cases "n \<le> length xs") (simp_all add: min_def)
  have "book_inv (me_buy_book e)" "book_inv (me_sell_book e)"
    using engine_coreD(8) [OF core, of Buy] engine_coreD(8) [OF core, of Sell] by (simp_all add: own_book_def)
  then have "depth_event n now seq e =
      Some \<lparr>ev_timestamp = now, ev_sequence = seq, ev_num_bids = min n (length (view (me_buy_book e))),
        ev_num_asks = min n (length (view (me_sell_book e))),
        ev_bids = map level_f64 (take n (depth (view (me_buy_book e)))) @ replicate (n - min n (length (view (me_buy_book e)))) (Fin 0, Fin 0),
        ev_asks = map level_f64 (take n (depth (view (me_sell_book e)))) @ replicate (n - min n (length (view (me_sell_book e)))) (Fin 0, Fin 0)\<rparr>"
    using take_min by (simp add: depth_event_def fill_top_levels_view depth_def take_map)
  then show thesis by (rule that) (simp_all add: depth_def take_map take_min min.commute)
qed

lemma sampled_refl [simp]: "sampled e e"
  by (simp add: sampled_def)

lemma sampled_trans: "sampled e e' \<Longrightarrow> sampled e' e'' \<Longrightarrow> sampled e e''"
  by (simp add: sampled_def)

lemma sampledD:
  assumes "sampled e e'"
  shows "own_book e' side = own_book e side" and "order_pool e' = order_pool e" and "get_order e' = get_order e"
    and "side_makers e' = side_makers e" and "engine_inv e' = engine_inv e"
proof -
  show ob: "own_book e' side = own_book e side" for side using assms by (cases side) (simp_all add: sampled_def own_book_def)
  show op: "order_pool e' = order_pool e" using assms by (simp add: sampled_def order_pool_def)
  show "get_order e' = get_order e" using assms op by (simp add: sampled_def get_order_def fun_eq_iff)
  show "side_makers e' = side_makers e" by (simp add: side_makers_def ob fun_eq_iff)
  show "engine_inv e' = engine_inv e" using assms by (intro engine_inv_cong ob) (simp_all add: sampled_def)
qed

lemma sample_steps:
  assumes "engine_inv e"
  shows "\<exists>e'. sample_shallow n e = Some e' \<and> sampled e e'" and "\<exists>e'. sample_depth50 n e = Some e' \<and> sampled e e'"
    and "\<exists>e'. sample_level2 n e = Some e' \<and> sampled e e'"
proof -
  show "\<exists>e'. sample_shallow n e = Some e' \<and> sampled e e'"
    by (rule depth_event_ok [OF assms, of 20 n "me_depth_snapshot_seq e"]) (simp add: sample_shallow_def sampled_def)
  show "\<exists>e'. sample_depth50 n e = Some e' \<and> sampled e e'"
    by (rule depth_event_ok [OF assms, of 50 n "me_depth50_seq e"])
      (simp add: sample_depth50_def build_depth50_event_def sampled_def)
  show "\<exists>e'. sample_level2 n e = Some e' \<and> sampled e e'"
    by (rule depth_event_ok [OF assms, of 400 n "me_level2_seq e"])
      (simp add: sample_level2_def build_level2_event_def sampled_def)
qed

text \<open>A sampling step after changes to the timers only.\<close>

lemma sample_after:
  assumes "engine_inv e" and "sampled e e1" and "\<And>e. engine_inv e \<Longrightarrow> \<exists>e'. f e = Some e' \<and> sampled e e'"
  obtains e' where "f e1 = Some e'" "sampled e e'" "engine_inv e'"
  using assms sampledD(5) sampled_trans by metis

lemma first_sample_ok:
  assumes inv: "engine_inv e" shows "\<exists>e'. first_sample n e = Some e' \<and> sampled e e'"
proof -
  define e1 where "e1 = (let e' = e\<lparr>me_depth_sampling_initialized := True, me_last_shallow_sample_ns := n\<rparr> in
    if mc_enable_depth_increments (me_market_data_config e)
    then e'\<lparr>me_last_depth50_sample_ns := n, me_last_level2_sample_ns := n\<rparr> else e')"
  have "sampled e e1" by (simp add: e1_def sampled_def Let_def)
  then obtain e2 where 2: "sample_shallow n e1 = Some e2" "sampled e e2"
    by (rule sample_after [OF inv _ sample_steps(1)])
  obtain e3 where 3: "sample_depth50 n e2 = Some e3" "sampled e e3"
    by (rule sample_after [OF inv 2(2) sample_steps(2)])
  obtain e4 where "sample_level2 n e3 = Some e4" "sampled e e4"
    by (rule sample_after [OF inv 3(2) sample_steps(3)])
  with 2 3 show ?thesis by (simp add: first_sample_def e1_def Let_def)
qed

lemma due_step:
  assumes "engine_inv e" and "sampled e e1" and "\<And>e. engine_inv e \<Longrightarrow> \<exists>e'. f e = Some e' \<and> sampled e e'"
    and "\<And>e'. sampled e e' \<Longrightarrow> sampled e (g e')"
  obtains e' where "(if c then do { x \<leftarrow> f e1; Some (g x) } else Some e1) = Some e'" "sampled e e'"
proof (cases c)
  case True
  obtain e2 where "f e1 = Some e2" "sampled e e2" by (rule sample_after [OF assms(1-3)])
  with True assms(4) show ?thesis by (intro that [of "g e2"]) simp_all
next
  case False
  with assms(2) show ?thesis by (intro that) simp_all
qed

lemma due_samples_ok:
  assumes inv: "engine_inv e" shows "\<exists>e'. due_samples n e = Some e' \<and> sampled e e'"
proof -
  let ?cfg = "me_market_data_config e"
  let ?c1 = "n \<ge> min (2 ^ 64 - 1) (me_last_shallow_sample_ns e + mc_shallow_sample_interval_ns ?cfg)"
  obtain e1 where 1: "(if ?c1 then do { x \<leftarrow> sample_shallow n e; Some (x\<lparr>me_last_shallow_sample_ns := n\<rparr>) } else Some e) = Some e1" "sampled e e1"
    by (rule due_step [OF inv sampled_refl sample_steps(1), where c = ?c1 and g = "me_last_shallow_sample_ns_update (\<lambda>_. n)"])
      (simp_all add: sampled_def)
  let ?c2 = "n \<ge> as_u64 (me_last_depth50_sample_ns e1 + mc_depth50_interval_ns ?cfg)"
  obtain e2 where 2: "(if ?c2 then do { x \<leftarrow> sample_depth50 n e1; Some (x\<lparr>me_last_depth50_sample_ns := n\<rparr>) } else Some e1) = Some e2" "sampled e e2"
    by (rule due_step [OF inv 1(2) sample_steps(2), where c = ?c2 and g = "me_last_depth50_sample_ns_update (\<lambda>_. n)"])
      (simp_all add: sampled_def)
  let ?c3 = "n \<ge> as_u64 (me_last_level2_sample_ns e2 + mc_level2_interval_ns ?cfg)"
  obtain e3 where 3: "(if ?c3 then do { x \<leftarrow> sample_level2 n e2; Some (x\<lparr>me_last_level2_sample_ns := n\<rparr>) } else Some e2) = Some e3" "sampled e e3"
    by (rule due_step [OF inv 2(2) sample_steps(3), where c = ?c3 and g = "me_last_level2_sample_ns_update (\<lambda>_. n)"])
      (simp_all add: sampled_def)
  show ?thesis unfolding due_samples_def Let_def 1(1) using 1(2) 2 3 by simp
qed

lemma sample_ok:
  assumes "engine_inv e"
  obtains e' where "maybe_sample_depth n e = Some e'" "sampled e e'"
proof -
  have "\<exists>e'. maybe_sample_depth n e = Some e' \<and> sampled e e'"
    using first_sample_ok [OF assms, of n] due_samples_ok [OF assms, of n] by (simp add: maybe_sample_depth_def)
  then show thesis using that by blast
qed

subsection \<open>A fresh engine\<close>

lemma engine_new_inv:
  assumes "pc_order_capacity cfg \<le> pc_queue_capacity cfg" and "pc_queue_capacity cfg < 2 ^ 64"
  shows "engine_inv (engine_new cfg)" and "side_makers (engine_new cfg) side = []" and "get_order (engine_new cfg) i = None"
proof -
  let ?e = "engine_new cfg"
  have ob: "own_book ?e side = new_with_pool (side_order side) (pc_queue_capacity cfg)" for side
    by (cases side) (simp_all add: own_book_def engine_new_def side_order_def)
  note nb = new_book [OF assms(2)]
  show sm: "side_makers ?e side = []" for side by (simp add: side_makers_def ob nb)
  show g: "get_order ?e i = None" for i by (simp add: get_order_def engine_new_def)
  have "side_ok ?e side" for side
    using assms(1) by (simp add: side_ok_def Let_def ob nb book_wf_def i64_max_def)
      (simp add: engine_new_def order_pool_def Pools_new_def ObjectPool_new_def)
  moreover have oc: "pc_order_capacity cfg < 2 ^ 64" using assms by simp
  moreover have "store_ok ?e"
    using op_inv_new [OF oc, of Order_default] by (simp add: store_ok_def engine_new_def order_pool_def Pools_new_def)
  moreover have "stored_wf (get_order ?e)" by (simp add: stored_wf_def g)
  moreover have "store_side (get_order ?e) side (side_makers ?e side)" for side by (simp add: store_side_def g sm)
  moreover have "op_inv (ps_trades (me_pools ?e)) {}" "op_inv (ps_queues (me_pools ?e)) {}"
    "op_capacity (ps_trades (me_pools ?e)) = op_capacity (order_pool ?e)"
    using op_inv_new [OF oc, of Trade_default] op_inv_new [OF assms(2), of "[]"]
    by (simp_all add: engine_new_def Pools_new_def order_pool_def ObjectPool_new_def)
  ultimately show "engine_inv ?e" by (simp add: engine_inv_def engine_core_def)
qed

subsection \<open>Resting\<close>

lemma alist_update_new: "k \<notin> fst ` set al \<Longrightarrow> AList.update k v al = al @ [(k, v)]"
  by (induction al) auto

lemma rest_position:
  assumes "get_order e i = None" and core: "engine_core T e"
  shows "{m \<in> set (side_makers e side). maker_id m \<noteq> i} = set (side_makers e side)"
    and "i \<notin> set (map maker_id (side_makers e side))"
proof -
  have "maker_id m \<noteq> i" if "m \<in> set (side_makers e side)" for m
    using store_sideD [OF engine_coreD(4) [OF core], of m side] that assms(1) by auto
  then show "{m \<in> set (side_makers e side). maker_id m \<noteq> i} = set (side_makers e side)"
    and "i \<notin> set (map maker_id (side_makers e side))" by auto
qed

lemma store_insert:
  assumes st: "store_ok e" and fresh: "get_order e (o_id ord) = None" and acq: "op_acquire (order_pool e) = (Some ix, p)"
    and e': "me_orders e' = AList.update (o_id ord) ix (me_orders e)" "order_pool e' = op_write p ix (\<lambda>_. ord)"
  shows "store_ok e'" and "get_order e' = (get_order e)(o_id ord := Some ord)"
    and "op_capacity (order_pool e') = op_capacity (order_pool e)"
proof -
  have inv: "op_inv (order_pool e) (snd ` set (me_orders e))" using st by (simp add: store_ok_def)
  note a = op_acquire_Some [OF inv acq]
  have nk: "map_of (me_orders e) (o_id ord) = None" using fresh get_order_None_iff [OF st] by simp
  then have nf: "o_id ord \<notin> fst ` set (me_orders e)" by (simp add: map_of_eq_None_iff)
  have up: "me_orders e' = me_orders e @ [(o_id ord, ix)]" using e'(1) alist_update_new [OF nf] by simp
  have "snd ` set (me_orders e') = insert ix (snd ` set (me_orders e))" using up by auto
  then show "store_ok e'" using st a nf up e'(2) by (auto simp: store_ok_def)
  have ixl: "ix < length (op_objects p)" using a inv by (simp add: op_inv_def)
  show "get_order e' = (get_order e)(o_id ord := Some ord)"
  proof (rule ext)
    fix j
    show "get_order e' j = ((get_order e)(o_id ord := Some ord)) j"
    proof (cases "j = o_id ord")
      case True
      have "map_of (me_orders e') j = Some ix" using True up nk by (simp add: map_add_Some_iff)
      then show ?thesis using True ixl e'(2) by (simp add: get_order_def op_get_write) (simp add: op_get_def)
    next
      case False
      then have mo: "map_of (me_orders e') j = map_of (me_orders e) j" using up by (simp add: map_add_def split: option.split)
      have "ix \<noteq> idx" if "map_of (me_orders e) j = Some idx" for idx
        using map_of_SomeD [OF that] a(1) by (auto intro: rev_image_eqI)
      moreover have "op_get p k = op_get (order_pool e) k" for k using a(4) by (simp add: op_get_def)
      ultimately show ?thesis using False mo e'(2)
        by (cases "map_of (me_orders e) j") (auto simp: get_order_def op_get_write)
    qed
  qed
  show "op_capacity (order_pool e') = op_capacity (order_pool e)" using e'(2) a(5) by simp
qed

lemma add_to_book_ok:
  assumes inv: "engine_inv e" and fresh: "get_order e (o_id ord) = None" and wf: "order_wf ord"
    and room: "length (me_orders e) < op_capacity (order_pool e)"
    and depth: "lots (side_makers e (o_side ord)) + remaining_lots ord \<le> i64_max"
  obtains e' where "add_to_book ord e = Some (Inr (), e')" "engine_inv e'"
    "side_makers e' = (side_makers e)(o_side ord := rest_maker (side_order (o_side ord)) (maker_of ord) (side_makers e (o_side ord)))"
    "get_order e' = (get_order e)(o_id ord := Some ord)"
    "me_fills_buf e' = me_fills_buf e" "me_affected_makers_buf e' = me_affected_makers_buf e"
    "me_trade_sequence e' = me_trade_sequence e" "me_next_order_id e' = me_next_order_id e"
    "me_trade_event_sender e' = me_trade_event_sender e"
    "op_capacity (order_pool e') = op_capacity (order_pool e)" "ps_queues (me_pools e') = ps_queues (me_pools e)"
proof -
  let ?s = "o_side ord" and ?p = "o_price_ticks ord" and ?i = "o_id ord" and ?q = "remaining_lots ord"
  have core: "engine_core {} e" using inv by (simp add: engine_inv_def)
  note D = engine_coreD [OF core]
  have q: "0 < ?q" using order_wf_remaining [OF wf] by simp
  have "op_inv (order_pool e) (snd ` set (me_orders e))" using D(2) by (simp add: store_ok_def)
  moreover have "card (snd ` set (me_orders e)) < op_capacity (order_pool e)"
    using room card_length [of "map snd (me_orders e)"] by simp
  ultimately obtain ix pl where acq: "op_acquire (order_pool e) = (Some ix, pl)" by (rule acquire_trade)
  have cap: "length (makers (view (own_book e ?s))) < lp_capacity (sl_list_pool (own_book e ?s))"
    using makers_le_orders [OF core, of ?s] room D(12) [of ?s] by (simp add: side_makers_def)
  obtain r b1 b2 where b: "insert_level (own_book e ?s) ?p = Some (r, b1)"
    "add_order_at_level b1 ?p ?i ?q = Some (Inr (), b2)" "book_inv b2" "book_frame (own_book e ?s) b2"
    "view b2 = rest_level (sl_order (own_book e ?s)) ?p ?i ?q (view (own_book e ?s))"
    using slb.rest_order [OF D(8) cap] by blast
  define e1 where "e1 = set_order_pool e (op_write pl ix (\<lambda>_. ord))"
  define e' where "e' = set_own_book (e1\<lparr>me_orders := AList.update ?i ix (me_orders e)\<rparr>) ?s (invalidate_best_price_cache b2)"
  have ns: "\<not> contains_order e ?i" using fresh contains_order_iff [OF D(2)] by simp
  have ab: "add_to_book ord e = Some (Inr (), e')"
    using ns acq b(1,2) by (simp add: add_to_book_def e'_def e1_def)
  have mo: "me_orders e' = AList.update ?i ix (me_orders e)" "order_pool e' = op_write pl ix (\<lambda>_. ord)"
    by (simp_all add: e'_def e1_def)
  note si = store_insert [OF D(2) fresh acq mo]
  have ob: "own_book e' side = (if side = ?s then b2\<lparr>sl_best_price := None\<rparr> else own_book e side)" for side
    by (simp add: e'_def e1_def invalidate_best_price_cache_def)
  have so: "sorted_wrt (before (sl_order (own_book e ?s))) (map fst (view (own_book e ?s)))" by (rule view_sorted [OF D(8)])
  have bw: "book_wf (view b2)" "makers (view b2) = rest_maker (side_order ?s) (maker_of ord) (side_makers e ?s)"
    using book_wf_rest [OF D(11) so q, of ?i ?p] depth rest_position(2) [OF fresh core, of ?s] b(5) D(9)
    by (simp_all add: side_makers_def maker_of_def)
  have sm: "side_makers e' ?s = rest_maker (side_order ?s) (maker_of ord) (side_makers e ?s)"
    using bw(2) by (simp add: side_makers_def ob)
  have "engine_core {} e'"
  proof (rule engine_core_change [OF core _ _ si(2,1), where side = ?s])
    show "set (side_makers e' ?s) = {m \<in> set (side_makers e ?s). maker_id m \<noteq> ?i} \<union> set_option (map_option maker_of (Some ord))"
      unfolding rest_position(1) [OF fresh core] sm by (simp add: set_rest_maker)
    show "cache_ok (own_book e' ?s)" by (simp add: ob cache_ok_None)
  qed (use fresh wf bw b(3,4) D(5,9) si(3) in \<open>auto simp: ob book_frame_def e'_def e1_def invalidate_best_price_cache_def\<close>)
  moreover have "side_makers e' = (side_makers e)(?s := rest_maker (side_order ?s) (maker_of ord) (side_makers e ?s))"
    using sm by (auto simp: fun_eq_iff side_makers_def ob)
  ultimately show thesis
    using si(2,3) by (intro that [OF ab]) (simp_all add: engine_inv_def e'_def e1_def)
qed

subsection \<open>Cancellation\<close>

lemma remove_from_book_ok:
  assumes inv: "engine_inv e" and o: "get_order e i = Some ord"
  obtains b where "remove_from_book i e = Some (Inr (), set_own_book e (o_side ord) b)" "book_inv b"
    "book_frame (own_book e (o_side ord)) b" "book_wf (view b)"
    "makers (view b) = drop_maker i (side_makers e (o_side ord))"
proof -
  let ?b = "own_book e (o_side ord)" and ?p = "o_price_ticks ord" and ?q = "remaining_lots ord"
  have core: "engine_core {} e" using inv by (simp add: engine_inv_def)
  note D = engine_coreD [OF core]
  have id: "o_id ord = i" using D(3) o by (simp add: stored_wf_def)
  have mk: "(?p, i, ?q) \<in> set (makers (view ?b))"
    using store_sideD [OF D(4), of "maker_of ord" "o_side ord"] o id by (simp add: side_makers_def maker_of_def)
  have so: "sorted_wrt (before (sl_order ?b)) (map fst (view ?b))" by (rule view_sorted [OF D(8)])
  have dis: "distinct (map maker_id (makers (view ?b)))" using D(11) by (simp add: book_wf_def)
  obtain t xs where lv: "map_of (view ?b) ?p = Some (t, xs)" "map_of xs i = Some ?q"
    using maker_entry [OF mk view_distinct [OF D(8)] dis] .
  obtain s1 b where rm: "remove_order_at_level ?b ?p i = Some (Inr (), s1)" "drop_level_if_empty s1 ?p = Some b"
    and b: "book_inv b" "book_frame ?b b" "view b = prune ?p (take_order ?p i ?q (view ?b))"
    using slb.drop_order [OF D(8) lv] unfolding drop_level_if_empty_eq by blast
  have "remove_from_book i e = Some (Inr (), set_own_book e (o_side ord) b)"
    using o rm by (simp add: remove_from_book_def)
  then show thesis
    using that b book_wf_take [OF D(11) so mk] by (simp add: side_makers_def)
qed

lemma cancel_inner_ok:
  assumes inv: "engine_inv e" and o: "get_order e i = Some ord"
  obtains e' where "cancel_order_inner n i smp e = Some (Inr \<lparr>c_order_id = i, c_cancelled_quantity = remaining_lots ord\<rparr>, e')"
    "engine_inv e'" "side_makers e' = (side_makers e)(o_side ord := drop_maker i (side_makers e (o_side ord)))"
    "get_order e' = (get_order e)(i := None)"
proof -
  let ?s = "o_side ord"
  have core: "engine_core {} e" using inv by (simp add: engine_inv_def)
  note D = engine_coreD [OF core]
  have id: "o_id ord = i" and wf: "order_wf ord" using D(3) o by (simp_all add: stored_wf_def)
  have nf: "\<not> is_filled ord" using order_wf_remaining [OF wf] by (simp add: is_filled_def)
  obtain b where rm: "remove_from_book i e = Some (Inr (), set_own_book e ?s b)"
    and b: "book_inv b" "book_frame (own_book e ?s) b" "book_wf (view b)" "makers (view b) = drop_maker i (side_makers e ?s)"
    by (rule remove_from_book_ok [OF inv o])
  define e1 where "e1 = forget_order (set_own_book e ?s b) i"
  have st: "store_ok (set_own_book e ?s b)" using D(2) by (simp add: store_ok_def)
  note fo = forget_order_store [OF st, of i]
  have ob: "own_book e1 side = (if side = ?s then b else own_book e side)" for side by (simp add: e1_def)
  have G: "get_order e1 = (get_order e)(i := None)" using fo(2) by (simp add: e1_def)
  have sub: "fst ` set (makers (view b)) \<subseteq> fst ` set (makers (view (own_book e ?s)))"
    unfolding b(4) by (auto simp: drop_maker_def side_makers_def)
  have "engine_core {} e1"
  proof (rule engine_core_change [OF core _ _ G, where side = ?s])
    show "cache_ok (own_book e1 ?s)" using cache_ok_kept [OF D(10) b(2) sub] by (simp add: ob)
    show "set (side_makers e1 ?s) = {m \<in> set (side_makers e ?s). maker_id m \<noteq> i} \<union> set_option (map_option maker_of None)"
      using b(4) by (simp add: side_makers_def ob drop_maker_def)
  qed (use o b fo(1) D(5,9) in \<open>auto simp: ob book_frame_def e1_def\<close>)
  then have "engine_inv e1" by (simp add: engine_inv_def)
  moreover have sm: "side_makers e1 = (side_makers e)(?s := drop_maker i (side_makers e ?s))"
    using b(4) by (auto simp: fun_eq_iff side_makers_def ob)
  moreover obtain e2 where e2: "maybe_sample_depth n e1 = Some e2" "sampled e1 e2" by (rule sample_ok [OF \<open>engine_inv e1\<close>])
  ultimately show thesis
    using G o nf rm sampledD [OF e2(2)]
    by (intro that [of "if smp then e2 else e1"]) (simp_all add: cancel_order_inner_def e1_def [symmetric] Let_def)
qed

subsection \<open>Specification of the order types\<close>

lemma admissibleD:
  assumes "admissible ord e" and inv: "engine_inv e"
  shows "get_order e (o_id ord) = None" and "0 < o_quantity_lots ord" and "in_i64 (o_quantity_lots ord)"
    and "length (me_orders e) < op_capacity (order_pool e)" and "o_is_market ord \<or> 0 < o_price_ticks ord" and "remaining_lots ord = o_quantity_lots ord"
proof -
  have core: "engine_core {} e" using inv by (simp add: engine_inv_def)
  note D = engine_coreD [OF core]
  show "get_order e (o_id ord) = None" using assms(1) contains_order_iff [OF D(2)] by (simp add: admissible_def)
  show q: "0 < o_quantity_lots ord" using assms(1) by (auto simp: admissible_def validate_order_def split: if_splits)
  show i: "in_i64 (o_quantity_lots ord)" using assms(1) by (simp add: admissible_def)
  have oi: "op_inv (order_pool e) (snd ` set (me_orders e))" and dis: "distinct (map snd (me_orders e))"
    using D(2) by (simp_all add: store_ok_def)
  have "0 < op_available_count (order_pool e)" using assms(1) by (simp add: admissible_def has_space_for_order_def order_pool_def)
  moreover have "card (snd ` set (me_orders e)) = length (me_orders e)" using distinct_card [OF dis] by simp
  ultimately show "length (me_orders e) < op_capacity (order_pool e)"
    using op_available_count_free [OF oi] op_free_length [OF oi] by linarith
  show "o_is_market ord \<or> 0 < o_price_ticks ord"
    using assms(1) by (auto simp: admissible_def validate_order_def split: if_splits)
  show "remaining_lots ord = o_quantity_lots ord"
    using assms(1) by (simp add: admissible_def remaining_lots_def)
qed

lemma admissible_bufs [simp]: "admissible ord (e\<lparr>me_affected_makers_buf := a\<rparr>) = admissible ord e"
  by (simp add: admissible_def contains_order_def)

subsection \<open>The handlers meet the specification\<close>

lemma match_order_spec:
  assumes inv: "engine_inv e" and adm: "admissible ord e"
  obtains fs e' where "match_order ord e = Some (Inr (fill_lots fs), e')" "engine_inv e'"
    "spec_match ord (side_makers e) = (fs, side_makers e')" "me_fills_buf e' = fs"
    "match_rel (o_side ord) e e'" "get_order e' (o_id ord) = None" "\<forall>res. r_fills res = fs \<longrightarrow> published ord res e e'"
proof -
  note A = admissibleD [OF adm inv]
  obtain fs e' where m: "match_order ord e = Some (Inr (fill_lots fs), e')" "engine_inv e'"
    "match_rel (o_side ord) e e'" "get_order e' (o_id ord) = None"
    "take_makers (taker_accepts ord) (o_quantity_lots ord) (opp_makers e ord) = (fs, opp_makers e' ord)"
    "me_fills_buf e' = fs" "me_affected_makers_buf e' = map fst fs"
    "me_trade_sequence e' = ((\<lambda>n. as_u64 (n + 1)) ^^ length fs) (me_trade_sequence e)"
    "me_trade_event_sender e' = foldl push_event (me_trade_event_sender e) (fill_events (me_trade_sequence e) ord fs)"
    by (rule match_order_ok [OF inv A(1,3,2)])
  have "side_makers e' (o_side ord) = side_makers e (o_side ord)"
    using m(3) by (simp add: match_rel_def side_makers_def)
  then have "((side_makers e)(opposite (o_side ord) := opp_makers e' ord)) side = side_makers e' side" for side
    using opposite_cases [of side "o_side ord"] by auto
  then have "(side_makers e)(opposite (o_side ord) := opp_makers e' ord) = side_makers e'" by (rule ext)
  moreover have "\<forall>res. r_fills res = fs \<longrightarrow> published ord res e e'"
    using m by (simp add: published_def match_rel_def)
  ultimately show thesis using m by (intro that [of fs e']) (simp_all add: spec_match_def)
qed

lemma published_rejected [simp]: "published ord (rejected ord) e e"
  by (simp add: published_def rejected_def option.map_ident)

lemma take_spec:
  assumes "engine_inv e" and "admissible ord e"
  shows "\<exists>e'. handle_ioc ord e = Some (Inr (fst (spec_take ord (side_makers e))), e') \<and> engine_inv e' \<and>
      side_makers e' = snd (spec_take ord (side_makers e)) \<and> published ord (fst (spec_take ord (side_makers e))) e e'"
    and "\<exists>e'. handle_market_order ord e = Some (Inr (fst (spec_take ord (side_makers e))), e') \<and> engine_inv e' \<and>
      side_makers e' = snd (spec_take ord (side_makers e)) \<and> published ord (fst (spec_take ord (side_makers e))) e e'"
  by (rule match_order_spec [OF assms],
      auto simp: handle_ioc_def handle_market_order_def spec_take_def spec_result_def)+

lemma wf_makers_pos: "engine_inv e \<Longrightarrow> \<forall>m \<in> set (side_makers e side). 0 < snd (snd m)"
  using engine_coreD(11) [of "{}" e side] by (simp add: engine_inv_def book_wf_def side_makers_def)

lemma gtc_spec:
  assumes inv: "engine_inv e" and adm: "admissible ord e" and gtc: "\<not> o_is_market ord" "o_time_in_force ord = GTC"
  shows "\<exists>e'. handle_gtc ord e = Some (Inr (fst (spec_gtc ord (side_makers e))), e') \<and> engine_inv e' \<and>
      side_makers e' = snd (spec_gtc ord (side_makers e)) \<and> published ord (fst (spec_gtc ord (side_makers e))) e e'"
proof (rule match_order_spec [OF inv adm])
  fix fs e1
  assume m: "match_order ord e = Some (Inr (fill_lots fs), e1)" "engine_inv e1"
    "spec_match ord (side_makers e) = (fs, side_makers e1)" "me_fills_buf e1 = fs" "match_rel (o_side ord) e e1"
    "get_order e1 (o_id ord) = None" "\<forall>res. r_fills res = fs \<longrightarrow> published ord res e e1"
  note A = admissibleD [OF adm inv]
  show ?thesis
  proof (cases "fill_lots fs < o_quantity_lots ord")
    case False
    with m show ?thesis by (simp add: handle_gtc_def spec_gtc_def spec_result_def)
  next
    case True
    let ?r = "ord\<lparr>o_filled_lots := fill_lots fs\<rparr>"
    obtain ms where "take_makers (taker_accepts ord) (o_quantity_lots ord) (opp_makers e ord) = (fs, ms)"
      using m(3) by (auto simp: spec_match_def split: prod.splits)
    then have nn: "0 \<le> fill_lots fs"
      using A(2) by (intro take_makers_bounds(1) [OF wf_makers_pos [OF inv]]) auto
    with True A(3,5) gtc have wf: "order_wf ?r" by (simp add: order_wf_def restable_def)
    from order_wf_remaining [OF this] have rm: "remaining_lots ?r = o_quantity_lots ord - fill_lots fs" by simp
    have own: "side_makers e1 (o_side ord) = side_makers e (o_side ord)"
      using m(5) by (simp add: match_rel_def side_makers_def)
    obtain e' where e': "add_to_book ?r e1 = Some (Inr (), e')" "engine_inv e'"
      "side_makers e' = (side_makers e1)(o_side ord := rest_maker (side_order (o_side ord)) (maker_of ?r) (side_makers e1 (o_side ord)))"
      "me_fills_buf e' = me_fills_buf e1" "me_affected_makers_buf e' = me_affected_makers_buf e1"
      "me_trade_sequence e' = me_trade_sequence e1" "me_next_order_id e' = me_next_order_id e1"
      "me_trade_event_sender e' = me_trade_event_sender e1"
      "op_capacity (order_pool e') = op_capacity (order_pool e1)" "ps_queues (me_pools e') = ps_queues (me_pools e1)"
    proof (rule add_to_book_ok [OF m(2), of ?r])
      show "length (me_orders e1) < op_capacity (order_pool e1)" using A(4) m(5) by (simp add: match_rel_def)
      show "lots (side_makers e1 (o_side ?r)) + remaining_lots ?r \<le> i64_max"
        using adm rm own nn by (simp add: admissible_def)
    qed (use m(6) wf in auto)
    have "published ord res e e'" if "r_fills res = fs" for res
      using m(7) [rule_format, OF that] e'(5-10) by (simp add: published_def)
    with e' m True rm show ?thesis
      by (simp add: handle_gtc_def spec_gtc_def spec_result_def spec_rest_def maker_of_def)
  qed
qed

lemma spec_take_filled:
  assumes "engine_inv e" and "admissible ord e"
    and "o_quantity_lots ord \<le> lots (reachable (taker_accepts ord) (opp_makers e ord))"
  shows "spec_match ord (side_makers e) = (fs, M') \<Longrightarrow> fill_lots fs = o_quantity_lots ord"
proof -
  assume "spec_match ord (side_makers e) = (fs, M')"
  then obtain ms where "take_makers (taker_accepts ord) (o_quantity_lots ord) (opp_makers e ord) = (fs, ms)"
    by (auto simp: spec_match_def split: prod.splits)
  from take_makers_lots [OF wf_makers_pos [OF assms(1)] _ this] admissibleD(2) [OF assms(2,1)] assms(3)
  show ?thesis by simp
qed

lemma can_fill_spec:
  assumes inv: "engine_inv e" and adm: "admissible ord e"
  shows "can_fill_fok e ord =
    Some (o_quantity_lots ord \<le> lots (reachable (taker_accepts ord) (opp_makers e ord)))"
proof -
  have core: "engine_core {} e" using inv by (simp add: engine_inv_def)
  note D = engine_coreD(8,11) [OF core, of "opposite (o_side ord)"]
  have "cumulative (taker_accepts ord) (o_quantity_lots ord) 0 (view (opp_book e (o_side ord))) \<longleftrightarrow>
      o_quantity_lots ord \<le> 0 + lots (reachable (taker_accepts ord) (makers (view (opp_book e (o_side ord)))))"
    using D(2) admissibleD(2) [OF adm inv]
    by (intro cumulative_lots) (simp_all add: opp_book_def book_wf_def)
  then show ?thesis
    using has_cumulative_view [of "opp_book e (o_side ord)"] D(1)
    by (simp add: can_fill_fok_def opp_makers_view) (simp add: opp_book_def)
qed

lemma fok_spec:
  assumes inv: "engine_inv e" and adm: "admissible ord e"
  shows "\<exists>e'. handle_fok ord e = Some (Inr (fst (spec_fok ord (side_makers e))), e') \<and> engine_inv e' \<and>
      side_makers e' = snd (spec_fok ord (side_makers e)) \<and> published ord (fst (spec_fok ord (side_makers e))) e e'"
proof (cases "o_quantity_lots ord \<le> lots (reachable (taker_accepts ord) (opp_makers e ord))")
  case False
  with inv can_fill_spec [OF assms] show ?thesis by (simp add: handle_fok_def spec_fok_def published_rejected)
next
  case True
  show ?thesis
  proof (rule match_order_spec [OF inv adm])
    fix fs e1
    assume m: "match_order ord e = Some (Inr (fill_lots fs), e1)" "engine_inv e1"
      "spec_match ord (side_makers e) = (fs, side_makers e1)" "me_fills_buf e1 = fs"
      "\<forall>res. r_fills res = fs \<longrightarrow> published ord res e e1"
    have "fill_lots fs = o_quantity_lots ord" by (rule spec_take_filled [OF assms True m(3)])
    with m True can_fill_spec [OF assms] show ?thesis
      by (simp add: handle_fok_def spec_fok_def spec_take_def spec_result_def fill_status_def)
  qed
qed

lemma best_price_ticks_view:
  assumes inv: "engine_inv e"
  shows "best_price_ticks e (side = Buy) = Some (map_option fst (hd_or None (side_makers e side)))"
proof -
  have core: "engine_core {} e" using inv by (simp add: engine_inv_def)
  note D = engine_coreD(8,11) [OF core, of side]
  let ?b = "own_book e side"
  have bk: "(if side = Buy then me_buy_book e else me_sell_book e) = ?b" by (cases side) (simp_all add: own_book_def)
  show ?thesis
  proof (cases "level_addrs ?b")
    case Nil
    then have "best ?b = Some None" using best_view(1) [OF D(1)] by simp
    moreover have "side_makers e side = []" using Nil by (simp add: side_makers_def view_def)
    ultimately show ?thesis by (simp add: best_price_ticks_def Let_def bk)
  next
    case (Cons a as)
    have v: "view ?b = level_at ?b a # map (level_at ?b) as" by (simp add: view_def Cons)
    obtain t xs where l: "level_at ?b a = (sn_price_ticks (sl_arena ?b ! a), t, xs)"
      by (simp add: level_at_def price_of_def)
    have "xs \<noteq> []" using D(2) v l by (simp add: book_wf_def level_ok_def)
    then have "map_option fst (hd_or None (side_makers e side)) = Some (sn_price_ticks (sl_arena ?b ! a))"
      using v l by (cases xs) (auto simp: side_makers_def)
    moreover have "best ?b = Some (Some a)" "node_at ?b a = Some (sl_arena ?b ! a)"
      using best_view [OF D(1)] Cons by simp_all
    ultimately show ?thesis by (auto simp: best_price_ticks_def Let_def bk)
  qed
qed

lemma post_only_spec:
  assumes inv: "engine_inv e" and adm: "admissible ord e" and lim: "\<not> o_is_market ord" "o_time_in_force ord = PostOnly"
  shows "\<exists>e'. handle_post_only ord e = Some (Inr (fst (spec_post_only ord (side_makers e))), e') \<and> engine_inv e' \<and>
      side_makers e' = snd (spec_post_only ord (side_makers e)) \<and> published ord (fst (spec_post_only ord (side_makers e))) e e'"
proof -
  note A = admissibleD [OF adm inv]
  have bp: "best_price_ticks e (o_side ord = Sell) = Some (map_option fst (hd_or None (opp_makers e ord)))"
    using best_price_ticks_view [OF inv, of "opposite (o_side ord)"] by (cases "o_side ord") (simp_all add: opposite_def)
  have acc: "taker_accepts ord p = (case o_side ord of Buy \<Rightarrow> o_price_ticks ord \<ge> p | Sell \<Rightarrow> o_price_ticks ord \<le> p)" for p
    using lim by (cases "o_side ord") (simp_all add: acceptable_def)
  have wf: "order_wf ord" using A(2,3,5) lim adm by (simp add: order_wf_def restable_def admissible_def)
  have fit: "lots (side_makers e (o_side ord)) + remaining_lots ord \<le> i64_max" using adm A(6) by (simp add: admissible_def)
  obtain e' where e': "add_to_book ord e = Some (Inr (), e')" "engine_inv e'"
    "side_makers e' = (side_makers e)(o_side ord := rest_maker (side_order (o_side ord)) (maker_of ord) (side_makers e (o_side ord)))"
    "me_affected_makers_buf e' = me_affected_makers_buf e" "me_trade_sequence e' = me_trade_sequence e"
    "me_next_order_id e' = me_next_order_id e" "me_trade_event_sender e' = me_trade_event_sender e"
    "op_capacity (order_pool e') = op_capacity (order_pool e)" "ps_queues (me_pools e') = ps_queues (me_pools e)"
    by (rule add_to_book_ok [OF inv A(1) wf A(4) fit])
  have pub: "published ord res e e'" if "r_fills res = []" for res
    using e'(4-9) that by (simp add: published_def option.map_ident)
  have rest: "side_makers e' = spec_rest ord (o_quantity_lots ord) (side_makers e)"
    using e'(3) A(6) by (simp add: spec_rest_def maker_of_def)
  have st: "fill_status 0 (o_quantity_lots ord) Accepted = Accepted" using A(2) by (simp add: fill_status_def)
  show ?thesis
  proof (cases "opp_makers e ord")
    case Nil
    with bp e' rest st pub show ?thesis
      by (simp add: handle_post_only_def spec_post_only_def spec_result_def)
  next
    case (Cons m ms)
    show ?thesis
    proof (cases "taker_accepts ord (fst m)")
      case True
      with Cons bp inv acc show ?thesis by (simp add: handle_post_only_def spec_post_only_def Let_def)
    next
      case False
      with Cons bp e' rest st acc pub show ?thesis
        by (simp add: handle_post_only_def spec_post_only_def spec_result_def Let_def)
    qed
  qed
qed

lemma dispatch_spec:
  assumes inv: "engine_inv e" and adm: "admissible ord e"
  shows "\<exists>e'. dispatch ord e = Some (Inr (fst (spec_place ord (side_makers e))), e') \<and> engine_inv e' \<and>
      side_makers e' = snd (spec_place ord (side_makers e)) \<and> published ord (fst (spec_place ord (side_makers e))) e e'"
proof (cases "o_is_market ord")
  case True
  then show ?thesis using take_spec(2) [OF assms] by (simp add: dispatch_def spec_place_def)
next
  case False
  then show ?thesis
    using take_spec(1) [OF assms] fok_spec [OF assms] gtc_spec [OF assms False] post_only_spec [OF assms False]
    by (cases "o_time_in_force ord") (simp_all add: dispatch_def spec_place_def)
qed

lemma place_order_spec:
  assumes inv: "engine_inv e" and adm: "admissible ord e"
  shows "\<exists>e'. place_order n ord e = Some (Inr (fst (spec_place ord (side_makers e))), e') \<and> engine_inv e' \<and>
      side_makers e' = snd (spec_place ord (side_makers e)) \<and> published ord (fst (spec_place ord (side_makers e))) e e' \<and>
      me_affected_makers_buf e' = map fst (r_fills (fst (spec_place ord (side_makers e))))"
proof -
  let ?e = "e\<lparr>me_affected_makers_buf := []\<rparr>" and ?r = "fst (spec_place ord (side_makers e))"
  obtain e1 where e1: "dispatch ord ?e = Some (Inr ?r, e1)" "engine_inv e1"
    "side_makers e1 = snd (spec_place ord (side_makers e))" "published ord ?r ?e e1"
    using dispatch_spec [of ?e ord] assms by auto
  obtain e2 where e2: "maybe_sample_depth n e1 = Some e2" "sampled e1 e2" by (rule sample_ok [OF e1(2)])
  have "published ord ?r e e2 \<and> me_affected_makers_buf e2 = map fst (r_fills ?r)"
    using e1(4) e2(2) by (simp add: published_def sampled_def order_pool_def)
  with e1 e2(1) sampledD [OF e2(2)] show ?thesis using adm by (simp add: place_order_def admissible_def)
qed

subsection \<open>The book never crosses\<close>

lemma price_sorted_makers:
  "sorted_wrt (before d) (map fst V) \<Longrightarrow> price_sorted d (makers V)"
proof (induction V)
  case (Cons l V)
  obtain p t xs where l: "l = (p, t, xs)" by (cases l)
  have "before d p (fst m)" if "m \<in> set (makers V)" for m
    using Cons.prems maker_price [OF that] by (auto simp: l)
  moreover have "sorted_wrt (\<lambda>m n. \<not> before d (fst n) (fst m)) (map (Pair p) xs)" by (simp add: sorted_wrt_map sorted_wrt_iff_nth_less)
  ultimately show ?case using Cons by (auto simp: l price_sorted_def sorted_wrt_append dest: before_asym)
qed (simp add: price_sorted_def)

lemma engine_price_sorted: "engine_inv e \<Longrightarrow> price_sorted (side_order side) (side_makers e side)"
proof -
  assume "engine_inv e"
  then have core: "engine_core {} e" by (simp add: engine_inv_def)
  note D = engine_coreD(8,9) [OF core, of side]
  show ?thesis using price_sorted_makers [OF view_sorted [OF D(1)]] D(2) by (simp add: side_makers_def)
qed

lemma take_makers_rest:
  "\<forall>m \<in> set ms. 0 < snd (snd m) \<Longrightarrow> take_makers acc need ms = (fs, ms') \<Longrightarrow> fill_lots fs < need \<Longrightarrow>
     ms' = dropWhile (\<lambda>m. acc (fst m)) ms"
proof (induction acc need ms arbitrary: fs ms' rule: take_makers.induct)
  case (2 acc need p i q ms)
  show ?case
  proof (cases "\<not> acc p")
    case True
    then show ?thesis using "2.prems" by auto
  next
    case False
    have "0 < need" using "2.prems" take_makers_none [of need acc "(p, i, q) # ms"] by (cases "need \<le> 0") auto
    moreover have "q \<le> need" using "2.prems" False by (auto split: if_splits)
    moreover obtain gs ns where g: "take_makers acc (need - q) ms = (gs, ns)" by fastforce
    ultimately show ?thesis using "2.IH" [OF _ _ _ g] "2.prems" False by auto
  qed
qed auto

lemma take_makers_prices:
  "take_makers acc need ms = (fs, ms') \<Longrightarrow> fst ` set ms' \<subseteq> fst ` set ms"
proof (induction acc need ms arbitrary: fs ms' rule: take_makers.induct)
  case (2 acc need p i q ms)
  obtain gs ns where g: "take_makers acc (need - q) ms = (gs, ns)" by fastforce
  show ?case
  proof (cases "\<not> (need \<le> 0 \<or> \<not> acc p) \<and> q \<le> need")
    case True
    then have "fst ` set ns \<subseteq> fst ` set ms" using "2.IH" g by blast
    with True g "2.prems" show ?thesis by auto
  qed (use "2.prems" in \<open>auto split: if_splits\<close>)
qed simp

lemma dropWhile_sorted:
  assumes "price_sorted (side_order (opposite side)) ms" and "m \<in> set (dropWhile (\<lambda>m. acceptable False (side = Buy) limit (fst m)) ms)"
  shows "\<not> acceptable False (side = Buy) limit (fst m)"
  using assms
proof (induction ms)
  case (Cons n ms)
  show ?case
  proof (cases "acceptable False (side = Buy) limit (fst n)")
    case True
    with Cons show ?thesis by (simp add: price_sorted_def)
  next
    case False
    then show ?thesis using Cons.prems
      by (cases side) (auto simp: price_sorted_def acceptable_def side_order_def opposite_def before_def)
  qed
qed simp

lemma uncrossed_match:
  assumes "uncrossed M" and "spec_match ord M = (fs, M')"
  shows "uncrossed M'"
proof -
  obtain ms where t: "take_makers (taker_accepts ord) (o_quantity_lots ord) (M (opposite (o_side ord))) = (fs, ms)"
    and M': "M' = M(opposite (o_side ord) := ms)" using assms(2) by (auto simp: spec_match_def split: prod.splits)
  have sub: "fst ` set ms \<subseteq> fst ` set (M (opposite (o_side ord)))" by (rule take_makers_prices [OF t])
  have cr: "b < a" if "b \<in> fst ` set (M Buy)" "a \<in> fst ` set (M Sell)" for a b using assms(1) that by (auto simp: uncrossed_def)
  show ?thesis
  proof (cases "o_side ord")
    case Buy
    then show ?thesis using sub cr M' by (fastforce simp: uncrossed_def opposite_def)
  next
    case Sell
    then show ?thesis using sub cr M' by (fastforce simp: uncrossed_def opposite_def)
  qed
qed

lemma uncrossed_rest:
  assumes "uncrossed M" and "\<forall>m \<in> set (M (opposite (o_side ord))). \<not> acceptable False (o_side ord = Buy) (o_price_ticks ord) (fst m)"
  shows "uncrossed (spec_rest ord q M)"
  using assms by (cases "o_side ord") (auto simp: uncrossed_def spec_rest_def set_rest_maker acceptable_def opposite_def)

lemma spec_place_uncrossed:
  assumes un: "uncrossed M" and pos: "\<forall>m \<in> set (M (opposite (o_side ord))). 0 < snd (snd m)"
    and so: "price_sorted (side_order (opposite (o_side ord))) (M (opposite (o_side ord)))"
  shows "uncrossed (snd (spec_place ord M))"
proof -
  obtain fs M' where m: "spec_match ord M = (fs, M')" by fastforce
  have um: "uncrossed M'" by (rule uncrossed_match [OF un m])
  have take: "uncrossed (snd (spec_take ord M))" using um m by (simp add: spec_take_def)
  have fok: "uncrossed (snd (spec_fok ord M))" using take un by (simp add: spec_fok_def)
  have gtc: "uncrossed (snd (spec_gtc ord M))" if lim: "\<not> o_is_market ord"
  proof (cases "fill_lots fs < o_quantity_lots ord")
    case True
    obtain ms where t: "take_makers (taker_accepts ord) (o_quantity_lots ord) (M (opposite (o_side ord))) = (fs, ms)"
      and M': "M' = M(opposite (o_side ord) := ms)" using m by (auto simp: spec_match_def split: prod.splits)
    have "ms = dropWhile (\<lambda>m. taker_accepts ord (fst m)) (M (opposite (o_side ord)))"
      by (rule take_makers_rest [OF pos t True])
    then have "\<not> acceptable False (o_side ord = Buy) (o_price_ticks ord) (fst m)" if "m \<in> set ms" for m
      using dropWhile_sorted [OF so, of m "o_price_ticks ord"] that lim by simp
    then show ?thesis using um M' m True uncrossed_rest [OF um] by (simp add: spec_gtc_def)
  qed (use um m in \<open>simp add: spec_gtc_def\<close>)
  have post: "uncrossed (snd (spec_post_only ord M))" if lim: "\<not> o_is_market ord"
  proof (cases "M (opposite (o_side ord))")
    case Nil
    then show ?thesis using uncrossed_rest [OF un] by (simp add: spec_post_only_def)
  next
    case (Cons n ns)
    have "\<not> acceptable False (o_side ord = Buy) (o_price_ticks ord) (fst m)"
      if "m \<in> set (n # ns)" "\<not> taker_accepts ord (fst n)" for m
      using dropWhile_sorted [OF so, of m "o_price_ticks ord"] that lim Cons by simp
    then show ?thesis using Cons un uncrossed_rest [OF un] by (simp add: spec_post_only_def)
  qed
  show ?thesis using take fok gtc post by (cases "o_time_in_force ord") (simp_all add: spec_place_def)
qed

end
