(* ===== verification/EngineRuns.thy ===== *)
theory EngineRuns
  imports EngineSpec
begin

text \<open>
  Consequences of the refinement for whole runs of the engine: fills follow price and time
  priority, the order store holds exactly the resting orders, aggregated depth is the sum of the
  resting lots, and every state that calls of the public interface reach satisfies the invariant
  and is uncrossed.
\<close>

fun level_sums :: "maker list \<Rightarrow> (PriceTicks \<times> QuantityLots) list" where
  "level_sums [] = []"
| "level_sums ((p, i, q) # ms) =
     (case level_sums ms of
        (r, t) # L \<Rightarrow> if r = p then (p, q + t) # L else (p, q) # (r, t) # L
      | [] \<Rightarrow> [(p, q)])"

text \<open>
  A step is a call of the public interface. An order comes in unfilled and its quantity fits an
  \<open>i64\<close> together with what already rests on its side; nothing else is assumed of it.
\<close>

definition order_in_range :: "Order \<Rightarrow> MatchingEngine \<Rightarrow> bool" where
  "order_in_range ord e \<longleftrightarrow> in_i64 (o_quantity_lots ord) \<and> o_filled_lots ord = 0 \<and>
     lots (side_makers e (o_side ord)) + o_quantity_lots ord \<le> i64_max"

inductive engine_step :: "MatchingEngine \<Rightarrow> MatchingEngine \<Rightarrow> bool" where
  place: "order_in_range ord e \<Longrightarrow> place_order n ord e = Some (r, e') \<Longrightarrow> engine_step e e'"
| cancel: "cancel_order n i e = Some (r, e') \<Longrightarrow> engine_step e e'"

definition engine_good :: "MatchingEngine \<Rightarrow> bool" where
  "engine_good e \<longleftrightarrow> engine_inv e \<and> uncrossed (side_makers e)"

inductive engine_run :: "PoolConfig \<Rightarrow> MatchingEngine \<Rightarrow> bool" for cfg where
  start: "engine_run cfg (engine_new cfg)"
| step: "engine_run cfg e \<Longrightarrow> engine_step e e' \<Longrightarrow> engine_run cfg e'"

definition demo_cfg :: PoolConfig where
  "demo_cfg = \<lparr>pc_order_capacity = 4, pc_queue_capacity = 4\<rparr>"

definition demo_empty :: MatchingEngine where
  "demo_empty = engine_new demo_cfg"

definition demo_ask :: Order where
  "demo_ask = Order_new 1 Sell 100 5 GTC 10"

definition demo_book :: MatchingEngine where
  "demo_book = snd (the (place_order 0 demo_ask demo_empty))"

definition demo_order :: "nat \<Rightarrow> Side \<Rightarrow> PriceTicks \<Rightarrow> QuantityLots \<Rightarrow> TimeInForce \<Rightarrow> Order" where
  "demo_order i side p q tif = Order_new i side p q tif 20"

subsection \<open>Priority\<close>

lemma take_makers_prefix:
  "take_makers acc need ms = (fs, ms') \<Longrightarrow>
     length fs \<le> length ms \<and> map (\<lambda>f. (fst (snd f), fst f)) fs = map (\<lambda>m. (fst m, maker_id m)) (take (length fs) ms)"
proof (induction acc need ms arbitrary: fs ms' rule: take_makers.induct)
  case (2 acc need p i q ms)
  show ?case
  proof (cases "\<not> (need \<le> 0 \<or> \<not> acc p) \<and> q \<le> need")
    case True
    obtain gs ns where g: "take_makers acc (need - q) ms = (gs, ns)" by fastforce
    with True "2.prems" have "fs = (i, p, q) # gs" by auto
    with "2.IH" g True show ?thesis by auto
  qed (use "2.prems" in \<open>auto split: if_splits\<close>)
qed simp

lemma take_makers_tail:
  "take_makers acc need ms = (fs, ms') \<Longrightarrow>
     map fst ms' = map fst (drop (length fs) ms) \<or> fs \<noteq> [] \<and> map fst ms' = map fst (drop (length fs - 1) ms)"
proof (induction acc need ms arbitrary: fs ms' rule: take_makers.induct)
  case (2 acc need p i q ms)
  show ?case
  proof (cases "\<not> (need \<le> 0 \<or> \<not> acc p) \<and> q \<le> need")
    case True
    obtain gs ns where g: "take_makers acc (need - q) ms = (gs, ns)" by fastforce
    with True "2.prems" have f: "fs = (i, p, q) # gs" "ms' = ns" by auto
    from "2.IH" g True have "map fst ns = map fst (drop (length gs) ms) \<or>
        gs \<noteq> [] \<and> map fst ns = map fst (drop (length gs - 1) ms)" by auto
    then show ?thesis using f by (cases gs) auto
  qed (use "2.prems" in \<open>auto split: if_splits\<close>)
qed simp

lemma sorted_take_drop:
  assumes "sorted_wrt R xs" and "reflp_on (set xs) R" and "x \<in> set (take n xs)" and "y \<in> set (drop (n - 1) xs)"
  shows "R x y"
proof -
  obtain i where i: "i < n" "i < length xs" "x = xs ! i" using assms(3) by (auto simp: in_set_conv_nth)
  obtain j where j: "j < length (drop (n - 1) xs)" "y = drop (n - 1) xs ! j" using assms(4) by (metis in_set_conv_nth)
  then have y: "y = xs ! (n - 1 + j)" "n - 1 + j < length xs" by auto
  show ?thesis
  proof (cases "i = n - 1 + j")
    case True
    then have "x = y" using i y by simp
    then show ?thesis using assms(2) i nth_mem [of i xs] by (auto simp: reflp_on_def)
  next
    case False
    then have "i < n - 1 + j" using i(1) by simp
    then show ?thesis using assms(1) i y by (simp add: sorted_wrt_iff_nth_less)
  qed
qed

lemma take_makers_best_first:
  assumes so: "price_sorted d ms" and t: "take_makers acc need ms = (fs, ms')"
  shows "sorted_wrt (\<lambda>f g. \<not> before d (fst (snd g)) (fst (snd f))) fs"
    and "f \<in> set fs \<Longrightarrow> m \<in> set ms' \<Longrightarrow> \<not> before d (fst m) (fst (snd f))"
proof -
  let ?n = "length fs"
  note pf = take_makers_prefix [OF t]
  have ps: "map (fst \<circ> snd) fs = map fst (take ?n ms)"
    using arg_cong [OF conjunct2 [OF pf], of "map fst"] by (simp add: comp_def)
  have srt: "sorted_wrt (\<lambda>p q. \<not> before d q p) (map fst ms)" using so by (simp add: price_sorted_def sorted_wrt_map)
  then have "sorted_wrt (\<lambda>p q. \<not> before d q p) (take ?n (map fst ms))" by (rule sorted_wrt_take)
  then have "sorted_wrt (\<lambda>p q. \<not> before d q p) (map (fst \<circ> snd) fs)" by (simp only: ps take_map)
  then show "sorted_wrt (\<lambda>f g. \<not> before d (fst (snd g)) (fst (snd f))) fs" by (simp add: sorted_wrt_map)
  assume f: "f \<in> set fs" and m: "m \<in> set ms'"
  have "fst (snd f) \<in> set (take ?n (map fst ms))"
  proof -
    have "fst (snd f) \<in> set (map (fst \<circ> snd) fs)" using f by auto
    then show ?thesis by (simp only: ps take_map)
  qed
  moreover have "fst m \<in> set (drop (?n - 1) (map fst ms))"
  proof -
    have "fst m \<in> set (map fst ms')" using m by simp
    moreover have "set (map fst ms') \<subseteq> set (drop (?n - 1) (map fst ms))"
      using take_makers_tail [OF t]
    proof
      assume "map fst ms' = map fst (drop ?n ms)"
      then have "set (map fst ms') = set (drop ?n (map fst ms))" by (simp only: drop_map)
      then show ?thesis using set_drop_subset_set_drop [of "?n - 1" ?n "map fst ms"] by simp
    next
      assume "fs \<noteq> [] \<and> map fst ms' = map fst (drop (?n - 1) ms)"
      then have "set (map fst ms') = set (drop (?n - 1) (map fst ms))" by (simp only: drop_map)
      then show ?thesis by simp
    qed
    ultimately show ?thesis by blast
  qed
  ultimately show "\<not> before d (fst m) (fst (snd f))"
    using sorted_take_drop [OF srt, of "fst (snd f)" ?n "fst m"] by (simp add: reflp_on_def)
qed

subsection \<open>What a placed order does to the two sides\<close>

lemma spec_match_take:
  assumes "spec_match ord M = (fs, M')"
  shows "take_makers (taker_accepts ord) (o_quantity_lots ord) (M (opposite (o_side ord))) = (fs, M' (opposite (o_side ord)))"
    and "M' (o_side ord) = M (o_side ord)"
  using assms by (auto simp: spec_match_def split: prod.splits)

lemma spec_place_cases:
  obtains (trades) fs M' where "spec_match ord M = (fs, M')" "r_fills (fst (spec_place ord M)) = fs"
      "r_filled_lots (fst (spec_place ord M)) = fill_lots fs"
      "snd (spec_place ord M) (opposite (o_side ord)) = M' (opposite (o_side ord))"
    | (none) "r_fills (fst (spec_place ord M)) = []" "r_filled_lots (fst (spec_place ord M)) = 0"
      "snd (spec_place ord M) (opposite (o_side ord)) = M (opposite (o_side ord))"
proof -
  obtain fs M' where m: "spec_match ord M = (fs, M')" by fastforce
  have take: thesis if "spec_place ord M = spec_take ord M"
    using that m by (intro trades [OF m]) (simp_all add: spec_take_def spec_result_def)
  have rej: thesis if "spec_place ord M = (rejected ord, M)"
    using that by (intro none) (simp_all add: rejected_def)
  show thesis
  proof (cases "o_is_market ord")
    case True
    then show thesis by (intro take) (simp add: spec_place_def)
  next
    case False
    show thesis
    proof (cases "o_time_in_force ord")
      case GTC
      with False m show thesis
        by (intro trades [OF m]) (simp_all add: spec_place_def spec_gtc_def spec_result_def spec_rest_def)
    next
      case IOC
      with False show thesis by (intro take) (simp add: spec_place_def)
    next
      case FOK
      with False have "spec_place ord M = spec_take ord M \<or> spec_place ord M = (rejected ord, M)"
        by (simp add: spec_place_def spec_fok_def)
      then show thesis using take rej by blast
    next
      case PostOnly
      with False show thesis
        by (intro none) (simp_all add: spec_place_def spec_post_only_def spec_result_def spec_rest_def rejected_def split: list.split)
    qed
  qed
qed

lemma place_result:
  assumes "engine_inv e" and "admissible ord e" and "place_order n ord e = Some (Inr res, e')"
  shows "res = fst (spec_place ord (side_makers e))" and "side_makers e' = snd (spec_place ord (side_makers e))" and "engine_inv e'"
  using place_order_spec [OF assms(1,2), of n] assms(3) by auto

lemma place_taken:
  assumes inv: "engine_inv e" and adm: "admissible ord e" and pl: "place_order n ord e = Some (Inr res, e')"
  shows "\<exists>need. 0 \<le> need \<and> need \<le> o_quantity_lots ord \<and>
    take_makers (taker_accepts ord) need (opp_makers e ord) = (r_fills res, opp_makers e' ord)"
    and "r_filled_lots res = fill_lots (r_fills res)"
proof -
  note R = place_result [OF assms]
  have q: "0 < o_quantity_lots ord" by (rule admissibleD(2) [OF adm inv])
  have "(\<exists>need. 0 \<le> need \<and> need \<le> o_quantity_lots ord \<and>
      take_makers (taker_accepts ord) need (opp_makers e ord) = (r_fills res, opp_makers e' ord)) \<and>
      r_filled_lots res = fill_lots (r_fills res)"
  proof (rule spec_place_cases [of ord "side_makers e"])
    fix fs M' assume "spec_match ord (side_makers e) = (fs, M')" "r_fills (fst (spec_place ord (side_makers e))) = fs"
      "r_filled_lots (fst (spec_place ord (side_makers e))) = fill_lots fs"
      "snd (spec_place ord (side_makers e)) (opposite (o_side ord)) = M' (opposite (o_side ord))"
    then show ?thesis using R(1,2) spec_match_take(1) q by (intro conjI exI [of _ "o_quantity_lots ord"]) auto
  next
    assume "r_fills (fst (spec_place ord (side_makers e))) = []" "r_filled_lots (fst (spec_place ord (side_makers e))) = 0"
      "snd (spec_place ord (side_makers e)) (opposite (o_side ord)) = opp_makers e ord"
    then show ?thesis using R(1,2) take_makers_none q by (intro conjI exI [of _ 0]) auto
  qed
  then show "\<exists>need. 0 \<le> need \<and> need \<le> o_quantity_lots ord \<and>
    take_makers (taker_accepts ord) need (opp_makers e ord) = (r_fills res, opp_makers e' ord)"
    and "r_filled_lots res = fill_lots (r_fills res)" by blast+
qed

lemma contains_order_makers:
  assumes inv: "engine_inv e"
  shows "contains_order e i \<longleftrightarrow> (\<exists>side. i \<in> maker_id ` set (side_makers e side))"
proof -
  have core: "engine_core {} e" using inv by (simp add: engine_inv_def)
  note D = engine_coreD [OF core]
  have "contains_order e i \<longleftrightarrow> (\<exists>ord. get_order e i = Some ord)" using contains_order_iff [OF D(2)] by auto
  also have "\<dots> \<longleftrightarrow> (\<exists>side. i \<in> maker_id ` set (side_makers e side))"
  proof
    assume "\<exists>ord. get_order e i = Some ord"
    then obtain ord where o: "get_order e i = Some ord" by blast
    moreover have "o_id ord = i" using D(3) o by (simp add: stored_wf_def)
    ultimately have "maker_of ord \<in> set (side_makers e (o_side ord))"
      using store_sideD [OF D(4), of "maker_of ord" "o_side ord"] by auto
    then show "\<exists>side. i \<in> maker_id ` set (side_makers e side)"
      using \<open>o_id ord = i\<close> maker_id_maker_of by (metis image_eqI)
  next
    assume "\<exists>side. i \<in> maker_id ` set (side_makers e side)"
    then show "\<exists>ord. get_order e i = Some ord" using store_sideD [OF D(4)] by blast
  qed
  finally show ?thesis .
qed

subsection \<open>Aggregated depth\<close>

lemma level_sums_level:
  assumes "xs \<noteq> []" and "\<And>r t L. level_sums ms = (r, t) # L \<Longrightarrow> r \<noteq> p"
  shows "level_sums (map (Pair p) xs @ ms) = (p, sum_list (map snd xs)) # level_sums ms"
  using assms(1)
proof (induction xs)
  case (Cons x xs)
  obtain i q where x: "x = (i, q)" by (cases x)
  show ?case
  proof (cases "xs = []")
    case True
    then show ?thesis using assms(2) by (cases "level_sums ms") (auto simp: x)
  next
    case False
    with Cons.IH show ?thesis by (simp add: x)
  qed
qed simp

lemma depth_level_sums:
  "book_wf V \<Longrightarrow> sorted_wrt (before d) (map fst V) \<Longrightarrow> depth V = level_sums (makers V)"
proof (induction V)
  case (Cons l V)
  obtain p t xs where l: "l = (p, t, xs)" by (cases l)
  have t: "t = sum_list (map snd xs)" "xs \<noteq> []" using Cons.prems(1) by (simp_all add: l book_wf_def level_ok_def)
  have IH: "depth V = level_sums (makers V)" using Cons book_wf_ConsD by simp
  have "r \<noteq> p" if "level_sums (makers V) = (r, u) # L" for r u L
  proof -
    have "r \<in> fst ` set V" using IH that by (cases V) (auto simp: depth_def)
    then show ?thesis using Cons.prems(2) by (auto simp: l)
  qed
  from level_sums_level [OF t(2) this] IH t(1) show ?case by (simp add: l depth_def)
qed (simp add: depth_def)

subsection \<open>Runs of the engine\<close>

lemma place_order_errors:
  assumes "\<not> (validate_order ord = Inr () \<and> \<not> contains_order e (o_id ord) \<and> has_space_for_order (me_pools e))"
  shows "\<exists>err. place_order n ord e = Some (Inl err, e)"
  using assms by (auto simp: place_order_def split: sum.split)

lemma place_order_total:
  assumes inv: "engine_inv e" and rng: "order_in_range ord e"
  shows "(\<exists>err. place_order n ord e = Some (Inl err, e)) \<or> admissible ord e"
  using place_order_errors [of ord e n] rng by (auto simp: admissible_def order_in_range_def)

lemma cancel_missing:
  assumes "get_order e i = None"
  shows "cancel_order n i e = Some (Inl OrderNotFound, e)"
  using assms by (simp add: cancel_order_def cancel_order_inner_def)

lemma uncrossed_drop:
  assumes "uncrossed M" shows "uncrossed (M(side := drop_maker i (M side)))"
  using assms by (cases side) (auto simp: uncrossed_def drop_maker_def)

lemma step_good:
  assumes good: "engine_good e" and st: "engine_step e e'"
  shows "engine_good e'"
  using st
proof cases
  case (place ord n r)
  have inv: "engine_inv e" using good by (simp add: engine_good_def)
  consider err where "place_order n ord e = Some (Inl err, e)" | "admissible ord e"
    using place_order_total [OF inv place(1)] by blast
  then show ?thesis
  proof cases
    case 1
    with place good show ?thesis by simp
  next
    case 2
    from place_order_spec [OF inv this, of n] place(2)
    have "engine_inv e'" "side_makers e' = snd (spec_place ord (side_makers e))" by auto
    moreover have "uncrossed (snd (spec_place ord (side_makers e)))"
      using good by (intro spec_place_uncrossed wf_makers_pos [OF inv] engine_price_sorted [OF inv]) (simp add: engine_good_def)
    ultimately show ?thesis by (simp add: engine_good_def)
  qed
next
  case (cancel n i r)
  have inv: "engine_inv e" using good by (simp add: engine_good_def)
  show ?thesis
  proof (cases "get_order e i")
    case None
    with cancel good show ?thesis by (simp add: cancel_missing)
  next
    case (Some ord)
    obtain e1 where "cancel_order n i e = Some (Inr \<lparr>c_order_id = i, c_cancelled_quantity = remaining_lots ord\<rparr>, e1)"
      "engine_inv e1" "side_makers e1 = (side_makers e)(o_side ord := drop_maker i (side_makers e (o_side ord)))"
      using cancel_inner_ok [OF inv Some, of n True] by (metis cancel_order_def)
    with cancel good uncrossed_drop show ?thesis by (simp add: engine_good_def)
  qed
qed

lemma run_good:
  assumes "engine_run cfg e" and "pc_order_capacity cfg \<le> pc_queue_capacity cfg" and "pc_queue_capacity cfg < 2 ^ 64"
  shows "engine_good e"
  using assms(1)
proof induction
  case start
  then show ?case using engine_new_inv [OF assms(2,3)] by (simp add: engine_good_def uncrossed_def)
qed (rule step_good)

lemma all_side: "(\<forall>side. P side) \<longleftrightarrow> P Buy \<and> P Sell"
  by (metis Side.exhaust)

lemma ex_side: "(\<exists>side. P side) \<longleftrightarrow> P Buy \<or> P Sell"
  by (metis Side.exhaust)

lemma orders_count:
  assumes inv: "engine_inv e"
  shows "length (me_orders e) = length (side_makers e Buy) + length (side_makers e Sell)"
proof -
  have core: "engine_core {} e" using inv by (simp add: engine_inv_def)
  note D = engine_coreD [OF core]
  let ?I = "\<lambda>side. set (map maker_id (side_makers e side))"
  have dist: "distinct (map maker_id (side_makers e side))" for side
    using D(11) [of side] by (simp add: book_wf_def side_makers_def)
  have "set (map fst (me_orders e)) = ?I Buy \<union> ?I Sell"
  proof (rule set_eqI)
    fix i
    have "i \<in> set (map fst (me_orders e)) \<longleftrightarrow> contains_order e i"
      by (simp add: contains_order_def map_of_eq_None_iff)
    also have "\<dots> \<longleftrightarrow> i \<in> ?I Buy \<union> ?I Sell"
      unfolding contains_order_makers [OF inv] ex_side by simp
    finally show "i \<in> set (map fst (me_orders e)) \<longleftrightarrow> i \<in> ?I Buy \<union> ?I Sell" .
  qed
  moreover have "?I Buy \<inter> ?I Sell = {}"
  proof -
    have "maker_id m \<noteq> maker_id n" if b: "m \<in> set (side_makers e Buy)" and s: "n \<in> set (side_makers e Sell)" for m n
    proof -
      obtain x where "get_order e (maker_id m) = Some x" "o_side x = Buy" using iffD1 [OF store_sideD [OF D(4)] b] by blast
      moreover obtain y where "get_order e (maker_id n) = Some y" "o_side y = Sell" using iffD1 [OF store_sideD [OF D(4)] s] by blast
      ultimately show ?thesis by (metis Side.distinct(1) option.inject)
    qed
    then show ?thesis by (simp only: set_map) blast
  qed
  ultimately have "card (set (map fst (me_orders e))) = card (?I Buy) + card (?I Sell)"
    by (simp add: card_Un_disjoint)
  moreover have "card (set (map fst (me_orders e))) = length (me_orders e)"
    using D(2) distinct_card [of "map fst (me_orders e)"] by (simp add: store_ok_def)
  moreover have "card (?I side) = length (side_makers e side)" for side using distinct_card [OF dist] by simp
  ultimately show ?thesis by simp
qed

lemma has_space_iff:
  assumes inv: "engine_inv e"
  shows "has_space_for_order (me_pools e) \<longleftrightarrow>
    length (side_makers e Buy) + length (side_makers e Sell) < op_capacity (order_pool e) \<and> 0 < op_capacity (ps_queues (me_pools e))"
proof -
  have core: "engine_core {} e" using inv by (simp add: engine_inv_def)
  note D = engine_coreD [OF core]
  have o: "op_inv (order_pool e) (snd ` set (me_orders e))" and d: "distinct (map snd (me_orders e))"
    using D(2) by (simp_all add: store_ok_def)
  have "card (snd ` set (me_orders e)) = length (me_orders e)" using distinct_card [OF d] by simp
  then have "0 < op_available_count (order_pool e) \<longleftrightarrow>
      length (side_makers e Buy) + length (side_makers e Sell) < op_capacity (order_pool e)"
    using op_available_count_free [OF o] op_free_length [OF o] orders_count [OF inv] by linarith
  moreover have "op_available_count (ps_queues (me_pools e)) = op_capacity (ps_queues (me_pools e))"
    using op_available_count_free [OF D(6)] op_free_length [OF D(6)] by simp
  ultimately show ?thesis by (simp add: has_space_for_order_def order_pool_def)
qed

text \<open>Whether an order is taken on depends on the makers and the pool sizes only.\<close>

lemma admissible_makers:
  assumes inv: "engine_inv e"
  shows "admissible ord e \<longleftrightarrow> validate_order ord = Inr () \<and> (\<forall>side. o_id ord \<notin> maker_id ` set (side_makers e side)) \<and>
    length (side_makers e Buy) + length (side_makers e Sell) < op_capacity (order_pool e) \<and> 0 < op_capacity (ps_queues (me_pools e)) \<and>
    in_i64 (o_quantity_lots ord) \<and> o_filled_lots ord = 0 \<and> lots (side_makers e (o_side ord)) + o_quantity_lots ord \<le> i64_max"
  unfolding admissible_def has_space_iff [OF inv] contains_order_makers [OF inv] by blast

subsection \<open>A small engine with one resting ask\<close>

lemma demo_empty_facts:
  "engine_inv demo_empty" "side_makers demo_empty side = []" "op_capacity (order_pool demo_empty) = 4"
  "op_capacity (ps_queues (me_pools demo_empty)) = 4" "get_order demo_empty i = None"
  using engine_new_inv [of demo_cfg]
  by (simp_all add: demo_empty_def demo_cfg_def) (simp_all add: engine_new_def order_pool_def Pools_new_def ObjectPool_new_def)

lemma demo_ask_ok: "admissible demo_ask demo_empty"
  unfolding admissible_makers [OF demo_empty_facts(1)]
  by (simp add: demo_empty_facts demo_ask_def Order_new_def validate_order_def in_i64_def i64_max_def i64_min_def)

lemma demo_book_eq:
  "place_order 0 demo_ask demo_empty =
     Some (Inr \<lparr>r_order_id = 1, r_filled_lots = 0, r_status = Accepted, r_fills = []\<rparr>, demo_book)"
  and demo_book_facts: "engine_inv demo_book" "side_makers demo_book Sell = [(100, 1, 5)]" "side_makers demo_book Buy = []"
    "op_capacity (order_pool demo_book) = 4" "op_capacity (ps_queues (me_pools demo_book)) = 4"
proof -
  have sp: "spec_place demo_ask (side_makers demo_empty) =
      (\<lparr>r_order_id = 1, r_filled_lots = 0, r_status = Accepted, r_fills = []\<rparr>, (side_makers demo_empty)(Sell := [(100, 1, 5)]))"
    by (simp add: spec_place_def demo_ask_def Order_new_def spec_gtc_def spec_match_def opposite_def demo_empty_facts
        spec_result_def spec_rest_def fill_status_def rest_maker_def fun_eq_iff)
  obtain e' where e': "place_order 0 demo_ask demo_empty = Some (Inr (fst (spec_place demo_ask (side_makers demo_empty))), e')"
    "engine_inv e'" "side_makers e' = snd (spec_place demo_ask (side_makers demo_empty))"
    "published demo_ask (fst (spec_place demo_ask (side_makers demo_empty))) demo_empty e'"
    using place_order_spec [OF demo_empty_facts(1) demo_ask_ok, of 0] by blast
  have eq: "e' = demo_book" using e'(1) by (simp add: demo_book_def)
  show "place_order 0 demo_ask demo_empty =
     Some (Inr \<lparr>r_order_id = 1, r_filled_lots = 0, r_status = Accepted, r_fills = []\<rparr>, demo_book)"
    using e'(1) by (simp add: sp eq)
  show "engine_inv demo_book" "side_makers demo_book Sell = [(100, 1, 5)]" "side_makers demo_book Buy = []"
    "op_capacity (order_pool demo_book) = 4" "op_capacity (ps_queues (me_pools demo_book)) = 4"
    using e'(2-4) by (simp_all add: sp eq demo_empty_facts published_def)
qed

lemma demo_order_ok:
  assumes "i \<noteq> 1" and "0 < p" and "0 < q" and "q \<le> 1000"
  shows "admissible (demo_order i side p q tif) demo_book"
  unfolding admissible_makers [OF demo_book_facts(1)] using assms
  by (cases side) (auto simp: demo_book_facts demo_order_def Order_new_def validate_order_def in_i64_def i64_max_def i64_min_def
      maker_id_def all_side)

end
