(* ===== verification/EngineProps.thy ===== *)
theory EngineProps
  imports EngineRuns
begin

text \<open>
  The properties of the matching engine: what \<open>place_order\<close>, \<open>cancel_order\<close> and the depth queries
  promise their callers, each with an instance on a small engine that holds one resting ask.
\<close>

definition rested_lots :: "Order \<Rightarrow> PlaceOrderResult \<Rightarrow> QuantityLots" where
  "rested_lots ord res =
     (if o_is_market ord \<or> o_time_in_force ord = IOC \<or> o_time_in_force ord = FOK \<or> r_status res = Rejected then 0
      else o_quantity_lots ord - r_filled_lots res)"

lemma spec_rest_sides [simp]:
  "lots (spec_rest ord q M (o_side ord)) = lots (M (o_side ord)) + q"
  "spec_rest ord q M (opposite (o_side ord)) = M (opposite (o_side ord))"
  by (simp_all add: spec_rest_def lots_rest_maker)

lemma spec_match_own [simp]: "snd (spec_match ord M) (o_side ord) = M (o_side ord)"
  by (simp add: spec_match_def split: prod.split)

lemma spec_take_own [simp]: "snd (spec_take ord M) (o_side ord) = M (o_side ord)"
  using spec_match_own [of ord M] by (cases "spec_match ord M") (simp add: spec_take_def)

lemma fill_status_rejected: "fill_status n q Accepted \<noteq> Rejected"
  by (simp add: fill_status_def)

lemma spec_place_own:
  assumes q: "0 < o_quantity_lots ord" and fl: "r_filled_lots (fst (spec_place ord M)) \<le> o_quantity_lots ord"
  shows "lots (snd (spec_place ord M) (o_side ord)) = lots (M (o_side ord)) + rested_lots ord (fst (spec_place ord M))"
proof (cases "o_is_market ord")
  case True
  then show ?thesis by (simp add: spec_place_def rested_lots_def)
next
  case False
  obtain fs M' where m: "spec_match ord M = (fs, M')" by fastforce
  have own: "M' (o_side ord) = M (o_side ord)" using spec_match_own [of ord M] m by simp
  show ?thesis
  proof (cases "o_time_in_force ord")
    case GTC
    with False m own fl show ?thesis
      by (auto simp: spec_place_def spec_gtc_def rested_lots_def spec_result_def fill_status_rejected)
  next
    case PostOnly
    with False q show ?thesis
      by (auto simp: spec_place_def spec_post_only_def rested_lots_def spec_result_def rejected_def fill_status_def split: list.split)
  qed (use False in \<open>simp_all add: spec_place_def spec_fok_def rested_lots_def\<close>)
qed

lemma rest_keeps_own:
  assumes "o_is_market ord \<or> o_time_in_force ord = IOC \<or> o_time_in_force ord = FOK"
  shows "snd (spec_place ord M) (o_side ord) = M (o_side ord)"
  using assms by (auto simp: spec_place_def spec_fok_def)

lemma place_in_range:
  assumes inv: "engine_inv e" and rng: "order_in_range ord e"
  shows "\<exists>r e'. place_order n ord e = Some (r, e')"
  using place_order_total [OF inv rng, of n] place_order_spec [OF inv, of ord n] by auto

lemma cancel_total:
  assumes inv: "engine_inv e"
  shows "\<exists>r e'. cancel_order n i e = Some (r, e')"
proof (cases "get_order e i")
  case (Some ord)
  then show ?thesis using cancel_inner_ok [OF inv Some, of n True] by (metis cancel_order_def)
qed (simp add: cancel_missing)

lemmas demo_eval = spec_place_def demo_order_def Order_new_def spec_gtc_def spec_take_def spec_fok_def spec_post_only_def
  spec_match_def opposite_def demo_book_facts acceptable_def spec_result_def fill_status_def fill_lots_def rested_lots_def
  reachable_def rejected_def spec_rest_def rest_maker_def

lemma demo_place:
  assumes "i \<noteq> 1" and "0 < p" and "0 < q" and "q \<le> 1000"
  obtains e' where "place_order 7 (demo_order i side p q tif) demo_book =
    Some (Inr (fst (spec_place (demo_order i side p q tif) (side_makers demo_book))), e')"
  using place_order_spec [OF demo_book_facts(1) demo_order_ok [OF assms], of 7] by blast

lemma take_makers_ids:
  "take_makers acc need ms = (fs, ms') \<Longrightarrow> maker_id ` set ms' \<subseteq> maker_id ` set ms"
proof (induction acc need ms arbitrary: fs ms' rule: take_makers.induct)
  case (2 acc need p i q ms)
  obtain gs ns where g: "take_makers acc (need - q) ms = (gs, ns)" by fastforce
  show ?case
  proof (cases "\<not> (need \<le> 0 \<or> \<not> acc p) \<and> q \<le> need")
    case True
    with "2.prems" g have "ms' = ns" by auto
    with "2.IH" g True show ?thesis by auto
  qed (use "2.prems" in \<open>auto split: if_splits\<close>)
qed simp

lemma fill_events_facts:
  "length (fill_events n ord fs) = length fs"
  "list_all2 (\<lambda>t (c, p, d). te_maker_order_id t = c \<and> te_price t = f_of_int p \<and> te_quantity t = f_of_int d) (fill_events n ord fs) fs"
  "map te_sequence (fill_events n ord fs) = map (\<lambda>k. as_u64 (n + k)) [1..<Suc (length fs)]"
  "list_all (\<lambda>t. te_order_id t = o_id ord \<and> te_side t = o_side ord \<and> te_timestamp t = o_timestamp ord) (fill_events n ord fs)"
proof -
  show "length (fill_events n ord fs) = length fs"
    by (induction n ord fs rule: fill_events.induct) simp_all
  show "list_all2 (\<lambda>t (c, p, d). te_maker_order_id t = c \<and> te_price t = f_of_int p \<and> te_quantity t = f_of_int d) (fill_events n ord fs) fs"
    by (induction n ord fs rule: fill_events.induct) (simp_all add: trade_event_def TradeEvent_new_def)
  show "list_all (\<lambda>t. te_order_id t = o_id ord \<and> te_side t = o_side ord \<and> te_timestamp t = o_timestamp ord) (fill_events n ord fs)"
    by (induction n ord fs rule: fill_events.induct) (simp_all add: trade_event_def TradeEvent_new_def)
  show "map te_sequence (fill_events n ord fs) = map (\<lambda>k. as_u64 (n + k)) [1..<Suc (length fs)]"
  proof (induction n ord fs rule: fill_events.induct)
    case (2 n ord c p d fs)
    have shift: "map (\<lambda>k. as_u64 (as_u64 (n + 1) + k)) [1..<Suc (length fs)] = map (\<lambda>k. as_u64 (n + k)) [Suc 1..<Suc (Suc (length fs))]"
      unfolding map_Suc_upt [symmetric] map_map by (rule map_cong) (simp_all add: as_u64_def mod_simps)
    show ?case using 2 shift by (simp add: trade_event_def TradeEvent_new_def upt_conv_Cons del: upt_Suc)
  qed simp
qed

text \<open>The events a ring takes out of those pushed: all but the ones that find it full.\<close>

definition taken_by :: "'a producer \<Rightarrow> 'a list \<Rightarrow> 'a list" where
  "taken_by p evs = map snd (filter (\<lambda>(k, ev). k \<notin> set (pr_full p)) (enumerate (pr_pushes p) evs))"

lemma ring_pushes:
  "foldl ring_push p evs = p\<lparr>pr_pushes := pr_pushes p + length evs, pr_ring := pr_ring p @ taken_by p evs\<rparr>"
  by (induction evs arbitrary: p) (simp_all add: ring_push_def taken_by_def)

text \<open>The chunk that a batch writes is the same as pushing its events one by one.\<close>

lemma taken_by_all:
  assumes "list_all (\<lambda>k. k \<notin> set (pr_full p)) [pr_pushes p..<pr_pushes p + length evs]"
  shows "taken_by p evs = evs"
proof -
  have "filter (\<lambda>(k, ev). k \<notin> set (pr_full p)) (enumerate (pr_pushes p) evs) = enumerate (pr_pushes p) evs"
    using assms by (auto simp: filter_id_conv list_all_iff in_set_enumerate_eq)
  then show ?thesis by (simp add: taken_by_def)
qed

lemma send_batch_pushes: "send_batch evs e = send_trades evs e"
proof (cases "me_trade_event_sender e")
  case (Some p)
  have "foldl ring_push p evs = p'" if "write_chunk p evs = Some p'" for p'
    using that ring_pushes [of p evs] taken_by_all [of p evs] by (auto simp: write_chunk_def split: if_splits)
  then show ?thesis
    by (simp add: send_batch_def send_trades_def Some push_events split: option.split)
qed (simp add: send_batch_def send_trades_def)

subsection \<open>Properties\<close>

text \<open>
  C1. Placing an admissible order refines the price-time specification: the handlers, the pointer
  skip lists and the pools together return exactly the result of \<open>spec_place\<close> on the abstract book
  and leave exactly its book, for every order type, and keep the invariant.
\<close>

theorem place_order_refines:
  assumes "engine_inv e" and "admissible ord e"
  shows "\<exists>e'. place_order n ord e = Some (Inr (fst (spec_place ord (side_makers e))), e') \<and> engine_inv e' \<and>
    side_makers e' = snd (spec_place ord (side_makers e))"
  using place_order_spec [OF assms] by blast

theorem place_order_refines_witness:
  "\<exists>e'. place_order 7 (demo_order 2 Buy 101 3 GTC) demo_book =
      Some (Inr \<lparr>r_order_id = 2, r_filled_lots = 3, r_status = Filled, r_fills = [(1, 100, 3)]\<rparr>, e') \<and>
    engine_inv e' \<and> side_makers e' Sell = [(100, 1, 2)] \<and> side_makers e' Buy = []"
proof -
  have "admissible (demo_order 2 Buy 101 3 GTC) demo_book" by (rule demo_order_ok) simp_all
  from place_order_refines [OF demo_book_facts(1) this, of 7] show ?thesis
    by (auto simp: demo_eval)
qed

text \<open>
  C2. Every engine that is reached from a fresh one by placing and cancelling orders satisfies the
  invariant and has an uncrossed book, and from there placing an order whose quantities fit an
  \<open>i64\<close> and cancelling any id always return: no panic, no dangling pointer, no endless loop.
\<close>

theorem reachable_engine_safe:
  assumes "engine_run cfg e" and "pc_order_capacity cfg \<le> pc_queue_capacity cfg" and "pc_queue_capacity cfg < 2 ^ 64"
  shows "engine_inv e \<and> uncrossed (side_makers e) \<and>
    (\<forall>ord n. order_in_range ord e \<longrightarrow> (\<exists>r e'. place_order n ord e = Some (r, e') \<and> engine_run cfg e')) \<and>
    (\<forall>i n. \<exists>r e'. cancel_order n i e = Some (r, e') \<and> engine_run cfg e')"
proof -
  have good: "engine_inv e" "uncrossed (side_makers e)" using run_good [OF assms] by (simp_all add: engine_good_def)
  moreover have "\<exists>r e'. place_order n ord e = Some (r, e') \<and> engine_run cfg e'" if "order_in_range ord e" for ord n
    using place_in_range [OF good(1) that, of n] engine_step.place [OF that] engine_run.step [OF assms(1)] by blast
  moreover have "\<exists>r e'. cancel_order n i e = Some (r, e') \<and> engine_run cfg e'" for i n
    using cancel_total [OF good(1), of n i] engine_step.cancel engine_run.step [OF assms(1)] by blast
  ultimately show ?thesis by blast
qed

lemma demo_runs: "engine_run demo_cfg demo_empty" "engine_run demo_cfg demo_book"
proof -
  show e: "engine_run demo_cfg demo_empty" unfolding demo_empty_def by (rule engine_run.start)
  have "order_in_range demo_ask demo_empty"
    by (simp add: order_in_range_def demo_empty_facts demo_ask_def Order_new_def in_i64_def i64_max_def i64_min_def)
  then show "engine_run demo_cfg demo_book" using engine_step.place demo_book_eq engine_run.step [OF e] by blast
qed

theorem reachable_engine_safe_witness:
  "engine_inv demo_book \<and> uncrossed (side_makers demo_book) \<and>
    (\<exists>r e'. place_order 9 (demo_order 2 Sell 99 1 PostOnly) demo_book = Some (r, e') \<and> engine_run demo_cfg e')"
proof -
  have "order_in_range (demo_order 2 Sell 99 1 PostOnly) demo_book"
    by (simp add: order_in_range_def demo_book_facts demo_order_def Order_new_def in_i64_def i64_max_def i64_min_def)
  with reachable_engine_safe [OF demo_runs(2)] show ?thesis by (simp add: demo_cfg_def)
qed

text \<open>
  C5. Fills respect price and time: each is positive and at a price the taker accepts, the makers
  filled are a prefix of the queue of the other side (best price first, first come first served
  within a price), and no maker left in the book has a better price than one that was filled.
\<close>

theorem fills_price_time:
  assumes "engine_inv e" and "admissible ord e" and "place_order n ord e = Some (Inr res, e')"
  shows "(\<forall>(i, p, l) \<in> set (r_fills res). 0 < l \<and> taker_accepts ord p) \<and>
    map (\<lambda>(i, p, l). (p, i)) (r_fills res) = map (\<lambda>(p, i, q). (p, i)) (take (length (r_fills res)) (opp_makers e ord)) \<and>
    (\<forall>(i, p, l) \<in> set (r_fills res). \<forall>m \<in> set (opp_makers e' ord). \<not> before (side_order (opposite (o_side ord))) (fst m) p)"
proof -
  obtain need where need: "take_makers (taker_accepts ord) need (opp_makers e ord) = (r_fills res, opp_makers e' ord)"
    using place_taken(1) [OF assms] by blast
  have "map (\<lambda>(i, p, l). (p, i)) (r_fills res) = map (\<lambda>(p, i, q). (p, i)) (take (length (r_fills res)) (opp_makers e ord))"
    using take_makers_prefix [OF need] by (simp add: case_prod_unfold maker_id_def)
  with take_makers_fills [OF wf_makers_pos [OF assms(1)] need]
    take_makers_best_first(2) [OF engine_price_sorted [OF assms(1)] need] show ?thesis by fastforce
qed

theorem fills_price_time_witness:
  "\<exists>res e'. place_order 7 (demo_order 2 Buy 101 3 GTC) demo_book = Some (Inr res, e') \<and>
    map (\<lambda>(i, p, l). (p, i)) (r_fills res) = [(100, 1)]"
proof -
  have adm: "admissible (demo_order 2 Buy 101 3 GTC) demo_book" by (rule demo_order_ok) simp_all
  obtain e' where pl: "place_order 7 (demo_order 2 Buy 101 3 GTC) demo_book =
      Some (Inr (fst (spec_place (demo_order 2 Buy 101 3 GTC) (side_makers demo_book))), e')"
    by (rule demo_place [of 2 101 3 Buy GTC]) simp_all
  have "length (r_fills (fst (spec_place (demo_order 2 Buy 101 3 GTC) (side_makers demo_book)))) = 1"
    by (simp add: demo_eval)
  with fills_price_time [OF demo_book_facts(1) adm pl] pl show ?thesis
    by (simp add: demo_book_facts demo_order_def Order_new_def opposite_def)
qed

text \<open>
  C6. Lots are conserved. What the taker is told it filled is the sum of the fills and lies between
  zero and its quantity; the other side loses exactly that much, and the own side gains exactly the
  part of the order that rests.
\<close>

theorem place_conserves_lots:
  assumes "engine_inv e" and "admissible ord e" and "place_order n ord e = Some (Inr res, e')"
  shows "r_filled_lots res = fill_lots (r_fills res) \<and> 0 \<le> r_filled_lots res \<and> r_filled_lots res \<le> o_quantity_lots ord \<and>
    lots (opp_makers e' ord) = lots (opp_makers e ord) - r_filled_lots res \<and>
    lots (side_makers e' (o_side ord)) = lots (side_makers e (o_side ord)) + rested_lots ord res"
proof -
  note R = place_result [OF assms] and A = admissibleD [OF assms(2,1)]
  obtain need where need: "0 \<le> need" "need \<le> o_quantity_lots ord"
    "take_makers (taker_accepts ord) need (opp_makers e ord) = (r_fills res, opp_makers e' ord)"
    using place_taken(1) [OF assms] by blast
  note b = take_makers_bounds [OF wf_makers_pos [OF assms(1)] need(1,3)]
  have fl: "r_filled_lots res \<le> o_quantity_lots ord" using b need(2) place_taken(2) [OF assms] by simp
  show ?thesis
    using b fl take_makers_lots [OF wf_makers_pos [OF assms(1)] need(1,3)] place_taken(2) [OF assms]
      spec_place_own [OF A(2), of "side_makers e"] R(1,2) by simp
qed

theorem place_conserves_lots_witness:
  "\<exists>res e'. place_order 7 (demo_order 2 Buy 101 8 GTC) demo_book = Some (Inr res, e') \<and> r_filled_lots res = 5 \<and>
    lots (side_makers e' Sell) = 0 \<and> lots (side_makers e' Buy) = 3"
proof -
  let ?o = "demo_order 2 Buy 101 8 GTC"
  have adm: "admissible ?o demo_book" by (rule demo_order_ok) simp_all
  obtain e' where pl: "place_order 7 ?o demo_book = Some (Inr (fst (spec_place ?o (side_makers demo_book))), e')"
    by (rule demo_place [of 2 101 8 Buy GTC]) simp_all
  have "r_filled_lots (fst (spec_place ?o (side_makers demo_book))) = 5 \<and>
      rested_lots ?o (fst (spec_place ?o (side_makers demo_book))) = 3"
    by (simp add: demo_eval)
  with place_conserves_lots [OF demo_book_facts(1) adm pl] pl show ?thesis
    by (simp add: demo_book_facts demo_order_def Order_new_def opposite_def)
qed

text \<open>
  C7. A good-till-cancelled, immediate-or-cancel or market order trades exactly the smaller of its
  quantity and the lots it can reach at acceptable prices, and its status says so: filled when all
  of it traded, partially filled when some did, and otherwise accepted (it rests) or rejected.
\<close>

theorem taker_fills_exactly:
  assumes "engine_inv e" and "admissible ord e" and "place_order n ord e = Some (Inr res, e')"
    and "o_is_market ord \<or> o_time_in_force ord = GTC \<or> o_time_in_force ord = IOC"
  shows "r_filled_lots res = min (o_quantity_lots ord) (lots (reachable (taker_accepts ord) (opp_makers e ord))) \<and>
    r_status res = (if r_filled_lots res = o_quantity_lots ord then Filled else if 0 < r_filled_lots res then PartiallyFilled
      else if \<not> o_is_market ord \<and> o_time_in_force ord = GTC then Accepted else Rejected)"
proof -
  note R = place_result [OF assms(1-3)] and A = admissibleD [OF assms(2,1)]
  obtain fs M' where m: "spec_match ord (side_makers e) = (fs, M')" by fastforce
  note t = take_makers_lots [OF wf_makers_pos [OF assms(1)] _ spec_match_take(1) [OF m]]
  have f: "fill_lots fs = min (o_quantity_lots ord) (lots (reachable (taker_accepts ord) (opp_makers e ord)))"
    using t A(2) by simp
  have "res = spec_result ord fs (if \<not> o_is_market ord \<and> o_time_in_force ord = GTC then Accepted else Rejected)"
    using R(1) m assms(4) by (auto simp: spec_place_def spec_take_def spec_gtc_def)
  with f show ?thesis by (simp add: spec_result_def fill_status_def)
qed

theorem taker_fills_exactly_witness:
  "\<exists>res e'. place_order 7 (demo_order 2 Buy 101 8 IOC) demo_book = Some (Inr res, e') \<and> r_filled_lots res = 5 \<and>
    r_status res = PartiallyFilled"
proof -
  let ?o = "demo_order 2 Buy 101 8 IOC"
  have adm: "admissible ?o demo_book" by (rule demo_order_ok) simp_all
  obtain e' where pl: "place_order 7 ?o demo_book = Some (Inr (fst (spec_place ?o (side_makers demo_book))), e')"
    by (rule demo_place [of 2 101 8 Buy IOC]) simp_all
  show ?thesis using taker_fills_exactly [OF demo_book_facts(1) adm pl] pl by (simp add: demo_eval)
qed

text \<open>
  C8. Fill-or-kill is all or nothing: when the lots at acceptable prices cover the order it is
  filled completely, and otherwise it is rejected, has no fills and the book is as before. In both
  cases nothing of it rests.
\<close>

theorem fok_all_or_nothing:
  assumes "engine_inv e" and "admissible ord e" and "place_order n ord e = Some (Inr res, e')"
    and "\<not> o_is_market ord" and "o_time_in_force ord = FOK"
  shows "if o_quantity_lots ord \<le> lots (reachable (taker_accepts ord) (opp_makers e ord))
    then r_status res = Filled \<and> r_filled_lots res = o_quantity_lots ord \<and> side_makers e' (o_side ord) = side_makers e (o_side ord)
    else r_status res = Rejected \<and> r_filled_lots res = 0 \<and> r_fills res = [] \<and> side_makers e' = side_makers e"
proof -
  note R = place_result [OF assms(1-3)]
  have sp: "spec_place ord (side_makers e) = spec_fok ord (side_makers e)" using assms(4,5) by (simp add: spec_place_def)
  obtain fs M' where m: "spec_match ord (side_makers e) = (fs, M')" by fastforce
  show ?thesis
  proof (cases "o_quantity_lots ord \<le> lots (reachable (taker_accepts ord) (opp_makers e ord))")
    case True
    have "fill_lots fs = o_quantity_lots ord" by (rule spec_take_filled [OF assms(1,2) True m])
    moreover have "side_makers e' (o_side ord) = side_makers e (o_side ord)"
      using R(2) rest_keeps_own [of ord "side_makers e"] assms(5) by simp
    ultimately show ?thesis
      using True R(1) m by (simp add: sp spec_fok_def spec_take_def spec_result_def fill_status_def)
  next
    case False
    then show ?thesis using R(1,2) by (simp add: sp spec_fok_def rejected_def)
  qed
qed

theorem fok_all_or_nothing_witness:
  "(\<exists>res e'. place_order 7 (demo_order 2 Buy 101 6 FOK) demo_book = Some (Inr res, e') \<and> r_status res = Rejected \<and>
      side_makers e' = side_makers demo_book) \<and>
   (\<exists>res e'. place_order 7 (demo_order 2 Buy 101 4 FOK) demo_book = Some (Inr res, e') \<and> r_status res = Filled \<and>
      r_filled_lots res = 4)"
proof -
  let ?o = "\<lambda>q. demo_order 2 Buy 101 q FOK"
  have adm: "admissible (?o 6) demo_book" "admissible (?o 4) demo_book" by (rule demo_order_ok; simp)+
  obtain e1 where p1: "place_order 7 (?o 6) demo_book = Some (Inr (fst (spec_place (?o 6) (side_makers demo_book))), e1)"
    by (rule demo_place [of 2 101 6 Buy FOK]) simp_all
  obtain e2 where p2: "place_order 7 (?o 4) demo_book = Some (Inr (fst (spec_place (?o 4) (side_makers demo_book))), e2)"
    by (rule demo_place [of 2 101 4 Buy FOK]) simp_all
  show ?thesis
    using fok_all_or_nothing [OF demo_book_facts(1) adm(1) p1] p1 fok_all_or_nothing [OF demo_book_facts(1) adm(2) p2] p2
    by (simp add: demo_eval)
qed

text \<open>
  C9. A post-only order never takes liquidity. It has no fills and the other side stays as it is; it
  is rejected when the best opposite price is one it would trade at, and otherwise it rests in full
  behind everything at its price.
\<close>

theorem post_only_never_takes:
  assumes "engine_inv e" and "admissible ord e" and "place_order n ord e = Some (Inr res, e')"
    and "\<not> o_is_market ord" and "o_time_in_force ord = PostOnly"
  shows "r_fills res = [] \<and> r_filled_lots res = 0 \<and> opp_makers e' ord = opp_makers e ord \<and>
    (if opp_makers e ord \<noteq> [] \<and> taker_accepts ord (fst (hd (opp_makers e ord)))
     then r_status res = Rejected \<and> side_makers e' = side_makers e
     else r_status res = Accepted \<and> side_makers e' (o_side ord) =
       rest_maker (side_order (o_side ord)) (o_price_ticks ord, o_id ord, o_quantity_lots ord) (side_makers e (o_side ord)))"
proof -
  note R = place_result [OF assms(1-3)] and A = admissibleD [OF assms(2,1)]
  have sp: "spec_place ord (side_makers e) = spec_post_only ord (side_makers e)" using assms(4,5) by (simp add: spec_place_def)
  show ?thesis
    using R(1,2) A(2) by (auto simp: sp spec_post_only_def spec_result_def rejected_def fill_status_def fill_lots_def
      spec_rest_def split: list.splits if_splits)
qed

theorem post_only_never_takes_witness:
  "(\<exists>res e'. place_order 7 (demo_order 2 Buy 100 6 PostOnly) demo_book = Some (Inr res, e') \<and> r_status res = Rejected) \<and>
   (\<exists>res e'. place_order 7 (demo_order 2 Buy 99 6 PostOnly) demo_book = Some (Inr res, e') \<and> r_status res = Accepted \<and>
      side_makers e' Buy = [(99, 2, 6)])"
proof -
  let ?o = "\<lambda>p. demo_order 2 Buy p 6 PostOnly"
  have adm: "admissible (?o 100) demo_book" "admissible (?o 99) demo_book" by (rule demo_order_ok; simp)+
  obtain e1 where p1: "place_order 7 (?o 100) demo_book = Some (Inr (fst (spec_place (?o 100) (side_makers demo_book))), e1)"
    by (rule demo_place [of 2 100 6 Buy PostOnly]) simp_all
  obtain e2 where p2: "place_order 7 (?o 99) demo_book = Some (Inr (fst (spec_place (?o 99) (side_makers demo_book))), e2)"
    by (rule demo_place [of 2 99 6 Buy PostOnly]) simp_all
  show ?thesis
    using post_only_never_takes [OF demo_book_facts(1) adm(1) p1] p1 post_only_never_takes [OF demo_book_facts(1) adm(2) p2] p2
    by (simp add: demo_eval)
qed

text \<open>
  C10. Market, immediate-or-cancel and fill-or-kill orders never rest: afterwards the engine does not
  hold the order, and the own side of the book is untouched.
\<close>

theorem immediate_orders_never_rest:
  assumes "engine_inv e" and "admissible ord e" and "place_order n ord e = Some (Inr res, e')"
    and "o_is_market ord \<or> o_time_in_force ord = IOC \<or> o_time_in_force ord = FOK"
  shows "\<not> contains_order e' (o_id ord) \<and> side_makers e' (o_side ord) = side_makers e (o_side ord)"
proof -
  note R = place_result [OF assms(1-3)]
  have own: "side_makers e' (o_side ord) = side_makers e (o_side ord)" using R(2) rest_keeps_own [OF assms(4)] by simp
  obtain need where "take_makers (taker_accepts ord) need (opp_makers e ord) = (r_fills res, opp_makers e' ord)"
    using place_taken(1) [OF assms(1-3)] by blast
  from take_makers_ids [OF this] have opp: "maker_id ` set (opp_makers e' ord) \<subseteq> maker_id ` set (opp_makers e ord)" .
  have "o_id ord \<notin> maker_id ` set (side_makers e side)" for side
    using assms(2) by (auto simp: admissible_makers [OF assms(1)])
  then have "o_id ord \<notin> maker_id ` set (side_makers e' side)" for side
    using own opp opposite_cases [of side "o_side ord"] by (metis subsetD)
  then show ?thesis using own by (simp add: contains_order_makers [OF R(3)])
qed

theorem immediate_orders_never_rest_witness:
  "\<exists>res e'. place_order 7 (demo_order 2 Buy 101 8 IOC) demo_book = Some (Inr res, e') \<and> \<not> contains_order e' 2 \<and>
    side_makers e' Buy = []"
proof -
  let ?o = "demo_order 2 Buy 101 8 IOC"
  have adm: "admissible ?o demo_book" by (rule demo_order_ok) simp_all
  obtain e' where pl: "place_order 7 ?o demo_book = Some (Inr (fst (spec_place ?o (side_makers demo_book))), e')"
    by (rule demo_place [of 2 101 8 Buy IOC]) simp_all
  show ?thesis using immediate_orders_never_rest [OF demo_book_facts(1) adm pl] pl
    by (simp add: demo_order_def Order_new_def demo_book_facts)
qed

text \<open>
  C11. Cancelling a held order returns its remaining lots and removes exactly it: every other maker of
  both sides stays, in the same order, with the same lots. Cancelling an unknown id is an error that
  changes nothing.
\<close>

theorem cancel_exact:
  assumes "engine_inv e"
  shows "case get_order e i of
      None \<Rightarrow> cancel_order n i e = Some (Inl OrderNotFound, e)
    | Some ord \<Rightarrow> (\<exists>e'. cancel_order n i e = Some (Inr \<lparr>c_order_id = i, c_cancelled_quantity = remaining_lots ord\<rparr>, e') \<and>
        engine_inv e' \<and> \<not> contains_order e' i \<and>
        (\<forall>side. side_makers e' side = filter (\<lambda>m. maker_id m \<noteq> i) (side_makers e side)))"
proof (cases "get_order e i")
  case None
  then show ?thesis by (simp add: cancel_missing)
next
  case (Some ord)
  have core: "engine_core {} e" using assms by (simp add: engine_inv_def)
  obtain e' where e': "cancel_order_inner n i True e = Some (Inr \<lparr>c_order_id = i, c_cancelled_quantity = remaining_lots ord\<rparr>, e')"
    "engine_inv e'" "side_makers e' = (side_makers e)(o_side ord := drop_maker i (side_makers e (o_side ord)))"
    "get_order e' = (get_order e)(i := None)"
    by (rule cancel_inner_ok [OF assms Some])
  have "maker_id m \<noteq> i" if m: "m \<in> set (side_makers e (opposite (o_side ord)))" for m
  proof -
    obtain ord' where "get_order e (maker_id m) = Some ord'" "o_side ord' = opposite (o_side ord)"
      using iffD1 [OF store_sideD [OF engine_coreD(4) [OF core]], OF m] by blast
    then show ?thesis using Some by (metis opposite_neq(1) option.inject)
  qed
  then have "filter (\<lambda>m. maker_id m \<noteq> i) (side_makers e (opposite (o_side ord))) = side_makers e (opposite (o_side ord))"
    by (simp add: filter_id_conv)
  then have "side_makers e' side = filter (\<lambda>m. maker_id m \<noteq> i) (side_makers e side)" for side
    using opposite_cases [of side "o_side ord"] e'(3) by (elim disjE) (simp_all add: drop_maker_def)
  moreover have "\<not> contains_order e' i"
    using e'(2,4) contains_order_iff [of e'] by (simp add: engine_inv_def engine_core_def)
  ultimately show ?thesis using Some e'(1,2) by (simp add: cancel_order_def)
qed

theorem cancel_exact_witness:
  "cancel_order 3 9 demo_empty = Some (Inl OrderNotFound, demo_empty) \<and>
   (\<exists>c e'. cancel_order 3 1 demo_book = Some (Inr c, e') \<and> side_makers e' Sell = [])"
proof -
  have "contains_order demo_book 1" by (auto simp: contains_order_makers [OF demo_book_facts(1)] ex_side demo_book_facts)
  moreover have "store_ok demo_book" using demo_book_facts(1) by (simp add: engine_inv_def engine_core_def)
  ultimately obtain ord where "get_order demo_book 1 = Some ord" using contains_order_iff by blast
  then show ?thesis
    using cancel_exact [OF demo_book_facts(1), of 3 1] cancel_exact [OF demo_empty_facts(1), of 3 9]
    by (auto simp: demo_empty_facts demo_book_facts)
qed

text \<open>
  C12. Rejection is clean: placing an in-range order either executes without error, or returns an
  error and the engine is exactly what it was; the error is the failed validation, a duplicate id,
  or an exhausted pool, in this order. There is no error after a partial execution.
\<close>

theorem place_error_clean:
  assumes "engine_inv e" and "order_in_range ord e"
  shows "case validate_order ord of
      Inl err \<Rightarrow> place_order n ord e = Some (Inl err, e)
    | Inr _ \<Rightarrow>
        if contains_order e (o_id ord) then place_order n ord e = Some (Inl (DuplicateOrderId (o_id ord)), e)
        else if length (side_makers e Buy) + length (side_makers e Sell) = op_capacity (order_pool e) \<or>
                op_capacity (ps_queues (me_pools e)) = 0
        then place_order n ord e = Some (Inl OrderPoolExhausted, e)
        else \<exists>res e'. place_order n ord e = Some (Inr res, e')"
proof (cases "validate_order ord")
  case (Inl err)
  then show ?thesis by (simp add: place_order_def)
next
  case (Inr u)
  have core: "engine_core {} e" using assms(1) by (simp add: engine_inv_def)
  have "length (side_makers e Buy) + length (side_makers e Sell) \<le> op_capacity (order_pool e)"
    using card_store [OF engine_coreD(2) [OF core]] orders_count [OF assms(1)] by simp
  then have sp: "has_space_for_order (me_pools e) \<longleftrightarrow>
      \<not> (length (side_makers e Buy) + length (side_makers e Sell) = op_capacity (order_pool e) \<or> op_capacity (ps_queues (me_pools e)) = 0)"
    using has_space_iff [OF assms(1)] by auto
  have "\<exists>res e'. place_order n ord e = Some (Inr res, e')" if "\<not> contains_order e (o_id ord)" "has_space_for_order (me_pools e)"
  proof -
    have "admissible ord e" using that Inr assms(2) by (simp add: admissible_def order_in_range_def)
    from place_order_spec [OF assms(1) this] show ?thesis by blast
  qed
  then show ?thesis using Inr sp by (auto simp: place_order_def)
qed

theorem place_error_clean_witness:
  "place_order 3 (demo_order 1 Buy 101 8 GTC) demo_book = Some (Inl (DuplicateOrderId 1), demo_book) \<and>
   place_order 3 (demo_order 2 Buy 0 8 GTC) demo_book = Some (Inl (InvalidPrice 0), demo_book)"
proof -
  have r: "order_in_range (demo_order 1 Buy 101 8 GTC) demo_book" "order_in_range (demo_order 2 Buy 0 8 GTC) demo_book"
    by (simp_all add: order_in_range_def demo_book_facts demo_order_def Order_new_def in_i64_def i64_max_def i64_min_def)
  have "contains_order demo_book 1" by (auto simp: contains_order_makers [OF demo_book_facts(1)] ex_side demo_book_facts)
  with place_error_clean [OF demo_book_facts(1) r(1), of 3] place_error_clean [OF demo_book_facts(1) r(2), of 3]
  show ?thesis by (simp add: demo_order_def Order_new_def validate_order_def)
qed

text \<open>
  C13. The depth the engine reports is exact: the first \<open>n\<close> levels of a side are the first \<open>n\<close>
  distinct prices in priority order, each with the sum of the lots that rest there.
\<close>

theorem depth_is_sum_of_orders:
  assumes "engine_inv e"
  shows "get_top_levels_side e n is_buy = Some (take n (level_sums (side_makers e (if is_buy then Buy else Sell))))"
proof -
  have core: "engine_core {} e" using assms by (simp add: engine_inv_def)
  let ?s = "if is_buy then Buy else Sell"
  have b: "get_top_levels_side e n is_buy = get_top_levels (own_book e ?s) n"
    by (simp add: get_top_levels_side_def own_book_def)
  have "depth (view (own_book e ?s)) = level_sums (side_makers e ?s)"
    using depth_level_sums [OF engine_coreD(11) [OF core] view_sorted [OF engine_coreD(8) [OF core]]] by (simp add: side_makers_def)
  then show ?thesis using b get_top_levels_view [OF engine_coreD(8) [OF core]] by simp
qed

theorem depth_is_sum_of_orders_witness:
  "get_top_levels_side demo_book 5 False = Some [(100, 5)]"
  using depth_is_sum_of_orders [OF demo_book_facts(1), of 5 False] by (simp add: demo_book_facts)

text \<open>
  C14. What the engine publishes for an order is its fills: the trade events pushed to the sender are
  one per fill, in order, with the maker of the fill, its price and lots rounded to \<open>f64\<close> (exact up to
  \<open>2^53\<close>) and consecutive trade sequence numbers (modulo \<open>2^64\<close>). The ring takes, in order, exactly
  the events whose push does not find it full; the others are lost without any effect on the
  order. \<open>last_affected_makers\<close> lists the makers of all the fills.
\<close>

theorem published_trades_are_fills:
  assumes "engine_inv e" and "admissible ord e" and "place_order n ord e = Some (Inr res, e')"
    and "me_trade_event_sender e = Some p"
  shows "\<exists>evs p'. me_trade_event_sender e' = Some p' \<and> pr_ring p' = pr_ring p @ taken_by p evs \<and>
    pr_pushes p' = pr_pushes p + length evs \<and> pr_full p' = pr_full p \<and>
    list_all2 (\<lambda>t (c, price, lots). te_maker_order_id t = c \<and>
        te_price t = f_of_int price \<and> (\<bar>price\<bar> \<le> 2 ^ 53 \<longrightarrow> te_price t = Fin (of_int price)) \<and>
        te_quantity t = f_of_int lots \<and> (\<bar>lots\<bar> \<le> 2 ^ 53 \<longrightarrow> te_quantity t = Fin (of_int lots))) evs (r_fills res) \<and>
    map te_sequence evs = map (\<lambda>k. as_u64 (me_trade_sequence e + k)) [1..<Suc (length evs)] \<and>
    list_all (\<lambda>t. te_order_id t = o_id ord \<and> te_side t = o_side ord \<and> te_timestamp t = o_timestamp ord) evs \<and>
    last_affected_makers e' = map fst (r_fills res)"
proof -
  have pub: "published ord res e e'" "me_affected_makers_buf e' = map fst (r_fills res)"
    using place_order_spec [OF assms(1,2), of n] assms(3) by auto
  let ?evs = "fill_events (me_trade_sequence e) ord (r_fills res)"
  note F = fill_events_facts [where n = "me_trade_sequence e" and ord = ord and fs = "r_fills res"]
  have "me_trade_event_sender e' = Some (foldl ring_push p ?evs)"
    using pub(1) assms(4) by (simp add: published_def push_events)
  moreover have "list_all2 (\<lambda>t (c, price, lots). te_maker_order_id t = c \<and>
        te_price t = f_of_int price \<and> (\<bar>price\<bar> \<le> 2 ^ 53 \<longrightarrow> te_price t = Fin (of_int price)) \<and>
        te_quantity t = f_of_int lots \<and> (\<bar>lots\<bar> \<le> 2 ^ 53 \<longrightarrow> te_quantity t = Fin (of_int lots))) ?evs (r_fills res)"
    by (rule list_all2_mono [OF F(2)]) (auto simp: f_of_int_exact)
  ultimately show ?thesis using F(1,3,4) pub(2)
    by (intro exI [of _ ?evs] exI [of _ "foldl ring_push p ?evs"]) (simp add: last_affected_makers_def ring_pushes)
qed

text \<open>A ring with room takes the trade of the example; one that is full at the first push loses it.\<close>

definition demo_ring :: "nat list \<Rightarrow> TradeEvent producer" where
  "demo_ring full = \<lparr>pr_full = full, pr_pushes = 0, pr_ring = []\<rparr>"

lemma demo_published:
  defines "e \<equiv> \<lambda>full. set_trade_event_sender demo_book (demo_ring full)"
  shows "engine_inv (e full)" "admissible (demo_order 2 Buy 101 3 GTC) (e full)"
    "\<exists>e'. place_order 7 (demo_order 2 Buy 101 3 GTC) (e full) =
      Some (Inr \<lparr>r_order_id = 2, r_filled_lots = 3, r_status = Filled, r_fills = [(1, 100, 3)]\<rparr>, e')"
    "me_trade_event_sender (e full) = Some (demo_ring full)"
proof -
  show inv: "engine_inv (e full)"
    using engine_inv_cong [of "e full" demo_book] demo_book_facts(1) by (simp add: e_def set_trade_event_sender_def)
  have "admissible (demo_order 2 Buy 101 3 GTC) demo_book" by (rule demo_order_ok) simp_all
  then show adm: "admissible (demo_order 2 Buy 101 3 GTC) (e full)"
    by (simp add: e_def admissible_def contains_order_def side_makers_def set_trade_event_sender_def)
  have "side_makers (e full) = side_makers demo_book" by (rule ext) (simp add: e_def side_makers_def set_trade_event_sender_def)
  then show "\<exists>e'. place_order 7 (demo_order 2 Buy 101 3 GTC) (e full) =
      Some (Inr \<lparr>r_order_id = 2, r_filled_lots = 3, r_status = Filled, r_fills = [(1, 100, 3)]\<rparr>, e')"
    using place_order_spec [OF inv adm, of 7] by (auto simp: demo_eval)
qed (simp add: e_def set_trade_event_sender_def)

theorem published_trades_are_fills_witness:
  "(\<exists>res e' p'. place_order 7 (demo_order 2 Buy 101 3 GTC) (set_trade_event_sender demo_book (demo_ring [])) = Some (Inr res, e') \<and>
      me_trade_event_sender e' = Some p' \<and> map te_price (pr_ring p') = [Fin 100] \<and> map te_quantity (pr_ring p') = [Fin 3]) \<and>
    (\<exists>res e' p'. place_order 7 (demo_order 2 Buy 101 3 GTC) (set_trade_event_sender demo_book (demo_ring [0])) = Some (Inr res, e') \<and>
      me_trade_event_sender e' = Some p' \<and> pr_ring p' = [] \<and> pr_pushes p' = 1 \<and> last_affected_makers e' = [1])"
proof (rule conjI, goal_cases)
  case 1
  from demo_published(3) [of "[]"] obtain e' where pl: "place_order 7 (demo_order 2 Buy 101 3 GTC) (set_trade_event_sender demo_book (demo_ring [])) =
      Some (Inr \<lparr>r_order_id = 2, r_filled_lots = 3, r_status = Filled, r_fills = [(1, 100, 3)]\<rparr>, e')" by blast
  from published_trades_are_fills [OF demo_published(1,2) pl demo_published(4)] pl show ?case
    by (auto simp: list_all2_Cons2 taken_by_def demo_ring_def)
next
  case 2
  from demo_published(3) [of "[0]"] obtain e' where pl: "place_order 7 (demo_order 2 Buy 101 3 GTC) (set_trade_event_sender demo_book (demo_ring [0])) =
      Some (Inr \<lparr>r_order_id = 2, r_filled_lots = 3, r_status = Filled, r_fills = [(1, 100, 3)]\<rparr>, e')" by blast
  from published_trades_are_fills [OF demo_published(1,2) pl demo_published(4)] pl show ?case
    by (auto simp: list_all2_Cons2 taken_by_def demo_ring_def)
qed

end
