(* ===== verification/RiskCalc.thy ===== *)
theory RiskCalc
  imports Prelude
begin

text \<open>
  The margin arithmetic of \<open>src/desk/risk/calc.rs\<close>. Money is in atoms, prices in ticks,
  quantities in lots. Intermediate values are \<open>i128\<close> with its wrap-around; an integer division
  panics on a zero divisor and on the one quotient that does not fit, so it is an execution.
\<close>

subsection \<open>Wide integers and division\<close>

definition in_i128 :: "int \<Rightarrow> bool" where
  "in_i128 x \<longleftrightarrow> - (2 ^ 127) \<le> x \<and> x < 2 ^ 127"

definition as_i128 :: "int \<Rightarrow> int" where
  "as_i128 x = (x + 2 ^ 127) mod 2 ^ 128 - 2 ^ 127"

definition div_i64 :: "int \<Rightarrow> int \<Rightarrow> int exec" where
  "div_i64 a b = (if b = 0 \<or> a = i64_min \<and> b = -1 then None else Some (a sdiv b))"

definition rem_i64 :: "int \<Rightarrow> int \<Rightarrow> int exec" where
  "rem_i64 a b = (if b = 0 \<or> a = i64_min \<and> b = -1 then None else Some (a smod b))"

definition div_i128 :: "int \<Rightarrow> int \<Rightarrow> int exec" where
  "div_i128 a b = (if b = 0 \<or> a = - (2 ^ 127) \<and> b = -1 then None else Some (a sdiv b))"

subsection \<open>Margin formulas\<close>

datatype PositionSide = Long | Short

abbreviation ATOMS_PER_CENT :: int where
  "ATOMS_PER_CENT \<equiv> 1000000"

definition calc_notional_atoms :: "int \<Rightarrow> int \<Rightarrow> int \<Rightarrow> int exec" where
  "calc_notional_atoms price_ticks qty_lots notional_scale = do {
     v \<leftarrow> div_i128 (as_i128 (price_ticks * qty_lots * ATOMS_PER_CENT)) notional_scale;
     Some (as_i64 v)
   }"

definition calc_initial_margin_atoms :: "int \<Rightarrow> int \<Rightarrow> int exec" where
  "calc_initial_margin_atoms notional_atoms leverage =
     (if leverage = 0 then Some 0 else div_i64 notional_atoms leverage)"

definition calc_maintenance_margin_atoms :: "int \<Rightarrow> int \<Rightarrow> int" where
  "calc_maintenance_margin_atoms notional_atoms rate_bps = as_i64 ((notional_atoms * rate_bps) sdiv 10000)"

definition calc_liquidation_price_ticks :: "int \<Rightarrow> int \<Rightarrow> int \<Rightarrow> PositionSide \<Rightarrow> int" where
  "calc_liquidation_price_ticks entry_ticks leverage rate side =
     (if leverage = 0 then 0
      else
        (let denom = leverage * 10000 in
         case side of
           Long \<Rightarrow> as_i64 ((entry_ticks * (leverage * 10000 - 10000 + rate)) sdiv denom)
         | Short \<Rightarrow> as_i64 ((entry_ticks * (leverage * 10000 + 10000 - rate)) sdiv denom)))"

definition calc_bankruptcy_price_ticks :: "int \<Rightarrow> int \<Rightarrow> PositionSide \<Rightarrow> int exec" where
  "calc_bankruptcy_price_ticks entry_ticks leverage side =
     (case side of
        Long \<Rightarrow> do { v \<leftarrow> div_i128 (entry_ticks * (leverage - 1)) leverage; Some (as_i64 v) }
      | Short \<Rightarrow> do { v \<leftarrow> div_i128 (entry_ticks * (leverage + 1)) leverage; Some (as_i64 v) })"

definition calc_unrealized_pnl_atoms :: "PositionSide \<Rightarrow> int \<Rightarrow> int \<Rightarrow> int \<Rightarrow> int \<Rightarrow> int exec" where
  "calc_unrealized_pnl_atoms side qty_lots entry_price_ticks mark_price_ticks notional_scale = do {
     let diff = (case side of
                   Long \<Rightarrow> as_i64 (mark_price_ticks - entry_price_ticks)
                 | Short \<Rightarrow> as_i64 (entry_price_ticks - mark_price_ticks));
     v \<leftarrow> div_i128 (as_i128 (diff * qty_lots * ATOMS_PER_CENT)) notional_scale;
     Some (as_i64 v)
   }"

definition fee_atoms :: "int \<Rightarrow> int \<Rightarrow> int" where
  "fee_atoms notional_atoms fee_bps = as_i64 ((notional_atoms * fee_bps) sdiv 10000)"

definition liquidation_tranche_lots :: "int \<Rightarrow> int \<Rightarrow> int" where
  "liquidation_tranche_lots position_lots tranche_bps =
     (if tranche_bps \<ge> 10000 \<or> position_lots \<le> 0 then position_lots
      else
        (let tranche = max (as_i64 ((position_lots * tranche_bps) sdiv 10000)) 1;
             remainder = as_i64 (position_lots - tranche)
         in if as_i64 (remainder * 5) < position_lots then position_lots else tranche))"

fun max_leverage_for_notional :: "int \<Rightarrow> (int \<times> int) list \<Rightarrow> int" where
  "max_leverage_for_notional notional_atoms [] = 1"
| "max_leverage_for_notional notional_atoms ((bound_atoms, lev) # tiers) =
     (if bound_atoms = i64_max \<or> notional_atoms \<le> bound_atoms then lev
      else max_leverage_for_notional notional_atoms tiers)"

subsection \<open>Lemmas on division\<close>

lemma as_i128_id [simp]: "in_i128 x \<Longrightarrow> as_i128 x = x"
  by (simp add: in_i128_def as_i128_def)

lemma sdiv_pos: "0 \<le> a \<Longrightarrow> 0 < b \<Longrightarrow> a sdiv b = a div (b::int)"
  by (cases "a = 0") (simp_all add: signed_divide_int_def)

lemma sdiv_neg: "0 < b \<Longrightarrow> (- a) sdiv b = - (a sdiv (b::int))"
  by (simp add: signed_divide_int_def)

lemma sdiv_nonneg: "0 \<le> a \<Longrightarrow> 0 < b \<Longrightarrow> 0 \<le> a sdiv (b::int)"
  by (simp add: sdiv_pos pos_imp_zdiv_nonneg_iff)

lemma sdiv_nonpos: "a \<le> 0 \<Longrightarrow> 0 < b \<Longrightarrow> a sdiv b \<le> (0::int)"
  using sdiv_neg [of b "- a"] sdiv_nonneg [of "- a" b] by simp

lemma sdiv_mono:
  fixes a b c :: int
  assumes "a \<le> b" and "0 < c"
  shows "a sdiv c \<le> b sdiv c"
proof -
  consider "0 \<le> a" | "a < 0" "0 \<le> b" | "b < 0" using assms(1) by linarith
  then show ?thesis
  proof cases
    case 1
    then show ?thesis using assms by (simp add: sdiv_pos zdiv_mono1)
  next
    case 2
    then show ?thesis using sdiv_nonpos [of a c] sdiv_nonneg [of b c] assms(2) by linarith
  next
    case 3
    have "(- b) div c \<le> (- a) div c" using assms by (intro zdiv_mono1) auto
    then show ?thesis using 3 assms sdiv_neg [of c "- a"] sdiv_neg [of c "- b"] sdiv_pos [of "- a" c] sdiv_pos [of "- b" c] by simp
  qed
qed

lemma sdiv_mult_self: "0 < b \<Longrightarrow> (a * b) sdiv b = (a::int)"
  by (simp add: signed_divide_int_def abs_mult sgn_mult mult_sgn_abs)

lemma sdiv_between: "0 \<le> a \<Longrightarrow> 0 < b \<Longrightarrow> b * (a sdiv b) \<le> a \<and> a < b * (a sdiv b) + (b::int)"
  using pos_mod_bound [of b a] pos_mod_sign [of b a] by (simp add: sdiv_pos minus_mod_eq_mult_div [symmetric])

lemma smod_bound: "0 \<le> a \<Longrightarrow> 0 < b \<Longrightarrow> 0 \<le> a smod b \<and> a smod b < (b::int)"
  by (cases "a = 0") (simp_all add: signed_modulo_int_def)

lemma sdiv_smod: "0 \<le> a \<Longrightarrow> 0 < b \<Longrightarrow> b * (a sdiv b) + a smod b = (a::int)"
  by (cases "a = 0") (simp_all add: signed_modulo_int_def sdiv_pos)

subsection \<open>Prices and tranches\<close>

lemma bankruptcy_eq:
  assumes "0 < lev" and "0 \<le> entry"
  shows "calc_bankruptcy_price_ticks entry lev side =
    Some (as_i64 ((entry * (case side of Long \<Rightarrow> lev - 1 | Short \<Rightarrow> lev + 1)) div lev))"
  using assms by (cases side) (simp_all add: calc_bankruptcy_price_ticks_def div_i128_def sdiv_pos)

lemma liquidation_eq:
  assumes "0 < lev" and "0 \<le> entry" and "0 \<le> rate" and "rate \<le> 10000"
  shows "calc_liquidation_price_ticks entry lev rate side =
    as_i64 ((entry * (case side of Long \<Rightarrow> lev * 10000 - 10000 + rate | Short \<Rightarrow> lev * 10000 + 10000 - rate)) div (lev * 10000))"
  using assms by (cases side) (simp_all add: calc_liquidation_price_ticks_def sdiv_pos)

text \<open>
  C24. The liquidation price lies between the bankruptcy price and the entry price on both sides, so
  that a position is closed before its margin is gone and never before the price has moved against it.
\<close>

theorem liquidation_before_bankruptcy:
  assumes "0 \<le> entry" and "2 * entry \<le> i64_max" and "1 \<le> lev" and "0 \<le> rate" and "rate \<le> 10000"
  shows "\<exists>b. calc_bankruptcy_price_ticks entry lev side = Some b \<and>
    (case side of
       Long \<Rightarrow> 0 \<le> b \<and> b \<le> calc_liquidation_price_ticks entry lev rate side \<and> calc_liquidation_price_ticks entry lev rate side \<le> entry
     | Short \<Rightarrow> entry \<le> calc_liquidation_price_ticks entry lev rate side \<and> calc_liquidation_price_ticks entry lev rate side \<le> b)"
proof -
  let ?d = "lev * 10000"
  have lev: "0 < lev" "0 < ?d" using assms(3) by simp_all
  have scale: "(entry * k) div lev = (entry * (k * 10000)) div ?d" for k
    by (simp add: mult.assoc [symmetric])
  have i64: "in_i64 x" if "0 \<le> x" "x \<le> 2 * entry" for x using that assms(2) by (simp add: in_i64_def i64_max_def)
  have mono: "(entry * x) div ?d \<le> (entry * y) div ?d" if "x \<le> y" for x y
    using that assms(1) lev by (intro zdiv_mono1) (simp_all add: mult_left_mono)
  have top: "(entry * ?d) div ?d = entry" "(entry * (2 * ?d)) div ?d = 2 * entry"
    using lev nonzero_mult_div_cancel_right [of ?d "2 * entry"] by (simp_all add: mult.assoc mult.left_commute)
  have nn: "0 \<le> (entry * x) div ?d" if "0 \<le> x" for x using that assms(1) lev by (simp add: pos_imp_zdiv_nonneg_iff)
  show ?thesis
  proof (cases side)
    case Long
    have "(entry * ((lev - 1) * 10000)) div ?d \<le> (entry * (?d - 10000 + rate)) div ?d"
      and "(entry * (?d - 10000 + rate)) div ?d \<le> entry"
      using mono [of "(lev - 1) * 10000" "?d - 10000 + rate"] mono [of "?d - 10000 + rate" ?d] top(1) assms(4,5)
      by (simp_all add: algebra_simps)
    moreover have "0 \<le> (entry * ((lev - 1) * 10000)) div ?d" using assms(3) by (intro nn) simp
    ultimately show ?thesis using Long assms lev i64
      by (simp add: bankruptcy_eq liquidation_eq scale [of "lev - 1"])
  next
    case Short
    have "entry \<le> (entry * (?d + 10000 - rate)) div ?d"
      and "(entry * (?d + 10000 - rate)) div ?d \<le> (entry * ((lev + 1) * 10000)) div ?d"
      and "(entry * ((lev + 1) * 10000)) div ?d \<le> 2 * entry"
      using mono [of ?d "?d + 10000 - rate"] mono [of "?d + 10000 - rate" "(lev + 1) * 10000"] mono [of "(lev + 1) * 10000" "2 * ?d"]
        top assms(3-5) by (simp_all add: algebra_simps)
    then show ?thesis using Short assms lev i64
      by (simp add: bankruptcy_eq liquidation_eq scale [of "lev + 1"])
  qed
qed

theorem liquidation_before_bankruptcy_witness:
  "calc_liquidation_price_ticks 50000 10 50 Long = 45025 \<and> calc_bankruptcy_price_ticks 50000 10 Long = Some 45000 \<and>
   (\<exists>b. calc_bankruptcy_price_ticks 50000 10 Short = Some b \<and> calc_liquidation_price_ticks 50000 10 50 Short \<le> b)"
  using liquidation_before_bankruptcy [of 50000 10 50 Short]
  by (auto simp: calc_liquidation_price_ticks_def calc_bankruptcy_price_ticks_def div_i128_def signed_divide_int_def i64_max_def
      as_i64_def)

lemma tranche_cases:
  assumes "0 < p" and "in_i64 (5 * p)" and "0 \<le> bps"
  shows "0 < liquidation_tranche_lots p bps" and "liquidation_tranche_lots p bps \<le> p"
    and "liquidation_tranche_lots p bps = p \<or> p \<le> 5 * (p - liquidation_tranche_lots p bps)"
proof -
  have "0 < liquidation_tranche_lots p bps \<and> liquidation_tranche_lots p bps \<le> p \<and>
    (liquidation_tranche_lots p bps = p \<or> p \<le> 5 * (p - liquidation_tranche_lots p bps))"
  proof (cases "bps \<ge> 10000")
    case True
    then show ?thesis using assms by (simp add: liquidation_tranche_lots_def)
  next
    case False
    let ?x = "(p * bps) sdiv 10000"
    have "?x \<le> (p * 10000) sdiv 10000" using False assms(1) by (intro sdiv_mono) simp_all
    then have hi: "?x \<le> p" by (simp add: sdiv_mult_self)
    have lo: "0 \<le> ?x" using assms by (intro sdiv_nonneg) simp_all
    have ix: "in_i64 ?x" using hi lo assms by (auto simp: in_i64_def)
    have t: "0 < max ?x 1" "max ?x 1 \<le> p" using hi assms(1) by auto
    then have "in_i64 (p - max ?x 1)" "in_i64 ((p - max ?x 1) * 5)" using assms by (auto simp: in_i64_def)
    then show ?thesis using False assms(1) t ix by (auto simp: liquidation_tranche_lots_def Let_def)
  qed
  then show "0 < liquidation_tranche_lots p bps" and "liquidation_tranche_lots p bps \<le> p"
    and "liquidation_tranche_lots p bps = p \<or> p \<le> 5 * (p - liquidation_tranche_lots p bps)" by auto
qed

text \<open>
  C25. Tiered liquidation makes progress and ends. A round closes at least one lot and at most the
  position, what it leaves is nothing or at least a fifth of the position, and repeating the rounds
  brings the position to zero in finitely many steps.
\<close>

theorem liquidation_rounds_end:
  assumes "0 < p" and "in_i64 (5 * p)" and "0 \<le> bps"
  shows "0 < liquidation_tranche_lots p bps \<and> liquidation_tranche_lots p bps \<le> p \<and>
    (liquidation_tranche_lots p bps = p \<or> p \<le> 5 * (p - liquidation_tranche_lots p bps)) \<and>
    (\<exists>n \<le> nat p. ((\<lambda>q. q - liquidation_tranche_lots q bps) ^^ n) p = 0)"
proof -
  have "\<exists>n \<le> nat p. ((\<lambda>q. q - liquidation_tranche_lots q bps) ^^ n) p = 0"
    using assms(1,2)
  proof (induction "nat p" arbitrary: p rule: less_induct)
    case less
    let ?q = "p - liquidation_tranche_lots p bps"
    note t = tranche_cases [OF less.prems assms(3)]
    show ?case
    proof (cases "?q = 0")
      case True
      then show ?thesis using less.prems(1) by (intro exI [of _ 1]) simp
    next
      case False
      then have q: "0 < ?q" "nat ?q < nat p" "in_i64 (5 * ?q)" using t less.prems by (auto simp: in_i64_def)
      from less.hyps [OF q(2,1,3)] obtain n where "n \<le> nat ?q" "((\<lambda>q. q - liquidation_tranche_lots q bps) ^^ n) ?q = 0" by blast
      moreover from this q(2) have "Suc n \<le> nat p" by linarith
      ultimately show ?thesis by (intro exI [of _ "Suc n"]) (simp add: funpow_Suc_right del: funpow.simps)
    qed
  qed
  then show ?thesis using tranche_cases [OF assms] by blast
qed

theorem liquidation_rounds_end_witness:
  "liquidation_tranche_lots 100 2500 = 25 \<and> (\<exists>n \<le> 100. ((\<lambda>q. q - liquidation_tranche_lots q 2500) ^^ n) 100 = 0)"
  using liquidation_rounds_end [of 100 2500]
  by (simp add: in_i64_def liquidation_tranche_lots_def signed_divide_int_def Let_def as_i64_def)

lemma max_leverage_in: "max_leverage_for_notional m ts \<in> insert 1 (snd ` set ts)"
  by (induction m ts rule: max_leverage_for_notional.induct) auto

text \<open>
  Leverage tiers are monotone: with bounds that ascend and leverages that do not increase, a
  larger notional is never allowed a higher leverage.
\<close>

theorem leverage_tiers_monotone:
  assumes "sorted (map fst tiers)" and "sorted_wrt (\<lambda>x y. snd y \<le> snd x) tiers" and "\<forall>t \<in> set tiers. 1 \<le> snd t"
    and "n \<le> m"
  shows "max_leverage_for_notional m tiers \<le> max_leverage_for_notional n tiers"
  using assms(1-3)
proof (induction tiers)
  case (Cons t ts)
  obtain b l where t: "t = (b, l)" by (cases t)
  have "max_leverage_for_notional m ts \<le> l"
  proof -
    have "max_leverage_for_notional m ts \<in> insert 1 (snd ` set ts)" by (rule max_leverage_in)
    then show ?thesis using Cons.prems by (auto simp: t)
  qed
  then show ?case using Cons assms(4) by (auto simp: t)
qed simp

theorem leverage_tiers_monotone_witness:
  "max_leverage_for_notional 7 [(5, 20), (10, 10), (i64_max, 5)] \<le> max_leverage_for_notional 3 [(5, 20), (10, 10), (i64_max, 5)]"
  using leverage_tiers_monotone [of "[(5, 20), (10, 10), (i64_max, 5)]" 3 7] by (simp add: i64_max_def)

end
