(* ===== verification/RiskEngine.thy ===== *)
theory RiskEngine
  imports RiskCalc
begin

text \<open>
  The risk engine of the desk, \<open>src/desk/risk/types.rs\<close> and \<open>src/desk/risk/engine.rs\<close>: accounts,
  positions, mark prices, open interest and the insurance fund. The concurrent maps are association
  lists (the order of the entries is the order of an iteration, which the source leaves open) or
  functions where the code only looks keys up, and each method is one atomic step on the record.
  \<open>None\<close> is a panic; the only ones are divisions by zero (a zero notional scale or leverage).
\<close>

subsection \<open>State\<close>

type_synonym symbol16 = "8 word list"

datatype RiskStatus = Normal | MarginCall | LiquidationPending | Liquidating | Liquidated | Bankruptcy

record AccountRiskState =
  ar_user_id :: int
  ar_equity :: int
  ar_available_margin :: int
  ar_order_margin :: int
  ar_used_margin :: int
  ar_maintenance_margin :: int
  ar_unrealized_pnl :: int
  ar_status :: RiskStatus
  ar_mark_price_ever_updated :: bool

record PositionRiskState =
  pr_user_id :: int
  pr_symbol :: symbol16
  pr_side :: PositionSide
  pr_qty_lots :: int
  pr_cost_atoms :: int
  pr_entry_price_ticks :: int
  pr_mark_price_ticks :: int
  pr_unrealized_pnl :: int
  pr_initial_margin :: int
  pr_maintenance_margin :: int
  pr_liquidation_price_ticks :: int
  pr_bankruptcy_price_ticks :: int
  pr_leverage :: int

record LiquidationEvent =
  le_user_id :: int
  le_symbol :: symbol16
  le_side :: PositionSide
  le_qty_lots :: int
  le_liq_price_ticks :: int

record AdlEvent =
  ae_bankrupt_user_id :: int
  ae_counterparty_user_id :: int
  ae_qty_lots :: int
  ae_price_ticks :: int

record RiskEngine =
  re_accounts :: "(int \<times> AccountRiskState) list"
  re_positions :: "((int \<times> symbol16) \<times> PositionRiskState) list"
  re_mark_prices :: "symbol16 \<Rightarrow> int option"
  re_symbol_position_index :: "symbol16 \<Rightarrow> int list option"
  re_symbol_oi_lots :: "symbol16 \<Rightarrow> int option"
  re_insurance_fund_atoms :: int

subsection \<open>Discriminants\<close>

definition RiskStatus_to_u8 :: "RiskStatus \<Rightarrow> nat" where
  "RiskStatus_to_u8 s =
     (case s of Normal \<Rightarrow> 0 | MarginCall \<Rightarrow> 1 | LiquidationPending \<Rightarrow> 2 | Liquidating \<Rightarrow> 3 | Liquidated \<Rightarrow> 4 | Bankruptcy \<Rightarrow> 5)"

definition RiskStatus_from_u8 :: "nat \<Rightarrow> RiskStatus option" where
  "RiskStatus_from_u8 v =
     (if v = 0 then Some Normal else if v = 1 then Some MarginCall else if v = 2 then Some LiquidationPending
      else if v = 3 then Some Liquidating else if v = 4 then Some Liquidated else if v = 5 then Some Bankruptcy else None)"

definition RiskStatus_as_db_str :: "RiskStatus \<Rightarrow> string" where
  "RiskStatus_as_db_str s =
     (case s of Normal \<Rightarrow> ''normal'' | MarginCall \<Rightarrow> ''margin_call'' | LiquidationPending \<Rightarrow> ''liquidation_pending''
      | Liquidating \<Rightarrow> ''liquidating'' | Liquidated \<Rightarrow> ''liquidated'' | Bankruptcy \<Rightarrow> ''bankruptcy'')"

definition RiskStatus_from_db_str :: "string \<Rightarrow> RiskStatus option" where
  "RiskStatus_from_db_str s =
     (if s = ''normal'' then Some Normal else if s = ''margin_call'' then Some MarginCall
      else if s = ''liquidation_pending'' then Some LiquidationPending else if s = ''liquidating'' then Some Liquidating
      else if s = ''liquidated'' then Some Liquidated else if s = ''bankruptcy'' then Some Bankruptcy else None)"

definition PositionSide_to_u8 :: "PositionSide \<Rightarrow> nat" where
  "PositionSide_to_u8 s = (case s of Long \<Rightarrow> 0 | Short \<Rightarrow> 1)"

definition PositionSide_from_u8 :: "nat \<Rightarrow> PositionSide option" where
  "PositionSide_from_u8 v = (if v = 0 then Some Long else if v = 1 then Some Short else None)"

definition PositionSide_as_db_str :: "PositionSide \<Rightarrow> string" where
  "PositionSide_as_db_str s = (case s of Long \<Rightarrow> ''long'' | Short \<Rightarrow> ''short'')"

subsection \<open>Accounts\<close>

definition AccountRiskState_new :: "int \<Rightarrow> int \<Rightarrow> AccountRiskState" where
  "AccountRiskState_new user_id usdt_balance_atoms =
     \<lparr>ar_user_id = user_id, ar_equity = usdt_balance_atoms, ar_available_margin = usdt_balance_atoms,
      ar_order_margin = 0, ar_used_margin = 0, ar_maintenance_margin = 0, ar_unrealized_pnl = 0,
      ar_status = Normal, ar_mark_price_ever_updated = False\<rparr>"

definition can_place_order :: "AccountRiskState \<Rightarrow> bool" where
  "can_place_order a \<longleftrightarrow> ar_status a = Normal \<or> ar_status a = MarginCall"

definition RiskEngine_new :: RiskEngine where
  "RiskEngine_new =
     \<lparr>re_accounts = [], re_positions = [], re_mark_prices = (\<lambda>_. None), re_symbol_position_index = (\<lambda>_. None),
      re_symbol_oi_lots = (\<lambda>_. None), re_insurance_fund_atoms = 0\<rparr>"

definition account :: "RiskEngine \<Rightarrow> int \<Rightarrow> AccountRiskState option" where
  "account e user_id = map_of (re_accounts e) user_id"

definition position :: "RiskEngine \<Rightarrow> int \<Rightarrow> symbol16 \<Rightarrow> PositionRiskState option" where
  "position e user_id symbol = map_of (re_positions e) (user_id, symbol)"

text \<open>\<open>if let Some(mut acct) = accounts.get_mut(&user_id)\<close> followed by an update.\<close>

definition with_account :: "int \<Rightarrow> (AccountRiskState \<Rightarrow> AccountRiskState) \<Rightarrow> RiskEngine \<Rightarrow> RiskEngine" where
  "with_account user_id f e =
     (case account e user_id of
        None \<Rightarrow> e
      | Some a \<Rightarrow> e\<lparr>re_accounts := AList.update user_id (f a) (re_accounts e)\<rparr>)"

definition insurance_fund :: "RiskEngine \<Rightarrow> int" where
  "insurance_fund e = re_insurance_fund_atoms e"

definition fund_add :: "int \<Rightarrow> RiskEngine \<Rightarrow> RiskEngine" where
  "fund_add d e = e\<lparr>re_insurance_fund_atoms := as_i64 (re_insurance_fund_atoms e + d)\<rparr>"

definition initialize_account :: "int \<Rightarrow> int \<Rightarrow> RiskEngine \<Rightarrow> RiskEngine" where
  "initialize_account user_id usdt_balance_atoms e =
     e\<lparr>re_accounts := AList.update user_id (AccountRiskState_new user_id usdt_balance_atoms) (re_accounts e)\<rparr>"

definition account_count :: "RiskEngine \<Rightarrow> nat" where
  "account_count e = length (re_accounts e)"

definition force_mark_price :: "symbol16 \<Rightarrow> int \<Rightarrow> RiskEngine \<Rightarrow> RiskEngine" where
  "force_mark_price symbol price_ticks e = e\<lparr>re_mark_prices := (re_mark_prices e)(symbol \<mapsto> price_ticks)\<rparr>"

definition set_account_status :: "int \<Rightarrow> RiskStatus \<Rightarrow> RiskEngine \<Rightarrow> bool \<times> RiskEngine" where
  "set_account_status user_id status e =
     (account e user_id \<noteq> None, with_account user_id (\<lambda>a. a\<lparr>ar_status := status\<rparr>) e)"

definition set_account_status_if :: "int \<Rightarrow> RiskStatus \<Rightarrow> RiskStatus \<Rightarrow> RiskEngine \<Rightarrow> bool \<times> RiskEngine" where
  "set_account_status_if user_id expected status e =
     (case account e user_id of
        None \<Rightarrow> (False, e)
      | Some a \<Rightarrow>
          if ar_status a \<noteq> expected then (False, e)
          else (True, with_account user_id (\<lambda>a. a\<lparr>ar_status := status\<rparr>) e))"

subsection \<open>Order-entry checks\<close>

definition symbol_open_interest_lots :: "RiskEngine \<Rightarrow> symbol16 \<Rightarrow> int" where
  "symbol_open_interest_lots e symbol = (case re_symbol_oi_lots e symbol of None \<Rightarrow> 0 | Some v \<Rightarrow> max v 0)"

definition check_position_limit :: "RiskEngine \<Rightarrow> int \<Rightarrow> symbol16 \<Rightarrow> int \<Rightarrow> int \<Rightarrow> string + unit" where
  "check_position_limit e user_id symbol additional_lots max_position_lots =
     (if max_position_lots \<le> 0 then Inr ()
      else
        (let current = (case position e user_id symbol of None \<Rightarrow> 0 | Some p \<Rightarrow> pr_qty_lots p) in
         if sat_i64 (current + additional_lots) > max_position_lots then Inl ''Position limit exceeded''
         else Inr ()))"

definition check_symbol_oi_limit :: "RiskEngine \<Rightarrow> symbol16 \<Rightarrow> int \<Rightarrow> int \<Rightarrow> string + unit" where
  "check_symbol_oi_limit e symbol additional_lots max_oi_lots =
     (if max_oi_lots \<le> 0 then Inr ()
      else if sat_i64 (symbol_open_interest_lots e symbol + additional_lots) > max_oi_lots
      then Inl ''Symbol open interest limit exceeded'' else Inr ())"

definition check_reduce_only :: "RiskEngine \<Rightarrow> int \<Rightarrow> symbol16 \<Rightarrow> nat \<Rightarrow> int \<Rightarrow> string + int" where
  "check_reduce_only e user_id symbol order_side qty_lots =
     (case position e user_id symbol of
        None \<Rightarrow> Inl ''reduce-only: no open position to reduce''
      | Some pos \<Rightarrow>
          if \<not> (case pr_side pos of Long \<Rightarrow> order_side = 1 | Short \<Rightarrow> order_side = 0)
          then Inl ''reduce-only: order would increase the position''
          else Inr (min qty_lots (pr_qty_lots pos)))"

definition check_leverage_tier ::
  "RiskEngine \<Rightarrow> int \<Rightarrow> symbol16 \<Rightarrow> int \<Rightarrow> int \<Rightarrow> (int \<times> int) list \<Rightarrow> int \<Rightarrow> (string + unit) exec" where
  "check_leverage_tier e user_id symbol add_notional_atoms notional_scale tiers used_leverage =
     (if tiers = [] then Some (Inr ())
      else do {
        current \<leftarrow> (case position e user_id symbol of
                      None \<Rightarrow> Some 0
                    | Some p \<Rightarrow> calc_notional_atoms (pr_mark_price_ticks p) (pr_qty_lots p) notional_scale);
        let total_notional = sat_i64 (current + max add_notional_atoms 0);
        Some (if max_leverage_for_notional total_notional tiers < used_leverage
              then Inl ''Leverage exceeds risk tier for position size'' else Inr ())
      })"

subsection \<open>Order margin and fees\<close>

definition check_and_reserve_margin :: "int \<Rightarrow> int \<Rightarrow> RiskEngine \<Rightarrow> (string + int) \<times> RiskEngine" where
  "check_and_reserve_margin user_id initial_margin_atoms e =
     (case account e user_id of
        None \<Rightarrow> (Inl ''Account not found'', e)
      | Some a \<Rightarrow>
          if \<not> can_place_order a then (Inl ''Account in liquidation'', e)
          else if ar_available_margin a < initial_margin_atoms then (Inl ''Insufficient margin'', e)
          else (Inr initial_margin_atoms,
                with_account user_id
                  (\<lambda>a. a\<lparr>ar_available_margin := as_i64 (ar_available_margin a - initial_margin_atoms),
                        ar_order_margin := as_i64 (ar_order_margin a + initial_margin_atoms)\<rparr>) e))"

definition release_order_margin :: "int \<Rightarrow> int \<Rightarrow> RiskEngine \<Rightarrow> RiskEngine" where
  "release_order_margin user_id initial_margin_atoms e =
     with_account user_id
       (\<lambda>a. a\<lparr>ar_available_margin := as_i64 (ar_available_margin a + initial_margin_atoms),
             ar_order_margin := as_i64 (ar_order_margin a - initial_margin_atoms)\<rparr>) e"

definition charge_fee :: "int \<Rightarrow> int \<Rightarrow> RiskEngine \<Rightarrow> RiskEngine" where
  "charge_fee user_id fee e =
     (if fee = 0 then e
      else fund_add fee
        (with_account user_id
           (\<lambda>a. a\<lparr>ar_equity := as_i64 (ar_equity a - fee),
                 ar_available_margin := as_i64 (ar_available_margin a - fee)\<rparr>) e))"

subsection \<open>Position updates\<close>

definition refresh_risk_fields :: "int \<Rightarrow> int \<Rightarrow> PositionRiskState \<Rightarrow> PositionRiskState exec" where
  "refresh_risk_fields notional_scale rate pos = do {
     notional \<leftarrow> calc_notional_atoms (pr_entry_price_ticks pos) (pr_qty_lots pos) notional_scale;
     bkrpt \<leftarrow> calc_bankruptcy_price_ticks (pr_entry_price_ticks pos) (pr_leverage pos) (pr_side pos);
     Some (pos\<lparr>pr_maintenance_margin := calc_maintenance_margin_atoms notional rate,
               pr_liquidation_price_ticks :=
                 calc_liquidation_price_ticks (pr_entry_price_ticks pos) (pr_leverage pos) rate (pr_side pos),
               pr_bankruptcy_price_ticks := bkrpt\<rparr>)
   }"

definition refresh_unrealized_pnl :: "int \<Rightarrow> PositionRiskState \<Rightarrow> PositionRiskState exec" where
  "refresh_unrealized_pnl notional_scale pos = do {
     u \<leftarrow> calc_unrealized_pnl_atoms (pr_side pos) (pr_qty_lots pos) (pr_entry_price_ticks pos)
           (pr_mark_price_ticks pos) notional_scale;
     Some (pos\<lparr>pr_unrealized_pnl := u\<rparr>)
   }"

text \<open>The position that a fill opens, from nothing or by flipping.\<close>

definition open_position ::
  "int \<Rightarrow> symbol16 \<Rightarrow> PositionSide \<Rightarrow> int \<Rightarrow> int \<Rightarrow> int \<Rightarrow> int \<Rightarrow> int \<Rightarrow> int \<Rightarrow> PositionRiskState exec" where
  "open_position user_id symbol side price qty margin notional_scale leverage rate = do {
     notional \<leftarrow> calc_notional_atoms price qty notional_scale;
     bkrpt \<leftarrow> calc_bankruptcy_price_ticks price leverage side;
     Some \<lparr>pr_user_id = user_id, pr_symbol = symbol, pr_side = side, pr_qty_lots = qty, pr_cost_atoms = notional,
           pr_entry_price_ticks = price, pr_mark_price_ticks = price, pr_unrealized_pnl = 0,
           pr_initial_margin = margin, pr_maintenance_margin = calc_maintenance_margin_atoms notional rate,
           pr_liquidation_price_ticks = calc_liquidation_price_ticks price leverage rate side,
           pr_bankruptcy_price_ticks = bkrpt, pr_leverage = leverage\<rparr>
   }"

definition add_to_position ::
  "PositionRiskState \<Rightarrow> int \<Rightarrow> int \<Rightarrow> int \<Rightarrow> int \<Rightarrow> int \<Rightarrow> PositionRiskState exec" where
  "add_to_position pos price qty margin notional_scale rate = do {
     let new_qty = as_i64 (pr_qty_lots pos + qty);
     entry \<leftarrow> div_i128 (as_i128 (pr_entry_price_ticks pos * pr_qty_lots pos + price * qty)) new_qty;
     v \<leftarrow> calc_notional_atoms price qty notional_scale;
     updated \<leftarrow> refresh_risk_fields notional_scale rate
       (pos\<lparr>pr_mark_price_ticks := price, pr_entry_price_ticks := as_i64 entry, pr_qty_lots := new_qty,
            pr_cost_atoms := as_i64 (pr_cost_atoms pos + v),
            pr_initial_margin := as_i64 (pr_initial_margin pos + margin)\<rparr>);
     refresh_unrealized_pnl notional_scale updated
   }"

definition side_sign :: "PositionSide \<Rightarrow> int" where
  "side_sign side = (case side of Long \<Rightarrow> 1 | Short \<Rightarrow> -1)"

definition compute_position_update ::
  "PositionRiskState option \<Rightarrow> int \<Rightarrow> symbol16 \<Rightarrow> PositionSide \<Rightarrow> int \<Rightarrow> int \<Rightarrow> int \<Rightarrow> int \<Rightarrow> int \<Rightarrow> int \<Rightarrow>
   (PositionRiskState option \<times> int \<times> int) exec" where
  "compute_position_update existing user_id symbol fill_side price qty margin notional_scale leverage rate =
     (case existing of
        None \<Rightarrow> do {
          p \<leftarrow> open_position user_id symbol fill_side price qty margin notional_scale leverage rate;
          Some (Some p, 0, 0)
        }
      | Some pos \<Rightarrow>
          if pr_side pos = fill_side then do {
            p \<leftarrow> add_to_position pos price qty margin notional_scale rate;
            Some (Some p, 0, 0)
          }
          else if qty \<ge> pr_qty_lots pos then do {
            exit_value \<leftarrow> calc_notional_atoms price (pr_qty_lots pos) notional_scale;
            let realized_pnl = side_sign (pr_side pos) * (exit_value - pr_cost_atoms pos);
            let remaining_qty = as_i64 (qty - pr_qty_lots pos);
            if remaining_qty = 0 then Some (None, pr_initial_margin pos, as_i64 realized_pnl)
            else do {
              flip_margin \<leftarrow> div_i64 (as_i64 (margin * remaining_qty)) qty;
              p \<leftarrow> open_position user_id symbol fill_side price remaining_qty flip_margin notional_scale leverage rate;
              Some (Some p, pr_initial_margin pos, as_i64 realized_pnl)
            }
          }
          else do {
            released_cost \<leftarrow> div_i128 (pr_cost_atoms pos * qty) (pr_qty_lots pos);
            let released_cost = as_i64 released_cost;
            exit_value \<leftarrow> calc_notional_atoms price qty notional_scale;
            let realized_pnl = side_sign (pr_side pos) * (exit_value - released_cost);
            released_margin \<leftarrow> div_i64 (as_i64 (pr_initial_margin pos * qty)) (pr_qty_lots pos);
            updated \<leftarrow> refresh_risk_fields notional_scale rate
              (pos\<lparr>pr_mark_price_ticks := price, pr_qty_lots := as_i64 (pr_qty_lots pos - qty),
                   pr_cost_atoms := as_i64 (pr_cost_atoms pos - released_cost),
                   pr_initial_margin := as_i64 (pr_initial_margin pos - released_margin)\<rparr>);
            updated \<leftarrow> refresh_unrealized_pnl notional_scale updated;
            Some (Some updated, released_margin, as_i64 realized_pnl)
          })"

subsection \<open>Fills\<close>

definition put_position :: "int \<Rightarrow> symbol16 \<Rightarrow> PositionRiskState option \<Rightarrow> RiskEngine \<Rightarrow> RiskEngine" where
  "put_position user_id symbol new_pos e =
     e\<lparr>re_positions :=
         (case new_pos of
            Some p \<Rightarrow> AList.update (user_id, symbol) p (re_positions e)
          | None \<Rightarrow> AList.delete (user_id, symbol) (re_positions e))\<rparr>"

definition oi_add :: "symbol16 \<Rightarrow> int \<Rightarrow> RiskEngine \<Rightarrow> RiskEngine" where
  "oi_add symbol oi_delta e =
     (if oi_delta = 0 then e
      else e\<lparr>re_symbol_oi_lots := (re_symbol_oi_lots e)
               (symbol \<mapsto> as_i64 ((case re_symbol_oi_lots e symbol of None \<Rightarrow> 0 | Some v \<Rightarrow> v) + oi_delta))\<rparr>)"

text \<open>The account leg of a fill.\<close>

definition settle_account :: "int \<Rightarrow> int \<Rightarrow> int \<Rightarrow> int \<Rightarrow> int \<Rightarrow> int \<Rightarrow> int \<Rightarrow> int \<Rightarrow> AccountRiskState \<Rightarrow> AccountRiskState" where
  "settle_account liq margin released realized flip_margin flip_dust upnl_delta maint_delta a =
     (let a = (if liq = 0 then a\<lparr>ar_order_margin := max (as_i64 (ar_order_margin a - margin)) 0\<rparr> else a);
          a = (if released > 0
               then a\<lparr>ar_used_margin := as_i64 (max (as_i64 (ar_used_margin a - released)) 0 + flip_margin),
                      ar_available_margin :=
                        as_i64 (ar_available_margin a + margin + released + realized - flip_margin + flip_dust),
                      ar_status := (if ar_status a = Liquidating then Normal else ar_status a)\<rparr>
               else a\<lparr>ar_used_margin := as_i64 (ar_used_margin a + margin)\<rparr>);
          a = a\<lparr>ar_unrealized_pnl := as_i64 (ar_unrealized_pnl a + upnl_delta),
                ar_maintenance_margin := max (as_i64 (ar_maintenance_margin a + maint_delta)) 0\<rparr>
      in a\<lparr>ar_equity := as_i64 (ar_available_margin a + ar_order_margin a + ar_used_margin a + ar_unrealized_pnl a)\<rparr>)"

definition insurance_delta ::
  "RiskEngine \<Rightarrow> int \<Rightarrow> nat \<Rightarrow> int \<Rightarrow> int \<Rightarrow> int \<Rightarrow> int \<Rightarrow> int \<Rightarrow> int \<Rightarrow> int exec" where
  "insurance_delta e user_id order_side fill_price qty liq notional_scale released realized =
     (if released > 0 then
        (if liq \<noteq> 0 then do {
           fill_value \<leftarrow> calc_notional_atoms fill_price qty notional_scale;
           settle_value \<leftarrow> calc_notional_atoms liq qty notional_scale;
           Some (as_i64 ((if order_side = 1 then 1 else -1) * as_i64 (fill_value - settle_value)))
         }
         else Some (case account e user_id of
                      None \<Rightarrow> 0
                    | Some a \<Rightarrow> if ar_status a = Liquidating then realized else 0))
      else Some 0)"

definition flip_parts :: "PositionRiskState option \<Rightarrow> PositionSide \<Rightarrow> int \<Rightarrow> int \<Rightarrow> (int \<times> int) exec" where
  "flip_parts new_pos fill_side margin qty =
     (case new_pos of
        Some p \<Rightarrow>
          if pr_side p = fill_side then do {
            dust \<leftarrow> rem_i64 (as_i64 (margin * pr_qty_lots p)) qty;
            Some (pr_initial_margin p, dust)
          } else Some (0, 0)
      | None \<Rightarrow> Some (0, 0))"

definition index_update :: "int \<Rightarrow> symbol16 \<Rightarrow> RiskEngine \<Rightarrow> RiskEngine" where
  "index_update user_id symbol e =
     (let has_open = (case position e user_id symbol of None \<Rightarrow> False | Some p \<Rightarrow> pr_qty_lots p > 0) in
      if has_open
      then e\<lparr>re_symbol_position_index := (re_symbol_position_index e)
               (symbol \<mapsto> List.insert user_id (case re_symbol_position_index e symbol of None \<Rightarrow> [] | Some us \<Rightarrow> us))\<rparr>
      else (case re_symbol_position_index e symbol of
              None \<Rightarrow> e
            | Some us \<Rightarrow> e\<lparr>re_symbol_position_index := (re_symbol_position_index e)(symbol \<mapsto> removeAll user_id us)\<rparr>))"

definition seed_mark :: "symbol16 \<Rightarrow> int \<Rightarrow> RiskEngine \<Rightarrow> RiskEngine" where
  "seed_mark symbol price e =
     (if re_mark_prices e symbol = None then e\<lparr>re_mark_prices := (re_mark_prices e)(symbol \<mapsto> price)\<rparr> else e)"

definition on_fill ::
  "int \<Rightarrow> symbol16 \<Rightarrow> nat \<Rightarrow> int \<Rightarrow> int \<Rightarrow> int \<Rightarrow> int \<Rightarrow> int \<Rightarrow> int \<Rightarrow> int \<Rightarrow> RiskEngine \<Rightarrow> RiskEngine exec" where
  "on_fill user_id symbol order_side fill_price qty margin notional_scale leverage rate liq e =
     (if qty \<le> 0 then Some e
      else do {
        let fill_side = (if order_side = 0 then Long else Short);
        let settlement_price = (if liq \<noteq> 0 then liq else fill_price);
        let existing = position e user_id symbol;
        let (old_upnl, old_maint, old_qty) =
          (case existing of None \<Rightarrow> (0, 0, 0) | Some p \<Rightarrow> (pr_unrealized_pnl p, pr_maintenance_margin p, pr_qty_lots p));
        (new_pos, released, realized) \<leftarrow>
          compute_position_update existing user_id symbol fill_side settlement_price qty margin notional_scale leverage rate;
        let (new_upnl, new_maint, new_qty) =
          (case new_pos of None \<Rightarrow> (0, 0, 0) | Some p \<Rightarrow> (pr_unrealized_pnl p, pr_maintenance_margin p, pr_qty_lots p));
        let e = oi_add symbol (as_i64 (new_qty - old_qty)) (put_position user_id symbol new_pos e);
        delta \<leftarrow> insurance_delta e user_id order_side fill_price qty liq notional_scale released realized;
        let e = (if delta \<noteq> 0 then fund_add delta e else e);
        (flip_margin, flip_dust) \<leftarrow> flip_parts new_pos fill_side margin qty;
        let e = with_account user_id
          (settle_account liq margin released realized flip_margin flip_dust
             (as_i64 (new_upnl - old_upnl)) (as_i64 (new_maint - old_maint))) e;
        Some (index_update user_id symbol (seed_mark symbol fill_price e))
      })"

subsection \<open>Mark prices and the risk tick\<close>

definition mark_position :: "int \<Rightarrow> int \<Rightarrow> PositionRiskState \<Rightarrow> PositionRiskState exec" where
  "mark_position mark_ticks notional_scale pos = do {
     u \<leftarrow> calc_unrealized_pnl_atoms (pr_side pos) (pr_qty_lots pos) (pr_entry_price_ticks pos) mark_ticks notional_scale;
     Some (pos\<lparr>pr_mark_price_ticks := mark_ticks, pr_unrealized_pnl := u\<rparr>)
   }"

definition mark_account :: "int \<Rightarrow> AccountRiskState \<Rightarrow> AccountRiskState" where
  "mark_account upnl_delta a =
     (let a = a\<lparr>ar_unrealized_pnl := as_i64 (ar_unrealized_pnl a + upnl_delta)\<rparr>
      in a\<lparr>ar_equity := as_i64 (ar_available_margin a + ar_order_margin a + ar_used_margin a + ar_unrealized_pnl a),
           ar_mark_price_ever_updated := True\<rparr>)"

fun mark_users :: "symbol16 \<Rightarrow> int \<Rightarrow> int \<Rightarrow> int list \<Rightarrow> RiskEngine \<Rightarrow> RiskEngine exec" where
  "mark_users symbol mark_ticks notional_scale [] e = Some e"
| "mark_users symbol mark_ticks notional_scale (uid # uids) e =
     (case position e uid symbol of
        None \<Rightarrow> mark_users symbol mark_ticks notional_scale uids e
      | Some pos \<Rightarrow> do {
          new_pos \<leftarrow> mark_position mark_ticks notional_scale pos;
          let e = put_position uid symbol (Some new_pos) e;
          let e = with_account uid (mark_account (as_i64 (pr_unrealized_pnl new_pos - pr_unrealized_pnl pos))) e;
          mark_users symbol mark_ticks notional_scale uids e
        })"

definition update_mark_price :: "symbol16 \<Rightarrow> int \<Rightarrow> int \<Rightarrow> RiskEngine \<Rightarrow> RiskEngine exec" where
  "update_mark_price symbol new_price_ticks notional_scale e =
     (if new_price_ticks \<le> 0 then Some e
      else
        (let old = (case re_mark_prices e symbol of None \<Rightarrow> new_price_ticks | Some v \<Rightarrow> v);
             mark_ticks = as_i64 (new_price_ticks + as_i64 (9 * old)) sdiv 10;
             e = e\<lparr>re_mark_prices := (re_mark_prices e)(symbol \<mapsto> mark_ticks)\<rparr>
         in mark_users symbol mark_ticks notional_scale
              (case re_symbol_position_index e symbol of None \<Rightarrow> [] | Some us \<Rightarrow> us) e))"

definition next_status :: "AccountRiskState \<Rightarrow> RiskStatus" where
  "next_status a =
     (if ar_used_margin a = 0 then Normal
      else if ar_equity a \<le> 0 then Bankruptcy
      else if ar_equity a \<le> ar_maintenance_margin a then LiquidationPending
      else if as_i64 (ar_equity a * 2) < as_i64 (3 * ar_maintenance_margin a) then MarginCall
      else Normal)"

definition status_update :: "AccountRiskState \<Rightarrow> (int \<times> RiskStatus \<times> RiskStatus) option" where
  "status_update a =
     (if \<not> ar_mark_price_ever_updated a then None
      else if ar_status a = Liquidating \<or> ar_status a = Liquidated \<or> ar_status a = Bankruptcy then None
      else Some (ar_user_id a, ar_status a, next_status a))"

definition apply_status :: "RiskEngine \<Rightarrow> int \<times> RiskStatus \<times> RiskStatus \<Rightarrow> RiskEngine" where
  "apply_status e u =
     (case u of (uid, old, new) \<Rightarrow>
        with_account uid (\<lambda>a. if ar_status a = old then a\<lparr>ar_status := new\<rparr> else a) e)"

definition liquidation_event :: "(int \<times> symbol16) \<times> PositionRiskState \<Rightarrow> LiquidationEvent" where
  "liquidation_event kp =
     (case kp of ((uid, symbol), p) \<Rightarrow>
        \<lparr>le_user_id = uid, le_symbol = symbol, le_side = pr_side p, le_qty_lots = pr_qty_lots p,
         le_liq_price_ticks = pr_liquidation_price_ticks p\<rparr>)"

definition run_risk_tick :: "RiskEngine \<Rightarrow> LiquidationEvent list \<times> RiskEngine" where
  "run_risk_tick e =
     (let risk_user_ids = remdups_adj (sort (map (fst \<circ> fst) (re_positions e)));
          updates = List.map_filter status_update (List.map_filter (account e) risk_user_ids);
          liq_uids = map fst (filter (\<lambda>(_, old, new). new = LiquidationPending \<and> old \<noteq> LiquidationPending) updates);
          to_liquidate = map liquidation_event (filter (\<lambda>((uid, _), _). uid \<in> set liq_uids) (re_positions e))
      in (to_liquidate, foldl apply_status e updates))"

subsection \<open>Auto-deleveraging\<close>

definition adl_score :: "PositionRiskState \<Rightarrow> int" where
  "adl_score p = (max (pr_unrealized_pnl p) 0 * 10000) sdiv max (pr_initial_margin p) 1"

definition adl_candidates :: "RiskEngine \<Rightarrow> symbol16 \<Rightarrow> int list \<Rightarrow> int \<Rightarrow> PositionSide \<Rightarrow> (int \<times> int \<times> int) list" where
  "adl_candidates e symbol holders bankrupt_uid b_side =
     sort_key (\<lambda>(_, _, score). - score)
       (List.map_filter
          (\<lambda>uid. Option.bind (position e uid symbol)
             (\<lambda>p. if pr_side p = b_side then None else Some (uid, pr_qty_lots p, adl_score p)))
          (filter (\<lambda>uid. uid \<noteq> bankrupt_uid) holders))"

fun adl_pairs ::
  "symbol16 \<Rightarrow> int \<Rightarrow> int \<Rightarrow> int \<Rightarrow> int \<Rightarrow> PositionSide \<Rightarrow> int \<Rightarrow> (int \<times> int \<times> int) list \<Rightarrow> int \<Rightarrow> AdlEvent list \<Rightarrow> RiskEngine \<Rightarrow>
   (AdlEvent list \<times> RiskEngine) exec" where
  "adl_pairs symbol scale leverage rate bankrupt_uid b_side price [] qty_left events e = Some (events, e)"
| "adl_pairs symbol scale leverage rate bankrupt_uid b_side price ((cand_uid, cand_qty, _) # cands) qty_left events e =
     (if qty_left \<le> 0 then Some (events, e)
      else do {
        let take = min qty_left cand_qty;
        e \<leftarrow> on_fill cand_uid symbol (if b_side = Long then 0 else 1) price take 0 scale leverage rate 0 e;
        e \<leftarrow> on_fill bankrupt_uid symbol (if b_side = Long then 1 else 0) price take 0 scale leverage rate price e;
        adl_pairs symbol scale leverage rate bankrupt_uid b_side price cands (as_i64 (qty_left - take))
          (events @ [\<lparr>ae_bankrupt_user_id = bankrupt_uid, ae_counterparty_user_id = cand_uid,
                      ae_qty_lots = take, ae_price_ticks = price\<rparr>]) e
      })"

definition socialize :: "int \<Rightarrow> RiskEngine \<Rightarrow> RiskEngine" where
  "socialize bankrupt_uid e =
     (case account e bankrupt_uid of
        None \<Rightarrow> e
      | Some a \<Rightarrow>
          (let e = (if ar_equity a < 0 then fund_add (ar_equity a) e else e)
           in with_account bankrupt_uid
                (\<lambda>a. let a = (if ar_equity a < 0 then a\<lparr>ar_equity := 0, ar_available_margin := 0\<rparr> else a)
                     in if ar_used_margin a = 0 then a\<lparr>ar_status := Normal\<rparr> else a) e))"

fun adl_bankrupts ::
  "symbol16 \<Rightarrow> int \<Rightarrow> int \<Rightarrow> int \<Rightarrow> int list \<Rightarrow> (int \<times> PositionSide \<times> int \<times> int) list \<Rightarrow> AdlEvent list \<Rightarrow> RiskEngine \<Rightarrow>
   (AdlEvent list \<times> RiskEngine) exec" where
  "adl_bankrupts symbol scale leverage rate holders [] events e = Some (events, e)"
| "adl_bankrupts symbol scale leverage rate holders ((uid, b_side, qty, price) # bs) events e = do {
     (events, e) \<leftarrow> adl_pairs symbol scale leverage rate uid b_side price
                     (adl_candidates e symbol holders uid b_side) qty events e;
     adl_bankrupts symbol scale leverage rate holders bs events (socialize uid e)
   }"

definition run_adl :: "symbol16 \<Rightarrow> int \<Rightarrow> int \<Rightarrow> int \<Rightarrow> RiskEngine \<Rightarrow> (AdlEvent list \<times> RiskEngine) exec" where
  "run_adl symbol notional_scale leverage rate e =
     (let holders = (case re_symbol_position_index e symbol of None \<Rightarrow> [] | Some us \<Rightarrow> us);
          bankrupts = List.map_filter
            (\<lambda>uid. map_option (\<lambda>p. (uid, pr_side p, pr_qty_lots p, pr_bankruptcy_price_ticks p)) (position e uid symbol))
            (filter (\<lambda>uid. case account e uid of None \<Rightarrow> False | Some a \<Rightarrow> ar_status a = Bankruptcy) holders)
      in adl_bankrupts symbol notional_scale leverage rate holders bankrupts [] e)"

end
