(* ===== verification/RiskInv.thy ===== *)
theory RiskInv
  imports RiskEngine
begin

text \<open>
  What the risk engine keeps: well-formed tables, the margin identity of an account, open interest
  and the symbol index as functions of the positions, and the ledger (cash of the accounts minus
  the signed cost of the positions plus the insurance fund). All sums are in \<open>i64\<close> arithmetic,
  so the ledger laws are stated modulo \<open>2 ^ 64\<close> by \<open>eq64\<close>; they are equations whenever both
  sides are in range.
\<close>

subsection \<open>Measures and invariants\<close>

definition kv_sum :: "('k \<times> 'v \<Rightarrow> int) \<Rightarrow> ('k \<times> 'v) list \<Rightarrow> int" where
  "kv_sum f xs = sum_list (map f xs)"

definition acct_cash :: "AccountRiskState \<Rightarrow> int" where
  "acct_cash a = ar_available_margin a + ar_order_margin a + ar_used_margin a"

definition signed_cost :: "PositionRiskState \<Rightarrow> int" where
  "signed_cost p = side_sign (pr_side p) * pr_cost_atoms p"

definition signed_lots :: "PositionRiskState \<Rightarrow> int" where
  "signed_lots p = side_sign (pr_side p) * pr_qty_lots p"

definition opt_val :: "('a \<Rightarrow> int) \<Rightarrow> 'a option \<Rightarrow> int" where
  "opt_val f x = (case x of None \<Rightarrow> 0 | Some a \<Rightarrow> f a)"

definition ledger :: "RiskEngine \<Rightarrow> int" where
  "ledger e = kv_sum (\<lambda>(_, a). acct_cash a) (re_accounts e) - kv_sum (\<lambda>(_, p). signed_cost p) (re_positions e)
     + re_insurance_fund_atoms e"

definition wealth :: "RiskEngine \<Rightarrow> int" where
  "wealth e = kv_sum (\<lambda>(_, a). ar_equity a) (re_accounts e) + re_insurance_fund_atoms e"

definition risk_wf :: "RiskEngine \<Rightarrow> bool" where
  "risk_wf e \<longleftrightarrow> distinct (map fst (re_accounts e)) \<and> distinct (map fst (re_positions e)) \<and>
     (\<forall>(u, a) \<in> set (re_accounts e). ar_user_id a = u)"

definition margin_identity :: "AccountRiskState \<Rightarrow> bool" where
  "margin_identity a \<longleftrightarrow> eq64 (ar_equity a) (acct_cash a + ar_unrealized_pnl a)"

definition identities :: "RiskEngine \<Rightarrow> bool" where
  "identities e \<longleftrightarrow> (\<forall>(u, a) \<in> set (re_accounts e). margin_identity a)"

definition gross_lots :: "symbol16 \<Rightarrow> ((int \<times> symbol16) \<times> PositionRiskState) list \<Rightarrow> int" where
  "gross_lots symbol ps = kv_sum (\<lambda>((_, s), p). if s = symbol then pr_qty_lots p else 0) ps"

definition oi_ok :: "RiskEngine \<Rightarrow> bool" where
  "oi_ok e \<longleftrightarrow> (\<forall>symbol. eq64 (opt_val id (re_symbol_oi_lots e symbol)) (gross_lots symbol (re_positions e)))"

definition has_open :: "RiskEngine \<Rightarrow> int \<Rightarrow> symbol16 \<Rightarrow> bool" where
  "has_open e user_id symbol \<longleftrightarrow> (\<exists>p. position e user_id symbol = Some p \<and> pr_qty_lots p > 0)"

definition index_ok :: "RiskEngine \<Rightarrow> bool" where
  "index_ok e \<longleftrightarrow>
     (\<forall>symbol. (\<forall>user_id. user_id \<in> set (case re_symbol_position_index e symbol of None \<Rightarrow> [] | Some us \<Rightarrow> us) \<longleftrightarrow>
                 has_open e user_id symbol) \<and>
        distinct (case re_symbol_position_index e symbol of None \<Rightarrow> [] | Some us \<Rightarrow> us))"

text \<open>The value that a fill books: one product, except that a flip values its two halves apart.\<close>

definition flips :: "PositionRiskState option \<Rightarrow> PositionSide \<Rightarrow> int \<Rightarrow> bool" where
  "flips existing side qty \<longleftrightarrow> (\<exists>p. existing = Some p \<and> pr_side p \<noteq> side \<and> pr_qty_lots p < qty)"

definition booked_value :: "PositionRiskState option \<Rightarrow> PositionSide \<Rightarrow> int \<Rightarrow> int \<Rightarrow> int \<Rightarrow> int exec" where
  "booked_value existing side price qty notional_scale =
     (if flips existing side qty then do {
        closed \<leftarrow> calc_notional_atoms price (pr_qty_lots (the existing)) notional_scale;
        opened \<leftarrow> calc_notional_atoms price (as_i64 (qty - pr_qty_lots (the existing))) notional_scale;
        Some (closed + opened)
      }
      else calc_notional_atoms price qty notional_scale)"

definition closes :: "PositionRiskState option \<Rightarrow> PositionSide \<Rightarrow> bool" where
  "closes existing side \<longleftrightarrow> (\<exists>p. existing = Some p \<and> pr_side p \<noteq> side)"

text \<open>
  The account covers a fill: the margin was reserved, and the margin of a position that the fill
  reduces is in use, of which a partial close frees at least one atom, with a product that fits.
\<close>

definition covers :: "AccountRiskState \<Rightarrow> PositionRiskState option \<Rightarrow> PositionSide \<Rightarrow> int \<Rightarrow> int \<Rightarrow> int \<Rightarrow> bool" where
  "covers a existing side qty margin liq \<longleftrightarrow>
     0 \<le> margin \<and> (if liq = 0 then margin \<le> ar_order_margin a \<and> in_i64 (ar_order_margin a) else margin = 0) \<and>
     in_i64 (ar_used_margin a) \<and>
     (case existing of
        None \<Rightarrow> True
      | Some p \<Rightarrow>
          pr_side p = side \<or>
          0 < pr_qty_lots p \<and> 0 < pr_initial_margin p \<and> pr_initial_margin p \<le> ar_used_margin a \<and>
          (qty < pr_qty_lots p \<longrightarrow>
             pr_qty_lots p \<le> pr_initial_margin p * qty \<and> in_i64 (pr_initial_margin p * qty)))"

definition risk_inv :: "RiskEngine \<Rightarrow> bool" where
  "risk_inv e \<longleftrightarrow> risk_wf e \<and> oi_ok e \<and> index_ok e"

definition exposed :: "RiskEngine \<Rightarrow> int \<Rightarrow> bool" where
  "exposed e u \<longleftrightarrow> u \<in> (fst \<circ> fst) ` set (re_positions e)"

definition user_upnl :: "int \<Rightarrow> ((int \<times> symbol16) \<times> PositionRiskState) list \<Rightarrow> int" where
  "user_upnl u ps = kv_sum (\<lambda>((v, _), p). if v = u then pr_unrealized_pnl p else 0) ps"

definition upnl_ok :: "RiskEngine \<Rightarrow> bool" where
  "upnl_ok e \<longleftrightarrow> (\<forall>u a. account e u = Some a \<longrightarrow> eq64 (ar_unrealized_pnl a) (user_upnl u (re_positions e)))"

text \<open>One call of the engine; the flag admits auto-deleveraging.\<close>

inductive risk_step :: "bool \<Rightarrow> RiskEngine \<Rightarrow> RiskEngine \<Rightarrow> bool" for adl :: bool where
  init: "account e u = None \<Longrightarrow> \<not> exposed e u \<Longrightarrow> risk_step adl e (initialize_account u bal e)"
| status: "risk_step adl e (snd (set_account_status u st e))"
| status_if: "risk_step adl e (snd (set_account_status_if u expected st e))"
| force_mark: "risk_step adl e (force_mark_price s px e)"
| reserve: "risk_step adl e (snd (check_and_reserve_margin u m e))"
| release: "risk_step adl e (release_order_margin u m e)"
| fee: "risk_step adl e (charge_fee u f e)"
| fill: "on_fill u s os px qty m sc lev rate liq e = Some e' \<Longrightarrow> risk_step adl e e'"
| mark: "update_mark_price s px sc e = Some e' \<Longrightarrow> risk_step adl e e'"
| tick: "risk_step adl e (snd (run_risk_tick e))"
| deleverage: "adl \<Longrightarrow> run_adl s sc lev rate e = Some (evs, e') \<Longrightarrow> risk_step adl e e'"

inductive risk_run :: "bool \<Rightarrow> RiskEngine \<Rightarrow> bool" for adl :: bool where
  start: "risk_run adl RiskEngine_new"
| step: "risk_run adl e \<Longrightarrow> risk_step adl e e' \<Longrightarrow> risk_run adl e'"

definition watched :: "AccountRiskState \<Rightarrow> bool" where
  "watched a \<longleftrightarrow> ar_mark_price_ever_updated a \<and> ar_status a \<notin> {Liquidating, Liquidated, Bankruptcy}"

definition ticked :: "AccountRiskState \<Rightarrow> AccountRiskState" where
  "ticked a = (if watched a then a\<lparr>ar_status := next_status a\<rparr> else a)"

definition enters_liquidation :: "RiskEngine \<Rightarrow> int \<Rightarrow> bool" where
  "enters_liquidation e u \<longleftrightarrow>
     (\<exists>a. account e u = Some a \<and> ar_status (ticked a) = LiquidationPending \<and> ar_status a \<noteq> LiquidationPending)"

definition fill_side_of :: "nat \<Rightarrow> PositionSide" where
  "fill_side_of order_side = (if order_side = 0 then Long else Short)"

subsection \<open>Association lists\<close>

lemma kv_sum_simps [simp]: "kv_sum f [] = 0" "kv_sum f (x # xs) = f x + kv_sum f xs"
  by (simp_all add: kv_sum_def)

lemma opt_val_simps [simp]: "opt_val f None = 0" "opt_val f (Some x) = f x"
  by (simp_all add: opt_val_def)

lemma kv_sum_update: "kv_sum f (AList.update k v xs) = kv_sum f xs - opt_val (\<lambda>w. f (k, w)) (map_of xs k) + f (k, v)"
  by (induction xs) auto

lemma kv_sum_delete:
  "distinct (map fst xs) \<Longrightarrow> kv_sum f (AList.delete k xs) = kv_sum f xs - opt_val (\<lambda>w. f (k, w)) (map_of xs k)"
proof (induction xs)
  case (Cons x xs)
  show ?case
  proof (cases "fst x = k")
    case True
    with Cons.prems have "k \<notin> fst ` set xs" by auto
    then have "AList.delete k xs = xs" and "map_of xs k = None"
      by (force simp: AList.delete_eq map_of_eq_None_iff filter_id_conv)+
    with True show ?thesis by (cases x) (simp add: AList.delete_eq)
  next
    case False
    with Cons show ?thesis by (cases x) (auto simp: AList.delete_eq)
  qed
qed (simp add: AList.delete_eq)

lemma distinct_delete: "distinct (map fst xs) \<Longrightarrow> distinct (map fst (AList.delete k xs))"
  by (rule AList.distinct_delete)

lemma set_update: "distinct (map fst xs) \<Longrightarrow> set (AList.update k v xs) = insert (k, v) {p \<in> set xs. fst p \<noteq> k}"
  by (induction xs) (auto simp: image_iff)

subsection \<open>The ledger law of a position update\<close>

lemma side_sign_simps [simp]: "side_sign Long = 1" "side_sign Short = -1"
  by (simp_all add: side_sign_def)

lemma side_sign_other: "s \<noteq> t \<Longrightarrow> side_sign s = - side_sign t"
  by (cases s; cases t) simp_all

lemma open_position_fields:
  assumes "open_position u s side price qty margin sc lev rate = Some p"
  shows "pr_side p = side" and "pr_qty_lots p = qty" and "pr_initial_margin p = margin"
    and "calc_notional_atoms price qty sc = Some (pr_cost_atoms p)"
  using assms by (auto simp: open_position_def Option.bind_eq_Some_conv)

lemma refresh_fields:
  assumes "refresh_risk_fields sc rate pos = Some p" and "refresh_unrealized_pnl sc p = Some q"
  shows "pr_side q = pr_side pos" and "pr_qty_lots q = pr_qty_lots pos" and "pr_initial_margin q = pr_initial_margin pos"
    and "pr_cost_atoms q = pr_cost_atoms pos"
  using assms by (auto simp: refresh_risk_fields_def refresh_unrealized_pnl_def Option.bind_eq_Some_conv)

lemma add_to_position_fields:
  assumes "add_to_position pos price qty margin sc rate = Some p"
  shows "pr_side p = pr_side pos" and "pr_qty_lots p = as_i64 (pr_qty_lots pos + qty)"
    and "pr_initial_margin p = as_i64 (pr_initial_margin pos + margin)"
    and "\<exists>v. calc_notional_atoms price qty sc = Some v \<and> pr_cost_atoms p = as_i64 (pr_cost_atoms pos + v)"
  using assms by (auto simp: add_to_position_def Let_def Option.bind_eq_Some_conv dest: refresh_fields)

text \<open>The five ways a fill meets a position, with the fields that the accounting reads.\<close>

lemma position_update_cases:
  assumes "compute_position_update existing u s side price qty margin sc lev rate = Some (new, released, realized)"
  obtains
    (opened) v p where "existing = None" "new = Some p" "released = 0" "realized = 0" "pr_side p = side"
      "pr_qty_lots p = qty" "pr_initial_margin p = margin" "pr_cost_atoms p = v" "calc_notional_atoms price qty sc = Some v"
  | (added) pos v p where "existing = Some pos" "pr_side pos = side" "new = Some p" "released = 0" "realized = 0"
      "pr_side p = side" "pr_qty_lots p = as_i64 (pr_qty_lots pos + qty)"
      "pr_initial_margin p = as_i64 (pr_initial_margin pos + margin)"
      "pr_cost_atoms p = as_i64 (pr_cost_atoms pos + v)" "calc_notional_atoms price qty sc = Some v"
  | (closed) pos v where "existing = Some pos" "pr_side pos \<noteq> side" "pr_qty_lots pos \<le> qty" "as_i64 (qty - pr_qty_lots pos) = 0"
      "new = None" "released = pr_initial_margin pos" "realized = as_i64 (side_sign (pr_side pos) * (v - pr_cost_atoms pos))"
      "calc_notional_atoms price (pr_qty_lots pos) sc = Some v"
  | (flipped) pos v w p where "existing = Some pos" "pr_side pos \<noteq> side" "pr_qty_lots pos \<le> qty"
      "as_i64 (qty - pr_qty_lots pos) \<noteq> 0" "new = Some p"
      "released = pr_initial_margin pos" "realized = as_i64 (side_sign (pr_side pos) * (v - pr_cost_atoms pos))"
      "calc_notional_atoms price (pr_qty_lots pos) sc = Some v"
      "pr_side p = side" "pr_qty_lots p = as_i64 (qty - pr_qty_lots pos)"
      "div_i64 (as_i64 (margin * as_i64 (qty - pr_qty_lots pos))) qty = Some (pr_initial_margin p)"
      "pr_cost_atoms p = w" "calc_notional_atoms price (as_i64 (qty - pr_qty_lots pos)) sc = Some w"
  | (reduced) pos c v p where "existing = Some pos" "pr_side pos \<noteq> side" "qty < pr_qty_lots pos" "new = Some p"
      "realized = as_i64 (side_sign (pr_side pos) * (v - c))" "calc_notional_atoms price qty sc = Some v"
      "div_i64 (as_i64 (pr_initial_margin pos * qty)) (pr_qty_lots pos) = Some released"
      "pr_side p = pr_side pos" "pr_qty_lots p = as_i64 (pr_qty_lots pos - qty)"
      "pr_initial_margin p = as_i64 (pr_initial_margin pos - released)"
      "pr_cost_atoms p = as_i64 (pr_cost_atoms pos - c)"
proof (cases existing)
  case None
  with assms obtain p where p: "open_position u s side price qty margin sc lev rate = Some p" "new = Some p" "released = 0" "realized = 0"
    by (auto simp: compute_position_update_def Option.bind_eq_Some_conv)
  with opened [of p "pr_cost_atoms p"] None open_position_fields [OF p(1)] show ?thesis by simp
next
  case (Some pos)
  show ?thesis
  proof (cases "pr_side pos = side")
    case True
    with Some assms obtain p where p: "add_to_position pos price qty margin sc rate = Some p" "new = Some p" "released = 0" "realized = 0"
      by (auto simp: compute_position_update_def Option.bind_eq_Some_conv)
    obtain v where "calc_notional_atoms price qty sc = Some v" "pr_cost_atoms p = as_i64 (pr_cost_atoms pos + v)"
      using add_to_position_fields(4) [OF p(1)] by blast
    with added [of pos p v] Some True p add_to_position_fields(1-3) [OF p(1)] show ?thesis by simp
  next
    case False
    note other = this
    show ?thesis
    proof (cases "pr_qty_lots pos \<le> qty")
      case True
      show ?thesis
      proof (cases "as_i64 (qty - pr_qty_lots pos) = 0")
        case zero: True
        with Some other True assms show ?thesis
          by (auto simp: compute_position_update_def Let_def Option.bind_eq_Some_conv intro: closed)
      next
        case nonzero: False
        with Some other True assms obtain v m p where "calc_notional_atoms price (pr_qty_lots pos) sc = Some v"
          "div_i64 (as_i64 (margin * as_i64 (qty - pr_qty_lots pos))) qty = Some m"
          "open_position u s side price (as_i64 (qty - pr_qty_lots pos)) m sc lev rate = Some p"
          "new = Some p" "released = pr_initial_margin pos" "realized = as_i64 (side_sign (pr_side pos) * (v - pr_cost_atoms pos))"
          by (auto simp: compute_position_update_def Let_def Option.bind_eq_Some_conv)
        with flipped [of pos p v] Some other True nonzero open_position_fields show ?thesis by metis
      qed
    next
      case False
      with Some other assms obtain c v r0 p where "calc_notional_atoms price qty sc = Some v"
        "div_i64 (as_i64 (pr_initial_margin pos * qty)) (pr_qty_lots pos) = Some released"
        "refresh_risk_fields sc rate
           (pos\<lparr>pr_mark_price_ticks := price, pr_qty_lots := as_i64 (pr_qty_lots pos - qty),
              pr_cost_atoms := as_i64 (pr_cost_atoms pos - as_i64 c),
              pr_initial_margin := as_i64 (pr_initial_margin pos - released)\<rparr>) = Some r0"
        "refresh_unrealized_pnl sc r0 = Some p"
        "new = Some p" "realized = as_i64 (side_sign (pr_side pos) * (v - as_i64 c))"
        by (auto simp: compute_position_update_def Let_def Option.bind_eq_Some_conv)
      with reduced [of pos p v "as_i64 c"] Some other False refresh_fields [of sc rate _ r0 p] show ?thesis by simp
    qed
  qed
qed

lemma booked_plain: "\<not> flips existing side qty \<Longrightarrow> booked_value existing side price qty sc = calc_notional_atoms price qty sc"
  by (simp add: booked_value_def)

lemma eq64_realized: "eq64 (as_i64 (k * (v - c)) + k * c) (k * v)"
  using eq64_add [of "as_i64 (k * (v - c))" "k * (v - c)" "k * c" "k * c"] by (simp add: algebra_simps)

lemma position_update_ledger:
  assumes upd: "compute_position_update existing u s side price qty margin sc lev rate = Some (new, released, realized)"
    and q: "in_i64 qty" "0 < qty" and old: "\<forall>p. existing = Some p \<longrightarrow> 0 < pr_qty_lots p \<and> in_i64 (pr_qty_lots p)"
  shows "\<exists>v. booked_value existing side price qty sc = Some v \<and>
    eq64 (realized - opt_val signed_cost new + opt_val signed_cost existing) (- (side_sign side * v))"
  using upd
proof (cases rule: position_update_cases)
  case (opened v p)
  then show ?thesis by (simp add: booked_value_def flips_def signed_cost_def)
next
  case (added pos v p)
  have "eq64 (side_sign side * pr_cost_atoms pos - side_sign side * as_i64 (pr_cost_atoms pos + v))
      (side_sign side * pr_cost_atoms pos - side_sign side * (pr_cost_atoms pos + v))"
    by (intro eq64_diff eq64_mult) simp_all
  with added show ?thesis by (simp add: booked_value_def flips_def signed_cost_def algebra_simps)
next
  case (closed pos v)
  have "in_i64 (qty - pr_qty_lots pos)"
    using q old closed by (auto intro!: in_i64_diff_nonneg)
  with closed have "qty = pr_qty_lots pos" by simp
  with closed show ?thesis using eq64_realized [of "- side_sign side" v "pr_cost_atoms pos"]
    by (simp add: booked_value_def flips_def signed_cost_def side_sign_other [of "pr_side pos" side])
next
  case (flipped pos v w p)
  have "in_i64 (qty - pr_qty_lots pos)"
    using q old flipped by (auto intro!: in_i64_diff_nonneg)
  with flipped have fl: "flips existing side qty" by (auto simp: flips_def order.strict_iff_order)
  have "eq64 (as_i64 (- side_sign side * (v - pr_cost_atoms pos)) + - side_sign side * pr_cost_atoms pos - side_sign side * w)
      (- side_sign side * v - side_sign side * w)"
    by (rule eq64_diff [OF eq64_realized]) simp
  with flipped fl show ?thesis
    by (simp add: booked_value_def signed_cost_def side_sign_other [of "pr_side pos" side] algebra_simps)
next
  case (reduced pos c v p)
  have "eq64 (as_i64 (- side_sign side * (v - c)) + - side_sign side * c
        - (- side_sign side * as_i64 (pr_cost_atoms pos - c) + side_sign side * (pr_cost_atoms pos - c)))
      (- side_sign side * v - (- side_sign side * (pr_cost_atoms pos - c) + side_sign side * (pr_cost_atoms pos - c)))"
    by (intro eq64_diff eq64_realized eq64_add eq64_mult) simp_all
  with reduced show ?thesis
    by (simp add: booked_value_def flips_def signed_cost_def side_sign_other [of "pr_side pos" side] algebra_simps)
qed

subsection \<open>The parts of a fill\<close>

lemma put_position_sel [simp]:
  "re_accounts (put_position u s p e) = re_accounts e" "re_mark_prices (put_position u s p e) = re_mark_prices e"
  "re_symbol_position_index (put_position u s p e) = re_symbol_position_index e"
  "re_symbol_oi_lots (put_position u s p e) = re_symbol_oi_lots e"
  "re_insurance_fund_atoms (put_position u s p e) = re_insurance_fund_atoms e"
  by (simp_all add: put_position_def)

lemma oi_add_sel [simp]:
  "re_accounts (oi_add s d e) = re_accounts e" "re_mark_prices (oi_add s d e) = re_mark_prices e"
  "re_symbol_position_index (oi_add s d e) = re_symbol_position_index e"
  "re_positions (oi_add s d e) = re_positions e"
  "re_insurance_fund_atoms (oi_add s d e) = re_insurance_fund_atoms e"
  by (simp_all add: oi_add_def)

lemma fund_add_sel [simp]:
  "re_accounts (fund_add d e) = re_accounts e" "re_mark_prices (fund_add d e) = re_mark_prices e"
  "re_symbol_position_index (fund_add d e) = re_symbol_position_index e"
  "re_positions (fund_add d e) = re_positions e" "re_symbol_oi_lots (fund_add d e) = re_symbol_oi_lots e"
  "re_insurance_fund_atoms (fund_add d e) = as_i64 (re_insurance_fund_atoms e + d)"
  by (simp_all add: fund_add_def)

lemma with_account_sel [simp]:
  "re_mark_prices (with_account u f e) = re_mark_prices e"
  "re_symbol_position_index (with_account u f e) = re_symbol_position_index e"
  "re_positions (with_account u f e) = re_positions e" "re_symbol_oi_lots (with_account u f e) = re_symbol_oi_lots e"
  "re_insurance_fund_atoms (with_account u f e) = re_insurance_fund_atoms e"
  by (simp_all add: with_account_def split: option.split)

lemma seed_mark_sel [simp]:
  "re_accounts (seed_mark s p e) = re_accounts e" "re_symbol_position_index (seed_mark s p e) = re_symbol_position_index e"
  "re_positions (seed_mark s p e) = re_positions e" "re_symbol_oi_lots (seed_mark s p e) = re_symbol_oi_lots e"
  "re_insurance_fund_atoms (seed_mark s p e) = re_insurance_fund_atoms e"
  by (simp_all add: seed_mark_def)

lemma index_update_sel [simp]:
  "re_accounts (index_update u s e) = re_accounts e" "re_mark_prices (index_update u s e) = re_mark_prices e"
  "re_positions (index_update u s e) = re_positions e" "re_symbol_oi_lots (index_update u s e) = re_symbol_oi_lots e"
  "re_insurance_fund_atoms (index_update u s e) = re_insurance_fund_atoms e"
  by (simp_all add: index_update_def Let_def split: option.split)

lemma account_sel [simp]:
  "account (put_position u s p e) = account e" "account (oi_add s d e) = account e" "account (fund_add d e) = account e"
  "account (seed_mark s x e) = account e" "account (index_update u s e) = account e"
  by (simp_all add: account_def fun_eq_iff)

lemma position_sel [simp]:
  "position (oi_add s d e) = position e" "position (fund_add d e) = position e" "position (with_account u f e) = position e"
  "position (seed_mark s x e) = position e" "position (index_update u s e) = position e"
  by (simp_all add: position_def fun_eq_iff)

lemma account_with [simp]:
  "account (with_account u f e) v = (if v = u then map_option f (account e u) else account e v)"
  by (auto simp: account_def with_account_def AList.update_conv' split: option.split)

lemma position_put [simp]:
  "position (put_position u s p e) v t = (if (v, t) = (u, s) then p else position e v t)"
  by (auto simp: position_def put_position_def AList.update_conv' AList.delete_conv' split: option.split)

lemma account_sum_with:
  "kv_sum (\<lambda>(_, a). g a) (re_accounts (with_account u f e)) =
     kv_sum (\<lambda>(_, a). g a) (re_accounts e) + opt_val (\<lambda>a. g (f a) - g a) (account e u)"
  by (simp add: with_account_def account_def kv_sum_update split: option.split)

lemma position_sum_put:
  "distinct (map fst (re_positions e)) \<Longrightarrow>
   kv_sum (\<lambda>(k, p). g k p) (re_positions (put_position u s new e)) =
     kv_sum (\<lambda>(k, p). g k p) (re_positions e) - opt_val (g (u, s)) (position e u s) + opt_val (g (u, s)) new"
  by (simp add: put_position_def position_def kv_sum_update kv_sum_delete split: option.split)

text \<open>A fill that returns is the position update followed by the bookings that follow from it.\<close>

lemma on_fill_parts:
  assumes "on_fill u s os price qty margin sc lev rate liq e = Some e'" and "0 < qty"
  obtains new released realized delta fm fd where
    "compute_position_update (position e u s) u s (fill_side_of os) (if liq \<noteq> 0 then liq else price) qty margin sc lev rate
       = Some (new, released, realized)"
    "insurance_delta e u os price qty liq sc released realized = Some delta"
    "flip_parts new (fill_side_of os) margin qty = Some (fm, fd)"
    "e' = index_update u s (seed_mark s price (with_account u
       (settle_account liq margin released realized fm fd
          (as_i64 (opt_val pr_unrealized_pnl new - opt_val pr_unrealized_pnl (position e u s)))
          (as_i64 (opt_val pr_maintenance_margin new - opt_val pr_maintenance_margin (position e u s))))
       ((if delta \<noteq> 0 then fund_add delta else id)
         (oi_add s (as_i64 (opt_val pr_qty_lots new - opt_val pr_qty_lots (position e u s))) (put_position u s new e)))))"
proof -
  let ?old = "position e u s"
  have ov: "(case x of None \<Rightarrow> (0, 0, 0) | Some p \<Rightarrow> (pr_unrealized_pnl p, pr_maintenance_margin p, pr_qty_lots p)) =
      (opt_val pr_unrealized_pnl x, opt_val pr_maintenance_margin x, opt_val pr_qty_lots x)" for x
    by (cases x) simp_all
  have ins: "insurance_delta (oi_add s d (put_position u s new e)) = insurance_delta e" for d new
    by (simp add: insurance_delta_def fun_eq_iff)
  show ?thesis
    using assms that
    by (auto simp: on_fill_def ov ins Let_def fill_side_of_def Option.bind_eq_Some_conv split: prod.splits if_splits)
qed

subsection \<open>The ledger law of a fill\<close>

lemma sdiv_share:
  fixes m q d :: int
  assumes "0 < d" and "d \<le> m * q" and "0 < m" and "0 < q" and "q < d"
  shows "0 < (m * q) sdiv d" and "(m * q) sdiv d \<le> m"
proof -
  have s: "(m * q) sdiv d = m * q div d" using assms by (simp add: sdiv_pos)
  show "0 < (m * q) sdiv d" unfolding s using assms by (simp add: pos_imp_zdiv_pos_iff)
  have "m * q div d \<le> m * d div d" using assms by (intro zdiv_mono1) simp_all
  with assms show "(m * q) sdiv d \<le> m" unfolding s by simp
qed

lemma covers_released:
  assumes upd: "compute_position_update existing u s side price qty margin sc lev rate = Some (new, released, realized)"
    and cov: "covers a existing side qty margin liq" and q: "0 < qty"
  shows "0 < released \<longleftrightarrow> closes existing side" and "0 < released \<Longrightarrow> released \<le> ar_used_margin a"
    and "\<not> 0 < released \<Longrightarrow> released = 0 \<and> realized = 0"
proof -
  have "(0 < released \<longleftrightarrow> closes existing side) \<and> (0 < released \<longrightarrow> released \<le> ar_used_margin a) \<and>
      (\<not> 0 < released \<longrightarrow> released = 0 \<and> realized = 0)"
    using upd
  proof (cases rule: position_update_cases)
    case (reduced pos c v p)
    with cov have c: "0 < pr_qty_lots pos" "0 < pr_initial_margin pos" "pr_initial_margin pos \<le> ar_used_margin a"
      "pr_qty_lots pos \<le> pr_initial_margin pos * qty" "in_i64 (pr_initial_margin pos * qty)"
      by (auto simp: covers_def)
    with reduced have "released = (pr_initial_margin pos * qty) sdiv pr_qty_lots pos"
      by (auto simp: div_i64_def split: if_splits)
    with sdiv_share [OF c(1,4,2) q] reduced c show ?thesis by (auto simp: closes_def)
  qed (use cov in \<open>auto simp: closes_def covers_def\<close>)
  then show "0 < released \<longleftrightarrow> closes existing side" "0 < released \<Longrightarrow> released \<le> ar_used_margin a"
    "\<not> 0 < released \<Longrightarrow> released = 0 \<and> realized = 0"
    by blast+
qed

lemma settle_fields:
  "ar_unrealized_pnl (settle_account liq m r z fm fd ud md a) = as_i64 (ar_unrealized_pnl a + ud)"
  "ar_order_margin (settle_account liq m r z fm fd ud md a) =
     (if liq = 0 then max (as_i64 (ar_order_margin a - m)) 0 else ar_order_margin a)"
  "ar_used_margin (settle_account liq m r z fm fd ud md a) =
     as_i64 (if r > 0 then max (as_i64 (ar_used_margin a - r)) 0 + fm else ar_used_margin a + m)"
  "ar_available_margin (settle_account liq m r z fm fd ud md a) =
     (if r > 0 then as_i64 (ar_available_margin a + m + r + z - fm + fd) else ar_available_margin a)"
  "ar_user_id (settle_account liq m r z fm fd ud md a) = ar_user_id a"
  by (simp_all add: settle_account_def Let_def)

lemma settle_identity: "margin_identity (settle_account liq m r z fm fd ud md a)"
  by (simp add: margin_identity_def settle_account_def Let_def acct_cash_def eq64_def)

lemma settle_cash:
  assumes m: "0 \<le> m" "if liq = 0 then m \<le> ar_order_margin a \<and> in_i64 (ar_order_margin a) else m = 0"
    and r: "0 < r \<Longrightarrow> r \<le> ar_used_margin a" "in_i64 (ar_used_margin a)" and z: "\<not> 0 < r \<Longrightarrow> z = 0"
  shows "eq64 (acct_cash (settle_account liq m r z fm fd ud md a)) (acct_cash a + z + (if 0 < r then fd else 0))"
proof -
  have om: "(if liq = 0 then max (as_i64 (ar_order_margin a - m)) 0 else ar_order_margin a) = ar_order_margin a - m"
    using m by (simp add: in_i64_diff_nonneg)
  have um: "max (as_i64 (ar_used_margin a - r)) 0 = ar_used_margin a - r" if "0 < r"
    using r that by (simp add: in_i64_diff_nonneg)
  show ?thesis
  proof (cases "0 < r")
    case True
    have "eq64 (as_i64 (ar_available_margin a + m + r + z - fm + fd) + (ar_order_margin a - m) + as_i64 (ar_used_margin a - r + fm))
        ((ar_available_margin a + m + r + z - fm + fd) + (ar_order_margin a - m) + (ar_used_margin a - r + fm))"
      by (intro eq64_add) simp_all
    with True show ?thesis by (simp add: acct_cash_def settle_fields om um algebra_simps)
  next
    case False
    have "eq64 (ar_available_margin a + (ar_order_margin a - m) + as_i64 (ar_used_margin a + m))
        (ar_available_margin a + (ar_order_margin a - m) + (ar_used_margin a + m))"
      by (intro eq64_add) simp_all
    with False z show ?thesis by (simp add: acct_cash_def settle_fields om algebra_simps)
  qed
qed

text \<open>The change of the ledger in a fill, before the value and the dust are named.\<close>

lemma on_fill_ledger:
  assumes wf: "risk_wf e" and acct: "account e u = Some a"
    and cov: "covers a (position e u s) (fill_side_of os) qty margin liq"
    and fill: "on_fill u s os price qty margin sc lev rate liq e = Some e'" and q: "0 < qty" "in_i64 qty"
    and old: "\<forall>p. position e u s = Some p \<longrightarrow> 0 < pr_qty_lots p \<and> in_i64 (pr_qty_lots p)"
  shows "\<exists>new released realized delta fm fd v.
    compute_position_update (position e u s) u s (fill_side_of os) (if liq \<noteq> 0 then liq else price) qty margin sc lev rate
       = Some (new, released, realized) \<and>
    insurance_delta e u os price qty liq sc released realized = Some delta \<and>
    flip_parts new (fill_side_of os) margin qty = Some (fm, fd) \<and>
    booked_value (position e u s) (fill_side_of os) (if liq \<noteq> 0 then liq else price) qty sc = Some v \<and>
    (0 < released \<longleftrightarrow> closes (position e u s) (fill_side_of os)) \<and>
    eq64 (ledger e') (ledger e - side_sign (fill_side_of os) * v + delta +
      (if closes (position e u s) (fill_side_of os) then fd else 0))"
proof -
  from fill q(1) obtain new released realized delta fm fd where
    upd: "compute_position_update (position e u s) u s (fill_side_of os) (if liq \<noteq> 0 then liq else price) qty margin sc lev rate
       = Some (new, released, realized)"
    and ins: "insurance_delta e u os price qty liq sc released realized = Some delta"
    and fp: "flip_parts new (fill_side_of os) margin qty = Some (fm, fd)"
    and e': "e' = index_update u s (seed_mark s price (with_account u
       (settle_account liq margin released realized fm fd
          (as_i64 (opt_val pr_unrealized_pnl new - opt_val pr_unrealized_pnl (position e u s)))
          (as_i64 (opt_val pr_maintenance_margin new - opt_val pr_maintenance_margin (position e u s))))
       ((if delta \<noteq> 0 then fund_add delta else id)
         (oi_add s (as_i64 (opt_val pr_qty_lots new - opt_val pr_qty_lots (position e u s))) (put_position u s new e)))))"
    by (rule on_fill_parts)
  obtain v where v: "booked_value (position e u s) (fill_side_of os) (if liq \<noteq> 0 then liq else price) qty sc = Some v"
    and real: "eq64 (realized - opt_val signed_cost new + opt_val signed_cost (position e u s)) (- (side_sign (fill_side_of os) * v))"
    using position_update_ledger [OF upd q(2,1) old] by blast
  note rel = covers_released [OF upd cov q(1)]
  let ?a' = "settle_account liq margin released realized fm fd
      (as_i64 (opt_val pr_unrealized_pnl new - opt_val pr_unrealized_pnl (position e u s)))
      (as_i64 (opt_val pr_maintenance_margin new - opt_val pr_maintenance_margin (position e u s))) a"
  have cash: "eq64 (acct_cash ?a') (acct_cash a + realized + (if 0 < released then fd else 0))"
    using cov rel by (intro settle_cash) (auto simp: covers_def)
  have dist: "distinct (map fst (re_positions e))" using wf by (simp add: risk_wf_def)
  have acc: "kv_sum (\<lambda>(_, a). acct_cash a) (re_accounts e') = kv_sum (\<lambda>(_, a). acct_cash a) (re_accounts e) + (acct_cash ?a' - acct_cash a)"
    unfolding e' using acct by (simp add: account_sum_with)
  have pos: "kv_sum (\<lambda>(_, p). signed_cost p) (re_positions e') =
      kv_sum (\<lambda>(_, p). signed_cost p) (re_positions e) - opt_val signed_cost (position e u s) + opt_val signed_cost new"
    unfolding e' using position_sum_put [OF dist, of "\<lambda>_. signed_cost" u s new] by simp
  have fund: "eq64 (re_insurance_fund_atoms e') (re_insurance_fund_atoms e + delta)"
    unfolding e' by simp
  have "eq64 (acct_cash ?a' + (realized - opt_val signed_cost new + opt_val signed_cost (position e u s)) - realized + re_insurance_fund_atoms e'
        + (ledger e - re_insurance_fund_atoms e - acct_cash a))
      (acct_cash a + realized + (if 0 < released then fd else 0) + - (side_sign (fill_side_of os) * v) - realized
        + (re_insurance_fund_atoms e + delta) + (ledger e - re_insurance_fund_atoms e - acct_cash a))"
    by (intro eq64_add eq64_diff cash real fund eq64_refl)
  then have "eq64 (ledger e') (ledger e - side_sign (fill_side_of os) * v + delta +
      (if closes (position e u s) (fill_side_of os) then fd else 0))"
    using rel(1) by (simp add: ledger_def acc pos algebra_simps)
  with upd ins fp v rel(1) show ?thesis by blast
qed

end
