(* ===== verification/RiskRuns.thy ===== *)
theory RiskRuns
  imports RiskInv
begin

text \<open>
  Every call of the risk engine keeps the structural invariant (tables, open interest, symbol
  index), the unrealized profit of the accounts and, deleveraging apart, the margin identity; and
  what a risk tick does to accounts and positions.
\<close>

definition tick_updates :: "RiskEngine \<Rightarrow> (int \<times> RiskStatus \<times> RiskStatus) list" where
  "tick_updates e = List.map_filter status_update (List.map_filter (account e) (remdups_adj (sort (map (fst \<circ> fst) (re_positions e)))))"

subsection \<open>Preservation of the structural invariant\<close>

lemma set_update_subset: "set (AList.update k v xs) \<subseteq> insert (k, v) (set xs)"
  by (induction xs) auto

lemma accounts_with: "(v, b) \<in> set (re_accounts (with_account u f e)) \<Longrightarrow>
    (v, b) \<in> set (re_accounts e) \<or> (\<exists>a. account e u = Some a \<and> (u, a) \<in> set (re_accounts e) \<and> v = u \<and> b = f a)"
  using set_update_subset [of u "f (the (account e u))" "re_accounts e"]
  by (auto simp: with_account_def account_def split: option.splits dest: map_of_SomeD)

lemma wf_with: "risk_wf e \<Longrightarrow> (\<And>a. ar_user_id (f a) = ar_user_id a) \<Longrightarrow> risk_wf (with_account u f e)"
  by (auto simp: risk_wf_def dest!: accounts_with)
    (auto simp: with_account_def AList.distinct_update split: option.split)

lemma identities_with:
  "identities e \<Longrightarrow> (\<And>a. margin_identity a \<Longrightarrow> margin_identity (f a)) \<Longrightarrow> identities (with_account u f e)"
  by (fastforce simp: identities_def dest!: accounts_with)

lemma wf_put: "risk_wf e \<Longrightarrow> risk_wf (put_position u s p e)"
  by (auto simp: risk_wf_def put_position_def AList.distinct_update AList.distinct_delete split: option.split)

lemma wf_sel:
  "re_accounts e' = re_accounts e \<Longrightarrow> re_positions e' = re_positions e \<Longrightarrow> risk_wf e' = risk_wf e"
  by (simp add: risk_wf_def)

lemma identities_sel: "re_accounts e' = re_accounts e \<Longrightarrow> identities e' = identities e"
  by (simp add: identities_def)

lemma oi_sel:
  "re_symbol_oi_lots e' = re_symbol_oi_lots e \<Longrightarrow> re_positions e' = re_positions e \<Longrightarrow> oi_ok e' = oi_ok e"
  by (simp add: oi_ok_def)

lemma index_sel:
  "re_symbol_position_index e' = re_symbol_position_index e \<Longrightarrow> re_positions e' = re_positions e \<Longrightarrow> index_ok e' = index_ok e"
  by (simp add: index_ok_def has_open_def position_def)

lemma inv_with: "risk_inv e \<Longrightarrow> (\<And>a. ar_user_id (f a) = ar_user_id a) \<Longrightarrow> risk_inv (with_account u f e)"
  using wf_with [of e f u] oi_sel [of "with_account u f e" e] index_sel [of "with_account u f e" e]
  by (simp add: risk_inv_def)

lemma gross_put:
  assumes "distinct (map fst (re_positions e))"
  shows "gross_lots t (re_positions (put_position u s new e)) =
    gross_lots t (re_positions e) + (if t = s then opt_val pr_qty_lots new - opt_val pr_qty_lots (position e u s) else 0)"
  using position_sum_put [OF assms, of "\<lambda>(_, r) p. if r = t then pr_qty_lots p else 0" u s new]
  by (auto simp: gross_lots_def case_prod_unfold opt_val_def split: option.split)

lemma oi_put:
  assumes "risk_wf e" and "oi_ok e"
  shows "oi_ok (oi_add s (as_i64 (opt_val pr_qty_lots new - opt_val pr_qty_lots (position e u s))) (put_position u s new e))"
    (is "oi_ok (oi_add s (as_i64 ?d) _)")
  unfolding oi_ok_def
proof
  fix t
  have d: "distinct (map fst (re_positions e))" using assms by (simp add: risk_wf_def)
  have old: "eq64 (opt_val id (re_symbol_oi_lots e t)) (gross_lots t (re_positions e))" for t
    using assms by (simp add: oi_ok_def)
  have "eq64 (opt_val id (re_symbol_oi_lots (oi_add s (as_i64 ?d) (put_position u s new e)) s)) (opt_val id (re_symbol_oi_lots e s) + ?d)"
  proof (cases "as_i64 ?d = 0")
    case True
    then have "eq64 ?d 0" by (simp add: eq64_def)
    from eq64_add [OF eq64_refl [of "opt_val id (re_symbol_oi_lots e s)"] eq64_sym [OF this]] True
    show ?thesis by (simp add: oi_add_def)
  next
    case False
    then show ?thesis by (cases "re_symbol_oi_lots e s") (simp_all add: oi_add_def eq64_def)
  qed
  from eq64_trans [OF this eq64_add [OF old eq64_refl]] old [of t]
  show "eq64 (opt_val id (re_symbol_oi_lots (oi_add s (as_i64 ?d) (put_position u s new e)) t))
      (gross_lots t (re_positions (oi_add s (as_i64 ?d) (put_position u s new e))))"
    by (auto simp: gross_put [OF d] oi_add_def)
qed

lemma index_update_ok:
  assumes "index_ok e0" and "re_symbol_position_index e = re_symbol_position_index e0"
    and "\<And>v t. (v, t) \<noteq> (u, s) \<Longrightarrow> position e v t = position e0 v t"
  shows "index_ok (index_update u s e)"
proof -
  define us where "us t = (case re_symbol_position_index e0 t of None \<Rightarrow> [] | Some us \<Rightarrow> us)" for t
  have old: "v \<in> set (us t) \<longleftrightarrow> has_open e0 v t" "distinct (us t)" for v t
    using assms(1) unfolding index_ok_def us_def by blast+
  have other: "has_open e v t = has_open e0 v t" if "(v, t) \<noteq> (u, s)" for v t
    using assms(3) [OF that] by (simp add: has_open_def)
  have ho: "(case position e u s of None \<Rightarrow> False | Some p \<Rightarrow> pr_qty_lots p > 0) \<longleftrightarrow> has_open e u s"
    by (simp add: has_open_def split: option.split)
  have pos: "has_open (index_update u s e) = has_open e" by (simp add: has_open_def fun_eq_iff)
  have new: "(case re_symbol_position_index (index_update u s e) t of None \<Rightarrow> [] | Some us \<Rightarrow> us) =
      (if t = s then (if has_open e u s then List.insert u (us s) else removeAll u (us s)) else us t)" for t
    by (simp add: index_update_def Let_def ho assms(2) us_def split: option.split)
  have "v \<in> set (if t = s then (if has_open e u s then List.insert u (us s) else removeAll u (us s)) else us t) \<longleftrightarrow> has_open e v t" for v t
    using other [of v t] old(1) [of v t] by (cases "(v, t) = (u, s)") auto
  then show ?thesis
    unfolding index_ok_def pos new using old(2) by (auto simp: distinct_removeAll)
qed

lemma fill_inv:
  assumes "risk_inv e" and "on_fill u s os px qty m sc lev rate liq e = Some e'"
  shows "risk_inv e'"
proof (cases "0 < qty")
  case True
  from assms(2) True obtain new released realized delta fm fd where
    e': "e' = index_update u s (seed_mark s px (with_account u
       (settle_account liq m released realized fm fd
          (as_i64 (opt_val pr_unrealized_pnl new - opt_val pr_unrealized_pnl (position e u s)))
          (as_i64 (opt_val pr_maintenance_margin new - opt_val pr_maintenance_margin (position e u s))))
       ((if delta \<noteq> 0 then fund_add delta else id)
         (oi_add s (as_i64 (opt_val pr_qty_lots new - opt_val pr_qty_lots (position e u s))) (put_position u s new e)))))"
    by (rule on_fill_parts)
  let ?e1 = "oi_add s (as_i64 (opt_val pr_qty_lots new - opt_val pr_qty_lots (position e u s))) (put_position u s new e)"
  let ?e2 = "(if delta \<noteq> 0 then fund_add delta else id) ?e1"
  let ?f = "settle_account liq m released realized fm fd
          (as_i64 (opt_val pr_unrealized_pnl new - opt_val pr_unrealized_pnl (position e u s)))
          (as_i64 (opt_val pr_maintenance_margin new - opt_val pr_maintenance_margin (position e u s)))"
  let ?e3 = "seed_mark s px (with_account u ?f ?e2)"
  have i: "risk_wf e" "oi_ok e" "index_ok e" using assms(1) by (simp_all add: risk_inv_def)
  have "risk_wf ?e2" using wf_put [OF i(1), of u s new] by (simp add: risk_wf_def)
  then have "risk_wf (with_account u ?f ?e2)" by (rule wf_with) (simp add: settle_fields)
  then have w: "risk_wf e'" unfolding e' by (simp add: risk_wf_def)
  have o: "oi_ok e'" unfolding e' using oi_put [OF i(1,2), of s new u] by (simp add: oi_ok_def)
  have x: "index_ok (index_update u s ?e3)"
    by (rule index_update_ok [OF i(3)]) auto
  show ?thesis using w o x by (simp add: risk_inv_def e')
next
  case False
  with assms show ?thesis by (simp add: on_fill_def)
qed

lemma fill_identities:
  assumes "identities e" and "on_fill u s os px qty m sc lev rate liq e = Some e'"
  shows "identities e'"
proof (cases "0 < qty")
  case True
  from assms(2) True show ?thesis
  proof (rule on_fill_parts)
    fix new released realized delta fm fd
    let ?e2 = "(if delta \<noteq> 0 then fund_add delta else id)
         (oi_add s (as_i64 (opt_val pr_qty_lots new - opt_val pr_qty_lots (position e u s))) (put_position u s new e))"
    let ?f = "settle_account liq m released realized fm fd
          (as_i64 (opt_val pr_unrealized_pnl new - opt_val pr_unrealized_pnl (position e u s)))
          (as_i64 (opt_val pr_maintenance_margin new - opt_val pr_maintenance_margin (position e u s)))"
    assume e': "e' = index_update u s (seed_mark s px (with_account u ?f ?e2))"
    have "identities ?e2" using assms(1) by (simp add: identities_def)
    then have "identities (with_account u ?f ?e2)" by (rule identities_with) (rule settle_identity)
    then show ?thesis unfolding e' by (simp add: identities_def)
  qed
next
  case False
  with assms show ?thesis by (simp add: on_fill_def)
qed

lemma inv_put_same:
  assumes "risk_inv e" and "position e u s = Some p" and "pr_qty_lots q = pr_qty_lots p"
  shows "risk_inv (put_position u s (Some q) e)"
proof -
  have i: "risk_wf e" "oi_ok e" "index_ok e" using assms(1) by (simp_all add: risk_inv_def)
  then have "distinct (map fst (re_positions e))" by (simp add: risk_wf_def)
  with assms have "gross_lots t (re_positions (put_position u s (Some q) e)) = gross_lots t (re_positions e)" for t
    by (simp add: gross_put)
  with i(2) have "oi_ok (put_position u s (Some q) e)" by (simp add: oi_ok_def)
  moreover have "has_open (put_position u s (Some q) e) = has_open e"
    using assms(2,3) by (auto simp: has_open_def fun_eq_iff)
  ultimately show ?thesis using i wf_put [OF i(1), of u s "Some q"] by (simp add: risk_inv_def index_ok_def)
qed

lemma mark_account_fields:
  "ar_user_id (mark_account d a) = ar_user_id a" "margin_identity (mark_account d a)"
  by (simp_all add: mark_account_def Let_def margin_identity_def acct_cash_def eq64_def)

lemma mark_position_qty: "mark_position mk sc p = Some q \<Longrightarrow> pr_qty_lots q = pr_qty_lots p"
  by (auto simp: mark_position_def Option.bind_eq_Some_conv)

lemma mark_users_inv: "mark_users s mk sc us e = Some e' \<Longrightarrow> risk_inv e \<Longrightarrow> risk_inv e'"
proof (induction s mk sc us e rule: mark_users.induct)
  case (2 s mk sc uid uids e)
  show ?case
  proof (cases "position e uid s")
    case (Some p)
    with "2.prems"(1) obtain q where q: "mark_position mk sc p = Some q"
      "mark_users s mk sc uids (with_account uid (mark_account (as_i64 (pr_unrealized_pnl q - pr_unrealized_pnl p)))
         (put_position uid s (Some q) e)) = Some e'"
      by (auto simp: Option.bind_eq_Some_conv Let_def)
    have "risk_inv (put_position uid s (Some q) e)"
      by (rule inv_put_same [OF "2.prems"(2) Some mark_position_qty [OF q(1)]])
    then have "risk_inv (with_account uid (mark_account (as_i64 (pr_unrealized_pnl q - pr_unrealized_pnl p))) (put_position uid s (Some q) e))"
      by (rule inv_with) (simp add: mark_account_fields)
    with "2.IH"(2) [OF Some] q show ?thesis by blast
  qed (use 2 in auto)
qed simp

lemma mark_users_identities: "mark_users s mk sc us e = Some e' \<Longrightarrow> identities e \<Longrightarrow> identities e'"
proof (induction s mk sc us e rule: mark_users.induct)
  case (2 s mk sc uid uids e)
  show ?case
  proof (cases "position e uid s")
    case (Some p)
    with "2.prems"(1) obtain q where q: "mark_position mk sc p = Some q"
      "mark_users s mk sc uids (with_account uid (mark_account (as_i64 (pr_unrealized_pnl q - pr_unrealized_pnl p)))
         (put_position uid s (Some q) e)) = Some e'"
      by (auto simp: Option.bind_eq_Some_conv Let_def)
    have "identities (put_position uid s (Some q) e)" using "2.prems"(2) by (simp add: identities_def)
    then have "identities (with_account uid (mark_account (as_i64 (pr_unrealized_pnl q - pr_unrealized_pnl p))) (put_position uid s (Some q) e))"
      by (rule identities_with) (simp add: mark_account_fields)
    with "2.IH"(2) [OF Some] q show ?thesis by blast
  qed (use 2 in auto)
qed simp

subsection \<open>The risk tick\<close>

lemma apply_status_with: "apply_status e (u, old, new) = with_account u (\<lambda>a. if ar_status a = old then a\<lparr>ar_status := new\<rparr> else a) e"
  by (simp add: apply_status_def)

lemma apply_status_inv: "risk_inv e \<Longrightarrow> risk_inv (apply_status e x)"
  by (cases x) (simp add: apply_status_with inv_with)

lemma apply_statuses_inv: "risk_inv e \<Longrightarrow> risk_inv (foldl apply_status e ups)"
  by (induction ups arbitrary: e) (simp_all add: apply_status_inv)

lemma margin_identity_status [simp]: "margin_identity (a\<lparr>ar_status := st\<rparr>) = margin_identity a"
  by (simp add: margin_identity_def acct_cash_def)

lemma apply_status_identities: "identities e \<Longrightarrow> identities (apply_status e x)"
  by (cases x) (simp add: apply_status_with identities_with)

lemma apply_statuses_identities: "identities e \<Longrightarrow> identities (foldl apply_status e ups)"
  by (induction ups arbitrary: e) (simp_all add: apply_status_identities)

lemma account_statuses:
  "distinct (map fst ups) \<Longrightarrow> account (foldl apply_status e ups) u =
     (case map_of ups u of None \<Rightarrow> account e u
      | Some (old, new) \<Rightarrow> map_option (\<lambda>a. if ar_status a = old then a\<lparr>ar_status := new\<rparr> else a) (account e u))"
proof (induction ups arbitrary: e)
  case (Cons x ups)
  obtain v old new where x: "x = (v, old, new)" by (cases x)
  with Cons.prems have d: "distinct (map fst ups)" "map_of ups v = None" by (auto simp: map_of_eq_None_iff)
  from Cons.IH [OF d(1), of "apply_status e x"] show ?case
    using d(2) by (cases "u = v") (simp_all add: x apply_status_with split: option.split)
qed simp

lemma statuses_sel: "re_positions (foldl apply_status e ups) = re_positions e"
  by (induction ups arbitrary: e) (auto simp: apply_status_with)

lemma account_user_id: "risk_wf e \<Longrightarrow> account e u = Some a \<Longrightarrow> ar_user_id a = u"
  by (auto simp: risk_wf_def account_def dest!: map_of_SomeD)

lemma distinct_remdups_adj_sorted: "sorted xs \<Longrightarrow> distinct (remdups_adj (xs :: 'a::linorder list))"
  by (induction xs rule: remdups_adj.induct) (auto simp: less_le)

lemma set_map_filter: "set (List.map_filter f xs) = {y. \<exists>x \<in> set xs. f x = Some y}"
  by (induction xs) (auto simp: map_filter_simps split: option.split)

lemma map_filter_map_filter:
  "List.map_filter f (List.map_filter g xs) = List.map_filter (\<lambda>x. Option.bind (g x) f) xs"
  by (induction xs) (simp_all add: map_filter_simps split: option.split)

lemma distinct_map_filter:
  assumes "\<And>u x. f u = Some x \<Longrightarrow> fst x = u" and "distinct us"
  shows "distinct (map fst (List.map_filter f us))"
  using assms(2)
proof (induction us)
  case (Cons v us)
  have "v \<notin> fst ` set (List.map_filter f us)"
    using Cons.prems assms(1) by (auto simp: set_map_filter)
  with Cons assms(1) [of v] show ?case by (simp add: map_filter_simps split: option.split)
qed (simp add: map_filter_simps)

lemma tick_updates_set:
  assumes "risk_wf e"
  shows "distinct (map fst (tick_updates e))"
    and "(u, old, new) \<in> set (tick_updates e) \<longleftrightarrow> exposed e u \<and> (\<exists>a. account e u = Some a \<and> status_update a = Some (u, old, new))"
proof -
  have d: "distinct (remdups_adj (sort (map (fst \<circ> fst) (re_positions e))))"
    by (rule distinct_remdups_adj_sorted) simp
  have id: "fst x = v" if upd: "Option.bind (account e v) status_update = Some x" for v x
  proof -
    from upd obtain a where "account e v = Some a" "status_update a = Some x"
      by (auto simp: Option.bind_eq_Some_conv)
    with account_user_id [OF assms, of v a] show ?thesis by (auto simp: status_update_def split: if_splits)
  qed
  show "distinct (map fst (tick_updates e))"
    unfolding tick_updates_def map_filter_map_filter by (rule distinct_map_filter [OF id d])
  have "x \<in> set (tick_updates e) \<longleftrightarrow> (\<exists>v. exposed e v \<and> Option.bind (account e v) status_update = Some x)" for x
    unfolding tick_updates_def map_filter_map_filter set_map_filter by (simp add: exposed_def Bex_def)
  with id show "(u, old, new) \<in> set (tick_updates e) \<longleftrightarrow> exposed e u \<and> (\<exists>a. account e u = Some a \<and> status_update a = Some (u, old, new))"
    by (fastforce simp: Option.bind_eq_Some_conv)
qed

lemma status_update_eq:
  "status_update a = (if watched a then Some (ar_user_id a, ar_status a, next_status a) else None)"
  by (auto simp: status_update_def watched_def)

lemma tick_updates_map_of:
  assumes "risk_wf e"
  shows "map_of (tick_updates e) u =
    (if exposed e u then Option.bind (account e u) (\<lambda>a. map_option snd (status_update a)) else None)"
proof -
  have in_set: "map_of (tick_updates e) u = Some (old, new) \<longleftrightarrow> exposed e u \<and> (\<exists>a. account e u = Some a \<and> status_update a = Some (u, old, new))" for old new
    using tick_updates_set [OF assms] by (metis map_of_eq_Some_iff)
  show ?thesis
  proof (cases "exposed e u \<and> (\<exists>a. account e u = Some a \<and> watched a)")
    case True
    then obtain a where a: "exposed e u" "account e u = Some a" "watched a" by blast
    with account_user_id [OF assms a(2)] show ?thesis
      using in_set [of "ar_status a" "next_status a"] by (simp add: status_update_eq)
  next
    case False
    then have "map_of (tick_updates e) u \<noteq> Some x" for x
      using in_set [of "fst x" "snd x"] by (auto simp: status_update_eq split: if_splits)
    then have "map_of (tick_updates e) u = None" by (meson not_None_eq)
    with False show ?thesis by (cases "account e u") (auto simp: status_update_eq)
  qed
qed

lemma run_risk_tick_eq:
  "run_risk_tick e =
     (map liquidation_event (filter (\<lambda>((u, _), _). \<exists>old. (u, old, LiquidationPending) \<in> set (tick_updates e) \<and> old \<noteq> LiquidationPending)
        (re_positions e)), foldl apply_status e (tick_updates e))"
proof -
  have *: "(u \<in> set (map fst (filter (\<lambda>(_, old, new). new = LiquidationPending \<and> old \<noteq> LiquidationPending) ups))) =
      (\<exists>old. (u, old, LiquidationPending) \<in> set ups \<and> old \<noteq> LiquidationPending)" for u ups
    by force
  show ?thesis unfolding run_risk_tick_def tick_updates_def [symmetric] Let_def * by (rule refl)
qed

lemma tick_account:
  assumes "risk_wf e"
  shows "account (snd (run_risk_tick e)) u = map_option (if exposed e u then ticked else id) (account e u)"
  unfolding run_risk_tick_eq snd_conv account_statuses [OF tick_updates_set(1) [OF assms]] tick_updates_map_of [OF assms]
  by (cases "account e u") (auto simp: ticked_def status_update_eq)

lemma tick_events:
  assumes "risk_wf e"
  shows "fst (run_risk_tick e) = map liquidation_event (filter (\<lambda>((u, _), _). enters_liquidation e u) (re_positions e))"
proof -
  have *: "(\<exists>old. (u, old, LiquidationPending) \<in> set (tick_updates e) \<and> old \<noteq> LiquidationPending) \<longleftrightarrow> enters_liquidation e u"
    if "((u, s), p) \<in> set (re_positions e)" for u s p
    using imageI [OF that, of "fst \<circ> fst"] account_user_id [OF assms, of u]
    by (auto simp: tick_updates_set(2) [OF assms] exposed_def enters_liquidation_def ticked_def status_update_eq split: if_splits)
  show ?thesis unfolding run_risk_tick_eq fst_conv
    by (intro arg_cong [where f = "map liquidation_event"] filter_cong) (use * in auto)
qed

subsection \<open>Deleveraging\<close>

lemma adl_pairs_step:
  assumes "adl_pairs s sc lev rate b side px ((v, q, score) # cands) left evs e = Some (evs', e')" and "0 < left"
  obtains e1 e2 where
    "on_fill v s (if side = Long then 0 else 1) px (min left q) 0 sc lev rate 0 e = Some e1"
    "on_fill b s (if side = Long then 1 else 0) px (min left q) 0 sc lev rate px e1 = Some e2"
    "adl_pairs s sc lev rate b side px cands (as_i64 (left - min left q))
       (evs @ [\<lparr>ae_bankrupt_user_id = b, ae_counterparty_user_id = v, ae_qty_lots = min left q, ae_price_ticks = px\<rparr>]) e2
       = Some (evs', e')"
  using assms by (auto simp: Let_def Option.bind_eq_Some_conv)

lemma adl_pairs_inv:
  "adl_pairs s sc lev rate b side px cands left evs e = Some (evs', e') \<Longrightarrow> risk_inv e \<Longrightarrow> risk_inv e'"
proof (induction cands arbitrary: left evs e)
  case (Cons c cands)
  obtain v q score where c: "c = (v, q, score)" by (cases c)
  show ?case
  proof (cases "0 < left")
    case True
    from Cons.prems(1) [unfolded c] True show ?thesis
      by (rule adl_pairs_step) (rule Cons.IH, assumption, rule fill_inv, rule fill_inv, rule Cons.prems(2))
  qed (use Cons.prems c in simp)
qed simp

lemma socialize_eq:
  "socialize b e = (case account e b of
     None \<Rightarrow> e
   | Some a \<Rightarrow> with_account b
       (\<lambda>a. let a = (if ar_equity a < 0 then a\<lparr>ar_equity := 0, ar_available_margin := 0\<rparr> else a)
            in if ar_used_margin a = 0 then a\<lparr>ar_status := Normal\<rparr> else a)
       ((if ar_equity a < 0 then fund_add (ar_equity a) else id) e))"
  by (simp add: socialize_def Let_def split: option.split)

lemma fund_inv [simp]: "risk_inv (fund_add d e) = risk_inv e"
  by (simp add: risk_inv_def risk_wf_def oi_ok_def index_ok_def has_open_def)

lemma socialize_inv: "risk_inv e \<Longrightarrow> risk_inv (socialize b e)"
  unfolding socialize_eq by (auto simp: Let_def split: option.split intro!: inv_with)

lemma adl_bankrupts_inv:
  "adl_bankrupts s sc lev rate hs bs evs e = Some (evs', e') \<Longrightarrow> risk_inv e \<Longrightarrow> risk_inv e'"
proof (induction bs arbitrary: evs e)
  case (Cons x bs)
  obtain uid side qty px where x: "x = (uid, side, qty, px)" by (cases x)
  with Cons.prems(1) obtain evs1 e1 where
    1: "adl_pairs s sc lev rate uid side px (adl_candidates e s hs uid side) qty evs e = Some (evs1, e1)"
    and 2: "adl_bankrupts s sc lev rate hs bs evs1 (socialize uid e1) = Some (evs', e')"
    by (auto simp: Option.bind_eq_Some_conv)
  show ?case
    by (rule Cons.IH [OF 2 socialize_inv [OF adl_pairs_inv [OF 1 Cons.prems(2)]]])
qed simp

lemma run_adl_inv: "run_adl s sc lev rate e = Some (evs, e') \<Longrightarrow> risk_inv e \<Longrightarrow> risk_inv e'"
  unfolding run_adl_def Let_def by (rule adl_bankrupts_inv)

subsection \<open>Reachable engines\<close>

lemma risk_inv_new: "risk_inv RiskEngine_new" "identities RiskEngine_new"
  by (auto simp: risk_inv_def risk_wf_def oi_ok_def index_ok_def has_open_def position_def RiskEngine_new_def gross_lots_def identities_def)

lemma init_inv: "risk_inv e \<Longrightarrow> account e u = None \<Longrightarrow> risk_inv (initialize_account u bal e)"
  using set_update_subset [of u "AccountRiskState_new u bal" "re_accounts e"]
  by (fastforce simp: risk_inv_def risk_wf_def oi_ok_def index_ok_def has_open_def position_def initialize_account_def
      AList.distinct_update AccountRiskState_new_def)

lemma init_identities: "identities e \<Longrightarrow> identities (initialize_account u bal e)"
  using set_update_subset [of u "AccountRiskState_new u bal" "re_accounts e"]
  by (fastforce simp: identities_def initialize_account_def AccountRiskState_new_def margin_identity_def acct_cash_def)

lemma identity_moves:
  "margin_identity a \<Longrightarrow> margin_identity (a\<lparr>ar_available_margin := as_i64 (ar_available_margin a - m), ar_order_margin := as_i64 (ar_order_margin a + m)\<rparr>)"
  "margin_identity a \<Longrightarrow> margin_identity (a\<lparr>ar_available_margin := as_i64 (ar_available_margin a + m), ar_order_margin := as_i64 (ar_order_margin a - m)\<rparr>)"
  "margin_identity a \<Longrightarrow> margin_identity (a\<lparr>ar_equity := as_i64 (ar_equity a - m), ar_available_margin := as_i64 (ar_available_margin a - m)\<rparr>)"
proof -
  let ?r = "ar_used_margin a + ar_unrealized_pnl a"
  assume i: "margin_identity a"
  have 1: "eq64 (as_i64 (ar_available_margin a - m) + as_i64 (ar_order_margin a + m) + ?r) ((ar_available_margin a - m) + (ar_order_margin a + m) + ?r)"
    by (intro eq64_add) simp_all
  have 2: "eq64 (as_i64 (ar_available_margin a + m) + as_i64 (ar_order_margin a - m) + ?r) ((ar_available_margin a + m) + (ar_order_margin a - m) + ?r)"
    by (intro eq64_add) simp_all
  have 3: "eq64 (as_i64 (ar_available_margin a - m) + (ar_order_margin a + ?r)) ((ar_available_margin a - m) + (ar_order_margin a + ?r))"
    by (intro eq64_add) simp_all
  have i: "eq64 (ar_equity a) (ar_available_margin a + ar_order_margin a + ?r)"
    using i by (simp add: margin_identity_def acct_cash_def algebra_simps)
  from eq64_diff [OF i eq64_refl [of m]]
  have 4: "eq64 (ar_equity a - m) ((ar_available_margin a - m) + (ar_order_margin a + ?r))"
    by (simp add: algebra_simps)
  show "margin_identity (a\<lparr>ar_available_margin := as_i64 (ar_available_margin a - m), ar_order_margin := as_i64 (ar_order_margin a + m)\<rparr>)"
    using eq64_trans [OF i, OF eq64_sym] 1 by (simp add: margin_identity_def acct_cash_def algebra_simps)
  show "margin_identity (a\<lparr>ar_available_margin := as_i64 (ar_available_margin a + m), ar_order_margin := as_i64 (ar_order_margin a - m)\<rparr>)"
    using eq64_trans [OF i, OF eq64_sym] 2 by (simp add: margin_identity_def acct_cash_def algebra_simps)
  show "margin_identity (a\<lparr>ar_equity := as_i64 (ar_equity a - m), ar_available_margin := as_i64 (ar_available_margin a - m)\<rparr>)"
    using eq64_trans [OF 4 eq64_sym [OF 3]] by (simp add: margin_identity_def acct_cash_def algebra_simps)
qed

lemma mark_inv:
  assumes "update_mark_price s px sc e = Some e'"
  shows "risk_inv e \<Longrightarrow> risk_inv e'" and "identities e \<Longrightarrow> identities e'"
proof -
  have 1: "risk_inv (e\<lparr>re_mark_prices := x\<rparr>) = risk_inv e" for x
    by (simp add: risk_inv_def risk_wf_def oi_ok_def index_ok_def has_open_def position_def)
  have 2: "identities (e\<lparr>re_mark_prices := x\<rparr>) = identities e" for x
    by (simp add: identities_def)
  show "risk_inv e \<Longrightarrow> risk_inv e'" "identities e \<Longrightarrow> identities e'"
    using assms mark_users_inv [of s _ sc _ _ e'] mark_users_identities [of s _ sc _ _ e']
    by (auto simp: update_mark_price_def Let_def 1 2 split: if_splits)
qed

lemma risk_step_inv: "risk_step adl e e' \<Longrightarrow> risk_inv e \<Longrightarrow> risk_inv e'"
proof (induction rule: risk_step.induct)
  case (force_mark e s px)
  then show ?case
    by (simp add: force_mark_price_def risk_inv_def risk_wf_def oi_ok_def index_ok_def has_open_def position_def)
qed (auto simp: set_account_status_def set_account_status_if_def check_and_reserve_margin_def release_order_margin_def
    charge_fee_def run_risk_tick_eq apply_statuses_inv split: option.split
    intro!: inv_with init_inv dest: fill_inv mark_inv(1) run_adl_inv)

lemma risk_step_identities: "risk_step False e e' \<Longrightarrow> identities e \<Longrightarrow> identities e'"
proof (induction rule: risk_step.induct)
  case (force_mark e s px)
  then show ?case by (simp add: force_mark_price_def identities_def)
next
  case (fee e u f)
  then have "identities (with_account u (\<lambda>a. a\<lparr>ar_equity := as_i64 (ar_equity a - f), ar_available_margin := as_i64 (ar_available_margin a - f)\<rparr>) e)"
    by (intro identities_with identity_moves)
  with fee show ?case by (simp add: charge_fee_def identities_def)
qed (auto simp: set_account_status_def set_account_status_if_def check_and_reserve_margin_def release_order_margin_def
    run_risk_tick_eq apply_statuses_identities split: option.split
    intro!: identities_with init_identities identity_moves dest: fill_identities mark_inv(2))

lemma risk_run_inv: "risk_run adl e \<Longrightarrow> risk_inv e"
  by (induction rule: risk_run.induct) (auto intro: risk_inv_new risk_step_inv)

lemma risk_run_identities: "risk_run False e \<Longrightarrow> identities e"
  by (induction rule: risk_run.induct) (auto intro: risk_inv_new risk_step_identities)

subsection \<open>Unrealized profit of an account\<close>

lemma upnl_sel: "re_accounts e' = re_accounts e \<Longrightarrow> re_positions e' = re_positions e \<Longrightarrow> upnl_ok e' = upnl_ok e"
  by (simp add: upnl_ok_def account_def)

lemma upnl_with: "upnl_ok e \<Longrightarrow> (\<And>a. ar_unrealized_pnl (f a) = ar_unrealized_pnl a) \<Longrightarrow> upnl_ok (with_account u f e)"
  by (auto simp: upnl_ok_def)

lemma upnl_put:
  assumes "distinct (map fst (re_positions e))"
  shows "user_upnl v (re_positions (put_position u s new e)) =
    user_upnl v (re_positions e) + (if v = u then opt_val pr_unrealized_pnl new - opt_val pr_unrealized_pnl (position e u s) else 0)"
  using position_sum_put [OF assms, of "\<lambda>(w, _) p. if w = v then pr_unrealized_pnl p else 0" u s new]
  by (auto simp: user_upnl_def case_prod_unfold opt_val_def split: option.split)

lemma upnl_reprice:
  assumes "risk_wf e" and "upnl_ok e" and "\<And>a. ar_unrealized_pnl (f a) = as_i64 (ar_unrealized_pnl a + d)"
    and "d = as_i64 (opt_val pr_unrealized_pnl new - opt_val pr_unrealized_pnl (position e u s))"
    and "re_accounts e2 = re_accounts e" and "re_positions e2 = re_positions (put_position u s new e)"
  shows "upnl_ok (with_account u f e2)"
  unfolding upnl_ok_def
proof (intro allI impI)
  fix v a assume a: "account (with_account u f e2) v = Some a"
  have dist: "distinct (map fst (re_positions e))" using assms(1) by (simp add: risk_wf_def)
  have acc: "account e2 = account e" using assms(5) by (simp add: account_def fun_eq_iff)
  show "eq64 (ar_unrealized_pnl a) (user_upnl v (re_positions (with_account u f e2)))"
  proof (cases "v = u")
    case True
    with a acc obtain b where b: "account e u = Some b" "a = f b" by auto
    with assms(2) have "eq64 (ar_unrealized_pnl b) (user_upnl u (re_positions e))" by (simp add: upnl_ok_def)
    then have "eq64 (ar_unrealized_pnl b + d) (user_upnl u (re_positions e) + (opt_val pr_unrealized_pnl new - opt_val pr_unrealized_pnl (position e u s)))"
      unfolding assms(4) by (intro eq64_add) simp_all
    with True b show ?thesis by (simp add: assms(3,6) upnl_put [OF dist])
  next
    case False
    with a acc assms(2) show ?thesis by (simp add: assms(6) upnl_put [OF dist] upnl_ok_def)
  qed
qed

lemma fill_upnl:
  assumes "risk_wf e" and "upnl_ok e" and "on_fill u s os px qty m sc lev rate liq e = Some e'"
  shows "upnl_ok e'"
proof (cases "0 < qty")
  case True
  from assms(3) True show ?thesis
  proof (rule on_fill_parts)
    fix new released realized delta fm fd
    let ?e2 = "(if delta \<noteq> 0 then fund_add delta else id)
         (oi_add s (as_i64 (opt_val pr_qty_lots new - opt_val pr_qty_lots (position e u s))) (put_position u s new e))"
    let ?f = "settle_account liq m released realized fm fd
          (as_i64 (opt_val pr_unrealized_pnl new - opt_val pr_unrealized_pnl (position e u s)))
          (as_i64 (opt_val pr_maintenance_margin new - opt_val pr_maintenance_margin (position e u s)))"
    assume e': "e' = index_update u s (seed_mark s px (with_account u ?f ?e2))"
    have "upnl_ok (with_account u ?f ?e2)"
      by (rule upnl_reprice [OF assms(1,2)]) (auto simp: settle_fields)
    then show ?thesis using upnl_sel [of e' "with_account u ?f ?e2"] by (simp add: e')
  qed
qed (use assms in \<open>simp add: on_fill_def\<close>)

lemma mark_users_upnl: "mark_users s mk sc us e = Some e' \<Longrightarrow> risk_inv e \<Longrightarrow> upnl_ok e \<Longrightarrow> upnl_ok e'"
proof (induction s mk sc us e rule: mark_users.induct)
  case (2 s mk sc uid uids e)
  show ?case
  proof (cases "position e uid s")
    case (Some p)
    with "2.prems"(1) obtain q where q: "mark_position mk sc p = Some q"
      "mark_users s mk sc uids (with_account uid (mark_account (as_i64 (pr_unrealized_pnl q - pr_unrealized_pnl p)))
         (put_position uid s (Some q) e)) = Some e'" (is "mark_users _ _ _ _ ?e1 = _")
      by (auto simp: Option.bind_eq_Some_conv Let_def)
    have "risk_inv (put_position uid s (Some q) e)"
      by (rule inv_put_same [OF "2.prems"(2) Some mark_position_qty [OF q(1)]])
    then have "risk_inv ?e1" by (rule inv_with) (simp add: mark_account_fields)
    moreover have "upnl_ok ?e1"
      using "2.prems"(2,3) Some
      by (intro upnl_reprice [of e _ _ "Some q" uid s]) (auto simp: risk_inv_def mark_account_def Let_def)
    ultimately show ?thesis using "2.IH"(2) [OF Some q(1)] q(2) by simp
  qed (use 2 in auto)
qed simp

lemma adl_pairs_upnl:
  "adl_pairs s sc lev rate b side px cands left evs e = Some (evs', e') \<Longrightarrow> risk_inv e \<Longrightarrow> upnl_ok e \<Longrightarrow> upnl_ok e'"
proof (induction cands arbitrary: left evs e)
  case (Cons c cands)
  obtain v q score where c: "c = (v, q, score)" by (cases c)
  show ?case
  proof (cases "0 < left")
    case True
    from Cons.prems(1) [unfolded c] True show ?thesis
    proof (rule adl_pairs_step)
      fix e1 e2
      assume 1: "on_fill v s (if side = Long then 0 else 1) px (min left q) 0 sc lev rate 0 e = Some e1"
        and 2: "on_fill b s (if side = Long then 1 else 0) px (min left q) 0 sc lev rate px e1 = Some e2"
        and 3: "adl_pairs s sc lev rate b side px cands (as_i64 (left - min left q))
          (evs @ [\<lparr>ae_bankrupt_user_id = b, ae_counterparty_user_id = v, ae_qty_lots = min left q, ae_price_ticks = px\<rparr>]) e2 = Some (evs', e')"
      have i1: "risk_inv e1" and i2: "risk_inv e2" using fill_inv [OF Cons.prems(2) 1] fill_inv [OF _ 2] by blast+
      have "upnl_ok e1" using fill_upnl [OF _ Cons.prems(3) 1] Cons.prems(2) by (simp add: risk_inv_def)
      then have "upnl_ok e2" using fill_upnl [OF _ _ 2] i1 by (simp add: risk_inv_def)
      with Cons.IH [OF 3 i2] show ?thesis .
    qed
  qed (use Cons.prems c in simp)
qed simp

lemma socialize_upnl: "upnl_ok e \<Longrightarrow> upnl_ok (socialize b e)"
  using upnl_sel [of "fund_add d e" e for d]
  by (auto simp: socialize_eq Let_def split: option.split intro!: upnl_with)

lemma adl_bankrupts_upnl:
  "adl_bankrupts s sc lev rate hs bs evs e = Some (evs', e') \<Longrightarrow> risk_inv e \<Longrightarrow> upnl_ok e \<Longrightarrow> upnl_ok e'"
proof (induction bs arbitrary: evs e)
  case (Cons x bs)
  obtain uid side qty px where x: "x = (uid, side, qty, px)" by (cases x)
  with Cons.prems(1) obtain evs1 e1 where
    1: "adl_pairs s sc lev rate uid side px (adl_candidates e s hs uid side) qty evs e = Some (evs1, e1)"
    and 2: "adl_bankrupts s sc lev rate hs bs evs1 (socialize uid e1) = Some (evs', e')"
    by (auto simp: Option.bind_eq_Some_conv)
  show ?case
    by (rule Cons.IH [OF 2 socialize_inv [OF adl_pairs_inv [OF 1 Cons.prems(2)]] socialize_upnl [OF adl_pairs_upnl [OF 1 Cons.prems(2,3)]]])
qed simp

lemma user_upnl_unexposed: "\<not> exposed e u \<Longrightarrow> user_upnl u (re_positions e) = 0"
proof -
  have "u \<notin> (fst \<circ> fst) ` set ps \<Longrightarrow> user_upnl u ps = 0" for ps
    by (induction ps) (auto simp: user_upnl_def)
  then show "\<not> exposed e u \<Longrightarrow> user_upnl u (re_positions e) = 0" by (simp add: exposed_def)
qed

lemma apply_statuses_upnl: "upnl_ok e \<Longrightarrow> upnl_ok (foldl apply_status e ups)"
proof (induction ups arbitrary: e)
  case (Cons x ups)
  then have "upnl_ok (apply_status e x)" by (cases x) (simp add: apply_status_with upnl_with)
  with Cons.IH show ?case by simp
qed simp

lemma risk_step_upnl: "risk_step adl e e' \<Longrightarrow> risk_inv e \<Longrightarrow> upnl_ok e \<Longrightarrow> upnl_ok e'"
proof (induction rule: risk_step.induct)
  case (init e u bal)
  then show ?case
    by (auto simp: upnl_ok_def account_def initialize_account_def AList.update_conv' AccountRiskState_new_def user_upnl_unexposed
        split: if_splits)
next
  case (force_mark e s px)
  then show ?case by (simp add: force_mark_price_def upnl_ok_def account_def)
next
  case (fee e u f)
  then have "upnl_ok (with_account u (\<lambda>a. a\<lparr>ar_equity := as_i64 (ar_equity a - f), ar_available_margin := as_i64 (ar_available_margin a - f)\<rparr>) e)"
    by (intro upnl_with) simp_all
  with fee show ?case by (simp add: charge_fee_def upnl_ok_def)
next
  case (fill u s os px qty m sc lev rate liq e e')
  then show ?case unfolding risk_inv_def by (elim conjE) (rule fill_upnl)
next
  case (mark s px sc e e')
  have "risk_inv (e\<lparr>re_mark_prices := x\<rparr>) = risk_inv e" "upnl_ok (e\<lparr>re_mark_prices := x\<rparr>) = upnl_ok e" for x
    by (simp_all add: risk_inv_def risk_wf_def oi_ok_def index_ok_def has_open_def position_def upnl_ok_def account_def)
  with mark mark_users_upnl [of s _ sc _ _ e'] show ?case by (auto simp: update_mark_price_def Let_def split: if_splits)
next
  case (deleverage s sc lev rate e evs e')
  from deleverage(2-4) show ?case unfolding run_adl_def Let_def by (rule adl_bankrupts_upnl)
qed (auto simp: set_account_status_def set_account_status_if_def check_and_reserve_margin_def release_order_margin_def
    run_risk_tick_eq apply_statuses_upnl split: option.split intro!: upnl_with)

lemma risk_run_upnl: "risk_run adl e \<Longrightarrow> upnl_ok e"
proof (induction rule: risk_run.induct)
  case start
  show ?case by (simp add: upnl_ok_def account_def RiskEngine_new_def)
next
  case (step e e')
  then show ?case using risk_step_upnl risk_run_inv by blast
qed

end
