(* ===== verification/RiskProps.thy ===== *)
theory RiskProps
  imports RiskRuns
begin

text \<open>
  The properties of the risk engine: conservation of the ledger by trades and liquidations, what
  every reachable engine keeps, the risk tick, margin reservations, fees, deleveraging, and the
  places where the accounting of a fill is not exact.
\<close>

definition demo_symbol :: symbol16 where
  "demo_symbol = [66, 84, 67] @ replicate 13 0"

definition demo_risk :: RiskEngine where
  "demo_risk =
     snd (check_and_reserve_margin 2 100000000
       (snd (check_and_reserve_margin 1 100000000
         (initialize_account 2 10000000000 (initialize_account 1 10000000000 RiskEngine_new)))))"

text \<open>User 1 is long ten lots and user 2 short ten lots, opened at 100 ticks.\<close>

definition demo_traded :: "RiskEngine exec" where
  "demo_traded = do {
     e \<leftarrow> on_fill 1 demo_symbol 0 100 10 100000000 1 10 50 0 demo_risk;
     on_fill 2 demo_symbol 1 100 10 100000000 1 10 50 0 e
   }"

text \<open>A user with a single tenfold position whose mark falls to 904 ticks.\<close>

definition demo_falling :: "RiskEngine exec" where
  "demo_falling = do {
     e \<leftarrow> on_fill 1 demo_symbol 0 1000 1 100000000 1 10 50 0
           (snd (check_and_reserve_margin 1 100000000 (initialize_account 1 100000000 RiskEngine_new)));
     update_mark_price demo_symbol 40 1 e
   }"

subsection \<open>Conservation\<close>

lemma plain_fill_ledger:
  assumes "risk_wf e" and "account e u = Some a"
    and "covers a (position e u s) (fill_side_of os) qty margin liq"
    and "on_fill u s os price qty margin sc lev rate liq e = Some e'" and "0 < qty" "in_i64 qty" and "os \<le> 1"
    and "\<forall>p. position e u s = Some p \<longrightarrow> 0 < pr_qty_lots p \<and> in_i64 (pr_qty_lots p)"
    and "\<not> flips (position e u s) (fill_side_of os) qty"
    and "if liq = 0 then ar_status a \<noteq> Liquidating else closes (position e u s) (fill_side_of os)"
  shows "\<exists>v. calc_notional_atoms price qty sc = Some v \<and> eq64 (ledger e') (ledger e - side_sign (fill_side_of os) * v)"
proof -
  obtain new released realized delta fm fd v where
    upd: "compute_position_update (position e u s) u s (fill_side_of os) (if liq \<noteq> 0 then liq else price) qty margin sc lev rate
       = Some (new, released, realized)"
    and ins: "insurance_delta e u os price qty liq sc released realized = Some delta"
    and fp: "flip_parts new (fill_side_of os) margin qty = Some (fm, fd)"
    and v: "booked_value (position e u s) (fill_side_of os) (if liq \<noteq> 0 then liq else price) qty sc = Some v"
    and rel: "0 < released \<longleftrightarrow> closes (position e u s) (fill_side_of os)"
    and led: "eq64 (ledger e') (ledger e - side_sign (fill_side_of os) * v + delta +
      (if closes (position e u s) (fill_side_of os) then fd else 0))"
    using on_fill_ledger [OF assms(1-6,8)] by blast
  have v': "calc_notional_atoms (if liq \<noteq> 0 then liq else price) qty sc = Some v"
    using v booked_plain [OF assms(9)] by simp
  have dust: "fd = 0" if "closes (position e u s) (fill_side_of os)"
    using upd
  proof (cases rule: position_update_cases)
    case (flipped pos x w p)
    with assms(9) have "qty = pr_qty_lots pos" by (auto simp: flips_def)
    with flipped show ?thesis by simp
  qed (use that fp in \<open>auto simp: closes_def flip_parts_def\<close>)
  show ?thesis
  proof (cases "liq = 0")
    case True
    with ins assms(2,10) have "delta = 0" by (auto simp: insurance_delta_def split: if_splits)
    with True v' led dust show ?thesis by (auto split: if_splits)
  next
    case False
    with assms(10) rel have c: "closes (position e u s) (fill_side_of os)" "0 < released" by simp_all
    with ins False v' obtain w where w: "calc_notional_atoms price qty sc = Some w"
      and delta: "delta = as_i64 ((if os = 1 then 1 else -1) * as_i64 (w - v))"
      by (auto simp: insurance_delta_def Option.bind_eq_Some_conv)
    have sg: "(if os = 1 then 1 else -1) = - side_sign (fill_side_of os)"
      using assms(7) by (auto simp: fill_side_of_def)
    have "eq64 delta (- side_sign (fill_side_of os) * (w - v))"
      unfolding delta sg eq64_as_i64 by (intro eq64_mult) simp_all
    from eq64_add [OF eq64_refl [of "ledger e - side_sign (fill_side_of os) * v"] this]
    have "eq64 (ledger e - side_sign (fill_side_of os) * v + delta) (ledger e - side_sign (fill_side_of os) * w)"
      by (simp add: algebra_simps)
    with led dust [OF c(1)] c w show ?thesis by (auto intro: eq64_trans)
  qed
qed


text \<open>The witness: user 1, long ten lots from 100 ticks, is liquidated for four of them at 91 ticks and filled at 95.\<close>

lemma demo_traded_eval:
  "map_option (\<lambda>e. (position e 1 demo_symbol, account e 1)) demo_traded =
     Some (Some \<lparr>pr_user_id = 1, pr_symbol = demo_symbol, pr_side = Long, pr_qty_lots = 10, pr_cost_atoms = 1000000000,
        pr_entry_price_ticks = 100, pr_mark_price_ticks = 100, pr_unrealized_pnl = 0, pr_initial_margin = 100000000,
        pr_maintenance_margin = 5000000, pr_liquidation_price_ticks = 90, pr_bankruptcy_price_ticks = 90, pr_leverage = 10\<rparr>,
      Some \<lparr>ar_user_id = 1, ar_equity = 10000000000, ar_available_margin = 9900000000, ar_order_margin = 0,
        ar_used_margin = 100000000, ar_maintenance_margin = 5000000, ar_unrealized_pnl = 0, ar_status = Normal,
        ar_mark_price_ever_updated = False\<rparr>)"
  by code_simp

lemma demo_risk_run: "risk_run False demo_risk"
  unfolding demo_risk_def
  by (intro risk_run.step [OF _ risk_step.reserve] risk_run.step [OF risk_run.step [OF risk_run.start risk_step.init] risk_step.init])
    (simp_all add: account_def exposed_def initialize_account_def RiskEngine_new_def)

lemma demo_traded_run: "demo_traded = Some e \<Longrightarrow> risk_run False e"
  unfolding demo_traded_def Option.bind_eq_Some_conv
  by (elim exE conjE) (rule risk_run.step [OF risk_run.step [OF demo_risk_run risk_step.fill] risk_step.fill])

lemma demo_traded_Some:
  obtains e where "demo_traded = Some e" "risk_inv e" "identities e"
    "position e 1 demo_symbol = Some \<lparr>pr_user_id = 1, pr_symbol = demo_symbol, pr_side = Long, pr_qty_lots = 10, pr_cost_atoms = 1000000000,
        pr_entry_price_ticks = 100, pr_mark_price_ticks = 100, pr_unrealized_pnl = 0, pr_initial_margin = 100000000,
        pr_maintenance_margin = 5000000, pr_liquidation_price_ticks = 90, pr_bankruptcy_price_ticks = 90, pr_leverage = 10\<rparr>"
    "account e 1 = Some \<lparr>ar_user_id = 1, ar_equity = 10000000000, ar_available_margin = 9900000000, ar_order_margin = 0,
        ar_used_margin = 100000000, ar_maintenance_margin = 5000000, ar_unrealized_pnl = 0, ar_status = Normal,
        ar_mark_price_ever_updated = False\<rparr>"
  using demo_traded_eval demo_traded_run risk_run_inv risk_run_identities by (cases demo_traded) auto


lemma fill_elsewhere:
  assumes "on_fill u s os price qty margin sc lev rate liq e = Some e'"
  shows "v \<noteq> u \<Longrightarrow> account e' v = account e v" and "(v, t) \<noteq> (u, s) \<Longrightarrow> position e' v t = position e v t"
proof -
  have "(v \<noteq> u \<longrightarrow> account e' v = account e v) \<and> ((v, t) \<noteq> (u, s) \<longrightarrow> position e' v t = position e v t)"
  proof (cases "0 < qty")
    case True
    from assms True show ?thesis by (rule on_fill_parts) auto
  qed (use assms in \<open>simp add: on_fill_def\<close>)
  then show "v \<noteq> u \<Longrightarrow> account e' v = account e v" "(v, t) \<noteq> (u, s) \<Longrightarrow> position e' v t = position e v t"
    by blast+
qed

text \<open>
  C15. Zero sum: booking the two legs of a trade, one buyer and one seller at the same price and
  quantity, leaves the ledger of the venue unchanged in \<open>i64\<close> arithmetic, and exactly so when the
  ledger is in range before and after. Each side opens, adds to, reduces or closes its position. The
  conditions are that the two accounts are different and neither is being liquidated, that no side
  flips its position, and that each account covers its leg (\<open>covers\<close>): the margin of the order is
  reserved, and a position that the leg reduces has its margin in use, of which a partial close
  frees at least one atom, with products within \<open>i64\<close>.
\<close>

theorem trade_conserves_ledger:
  assumes "risk_inv e" and "u \<noteq> v" and "account e u = Some a" and "account e v = Some b"
    and "covers a (position e u s) Long qty mu 0" and "covers b (position e v s) Short qty mv 0"
    and "ar_status a \<noteq> Liquidating" and "ar_status b \<noteq> Liquidating"
    and "\<forall>p. position e u s = Some p \<or> position e v s = Some p \<longrightarrow> 0 < pr_qty_lots p \<and> in_i64 (pr_qty_lots p)"
    and "\<not> flips (position e u s) Long qty" and "\<not> flips (position e v s) Short qty" and "0 < qty" and "in_i64 qty"
    and "on_fill u s 0 price qty mu sc lev_u rate 0 e = Some e1" and "on_fill v s 1 price qty mv sc lev_v rate 0 e1 = Some e2"
  shows "eq64 (ledger e2) (ledger e) \<and> (in_i64 (ledger e) \<and> in_i64 (ledger e2) \<longrightarrow> ledger e2 = ledger e)"
proof -
  have "risk_inv e1" by (rule fill_inv [OF assms(1,14)])
  have same: "account e1 v = account e v" "position e1 v s = position e v s"
    using fill_elsewhere [OF assms(14)] assms(2) by auto
  obtain x where x: "calc_notional_atoms price qty sc = Some x" "eq64 (ledger e1) (ledger e - x)"
    using plain_fill_ledger [of e u a s 0 qty mu 0 price sc lev_u rate e1] assms by (auto simp: fill_side_of_def risk_inv_def)
  obtain y where y: "calc_notional_atoms price qty sc = Some y" "eq64 (ledger e2) (ledger e1 + y)"
    using plain_fill_ledger [of e1 v b s 1 qty mv 0 price sc lev_v rate e2] assms \<open>risk_inv e1\<close> same
    by (auto simp: fill_side_of_def risk_inv_def)
  from x(1) y eq64_trans [OF y(2) eq64_add [OF x(2) eq64_refl]] have "eq64 (ledger e2) (ledger e)" by simp
  then show ?thesis by (auto dest: eq64_exact)
qed

theorem trade_conserves_ledger_witness:
  "\<exists>e1 e2. on_fill 1 demo_symbol 0 100 10 100000000 1 10 50 0 demo_risk = Some e1 \<and>
     on_fill 2 demo_symbol 1 100 10 100000000 1 10 50 0 e1 = Some e2 \<and> eq64 (ledger e2) (ledger demo_risk)"
proof -
  have acct: "account demo_risk u = Some \<lparr>ar_user_id = u, ar_equity = 10000000000, ar_available_margin = 9900000000,
      ar_order_margin = 100000000, ar_used_margin = 0, ar_maintenance_margin = 0, ar_unrealized_pnl = 0,
      ar_status = Normal, ar_mark_price_ever_updated = False\<rparr>" "position demo_risk u demo_symbol = None" if "u = 1 \<or> u = 2" for u
    using that by (elim disjE; hypsubst; code_simp)+
  from demo_traded_Some obtain e2 where "demo_traded = Some e2" by blast
  then obtain e1 where e: "on_fill 1 demo_symbol 0 100 10 100000000 1 10 50 0 demo_risk = Some e1"
    "on_fill 2 demo_symbol 1 100 10 100000000 1 10 50 0 e1 = Some e2"
    by (auto simp: demo_traded_def Option.bind_eq_Some_conv)
  show ?thesis
    using e trade_conserves_ledger [OF risk_run_inv [OF demo_risk_run] _ acct(1) acct(1) _ _ _ _ _ _ _ _ _ e]
    by (auto simp: covers_def flips_def in_i64_def acct(2))
qed

subsection \<open>Fills return\<close>

lemma div_returns: "0 < b \<Longrightarrow> \<exists>v. div_i64 a b = Some v" "0 < b \<Longrightarrow> \<exists>v. rem_i64 a b = Some v" "0 < b \<Longrightarrow> \<exists>v. div_i128 a b = Some v"
  by (simp_all add: div_i64_def rem_i64_def div_i128_def)

lemma calc_returns:
  "0 < sc \<Longrightarrow> \<exists>v. calc_notional_atoms p q sc = Some v"
  "0 < sc \<Longrightarrow> \<exists>v. calc_unrealized_pnl_atoms side q en mk sc = Some v"
  "0 < lev \<Longrightarrow> \<exists>v. calc_bankruptcy_price_ticks p lev side = Some v"
  using div_returns(3) [of sc] div_returns(3) [of lev]
  by (auto simp: calc_notional_atoms_def calc_unrealized_pnl_atoms_def calc_bankruptcy_price_ticks_def Let_def
      Option.bind_eq_Some_conv split: PositionSide.split)

lemma refresh_returns:
  assumes "0 < sc" and "0 < pr_leverage p"
  shows "\<exists>q r. refresh_risk_fields sc rate p = Some q \<and> refresh_unrealized_pnl sc q = Some r"
  using calc_returns(1) [OF assms(1)] calc_returns(2) [OF assms(1)] calc_returns(3) [OF assms(2)]
  by (fastforce simp: refresh_risk_fields_def refresh_unrealized_pnl_def Option.bind_eq_Some_conv)

lemma open_returns: "0 < sc \<Longrightarrow> 0 < lev \<Longrightarrow> \<exists>p. open_position u s side px q m sc lev rate = Some p"
  using calc_returns(1) [of sc px q] calc_returns(3) [of lev px side]
  by (auto simp: open_position_def Option.bind_eq_Some_conv)

lemma update_returns:
  assumes "0 < sc" and "0 < lev" and "0 < qty"
    and "\<forall>p. existing = Some p \<longrightarrow> 0 < pr_leverage p \<and> 0 < pr_qty_lots p \<and> in_i64 (pr_qty_lots p + qty)"
  shows "\<exists>x. compute_position_update existing u s side px qty m sc lev rate = Some x"
proof (cases existing)
  case None
  with open_returns [OF assms(1,2)] show ?thesis
    by (simp add: compute_position_update_def Option.bind_eq_Some_conv)
next
  case (Some p)
  with assms(4) have p: "0 < pr_leverage p" "0 < pr_qty_lots p" "in_i64 (pr_qty_lots p + qty)" by simp_all
  have lev: "pr_leverage (p\<lparr>pr_mark_price_ticks := a, pr_qty_lots := b, pr_cost_atoms := c, pr_initial_margin := d\<rparr>) = pr_leverage p"
    "pr_leverage (p\<lparr>pr_mark_price_ticks := a, pr_entry_price_ticks := f, pr_qty_lots := b, pr_cost_atoms := c, pr_initial_margin := d\<rparr>) = pr_leverage p"
    for a b c d f by simp_all
  have q: "0 < pr_qty_lots p + qty" using p assms(3) by simp
  consider (add) "pr_side p = side" | (close) "pr_side p \<noteq> side" "pr_qty_lots p \<le> qty" | (part) "pr_side p \<noteq> side" "qty < pr_qty_lots p"
    by linarith
  then show ?thesis
  proof cases
    case add
    obtain v where v: "calc_notional_atoms px qty sc = Some v" using calc_returns(1) [OF assms(1)] by blast
    obtain en where en: "div_i128 (as_i128 (pr_entry_price_ticks p * pr_qty_lots p + px * qty)) (pr_qty_lots p + qty) = Some en"
      using div_returns(3) [OF q] by blast
    have "\<exists>r. add_to_position p px qty m sc rate = Some r"
      unfolding add_to_position_def
      using v en p(3) refresh_returns [OF assms(1), of "p\<lparr>pr_mark_price_ticks := px, pr_entry_price_ticks := as_i64 en,
        pr_qty_lots := pr_qty_lots p + qty, pr_cost_atoms := as_i64 (pr_cost_atoms p + v),
        pr_initial_margin := as_i64 (pr_initial_margin p + m)\<rparr>" rate] p(1)
      by (auto simp: Let_def)
    with add Some show ?thesis by (auto simp: compute_position_update_def)
  next
    case close
    obtain v where v: "calc_notional_atoms px (pr_qty_lots p) sc = Some v" using calc_returns(1) [OF assms(1)] by blast
    obtain fm where fm: "div_i64 (as_i64 (m * as_i64 (qty - pr_qty_lots p))) qty = Some fm" using div_returns(1) [OF assms(3)] by blast
    obtain r where "open_position u s side px (as_i64 (qty - pr_qty_lots p)) fm sc lev rate = Some r"
      using open_returns [OF assms(1,2)] by blast
    with close Some v fm show ?thesis by (simp add: compute_position_update_def Let_def)
  next
    case part
    obtain c where c: "div_i128 (pr_cost_atoms p * qty) (pr_qty_lots p) = Some c" using div_returns(3) [OF p(2)] by blast
    obtain v where v: "calc_notional_atoms px qty sc = Some v" using calc_returns(1) [OF assms(1)] by blast
    obtain rm where rm: "div_i64 (as_i64 (pr_initial_margin p * qty)) (pr_qty_lots p) = Some rm" using div_returns(1) [OF p(2)] by blast
    from refresh_returns [OF assms(1), of "p\<lparr>pr_mark_price_ticks := px, pr_qty_lots := as_i64 (pr_qty_lots p - qty),
        pr_cost_atoms := as_i64 (pr_cost_atoms p - as_i64 c), pr_initial_margin := as_i64 (pr_initial_margin p - rm)\<rparr>" rate] p(1)
    show ?thesis using part Some c v rm by (auto simp: compute_position_update_def Let_def)
  qed
qed

text \<open>
  C19. No panic: with a positive notional scale and leverages and position sizes whose sum with the
  fill fits, \<open>on_fill\<close> returns on every path (open, add, reduce, close, flip, liquidation).
\<close>

theorem on_fill_returns:
  assumes "0 < sc" and "0 < lev"
    and "\<forall>p. position e u s = Some p \<longrightarrow> 0 < pr_leverage p \<and> 0 < pr_qty_lots p \<and> in_i64 (pr_qty_lots p + qty)"
  shows "\<exists>e'. on_fill u s os px qty m sc lev rate liq e = Some e'"
proof (cases "0 < qty")
  case True
  obtain new released realized where
    upd: "compute_position_update (position e u s) u s (if os = 0 then Long else Short) (if liq \<noteq> 0 then liq else px) qty m sc lev rate
      = Some (new, released, realized)"
    using update_returns [OF assms(1,2) True assms(3)] by (metis prod_cases3)
  have ins: "\<exists>d. insurance_delta e' u os px qty liq sc released realized = Some d" for e'
  proof -
    obtain v w where "calc_notional_atoms px qty sc = Some v" "calc_notional_atoms liq qty sc = Some w"
      using calc_returns(1) [OF assms(1)] by metis
    then show ?thesis by (simp add: insurance_delta_def)
  qed
  have fl: "\<exists>x y. flip_parts new (if os = 0 then Long else Short) m qty = Some (x, y)"
    using div_returns(2) [OF True] by (fastforce simp: flip_parts_def Option.bind_eq_Some_conv split: option.split)
  from fl obtain x y where fl: "flip_parts new (if os = 0 then Long else Short) m qty = Some (x, y)" by blast
  define d where "d e' = the (insurance_delta e' u os px qty liq sc released realized)" for e'
  have ins: "insurance_delta e' u os px qty liq sc released realized = Some (d e')" for e'
    using ins [of e'] by (auto simp: d_def)
  show ?thesis
    using True by (simp add: on_fill_def Let_def upd [simplified] ins fl [simplified] split: prod.split)
qed (simp add: on_fill_def)

theorem on_fill_returns_witness: "\<exists>e'. on_fill 1 demo_symbol 0 100 10 100000000 1 10 50 0 demo_risk = Some e'"
proof (rule on_fill_returns)
  have "position demo_risk 1 demo_symbol = None" by code_simp
  then show "\<forall>p. position demo_risk 1 demo_symbol = Some p \<longrightarrow> 0 < pr_leverage p \<and> 0 < pr_qty_lots p \<and> in_i64 (pr_qty_lots p + 10)"
    by simp
qed simp_all

subsection \<open>Lots\<close>

lemma position_update_lots:
  assumes "compute_position_update existing u s side price qty margin sc lev rate = Some (new, released, realized)"
  shows "eq64 (opt_val signed_lots new) (opt_val signed_lots existing + side_sign side * qty)"
  using assms
proof (cases rule: position_update_cases)
  case (opened v p)
  then show ?thesis by (simp add: signed_lots_def)
next
  case (added pos v p)
  have "eq64 (side_sign side * as_i64 (pr_qty_lots pos + qty)) (side_sign side * (pr_qty_lots pos + qty))"
    by (intro eq64_mult) simp_all
  with added show ?thesis by (simp add: signed_lots_def algebra_simps)
next
  case (closed pos v)
  have "eq64 (side_sign side * as_i64 (qty - pr_qty_lots pos)) (side_sign side * (qty - pr_qty_lots pos))"
    by (intro eq64_mult) simp_all
  with closed show ?thesis by (simp add: signed_lots_def side_sign_other [of "pr_side pos" side] algebra_simps)
next
  case (flipped pos v w p)
  have "eq64 (side_sign side * as_i64 (qty - pr_qty_lots pos)) (side_sign side * (qty - pr_qty_lots pos))"
    by (intro eq64_mult) simp_all
  with flipped show ?thesis by (simp add: signed_lots_def side_sign_other [of "pr_side pos" side] algebra_simps)
next
  case (reduced pos c v p)
  have "eq64 (- side_sign side * as_i64 (pr_qty_lots pos - qty)) (- side_sign side * (pr_qty_lots pos - qty))"
    by (intro eq64_mult) simp_all
  with reduced show ?thesis by (simp add: signed_lots_def side_sign_other [of "pr_side pos" side] algebra_simps)
qed

text \<open>
  C18. A fill moves the signed position of its user by exactly its signed quantity, through
  opening, adding, reducing, closing and flipping alike, and touches no other position and no
  other account.
\<close>

theorem fill_moves_lots:
  assumes "on_fill u s os price qty margin sc lev rate liq e = Some e'" and "0 < qty"
  shows "eq64 (opt_val signed_lots (position e' u s)) (opt_val signed_lots (position e u s) + side_sign (fill_side_of os) * qty) \<and>
    (\<forall>v t. (v, t) \<noteq> (u, s) \<longrightarrow> position e' v t = position e v t) \<and> (\<forall>v. v \<noteq> u \<longrightarrow> account e' v = account e v)"
proof -
  from assms obtain new released realized where
    "compute_position_update (position e u s) u s (fill_side_of os) (if liq \<noteq> 0 then liq else price) qty margin sc lev rate
       = Some (new, released, realized)" and "position e' u s = new"
    by (rule on_fill_parts) simp
  with position_update_lots fill_elsewhere [OF assms(1)] show ?thesis by blast
qed

theorem fill_moves_lots_witness:
  "\<exists>e e'. demo_traded = Some e \<and> on_fill 1 demo_symbol 1 95 13 0 1 10 50 0 e = Some e' \<and>
     eq64 (opt_val signed_lots (position e' 1 demo_symbol)) (10 - 13)"
proof -
  obtain e where e: "demo_traded = Some e"
    "position e 1 demo_symbol = Some \<lparr>pr_user_id = 1, pr_symbol = demo_symbol, pr_side = Long, pr_qty_lots = 10, pr_cost_atoms = 1000000000,
        pr_entry_price_ticks = 100, pr_mark_price_ticks = 100, pr_unrealized_pnl = 0, pr_initial_margin = 100000000,
        pr_maintenance_margin = 5000000, pr_liquidation_price_ticks = 90, pr_bankruptcy_price_ticks = 90, pr_leverage = 10\<rparr>"
    by (rule demo_traded_Some)
  have "Option.bind demo_traded (on_fill 1 demo_symbol 1 95 13 0 1 10 50 0) \<noteq> None" by code_simp
  then obtain e' where e': "on_fill 1 demo_symbol 1 95 13 0 1 10 50 0 e = Some e'" unfolding e(1) by auto
  with fill_moves_lots [OF e'] e show ?thesis by (auto simp: signed_lots_def fill_side_of_def)
qed

subsection \<open>Reachable engines\<close>

text \<open>
  C3. In every engine reached from the empty one by account openings, reservations, releases, fees,
  fills, mark updates, status changes, risk ticks and deleveraging, the open interest of a symbol
  is the sum of the open lots, the symbol index lists exactly the holders, and the unrealized
  profit of an account is the sum over its positions. In the runs without deleveraging, and only
  there, the equity of every account is moreover its available, order and used margin plus that
  profit: deleveraging writes the equity of the accounts it touches directly. All sums are \<open>i64\<close> sums.
\<close>

theorem reachable_risk_consistent:
  assumes "risk_run adl e"
  shows "eq64 (opt_val id (re_symbol_oi_lots e s)) (gross_lots s (re_positions e)) \<and>
    (u \<in> set (case re_symbol_position_index e s of None \<Rightarrow> [] | Some us \<Rightarrow> us) \<longleftrightarrow>
       (\<exists>p. position e u s = Some p \<and> 0 < pr_qty_lots p)) \<and>
    (account e u = Some a \<longrightarrow> eq64 (ar_unrealized_pnl a) (user_upnl u (re_positions e))) \<and>
    (\<not> adl \<and> account e u = Some a \<longrightarrow>
       eq64 (ar_equity a) (ar_available_margin a + ar_order_margin a + ar_used_margin a + user_upnl u (re_positions e)))"
proof -
  have i: "oi_ok e" "index_ok e" using risk_run_inv [OF assms] by (simp_all add: risk_inv_def)
  have up: "eq64 (ar_unrealized_pnl a) (user_upnl u (re_positions e))" if "account e u = Some a"
    using risk_run_upnl [OF assms] that by (simp add: upnl_ok_def)
  have eq: "eq64 (ar_equity a) (acct_cash a + user_upnl u (re_positions e))" if "\<not> adl" "account e u = Some a"
  proof -
    from that assms have "identities e" using risk_run_identities by simp
    with that have "margin_identity a" by (auto simp: identities_def account_def dest!: map_of_SomeD)
    then have "eq64 (ar_equity a) (acct_cash a + ar_unrealized_pnl a)" by (simp add: margin_identity_def)
    from eq64_trans [OF this eq64_add [OF eq64_refl up [OF that(2)]]] show ?thesis .
  qed
  show ?thesis
    using i(1) i(2) up eq by (simp add: oi_ok_def index_ok_def has_open_def acct_cash_def)
qed

theorem reachable_risk_consistent_witness:
  "\<exists>e. demo_traded = Some e \<and> eq64 (opt_val id (re_symbol_oi_lots e demo_symbol)) (gross_lots demo_symbol (re_positions e)) \<and>
     1 \<in> set (case re_symbol_position_index e demo_symbol of None \<Rightarrow> [] | Some us \<Rightarrow> us)"
proof -
  obtain e where e: "demo_traded = Some e"
    "position e 1 demo_symbol = Some \<lparr>pr_user_id = 1, pr_symbol = demo_symbol, pr_side = Long, pr_qty_lots = 10, pr_cost_atoms = 1000000000,
        pr_entry_price_ticks = 100, pr_mark_price_ticks = 100, pr_unrealized_pnl = 0, pr_initial_margin = 100000000,
        pr_maintenance_margin = 5000000, pr_liquidation_price_ticks = 90, pr_bankruptcy_price_ticks = 90, pr_leverage = 10\<rparr>"
    by (rule demo_traded_Some)
  from reachable_risk_consistent [OF demo_traded_run [OF e(1)], of demo_symbol 1 undefined] e show ?thesis by auto
qed

subsection \<open>The risk tick\<close>

text \<open>
  C17. A risk tick re-evaluates exactly the accounts that hold a position, have seen a mark price and
  are not already in liquidation: it changes only their status, to the one their equity and
  maintenance margin call for, and it emits one liquidation event for every position of every
  account that enters \<open>LiquidationPending\<close> in this tick, and no other.
\<close>

theorem risk_tick_exact:
  assumes "risk_inv e"
  shows "account (snd (run_risk_tick e)) u = map_option (if exposed e u then ticked else id) (account e u) \<and>
    re_positions (snd (run_risk_tick e)) = re_positions e \<and>
    fst (run_risk_tick e) = map liquidation_event (filter (\<lambda>((u, _), _). enters_liquidation e u) (re_positions e))"
  using tick_account [of e u] tick_events [of e] assms by (simp add: risk_inv_def run_risk_tick_eq statuses_sel)

lemma demo_falling_run: "demo_falling = Some e \<Longrightarrow> risk_run False e"
  unfolding demo_falling_def Option.bind_eq_Some_conv
  by (elim exE conjE) (rule risk_run.step [OF risk_run.step [OF risk_run.step [OF risk_run.step
      [OF risk_run.start risk_step.init] risk_step.reserve] risk_step.fill] risk_step.mark],
      simp_all add: account_def exposed_def RiskEngine_new_def)

theorem risk_tick_exact_witness:
  "\<exists>e ev. demo_falling = Some e \<and> fst (run_risk_tick e) = [ev] \<and> le_user_id ev = 1 \<and> le_qty_lots ev = 1"
proof -
  have "demo_falling \<noteq> None" by code_simp
  then obtain e where e: "demo_falling = Some e" by blast
  have acct: "map_option (\<lambda>a. (ar_equity a, ar_maintenance_margin a, ar_used_margin a, ar_status a, ar_mark_price_ever_updated a))
      (Option.bind demo_falling (\<lambda>e. account e 1)) = Some (4000000, 5000000, 100000000, Normal, True)"
    by code_simp
  then obtain a where "account e 1 = Some a" "ar_equity a = 4000000" "ar_maintenance_margin a = 5000000" "ar_used_margin a = 100000000"
    "ar_status a = Normal" "ar_mark_price_ever_updated a"
    unfolding e by auto
  then have "enters_liquidation e 1"
    unfolding enters_liquidation_def by (intro exI [of _ a]) (simp add: ticked_def watched_def next_status_def)
  moreover have "map_option (\<lambda>e. map (\<lambda>(k, p). (k, pr_qty_lots p)) (re_positions e)) demo_falling = Some [((1, demo_symbol), 1)]"
    by code_simp
  then obtain p where "re_positions e = [((1, demo_symbol), p)]" "pr_qty_lots p = 1" unfolding e by auto
  ultimately show ?thesis
    using risk_tick_exact [OF risk_run_inv [OF demo_falling_run [OF e]], of 1] e by (auto simp: liquidation_event_def)
qed

subsection \<open>Reservations and fees\<close>

text \<open>
  C20. A reservation succeeds exactly when the account exists, may trade and has the margin
  available; it then moves that amount from available to order margin, never below zero for a
  balance that was not, and \<open>release_order_margin\<close> restores the account; a refusal changes
  nothing and says which of the three conditions failed.
\<close>

theorem reserve_release:
  assumes "\<And>a. account e u = Some a \<Longrightarrow> in_i64 (ar_available_margin a) \<and> in_i64 (ar_order_margin a)"
    and "0 \<le> m" and "check_and_reserve_margin u m e = (r, e1)"
  shows "case r of
      Inr m' \<Rightarrow> m' = m \<and> (\<exists>a. account e u = Some a \<and> can_place_order a \<and> m \<le> ar_available_margin a \<and>
        (\<exists>b. account e1 u = Some b \<and> ar_available_margin b = ar_available_margin a - m \<and> 0 \<le> ar_available_margin b \<and>
           eq64 (acct_cash b) (acct_cash a)) \<and>
        account (release_order_margin u m e1) u = Some a)
    | Inl err \<Rightarrow> e1 = e \<and>
        (err = ''Account not found'' \<and> account e u = None \<or>
         (\<exists>a. account e u = Some a \<and>
            (err = ''Account in liquidation'' \<and> \<not> can_place_order a \<or>
             err = ''Insufficient margin'' \<and> can_place_order a \<and> ar_available_margin a < m)))"
proof (cases "account e u")
  case (Some a)
  have r: "in_i64 (ar_available_margin a)" "in_i64 (ar_order_margin a)" using assms(1) [OF Some] by simp_all
  show ?thesis
  proof (cases "can_place_order a \<and> m \<le> ar_available_margin a")
    case True
    have "in_i64 (ar_available_margin a - m)" using r assms(2) True by (simp add: in_i64_diff_nonneg)
    moreover have "eq64 (ar_available_margin a - m + as_i64 (ar_order_margin a + m) + ar_used_margin a)
        (ar_available_margin a - m + (ar_order_margin a + m) + ar_used_margin a)"
      by (intro eq64_add) simp_all
    ultimately show ?thesis
      using True Some assms(2,3) r by (auto simp: check_and_reserve_margin_def release_order_margin_def acct_cash_def)
  qed (use Some assms(3) in \<open>auto simp: check_and_reserve_margin_def split: if_splits\<close>)
qed (use assms(3) in \<open>auto simp: check_and_reserve_margin_def\<close>)

theorem reserve_release_witness:
  "\<exists>e1. check_and_reserve_margin 1 40 (initialize_account 1 100 RiskEngine_new) = (Inr 40, e1) \<and>
     account (release_order_margin 1 40 e1) 1 = Some (AccountRiskState_new 1 100)"
proof -
  let ?e = "initialize_account 1 100 RiskEngine_new"
  obtain r e1 where r: "check_and_reserve_margin 1 40 ?e = (r, e1)" by (meson surj_pair)
  have a: "account ?e 1 = Some (AccountRiskState_new 1 100)" by code_simp
  have "fst (check_and_reserve_margin 1 40 ?e) = Inr 40" by code_simp
  with r have "r = Inr 40" by simp
  with reserve_release [OF _ _ r] a r show ?thesis
    by (simp add: AccountRiskState_new_def in_i64_def)
qed

text \<open>
  A fee moves money between an account and the insurance fund: equity plus fund is unchanged
  (in \<open>i64\<close> arithmetic), fees and rebates alike, when the account exists; for an unknown user the
  fund is credited all the same, so the total grows by the fee.
\<close>

theorem charge_fee_wealth:
  "eq64 (wealth (charge_fee u fee e)) (wealth e + (if account e u = None then fee else 0))"
proof -
  let ?f = "\<lambda>a. a\<lparr>ar_equity := as_i64 (ar_equity a - fee), ar_available_margin := as_i64 (ar_available_margin a - fee)\<rparr>"
  let ?S = "kv_sum (\<lambda>(_, a). ar_equity a) (re_accounts e)"
  have S: "kv_sum (\<lambda>(_, a). ar_equity a) (re_accounts (with_account u ?f e)) = ?S + opt_val (\<lambda>a. ar_equity (?f a) - ar_equity a) (account e u)"
    by (rule account_sum_with)
  have "eq64 (?S + opt_val (\<lambda>a. ar_equity (?f a) - ar_equity a) (account e u) + as_i64 (re_insurance_fund_atoms e + fee))
      (?S + opt_val (\<lambda>a. - fee) (account e u) + (re_insurance_fund_atoms e + fee))"
  proof (intro eq64_add)
    show "eq64 (opt_val (\<lambda>a. ar_equity (?f a) - ar_equity a) (account e u)) (opt_val (\<lambda>a. - fee) (account e u))"
    proof (cases "account e u")
      case (Some a)
      have "eq64 (as_i64 (ar_equity a - fee) - ar_equity a) ((ar_equity a - fee) - ar_equity a)"
        by (intro eq64_diff) simp_all
      with Some show ?thesis by simp
    qed simp
  qed simp_all
  then show ?thesis
    by (cases "account e u") (auto simp: charge_fee_def wealth_def S add.assoc)
qed

subsection \<open>Mark prices\<close>

lemma mark_users_marks: "mark_users s mk sc us e = Some e' \<Longrightarrow> re_mark_prices e' = re_mark_prices e"
  by (induction s mk sc us e rule: mark_users.induct) (auto simp: Option.bind_eq_Some_conv Let_def split: option.splits)

lemma mark_users_Cons:
  assumes "mark_users s mk sc (v # us) e = Some e'"
  obtains (skip) "position e v s = None" "mark_users s mk sc us e = Some e'"
  | (mark) r q where "position e v s = Some r" "mark_position mk sc r = Some q"
      "mark_users s mk sc us (with_account v (mark_account (as_i64 (pr_unrealized_pnl q - pr_unrealized_pnl r)))
         (put_position v s (Some q) e)) = Some e'"
  using assms by (auto simp: Option.bind_eq_Some_conv Let_def split: option.splits)

lemma mark_users_elsewhere:
  "mark_users s mk sc us e = Some e' \<Longrightarrow> u \<notin> set us \<or> t \<noteq> s \<Longrightarrow> position e' u t = position e u t"
proof (induction us arbitrary: e)
  case (Cons v us)
  from Cons.prems(1) show ?case
    by (cases rule: mark_users_Cons) (use Cons.IH Cons.prems(2) in auto)
qed simp

lemma mark_users_position:
  "mark_users s mk sc us e = Some e' \<Longrightarrow> distinct us \<Longrightarrow> position e u s = Some p \<Longrightarrow> u \<in> set us \<Longrightarrow>
   \<exists>q. mark_position mk sc p = Some q \<and> position e' u s = Some q"
proof (induction us arbitrary: e)
  case (Cons v us)
  from Cons.prems(1) show ?case
  proof (cases rule: mark_users_Cons)
    case skip
    with Cons show ?thesis by auto
  next
    case (mark r q)
    show ?thesis
    proof (cases "u = v")
      case True
      with mark_users_elsewhere [OF mark(3), of u s] Cons.prems mark show ?thesis by auto
    qed (use Cons.IH [OF mark(3)] Cons.prems in auto)
  qed
qed simp

lemma weighted_between:
  fixes old new :: int
  assumes "0 < old" and "0 < new"
  shows "min old new \<le> (new + 9 * old) sdiv 10" and "(new + 9 * old) sdiv 10 \<le> max old new"
proof -
  have "(new + 9 * old) sdiv 10 = (new + 9 * old) div 10" using assms by (simp add: sdiv_pos)
  then show "min old new \<le> (new + 9 * old) sdiv 10" "(new + 9 * old) sdiv 10 \<le> max old new" by linarith+
qed

text \<open>
  C21. A mark update moves the mark of its symbol to a value between the old mark and the new price,
  reprices every open position of the symbol at it, and touches no other mark and no position of
  another symbol; a price that is not positive changes nothing.
\<close>

theorem mark_update_reprices:
  assumes "risk_inv e" and "update_mark_price s px sc e = Some e'" and "re_mark_prices e s = Some old" and "0 < old"
    and "in_i64 (9 * old)" and "in_i64 (px + 9 * old)"
  shows "if px \<le> 0 then e' = e
    else \<exists>mk. re_mark_prices e' = (re_mark_prices e)(s \<mapsto> mk) \<and> min old px \<le> mk \<and> mk \<le> max old px \<and>
      (\<forall>u p. position e u s = Some p \<and> 0 < pr_qty_lots p \<longrightarrow>
         (\<exists>x. calc_unrealized_pnl_atoms (pr_side p) (pr_qty_lots p) (pr_entry_price_ticks p) mk sc = Some x \<and>
            position e' u s = Some (p\<lparr>pr_mark_price_ticks := mk, pr_unrealized_pnl := x\<rparr>)))"
proof (cases "px \<le> 0")
  case False
  define mk where "mk = (px + 9 * old) sdiv 10"
  let ?e1 = "e\<lparr>re_mark_prices := (re_mark_prices e)(s \<mapsto> mk)\<rparr>"
  let ?us = "case re_symbol_position_index e s of None \<Rightarrow> [] | Some us \<Rightarrow> us"
  have users: "mark_users s mk sc ?us ?e1 = Some e'"
    using False assms(2,3,5,6) by (simp add: update_mark_price_def Let_def mk_def)
  have ix: "index_ok e" using assms(1) by (simp add: risk_inv_def)
  have "distinct ?us" and mem: "u \<in> set ?us \<longleftrightarrow> has_open e u s" for u using ix unfolding index_ok_def by blast+
  note pos = mark_users_position [OF users this(1)]
  have "\<exists>x. calc_unrealized_pnl_atoms (pr_side p) (pr_qty_lots p) (pr_entry_price_ticks p) mk sc = Some x \<and>
      position e' u s = Some (p\<lparr>pr_mark_price_ticks := mk, pr_unrealized_pnl := x\<rparr>)"
    if p: "position e u s = Some p" "0 < pr_qty_lots p" for u p
  proof -
    have "u \<in> set ?us" using p mem by (auto simp: has_open_def)
    have p1: "position ?e1 u s = Some p" using p by (simp add: position_def)
    from pos [OF p1 \<open>u \<in> set ?us\<close>] show ?thesis by (auto simp: mark_position_def Option.bind_eq_Some_conv)
  qed
  moreover have "re_mark_prices e' = (re_mark_prices e)(s \<mapsto> mk)" using mark_users_marks [OF users] by simp
  moreover have "min old px \<le> mk" "mk \<le> max old px"
    using weighted_between [OF assms(4), of px] False by (simp_all add: mk_def)
  ultimately show ?thesis using False by auto
qed (use assms in \<open>simp add: update_mark_price_def\<close>)

theorem mark_update_reprices_witness:
  "\<exists>e e'. demo_traded = Some e \<and> update_mark_price demo_symbol 60 1 e = Some e' \<and>
     (\<exists>mk p. re_mark_prices e' demo_symbol = Some mk \<and> 60 \<le> mk \<and> mk \<le> 100 \<and>
        position e' 1 demo_symbol = Some p \<and> pr_mark_price_ticks p = mk)"
proof -
  obtain e where e: "demo_traded = Some e" "risk_inv e"
    "position e 1 demo_symbol = Some \<lparr>pr_user_id = 1, pr_symbol = demo_symbol, pr_side = Long, pr_qty_lots = 10, pr_cost_atoms = 1000000000,
        pr_entry_price_ticks = 100, pr_mark_price_ticks = 100, pr_unrealized_pnl = 0, pr_initial_margin = 100000000,
        pr_maintenance_margin = 5000000, pr_liquidation_price_ticks = 90, pr_bankruptcy_price_ticks = 90, pr_leverage = 10\<rparr>"
    by (rule demo_traded_Some)
  have "Option.bind demo_traded (\<lambda>e. re_mark_prices e demo_symbol) = Some 100" by code_simp
  then have old: "re_mark_prices e demo_symbol = Some 100" by (simp add: e(1))
  have "Option.bind demo_traded (update_mark_price demo_symbol 60 1) \<noteq> None" by code_simp
  then obtain e' where e': "update_mark_price demo_symbol 60 1 e = Some e'" unfolding e(1) by auto
  from mark_update_reprices [OF e(2) e' old] e(1,3) e' show ?thesis by (fastforce simp: in_i64_def)
qed

subsection \<open>Where a fill is not exact\<close>

text \<open>
  A fill that flips a position books its two halves apart and then credits the remainder of
  the margin split once more: the margin of the new side is \<open>margin * rest / qty\<close>, everything
  else of the margin is already returned to the available balance, and the remainder
  \<open>margin * rest % qty\<close> is added on top. The ledger therefore moves by the booked value and, in
  addition, grows by that remainder.
\<close>

theorem flip_credits_remainder:
  assumes "risk_inv e" and "account e u = Some a" and "position e u s = Some p"
    and "covers a (Some p) (fill_side_of os) qty margin 0"
    and "on_fill u s os price qty margin sc lev rate 0 e = Some e'" and "in_i64 qty" and "os \<le> 1"
    and "pr_side p \<noteq> fill_side_of os" and "pr_qty_lots p < qty" and "in_i64 (pr_qty_lots p)" and "0 < pr_qty_lots p"
    and "in_i64 (margin * (qty - pr_qty_lots p))" and "ar_status a \<noteq> Liquidating"
  shows "\<exists>v w. calc_notional_atoms price (pr_qty_lots p) sc = Some v \<and> calc_notional_atoms price (qty - pr_qty_lots p) sc = Some w \<and>
    eq64 (ledger e') (ledger e - side_sign (fill_side_of os) * (v + w) + (margin * (qty - pr_qty_lots p)) smod qty)"
proof -
  have wf: "risk_wf e" using assms(1) by (simp add: risk_inv_def)
  have q: "0 < qty" "in_i64 (qty - pr_qty_lots p)" using assms(6,9,11) by (auto intro: in_i64_diff_nonneg)
  have fl: "flips (position e u s) (fill_side_of os) qty" "closes (position e u s) (fill_side_of os)"
    using assms(3,8,9) by (auto simp: flips_def closes_def)
  have cov: "covers a (position e u s) (fill_side_of os) qty margin 0" using assms(3,4) by simp
  have old: "\<forall>r. position e u s = Some r \<longrightarrow> 0 < pr_qty_lots r \<and> in_i64 (pr_qty_lots r)" using assms(3,10,11) by simp
  obtain new released realized delta fm fd v where
    upd: "compute_position_update (position e u s) u s (fill_side_of os) price qty margin sc lev rate = Some (new, released, realized)"
    and ins: "insurance_delta e u os price qty 0 sc released realized = Some delta"
    and fp: "flip_parts new (fill_side_of os) margin qty = Some (fm, fd)"
    and v: "booked_value (position e u s) (fill_side_of os) price qty sc = Some v"
    and led: "eq64 (ledger e') (ledger e - side_sign (fill_side_of os) * v + delta + fd)"
    using on_fill_ledger [OF wf assms(2) cov assms(5) q(1) assms(6) old] fl by auto
  have "delta = 0" using ins assms(2,13) by (auto simp: insurance_delta_def split: if_splits)
  moreover have "fd = (margin * (qty - pr_qty_lots p)) smod qty"
    using upd
  proof (cases rule: position_update_cases)
    case (flipped pos x y r)
    with assms(3,12) q fp show ?thesis
      by (auto simp: flip_parts_def rem_i64_def Option.bind_eq_Some_conv split: if_splits)
  qed (use assms(3,8,9) q in auto)
  ultimately show ?thesis
    using v led fl(1) q assms(3) by (auto simp: booked_value_def Option.bind_eq_Some_conv)
qed

theorem flip_credits_remainder_witness:
  "\<exists>e e'. map_option (\<lambda>e. snd (check_and_reserve_margin 1 100 e)) demo_traded = Some e \<and>
     on_fill 1 demo_symbol 1 100 13 100 1 10 50 0 e = Some e' \<and> eq64 (ledger e') (ledger e + 1300000000 + 1)"
proof -
  obtain e0 where e0: "demo_traded = Some e0" by (rule demo_traded_Some)
  define e where "e = snd (check_and_reserve_margin 1 100 e0)"
  have inv: "risk_inv e" unfolding e_def
    by (rule risk_run_inv [OF risk_run.step [OF demo_traded_run [OF e0] risk_step.reserve]])
  have ev: "map_option (\<lambda>e. (Option.bind (position e 1 demo_symbol) (\<lambda>p. Some (pr_side p, pr_qty_lots p, pr_initial_margin p)),
      Option.bind (account e 1) (\<lambda>a. Some (ar_order_margin a, ar_used_margin a, ar_status a))))
      (map_option (\<lambda>e. snd (check_and_reserve_margin 1 100 e)) demo_traded) =
      Some (Some (Long, 10, 100000000), Some (100, 100000000, Normal))"
    by code_simp
  then obtain p a where p: "position e 1 demo_symbol = Some p" "pr_side p = Long" "pr_qty_lots p = 10" "pr_initial_margin p = 100000000"
    and a: "account e 1 = Some a" "ar_order_margin a = 100" "ar_used_margin a = 100000000" "ar_status a = Normal"
    by (auto simp: e0 e_def Option.bind_eq_Some_conv)
  have "Option.bind (map_option (\<lambda>e. snd (check_and_reserve_margin 1 100 e)) demo_traded)
      (on_fill 1 demo_symbol 1 100 13 100 1 10 50 0) \<noteq> None" by code_simp
  then obtain e' where e': "on_fill 1 demo_symbol 1 100 13 100 1 10 50 0 e = Some e'" by (auto simp: e0 e_def)
  have "calc_notional_atoms 100 10 1 = Some 1000000000" "calc_notional_atoms 100 (13 - 10) 1 = Some 300000000" "(100 * (13 - 10)) smod 13 = (1 :: int)"
    by code_simp+
  with flip_credits_remainder [OF inv a(1) p(1) _ e'] p a show ?thesis
    using e' by (auto simp: covers_def fill_side_of_def in_i64_def e0 e_def)
qed

text \<open>
  A closing fill whose position carries no initial margin takes the opening branch of the
  account update: the position disappears and the cash of the account stays as it was, so the
  profit or loss of the position is dropped.
\<close>

theorem close_without_margin_drops_pnl:
  assumes "position e u s = Some p" and "pr_side p \<noteq> fill_side_of os" and "pr_initial_margin p = 0" and "0 < pr_qty_lots p"
    and "account e u = Some a" and "0 \<le> ar_order_margin a" and "in_i64 (ar_order_margin a)" and "in_i64 (ar_used_margin a)"
    and "on_fill u s os price (pr_qty_lots p) 0 sc lev rate 0 e = Some e'"
  shows "position e' u s = None \<and> (\<exists>b. account e' u = Some b \<and> acct_cash b = acct_cash a) \<and>
    insurance_fund e' = insurance_fund e"
proof -
  from assms(9,4) show ?thesis
  proof (rule on_fill_parts)
    fix new released realized delta fm fd
    let ?e2 = "(if delta \<noteq> 0 then fund_add delta else id)
         (oi_add s (as_i64 (opt_val pr_qty_lots new - opt_val pr_qty_lots (position e u s))) (put_position u s new e))"
    let ?f = "settle_account 0 0 released realized fm fd
          (as_i64 (opt_val pr_unrealized_pnl new - opt_val pr_unrealized_pnl (position e u s)))
          (as_i64 (opt_val pr_maintenance_margin new - opt_val pr_maintenance_margin (position e u s)))"
    assume upd: "compute_position_update (position e u s) u s (fill_side_of os) (if 0 \<noteq> (0::int) then 0 else price) (pr_qty_lots p) 0 sc lev rate
        = Some (new, released, realized)"
      and ins: "insurance_delta e u os price (pr_qty_lots p) 0 sc released realized = Some delta"
      and e': "e' = index_update u s (seed_mark s price (with_account u ?f ?e2))"
    from upd have new: "new = None" "released = 0"
      by (cases rule: position_update_cases; use assms(1-3) in simp)+
    with ins have "delta = 0" by (simp add: insurance_delta_def)
    with new assms(5-8) show ?thesis
      unfolding e' by (simp add: settle_fields acct_cash_def insurance_fund_def)
  qed
qed

theorem close_without_margin_drops_pnl_witness:
  "\<exists>e e' b. on_fill 1 demo_symbol 0 100 10 0 1 10 50 0 demo_risk = Some e \<and>
     on_fill 1 demo_symbol 1 50 10 0 1 10 50 0 e = Some e' \<and> position e' 1 demo_symbol = None \<and>
     account e' 1 = Some b \<and> acct_cash b = 10000000000"
proof -
  have ev: "map_option (\<lambda>e. (Option.bind (position e 1 demo_symbol) (\<lambda>p. Some (pr_side p, pr_qty_lots p, pr_initial_margin p)),
      Option.bind (account e 1) (\<lambda>a. Some (ar_available_margin a, ar_order_margin a, ar_used_margin a))))
      (on_fill 1 demo_symbol 0 100 10 0 1 10 50 0 demo_risk) = Some (Some (Long, 10, 0), Some (9900000000, 100000000, 0))"
    and ev': "Option.bind (on_fill 1 demo_symbol 0 100 10 0 1 10 50 0 demo_risk) (on_fill 1 demo_symbol 1 50 10 0 1 10 50 0) \<noteq> None"
    by code_simp+
  from ev obtain e p a where e: "on_fill 1 demo_symbol 0 100 10 0 1 10 50 0 demo_risk = Some e"
    and p: "position e 1 demo_symbol = Some p" "pr_side p = Long" "pr_qty_lots p = 10" "pr_initial_margin p = 0"
    and a: "account e 1 = Some a" "ar_available_margin a = 9900000000" "ar_order_margin a = 100000000" "ar_used_margin a = 0"
    by (auto simp: Option.bind_eq_Some_conv)
  from ev' e obtain e' where e': "on_fill 1 demo_symbol 1 50 10 0 1 10 50 0 e = Some e'" by auto
  with close_without_margin_drops_pnl [OF p(1) _ p(4) _ a(1), where os = 1 and price = 50 and sc = 1 and lev = 10 and rate = 50 and e' = e']
    p a e show ?thesis by (auto simp: fill_side_of_def in_i64_def acct_cash_def)
qed

end
