(* ===== verification/RiskAdl.thy ===== *)
theory RiskAdl
  imports RiskProps
begin

text \<open>
  Auto-deleveraging: which positions a bankrupt account is closed against, in what order and for
  how much, and what the socialization of the remaining deficit does to the accounts.
\<close>

definition demo_adl :: RiskEngine where
  "demo_adl = initialize_account 1 (- 500) RiskEngine_new"

subsection \<open>Pairings\<close>







subsection \<open>Socialization\<close>

text \<open>
  C23. Socializing a deficit moves it to the insurance fund: equity plus fund is unchanged in
  \<open>i64\<close> arithmetic. But the account is zeroed in equity and available margin only, so its margin
  identity survives exactly when its order margin, used margin and unrealized profit cancel;
  otherwise the next update that recomputes the equity creates or destroys the difference.
\<close>

theorem socialize_moves_deficit:
  assumes "account e b = Some a" and "ar_equity a < 0"
  shows "eq64 (wealth (socialize b e)) (wealth e) \<and>
    (\<exists>a'. account (socialize b e) b = Some a' \<and> ar_equity a' = 0 \<and> ar_available_margin a' = 0 \<and>
       (margin_identity a' \<longleftrightarrow> eq64 (ar_order_margin a + ar_used_margin a + ar_unrealized_pnl a) 0))"
proof -
  have "eq64 (kv_sum (\<lambda>(_, a). ar_equity a) (re_accounts e) - ar_equity a + as_i64 (re_insurance_fund_atoms e + ar_equity a))
      (kv_sum (\<lambda>(_, a). ar_equity a) (re_accounts e) - ar_equity a + (re_insurance_fund_atoms e + ar_equity a))"
    by (intro eq64_add) simp_all
  moreover have "eq64 0 x \<longleftrightarrow> eq64 x 0" for x using eq64_sym by blast
  ultimately show ?thesis
    using assms
    by (simp add: socialize_eq Let_def wealth_def account_sum_with margin_identity_def acct_cash_def algebra_simps)
qed

theorem socialize_moves_deficit_witness:
  "eq64 (wealth (socialize 1 demo_adl)) (wealth demo_adl) \<and> re_insurance_fund_atoms (socialize 1 demo_adl) = - 500"
proof -
  have "account demo_adl 1 = Some (AccountRiskState_new 1 (- 500))" by code_simp
  from socialize_moves_deficit [OF this] have "eq64 (wealth (socialize 1 demo_adl)) (wealth demo_adl)"
    by (simp add: AccountRiskState_new_def)
  moreover have "re_insurance_fund_atoms (socialize 1 demo_adl) = - 500" by code_simp
  ultimately show ?thesis by blast
qed

end
