(* ===== verification/RiskCas.thy ===== *)
theory RiskCas
  imports RiskEngine
begin

text \<open>
  The lock-free margin operations of \<open>src/desk/risk/engine.rs\<close> as interleaved atomic steps on one
  account: a reservation loads the available margin, retries its compare-exchange (which may also
  fail spuriously) and then adds to the order margin; a release is two fetch operations. Any
  number of callers run at once, and a step of one can fall between any two steps of another.
\<close>

datatype margin_call =
    ReserveLoad int
  | ReserveSwap int int
  | ReserveAdd int
  | Reserved int
  | Refused int
  | ReleaseAdd int
  | ReleaseSub int
  | Released int

record margin_state =
  ms_available :: int
  ms_order :: int
  ms_calls :: "margin_call list"

definition call_step :: "int \<Rightarrow> int \<Rightarrow> margin_call \<Rightarrow> (int \<times> int \<times> margin_call) list" where
  "call_step av om c =
     (case c of
        ReserveLoad m \<Rightarrow> [(av, om, if av < m then Refused m else ReserveSwap m av)]
      | ReserveSwap m cur \<Rightarrow>
          (if av = cur then [(as_i64 (cur - m), om, ReserveAdd m)] else []) @ [(av, om, ReserveLoad m)]
      | ReserveAdd m \<Rightarrow> [(av, as_i64 (om + m), Reserved m)]
      | ReleaseAdd m \<Rightarrow> [(as_i64 (av + m), om, ReleaseSub m)]
      | ReleaseSub m \<Rightarrow> [(av, as_i64 (om - m), Released m)]
      | Reserved _ \<Rightarrow> []
      | Refused _ \<Rightarrow> []
      | Released _ \<Rightarrow> [])"

inductive margin_step :: "margin_state \<Rightarrow> margin_state \<Rightarrow> bool" where
  step: "i < length (ms_calls s) \<Longrightarrow> (av, om, c) \<in> set (call_step (ms_available s) (ms_order s) (ms_calls s ! i)) \<Longrightarrow>
    margin_step s \<lparr>ms_available = av, ms_order = om, ms_calls = (ms_calls s)[i := c]\<rparr>"

definition call_amount :: "margin_call \<Rightarrow> int" where
  "call_amount c =
     (case c of ReserveLoad m \<Rightarrow> m | ReserveSwap m _ \<Rightarrow> m | ReserveAdd m \<Rightarrow> m | Reserved m \<Rightarrow> m | Refused m \<Rightarrow> m
      | ReleaseAdd m \<Rightarrow> m | ReleaseSub m \<Rightarrow> m | Released m \<Rightarrow> m)"

definition fresh_call :: "margin_call \<Rightarrow> bool" where
  "fresh_call c \<longleftrightarrow> (case c of ReserveLoad m \<Rightarrow> 0 \<le> m | ReleaseAdd m \<Rightarrow> 0 \<le> m | _ \<Rightarrow> False)"

definition is_release :: "margin_call \<Rightarrow> bool" where
  "is_release c \<longleftrightarrow> (case c of ReleaseAdd _ \<Rightarrow> True | ReleaseSub _ \<Rightarrow> True | Released _ \<Rightarrow> True | _ \<Rightarrow> False)"

text \<open>What the calls have taken from the available margin and put into the order margin so far.\<close>

definition taken :: "margin_call \<Rightarrow> int" where
  "taken c = (case c of ReserveAdd m \<Rightarrow> m | Reserved m \<Rightarrow> m | ReleaseSub m \<Rightarrow> - m | Released m \<Rightarrow> - m | _ \<Rightarrow> 0)"

definition booked :: "margin_call \<Rightarrow> int" where
  "booked c = (case c of Reserved m \<Rightarrow> m | Released m \<Rightarrow> - m | _ \<Rightarrow> 0)"

definition sum_calls :: "(margin_call \<Rightarrow> int) \<Rightarrow> margin_call list \<Rightarrow> int" where
  "sum_calls f cs = sum_list (map f cs)"

definition finished :: "margin_call \<Rightarrow> bool" where
  "finished c \<longleftrightarrow> (case c of Reserved _ \<Rightarrow> True | Refused _ \<Rightarrow> True | Released _ \<Rightarrow> True | _ \<Rightarrow> False)"

definition release_total :: "margin_call list \<Rightarrow> int" where
  "release_total cs = sum_calls (\<lambda>c. if is_release c then call_amount c else 0) cs"

definition swap_ok :: "margin_call \<Rightarrow> bool" where
  "swap_ok c \<longleftrightarrow> (case c of ReserveSwap m cur \<Rightarrow> m \<le> cur | _ \<Rightarrow> True)"

definition margin_inv :: "int \<Rightarrow> int \<Rightarrow> margin_state \<Rightarrow> bool" where
  "margin_inv av0 om0 s \<longleftrightarrow>
     ms_available s + sum_calls taken (ms_calls s) = av0 \<and> 0 \<le> ms_available s \<and>
     eq64 (ms_order s) (om0 + sum_calls booked (ms_calls s)) \<and>
     (\<forall>c \<in> set (ms_calls s). 0 \<le> call_amount c \<and> swap_ok c)"

definition demo_race :: margin_state where
  "demo_race = \<lparr>ms_available = 100, ms_order = 0, ms_calls = [ReserveLoad 60, ReserveLoad 70]\<rparr>"

lemma sum_calls_update:
  "i < length cs \<Longrightarrow> sum_calls f (cs[i := c]) = sum_calls f cs - f (cs ! i) + f c"
  by (induction cs arbitrary: i) (auto simp: sum_calls_def nth_Cons split: nat.split)

lemma sum_calls_zero: "(\<And>c. c \<in> set cs \<Longrightarrow> f c = 0) \<Longrightarrow> sum_calls f cs = 0"
  by (induction cs) (auto simp: sum_calls_def)

lemma sum_calls_mono: "(\<And>c. c \<in> set cs \<Longrightarrow> f c \<le> g c) \<Longrightarrow> sum_calls f cs \<le> sum_calls g cs"
  unfolding sum_calls_def by (rule sum_list_mono)

lemma call_step_keeps:
  assumes "(av', om', c') \<in> set (call_step av om c)"
  shows "call_amount c' = call_amount c" and "is_release c' = is_release c"
  using assms by (auto simp: call_step_def call_amount_def is_release_def split: margin_call.splits if_splits)

lemma step_keeps:
  assumes "margin_step s s'"
  shows "length (ms_calls s') = length (ms_calls s)" and "release_total (ms_calls s') = release_total (ms_calls s)"
    and "map call_amount (ms_calls s') = map call_amount (ms_calls s)"
  using assms
  by (cases; simp add: release_total_def sum_calls_update call_step_keeps map_update list_update_same_conv)+

lemma available_bound:
  assumes "margin_inv av0 om0 s"
  shows "ms_available s \<le> av0 + sum_calls (\<lambda>c. case c of ReleaseSub m \<Rightarrow> m | Released m \<Rightarrow> m | _ \<Rightarrow> 0) (ms_calls s)"
proof -
  have "0 \<le> sum_calls (\<lambda>c. taken c + (case c of ReleaseSub m \<Rightarrow> m | Released m \<Rightarrow> m | _ \<Rightarrow> 0)) (ms_calls s)"
    unfolding sum_calls_def using assms
    by (intro sum_list_nonneg) (auto simp: taken_def margin_inv_def call_amount_def split: margin_call.splits)
  then have "0 \<le> sum_calls taken (ms_calls s) + sum_calls (\<lambda>c. case c of ReleaseSub m \<Rightarrow> m | Released m \<Rightarrow> m | _ \<Rightarrow> 0) (ms_calls s)"
    by (simp add: sum_calls_def sum_list_addf)
  with assms show ?thesis by (simp add: margin_inv_def)
qed

lemma release_room:
  assumes "margin_inv av0 om0 s" and "i < length (ms_calls s)" and "ms_calls s ! i = ReleaseAdd m"
  shows "ms_available s + m \<le> av0 + release_total (ms_calls s)"
proof -
  let ?f = "\<lambda>c. case c of ReleaseSub m \<Rightarrow> m | Released m \<Rightarrow> m | _ \<Rightarrow> 0"
  have "sum_calls ?f ((ms_calls s)[i := ReleaseSub m]) \<le> release_total ((ms_calls s)[i := ReleaseSub m])"
    unfolding release_total_def using assms
    by (intro sum_calls_mono) (auto simp: is_release_def call_amount_def margin_inv_def dest!: set_update_subset_insert [THEN subsetD] split: margin_call.splits)
  moreover have "release_total ((ms_calls s)[i := ReleaseSub m]) = release_total (ms_calls s)"
    using assms(2,3) by (simp add: release_total_def sum_calls_update is_release_def call_amount_def)
  moreover have "sum_calls ?f ((ms_calls s)[i := ReleaseSub m]) = sum_calls ?f (ms_calls s) + m"
    using assms(2,3) by (simp add: sum_calls_update)
  ultimately show ?thesis using available_bound [OF assms(1)] by simp
qed

lemma step_inv:
  assumes "margin_step s s'" and "margin_inv av0 om0 s" and "in_i64 (av0 + release_total (ms_calls s))"
  shows "margin_inv av0 om0 s'"
  using assms(1)
proof cases
  case (step i av om c)
  have inv: "ms_available s + sum_calls taken (ms_calls s) = av0" "0 \<le> ms_available s"
    "eq64 (ms_order s) (om0 + sum_calls booked (ms_calls s))" "\<forall>c \<in> set (ms_calls s). 0 \<le> call_amount c \<and> swap_ok c"
    using assms(2) by (simp_all add: margin_inv_def)
  have ci: "0 \<le> call_amount (ms_calls s ! i)" "swap_ok (ms_calls s ! i)" using inv(4) step(2) by simp_all
  have rel: "release_total (ms_calls s) \<ge> 0"
    unfolding release_total_def sum_calls_def using inv(4) by (intro sum_list_nonneg) auto
  have top: "in_i64 x" if "0 \<le> x" "x \<le> av0 + release_total (ms_calls s)" for x
    using in_i64_between [OF in_i64_0 assms(3) that] .
  have le: "ms_available s \<le> av0 + release_total (ms_calls s)"
  proof -
    have "sum_calls (\<lambda>c. case c of ReleaseSub m \<Rightarrow> m | Released m \<Rightarrow> m | _ \<Rightarrow> 0) (ms_calls s) \<le> release_total (ms_calls s)"
      unfolding release_total_def using inv(4)
      by (intro sum_calls_mono) (auto simp: is_release_def call_amount_def split: margin_call.splits)
    with available_bound [OF assms(2)] show ?thesis by simp
  qed
  have new: "0 \<le> call_amount c \<and> swap_ok c" and av: "0 \<le> av" "av + taken c = ms_available s + taken (ms_calls s ! i)"
    and om: "eq64 (om - booked c) (ms_order s - booked (ms_calls s ! i))"
    using step(3) ci inv(2) le top release_room [OF assms(2) step(2)]
    by (auto simp: call_step_def call_amount_def swap_ok_def taken_def booked_def eq64_def split: margin_call.splits if_splits)
  have "\<forall>d \<in> set ((ms_calls s)[i := c]). 0 \<le> call_amount d \<and> swap_ok d"
    using inv(4) new by (auto dest: set_update_subset_insert [THEN subsetD])
  moreover have "eq64 om (om0 + sum_calls booked ((ms_calls s)[i := c]))"
    using eq64_add [OF eq64_trans [OF om eq64_diff [OF inv(3) eq64_refl]] eq64_refl [of "booked c"]] step(2)
    by (simp add: sum_calls_update algebra_simps)
  ultimately show ?thesis
    using step(1,2) inv(1) av by (simp add: margin_inv_def sum_calls_update)
qed

lemma steps_inv:
  assumes "rtranclp margin_step s0 s" and "margin_inv av0 om0 s0" and "in_i64 (av0 + release_total (ms_calls s0))"
  shows "margin_inv av0 om0 s \<and> release_total (ms_calls s) = release_total (ms_calls s0)"
  using assms(1) by (induction rule: rtranclp_induct) (use assms(2,3) step_inv step_keeps(2) in auto)

lemma fresh_inv:
  assumes "list_all fresh_call (ms_calls s)" and "0 \<le> ms_available s"
  shows "margin_inv (ms_available s) (ms_order s) s"
proof -
  have z: "sum_calls taken (ms_calls s) = 0" "sum_calls booked (ms_calls s) = 0"
    using assms(1)
    by (auto simp: list_all_iff fresh_call_def taken_def booked_def intro!: sum_calls_zero split: margin_call.splits)
  with assms show ?thesis
    by (auto simp: margin_inv_def list_all_iff fresh_call_def call_amount_def swap_ok_def split: margin_call.splits)
qed

text \<open>
  C16. However reservations and releases on one account interleave, no reservation is granted twice
  and none overdraws: the available margin never falls below zero, what is available plus what has
  been granted equals what there was plus what has been released, and once all calls have returned
  the order margin has moved by exactly the granted minus the released amounts.
\<close>

theorem concurrent_margin_safe:
  assumes "rtranclp margin_step s0 s" and "list_all fresh_call (ms_calls s0)" and "0 \<le> ms_available s0"
    and "in_i64 (ms_available s0 + release_total (ms_calls s0))"
  shows "0 \<le> ms_available s \<and> ms_available s + sum_calls taken (ms_calls s) = ms_available s0 \<and>
    (list_all finished (ms_calls s) \<longrightarrow>
       eq64 (ms_available s + ms_order s) (ms_available s0 + ms_order s0) \<and>
       eq64 (ms_order s) (ms_order s0 + sum_calls taken (ms_calls s)))"
proof -
  have inv: "margin_inv (ms_available s0) (ms_order s0) s"
    using steps_inv [OF assms(1) fresh_inv [OF assms(2,3)] assms(4)] by blast
  have bt: "sum_calls booked (ms_calls s) = sum_calls taken (ms_calls s)" if "list_all finished (ms_calls s)"
    unfolding sum_calls_def using that
    by (intro arg_cong [where f = sum_list] map_cong refl)
      (auto simp: list_all_iff finished_def taken_def booked_def split: margin_call.splits)
  have av: "ms_available s0 = ms_available s + sum_calls taken (ms_calls s)" and nn: "0 \<le> ms_available s"
    and om: "eq64 (ms_order s) (ms_order s0 + sum_calls booked (ms_calls s))"
    using inv by (simp_all add: margin_inv_def)
  have "eq64 (ms_available s + ms_order s) (ms_available s0 + ms_order s0)" if "list_all finished (ms_calls s)"
    using eq64_add [OF eq64_refl [of "ms_available s"] om] unfolding bt [OF that] av by (simp add: algebra_simps)
  moreover have "eq64 (ms_order s) (ms_order s0 + sum_calls taken (ms_calls s))" if "list_all finished (ms_calls s)"
    using om unfolding bt [OF that] .
  ultimately show ?thesis using av [symmetric] nn by blast
qed

text \<open>Both callers load 100; the second swap then fails, reloads 40 and is refused.\<close>

theorem concurrent_margin_safe_witness:
  "\<exists>s. rtranclp margin_step demo_race s \<and> ms_calls s = [Reserved 60, Refused 70] \<and>
     ms_available s + sum_calls taken (ms_calls s) = 100 \<and> eq64 (ms_order s) 60"
proof -
  let ?st = "\<lambda>av om cs. \<lparr>ms_available = av, ms_order = om, ms_calls = cs\<rparr>"
  have go: "rtranclp margin_step s (?st av om ((ms_calls s)[i := c])) "
    if "i < length (ms_calls s)" "(av, om, c) \<in> set (call_step (ms_available s) (ms_order s) (ms_calls s ! i))" for s i av om c
    using margin_step.step [OF that] by blast
  have 1: "rtranclp margin_step demo_race (?st 100 0 [ReserveSwap 60 100, ReserveLoad 70])"
    using go [of 0 demo_race 100 0 "ReserveSwap 60 100"] by (simp add: demo_race_def call_step_def)
  have 2: "rtranclp margin_step (?st 100 0 [ReserveSwap 60 100, ReserveLoad 70]) (?st 100 0 [ReserveSwap 60 100, ReserveSwap 70 100])"
    using go [of 1 "?st 100 0 [ReserveSwap 60 100, ReserveLoad 70]" 100 0 "ReserveSwap 70 100"] by (simp add: call_step_def)
  have 3: "rtranclp margin_step (?st 100 0 [ReserveSwap 60 100, ReserveSwap 70 100]) (?st 40 0 [ReserveAdd 60, ReserveSwap 70 100])"
    using go [of 0 "?st 100 0 [ReserveSwap 60 100, ReserveSwap 70 100]" 40 0 "ReserveAdd 60"] by (simp add: call_step_def in_i64_def)
  have 4: "rtranclp margin_step (?st 40 0 [ReserveAdd 60, ReserveSwap 70 100]) (?st 40 0 [ReserveAdd 60, ReserveLoad 70])"
    using go [of 1 "?st 40 0 [ReserveAdd 60, ReserveSwap 70 100]" 40 0 "ReserveLoad 70"] by (simp add: call_step_def)
  have 5: "rtranclp margin_step (?st 40 0 [ReserveAdd 60, ReserveLoad 70]) (?st 40 0 [ReserveAdd 60, Refused 70])"
    using go [of 1 "?st 40 0 [ReserveAdd 60, ReserveLoad 70]" 40 0 "Refused 70"] by (simp add: call_step_def)
  have 6: "rtranclp margin_step (?st 40 0 [ReserveAdd 60, Refused 70]) (?st 40 60 [Reserved 60, Refused 70])"
    using go [of 0 "?st 40 0 [ReserveAdd 60, Refused 70]" 40 60 "Reserved 60"] by (simp add: call_step_def in_i64_def)
  from 1 2 3 4 5 6 have run: "rtranclp margin_step demo_race (?st 40 60 [Reserved 60, Refused 70])" by (meson rtranclp_trans)
  show ?thesis
    using run concurrent_margin_safe [OF run]
    by (intro exI [of _ "?st 40 60 [Reserved 60, Refused 70]"])
      (simp add: demo_race_def fresh_call_def finished_def release_total_def sum_calls_def is_release_def taken_def in_i64_def)
qed

end
