(* ===== verification/Text.thy ===== *)
theory Text
  imports Prelude
begin

text \<open>
  The string operations that the desk uses on configuration values and amounts: trimming,
  splitting, and the decimal parsers and printers of the integer types. Strings are lists of
  ASCII characters; white space is therefore the ASCII white space of \<open>str::trim\<close>.
\<close>

definition is_white :: "char \<Rightarrow> bool" where
  "is_white c \<longleftrightarrow> of_char c = (32::nat) \<or> 9 \<le> (of_char c :: nat) \<and> of_char c \<le> (13::nat)"

definition trim :: "string \<Rightarrow> string" where
  "trim s = rev (dropWhile is_white (rev (dropWhile is_white s)))"

fun split_on :: "char \<Rightarrow> string \<Rightarrow> string list" where
  "split_on c [] = [[]]"
| "split_on c (x # xs) = (if x = c then [] # split_on c xs else (case split_on c xs of [] \<Rightarrow> [[x]] | p # ps \<Rightarrow> (x # p) # ps))"

definition split_once :: "char \<Rightarrow> string \<Rightarrow> (string \<times> string) option" where
  "split_once c s = (case dropWhile (\<lambda>x. x \<noteq> c) s of [] \<Rightarrow> None | _ # rest \<Rightarrow> Some (takeWhile (\<lambda>x. x \<noteq> c) s, rest))"

definition is_digit :: "char \<Rightarrow> bool" where
  "is_digit c \<longleftrightarrow> 48 \<le> (of_char c :: nat) \<and> of_char c \<le> (57::nat)"

definition digit_val :: "char \<Rightarrow> nat" where
  "digit_val c = of_char c - 48"

definition digit_char :: "nat \<Rightarrow> char" where
  "digit_char n = char_of (48 + n)"

fun digits_from :: "nat \<Rightarrow> string \<Rightarrow> nat" where
  "digits_from a [] = a"
| "digits_from a (c # cs) = digits_from (a * 10 + digit_val c) cs"

definition digits_val :: "string \<Rightarrow> nat" where
  "digits_val s = digits_from 0 s"

fun show_nat :: "nat \<Rightarrow> string" where
  "show_nat n = (if n < 10 then [digit_char n] else show_nat (n div 10) @ [digit_char (n mod 10)])"

declare show_nat.simps [simp del]

definition show_int :: "int \<Rightarrow> string" where
  "show_int x = (if x < 0 then CHR ''-'' # show_nat (nat (- x)) else show_nat (nat x))"

text \<open>\<open>str::parse\<close> for the integer types.\<close>

definition parse_i64 :: "string \<Rightarrow> int option" where
  "parse_i64 s =
     (case s of
        [] \<Rightarrow> None
      | c # cs \<Rightarrow>
          let (neg, body) = (if c = CHR ''-'' then (True, cs) else if c = CHR ''+'' then (False, cs) else (False, s))
          in if body = [] \<or> \<not> list_all is_digit body then None
             else let v = (if neg then - int (digits_val body) else int (digits_val body))
                  in if in_i64 v then Some v else None)"

definition parse_unsigned :: "nat \<Rightarrow> string \<Rightarrow> nat option" where
  "parse_unsigned bound s =
     (case s of
        [] \<Rightarrow> None
      | c # cs \<Rightarrow>
          let body = (if c = CHR ''+'' then cs else s)
          in if body = [] \<or> \<not> list_all is_digit body then None
             else if digits_val body < bound then Some (digits_val body) else None)"

subsection \<open>Digits\<close>

lemma digit_char_val [simp]: "n < 10 \<Longrightarrow> digit_val (digit_char n) = n"
  by (simp add: digit_val_def digit_char_def of_char_of take_bit_eq_mod)

lemma digit_char_digit [simp]: "n < 10 \<Longrightarrow> is_digit (digit_char n)"
  by (simp add: is_digit_def digit_char_def of_char_of take_bit_eq_mod)

lemma digits_from_append: "digits_from a (xs @ ys) = digits_from (digits_from a xs) ys"
  by (induction a xs rule: digits_from.induct) simp_all

lemma digits_from_eq: "digits_from a s = a * 10 ^ length s + digits_from 0 s"
proof (induction s arbitrary: a)
  case (Cons c cs)
  from Cons.IH [of "a * 10 + digit_val c"] Cons.IH [of "digit_val c"] show ?case
    by (simp add: algebra_simps)
qed simp

lemma digits_from_ge: "a \<le> digits_from a s"
  using digits_from_eq [of a s] by (simp add: trans_le_add1)

lemma digits_val_snoc: "digits_val (s @ [c]) = digits_val s * 10 + digit_val c"
  by (simp add: digits_val_def digits_from_append)

lemma digits_val_zeros: "digits_val (s @ replicate k (CHR ''0'')) = digits_val s * 10 ^ k"
proof (induction k)
  case (Suc k)
  have "s @ replicate (Suc k) (CHR ''0'') = (s @ replicate k (CHR ''0'')) @ [CHR ''0'']"
    by (simp add: replicate_append_same)
  with Suc show ?case by (simp only: digits_val_snoc) (simp add: digit_val_def)
qed simp

lemma digits_val_leading: "digits_val (replicate k (CHR ''0'') @ s) = digits_val s"
  using digits_val_zeros [of "[]" k] by (simp add: digits_val_def digits_from_append)

lemma show_nat_digits [simp]: "list_all is_digit (show_nat n)" "show_nat n \<noteq> []"
  by (induction n rule: show_nat.induct; subst show_nat.simps; simp)+

lemma digits_val_show [simp]: "digits_val (show_nat n) = n"
proof (induction n rule: show_nat.induct)
  case (1 n)
  show ?case
  proof (cases "n < 10")
    case True
    then show ?thesis by (simp add: show_nat.simps digits_val_def)
  next
    case False
    with 1 show ?thesis by (subst show_nat.simps) (simp add: digits_val_snoc)
  qed
qed

lemma length_show_nat: "n < 10 ^ k \<Longrightarrow> 0 < k \<Longrightarrow> length (show_nat n) \<le> k"
proof (induction n arbitrary: k rule: show_nat.induct)
  case (1 n)
  show ?case
  proof (cases "n < 10")
    case True
    with 1 show ?thesis by (simp add: show_nat.simps)
  next
    case False
    obtain j where k: "k = Suc j" using "1.prems"(2) by (cases k) simp_all
    have "0 < j" using "1.prems"(1) False k by (cases j) simp_all
    with k have j: "k = Suc j" "0 < j" by simp_all
    with "1.prems" have "n div 10 < 10 ^ j" by (simp add: less_mult_imp_div_less mult.commute)
    from "1.IH" [OF False this j(2)] j False show ?thesis by (subst show_nat.simps) simp
  qed
qed

lemma digit_not_special:
  assumes "is_digit c"
  shows "c \<noteq> CHR ''-''" and "c \<noteq> CHR ''+''" and "c \<noteq> CHR ''.''" and "\<not> is_white c"
  using assms by (auto simp: is_digit_def is_white_def)

lemma hd_show_nat: "is_digit (hd (show_nat n))"
  using show_nat_digits [of n] by (cases "show_nat n") simp_all

lemma parse_i64_range: "parse_i64 s = Some v \<Longrightarrow> in_i64 v"
  by (cases s) (simp_all add: parse_i64_def Let_def split: prod.splits if_splits)

text \<open>Printing and parsing an \<open>i64\<close> is the identity.\<close>

lemma parse_show_i64: "in_i64 x \<Longrightarrow> parse_i64 (show_int x) = Some x"
proof (cases "x < 0")
  case True
  assume "in_i64 x"
  with True show ?thesis by (simp add: parse_i64_def show_int_def)
next
  case False
  assume x: "in_i64 x"
  obtain c cs where c: "show_nat (nat x) = c # cs" using show_nat_digits(2) by (cases "show_nat (nat x)") simp_all
  then have "is_digit c" using hd_show_nat [of "nat x"] by simp
  with c False x show_nat_digits(1) [of "nat x"] digits_val_show [of "nat x"] show ?thesis
    by (auto simp: parse_i64_def show_int_def digit_not_special)
qed

lemma parse_show_unsigned: "n < bound \<Longrightarrow> parse_unsigned bound (show_nat n) = Some n"
proof -
  assume n: "n < bound"
  obtain c cs where c: "show_nat n = c # cs" using show_nat_digits(2) by (cases "show_nat n") simp_all
  then have "is_digit c" using hd_show_nat [of n] by simp
  with c n show_nat_digits(1) [of n] digits_val_show [of n] show ?thesis
    by (auto simp: parse_unsigned_def digit_not_special)
qed

subsection \<open>Trimming and splitting\<close>

lemma trim_id: "s \<noteq> [] \<Longrightarrow> \<not> is_white (hd s) \<Longrightarrow> \<not> is_white (last s) \<Longrightarrow> trim s = s"
proof -
  assume s: "s \<noteq> []" "\<not> is_white (hd s)" "\<not> is_white (last s)"
  then have "dropWhile is_white s = s" by (cases s) simp_all
  moreover have "dropWhile is_white (rev s) = rev s" using s by (cases "rev s") (simp_all add: last_rev [symmetric] hd_rev)
  ultimately show ?thesis by (simp add: trim_def)
qed

lemma split_on_none: "c \<notin> set s \<Longrightarrow> split_on c s = [s]"
  by (induction s) auto

lemma split_on_nonempty: "split_on c s \<noteq> []"
  by (cases s) (auto split: list.split)

lemma split_on_append: "c \<notin> set p \<Longrightarrow> split_on c (p @ c # s) = p # split_on c s"
  by (induction p) auto

lemma split_once_append: "c \<notin> set p \<Longrightarrow> split_once c (p @ c # s) = Some (p, s)"
proof -
  assume c: "c \<notin> set p"
  then have "dropWhile (\<lambda>x. x \<noteq> c) (p @ c # s) = c # s" by (induction p) auto
  moreover from c have "takeWhile (\<lambda>x. x \<noteq> c) (p @ c # s) = p" by (induction p) auto
  ultimately show ?thesis by (simp add: split_once_def)
qed

end
