(* ===== verification/RiskTiers.thy ===== *)
theory RiskTiers
  imports RiskCalc Text
begin

text \<open>
  The leverage tier table of \<open>src/desk/risk/calc.rs\<close>: its text form in the \<open>RISK_TIERS\<close> variable.
  The log lines of rejected entries are not modelled.
\<close>

definition parse_tier :: "string \<Rightarrow> (int \<times> int) option" where
  "parse_tier part = do {
     (bound, lev) \<leftarrow> split_once (CHR '':'') part;
     lev \<leftarrow> parse_unsigned 256 (trim lev);
     bound_atoms \<leftarrow>
       (if trim bound = [] then Some i64_max
        else do {
          usdt \<leftarrow> parse_i64 (trim bound);
          if in_i64 (usdt * 100000000) then Some (usdt * 100000000) else None
        });
     Some (bound_atoms, int lev)
   }"

definition parse_risk_tiers :: "string \<Rightarrow> (int \<times> int) list" where
  "parse_risk_tiers spec = List.map_filter parse_tier (split_on (CHR '','') spec)"

text \<open>The documented text form: a bound in whole USDT, or nothing for the last tier, and a leverage.\<close>

definition show_tier :: "int option \<times> nat \<Rightarrow> string" where
  "show_tier t = (case t of (b, lev) \<Rightarrow> (case b of None \<Rightarrow> [] | Some usdt \<Rightarrow> show_int usdt) @ CHR '':'' # show_nat lev)"

fun show_tiers :: "(int option \<times> nat) list \<Rightarrow> string" where
  "show_tiers [] = []"
| "show_tiers [t] = show_tier t"
| "show_tiers (t # ts) = show_tier t @ CHR '','' # show_tiers ts"

definition tier_ok :: "int option \<times> nat \<Rightarrow> bool" where
  "tier_ok t = (case t of (b, lev) \<Rightarrow> lev < 256 \<and> (case b of None \<Rightarrow> True | Some usdt \<Rightarrow> in_i64 (usdt * 100000000)))"

definition tier_atoms :: "int option \<times> nat \<Rightarrow> int \<times> int" where
  "tier_atoms t = (case t of (b, lev) \<Rightarrow> (case b of None \<Rightarrow> i64_max | Some usdt \<Rightarrow> usdt * 100000000, int lev))"

lemma show_int_chars: "c \<in> set (show_int x) \<Longrightarrow> is_digit c \<or> c = CHR ''-''"
  using show_nat_digits(1) by (auto simp: show_int_def list_all_iff split: if_splits)

lemma show_int_ends: "show_int x \<noteq> []" "\<not> is_white (hd (show_int x))" "\<not> is_white (last (show_int x))"
proof -
  show ne: "show_int x \<noteq> []" by (simp add: show_int_def)
  have "\<not> is_white c" if "c \<in> set (show_int x)" for c
    using show_int_chars [OF that] digit_not_special(4) by (auto simp: is_white_def)
  then show "\<not> is_white (hd (show_int x))" "\<not> is_white (last (show_int x))" using ne by simp_all
qed

lemma show_nat_ends: "\<not> is_white (hd (show_nat n))" "\<not> is_white (last (show_nat n))"
  using show_nat_digits [of n] digit_not_special(4) by (auto simp: list_all_iff)

lemma digit_not_separator: "is_digit c \<Longrightarrow> c \<noteq> CHR '','' \<and> c \<noteq> CHR '':''"
  by (auto simp: is_digit_def)

lemma show_nat_no_comma: "CHR '','' \<notin> set (show_nat n)"
  using show_nat_digits(1) [of n] digit_not_separator by (auto simp: list_all_iff)

lemma show_int_no_separator: "CHR '','' \<notin> set (show_int x)" "CHR '':'' \<notin> set (show_int x)"
  using digit_not_separator by (auto dest!: show_int_chars)

lemma show_tier_no_comma: "CHR '','' \<notin> set (show_tier t)"
  using show_nat_no_comma show_int_no_separator(1) by (auto simp: show_tier_def split: prod.splits option.splits)

lemma parse_show_tier: "tier_ok t \<Longrightarrow> parse_tier (show_tier t) = Some (tier_atoms t)"
proof -
  assume t: "tier_ok t"
  obtain b lev where bl: "t = (b, lev)" by (cases t)
  let ?b = "case b of None \<Rightarrow> [] | Some usdt \<Rightarrow> show_int usdt"
  have "CHR '':'' \<notin> set ?b" by (simp add: show_int_no_separator split: option.split)
  then have once: "split_once (CHR '':'') (show_tier t) = Some (?b, show_nat lev)"
    by (simp add: show_tier_def bl split_once_append)
  have lev: "trim (show_nat lev) = show_nat lev" "parse_unsigned 256 (show_nat lev) = Some lev"
    using t by (simp_all add: tier_ok_def bl trim_id show_nat_ends parse_show_unsigned)
  show ?thesis
  proof (cases b)
    case None
    then show ?thesis using once lev by (simp add: parse_tier_def tier_atoms_def bl trim_def)
  next
    case (Some usdt)
    have "trim (show_int usdt) = show_int usdt" by (rule trim_id [OF show_int_ends])
    moreover have "in_i64 (usdt * 100000000)" using t Some by (simp add: tier_ok_def bl)
    moreover from this have "in_i64 usdt" by (simp add: in_i64_def)
    ultimately show ?thesis
      using Some once lev show_int_ends(1) by (simp add: parse_tier_def tier_atoms_def bl parse_show_i64)
  qed
qed

text \<open>
  C26. A tier table written in the documented form is read back as the same table with bounds in
  atoms, every entry kept and in order; an entry that cannot be parsed is dropped without
  disturbing its neighbours.
\<close>

theorem risk_tiers_round_trip:
  assumes "list_all tier_ok ts" and "ts \<noteq> []" and "CHR '','' \<notin> set bad" and "parse_tier bad = None"
  shows "parse_risk_tiers (show_tiers ts) = map tier_atoms ts \<and>
    parse_risk_tiers (bad @ CHR '','' # show_tiers ts) = map tier_atoms ts"
proof -
  have "parse_risk_tiers (show_tiers ts) = map tier_atoms ts"
    using assms(1,2)
  proof (induction ts rule: show_tiers.induct)
    case (3 t t' ts)
    then show ?case
      by (simp add: parse_risk_tiers_def split_on_append [OF show_tier_no_comma] parse_show_tier map_filter_simps)
  qed (simp_all add: parse_risk_tiers_def split_on_none [OF show_tier_no_comma] parse_show_tier map_filter_simps)
  then show ?thesis
    using assms(3,4) by (simp add: parse_risk_tiers_def split_on_append map_filter_simps)
qed

theorem risk_tiers_round_trip_witness:
  "parse_risk_tiers (show_tiers [(Some 1000000, 20), (None, 5)]) = [(100000000000000, 20), (i64_max, 5)]"
proof -
  have "split_once (CHR '':'') ''x'' = None" by (simp add: split_once_def)
  then have "parse_tier ''x'' = None" by (simp add: parse_tier_def)
  with risk_tiers_round_trip [of "[(Some 1000000, 20), (None, 5)]" "''x''"] show ?thesis
    by (simp add: tier_ok_def tier_atoms_def in_i64_def)
qed

end
