(* ===== verification/Funding.thy ===== *)
theory Funding
  imports RiskRuns Text
begin

text \<open>
  Perpetual-swap funding, \<open>src/desk/funding.rs\<close>: premium sampling, the rate of a period, the
  payments of a settlement and its booking in the risk engine, and the settlement schedule.
  The environment of \<open>from_env\<close> is a parameter; the index price source and the database are
  not modelled.
\<close>

definition RATE_SCALE_E9 :: int where
  "RATE_SCALE_E9 = 1000000000"

record FundingConfig =
  fc_period_secs :: nat
  fc_interest_e9 :: int
  fc_clamp_e9 :: int

record PremiumTracker =
  pt_sum_e9 :: int
  pt_samples :: nat

record FundingDelta =
  fd_user_id :: int
  fd_equity_delta_atoms :: int

record FundingSettlement =
  fs_deltas :: "FundingDelta list"
  fs_long_paid_atoms :: int
  fs_short_received_atoms :: int
  fs_residue_atoms :: int

record FundingScheduler =
  sch_next_settlement_at_ms :: int
  sch_period_ms :: int

subsection \<open>Configuration\<close>

definition env_i64 :: "(string \<Rightarrow> string option) \<Rightarrow> string \<Rightarrow> int \<Rightarrow> int" where
  "env_i64 env k d = (case Option.bind (env k) parse_i64 of Some v \<Rightarrow> v | None \<Rightarrow> d)"

definition FundingConfig_from_env :: "(string \<Rightarrow> string option) \<Rightarrow> string + FundingConfig" where
  "FundingConfig_from_env env =
     (let clamp_e9 = env_i64 env ''FUNDING_CLAMP_E9'' 7500000;
          interest_e9 = env_i64 env ''FUNDING_INTEREST_E9'' 100000
      in if clamp_e9 < 0 then Inl (''FUNDING_CLAMP_E9 must be >= 0, got '' @ show_int clamp_e9)
         else if as_i64 \<bar>interest_e9\<bar> > 1000000
         then Inl (''FUNDING_INTEREST_E9 out of range (|'' @ show_int interest_e9 @ ''| > 1_000_000)'')
         else Inr \<lparr>fc_period_secs = nat (env_i64 env ''FUNDING_PERIOD_SECS'' 28800 mod 2 ^ 64),
                   fc_interest_e9 = interest_e9, fc_clamp_e9 = clamp_e9\<rparr>)"

subsection \<open>Premium\<close>

definition sample :: "int \<Rightarrow> int \<Rightarrow> PremiumTracker \<Rightarrow> PremiumTracker" where
  "sample mark_ticks index_ticks t =
     (if index_ticks \<le> 0 \<or> mark_ticks \<le> 0 then t
      else let premium = ((mark_ticks - index_ticks) * RATE_SCALE_E9) sdiv index_ticks
           in t\<lparr>pt_sum_e9 := as_i128 (pt_sum_e9 t + premium), pt_samples := as_u64 (pt_samples t + 1)\<rparr>)"

definition twap_e9 :: "PremiumTracker \<Rightarrow> int" where
  "twap_e9 t = (if pt_samples t = 0 then 0 else as_i64 (pt_sum_e9 t sdiv int (pt_samples t)))"

definition close_period :: "FundingConfig \<Rightarrow> PremiumTracker \<Rightarrow> (int \<times> PremiumTracker) exec" where
  "close_period cfg t =
     (if fc_clamp_e9 cfg < - fc_clamp_e9 cfg then None
      else let raw = twap_e9 t + fc_interest_e9 cfg
           in Some (as_i64 (max (- fc_clamp_e9 cfg) (min (fc_clamp_e9 cfg) raw)), t\<lparr>pt_sum_e9 := 0, pt_samples := 0\<rparr>))"

subsection \<open>Settlement\<close>

definition compute_payment :: "int \<Rightarrow> int \<Rightarrow> int \<Rightarrow> int \<Rightarrow> int exec" where
  "compute_payment qty_lots mark_ticks notional_scale rate_e9 = do {
     value \<leftarrow> calc_notional_atoms mark_ticks qty_lots notional_scale;
     Some (as_i64 ((value * rate_e9) sdiv RATE_SCALE_E9))
   }"

definition settlement_default :: FundingSettlement where
  "settlement_default = \<lparr>fs_deltas = [], fs_long_paid_atoms = 0, fs_short_received_atoms = 0, fs_residue_atoms = 0\<rparr>"

fun settle_positions :: "int \<Rightarrow> int \<Rightarrow> int \<Rightarrow> (int \<times> PositionSide \<times> int) list \<Rightarrow> FundingSettlement \<Rightarrow> FundingSettlement exec" where
  "settle_positions mark_ticks notional_scale rate_e9 [] out = Some out"
| "settle_positions mark_ticks notional_scale rate_e9 ((user_id, side, qty_lots) # ps) out = do {
     p \<leftarrow> compute_payment qty_lots mark_ticks notional_scale rate_e9;
     let delta = (case side of Long \<Rightarrow> as_i64 (- p) | Short \<Rightarrow> p);
     if delta = 0 then settle_positions mark_ticks notional_scale rate_e9 ps out
     else
       (let out = (if delta < 0 then out\<lparr>fs_long_paid_atoms := as_i64 (fs_long_paid_atoms out + as_i64 (- delta))\<rparr>
                   else out\<lparr>fs_short_received_atoms := as_i64 (fs_short_received_atoms out + delta)\<rparr>)
        in settle_positions mark_ticks notional_scale rate_e9 ps
             (out\<lparr>fs_deltas := fs_deltas out @ [\<lparr>fd_user_id = user_id, fd_equity_delta_atoms = delta\<rparr>]\<rparr>))
   }"

definition compute_settlement :: "(int \<times> PositionSide \<times> int) list \<Rightarrow> int \<Rightarrow> int \<Rightarrow> int \<Rightarrow> FundingSettlement exec" where
  "compute_settlement positions mark_ticks notional_scale rate_e9 =
     (if rate_e9 = 0 then Some settlement_default
      else do {
        out \<leftarrow> settle_positions mark_ticks notional_scale rate_e9 positions settlement_default;
        let total_delta = foldl (\<lambda>acc d. as_i64 (acc + fd_equity_delta_atoms d)) 0 (fs_deltas out);
        Some (out\<lparr>fs_residue_atoms := as_i64 (- total_delta)\<rparr>)
      })"

definition apply_delta :: "RiskEngine \<Rightarrow> FundingDelta \<Rightarrow> RiskEngine" where
  "apply_delta e d =
     with_account (fd_user_id d)
       (\<lambda>a. a\<lparr>ar_equity := as_i64 (ar_equity a + fd_equity_delta_atoms d),
             ar_available_margin := as_i64 (ar_available_margin a + fd_equity_delta_atoms d)\<rparr>) e"

definition apply_in_memory :: "RiskEngine \<Rightarrow> FundingSettlement \<Rightarrow> RiskEngine" where
  "apply_in_memory e s =
     (let e = foldl apply_delta e (fs_deltas s)
      in if fs_residue_atoms s \<noteq> 0 then fund_add (fs_residue_atoms s) e else e)"

subsection \<open>Schedule\<close>

definition FundingScheduler_new :: "int option \<Rightarrow> int \<Rightarrow> FundingConfig \<Rightarrow> FundingScheduler" where
  "FundingScheduler_new persisted_next_ms now_ms cfg =
     (let period_ms = as_i64 (as_i64 (int (fc_period_secs cfg)) * 1000)
      in \<lparr>sch_next_settlement_at_ms = (case persisted_next_ms of Some n \<Rightarrow> n | None \<Rightarrow> as_i64 (now_ms + period_ms)),
          sch_period_ms = period_ms\<rparr>)"

definition due :: "int \<Rightarrow> FundingScheduler \<Rightarrow> int option \<times> FundingScheduler" where
  "due now_ms s =
     (if now_ms < sch_next_settlement_at_ms s then (None, s)
      else (Some (sch_next_settlement_at_ms s),
            s\<lparr>sch_next_settlement_at_ms := as_i64 (sch_next_settlement_at_ms s + sch_period_ms s)\<rparr>))"

text \<open>A run of the scheduler: what it returns when it is polled at the given times, one answer a poll.\<close>

fun polls :: "int list \<Rightarrow> FundingScheduler \<Rightarrow> int option list \<times> FundingScheduler" where
  "polls [] s = ([], s)"
| "polls (now_ms # ts) s =
     (let (b, s) = due now_ms s; (bs, s) = polls ts s in (b # bs, s))"

definition settled :: "int option list \<Rightarrow> int list" where
  "settled bs = List.map_filter id bs"

text \<open>The equity change of one position, as an exact integer.\<close>

definition position_delta :: "int \<Rightarrow> int \<Rightarrow> int \<Rightarrow> int \<times> PositionSide \<times> int \<Rightarrow> int" where
  "position_delta mark sc rate p = (case p of (_, side, q) \<Rightarrow>
     - (side_sign side * (((mark * q * 1000000) sdiv sc * rate) sdiv 1000000000)))"

definition payable :: "int \<Rightarrow> int \<Rightarrow> int \<times> PositionSide \<times> int \<Rightarrow> bool" where
  "payable mark sc p = (case p of (_, side, q) \<Rightarrow>
     0 \<le> q \<and> in_i128 (mark * q * 1000000) \<and> in_i64 ((mark * q * 1000000) sdiv sc + 1))"

definition net_lots :: "(int \<times> PositionSide \<times> int) list \<Rightarrow> int" where
  "net_lots ps = sum_list (map (\<lambda>(_, side, q). side_sign side * q) ps)"

subsection \<open>Rate\<close>

lemma env_i64_range: "in_i64 d \<Longrightarrow> in_i64 (env_i64 env k d)"
proof (cases "Option.bind (env k) parse_i64")
  case (Some v)
  then obtain t where "parse_i64 t = Some v" by (auto simp: Option.bind_eq_Some_conv)
  with Some show ?thesis by (simp add: env_i64_def parse_i64_range)
qed (simp add: env_i64_def)

lemma config_clamp:
  assumes "FundingConfig_from_env env = Inr cfg"
  shows "0 \<le> fc_clamp_e9 cfg" and "in_i64 (fc_clamp_e9 cfg)"
proof -
  let ?c = "env_i64 env ''FUNDING_CLAMP_E9'' 7500000"
  have "\<not> ?c < 0" "fc_clamp_e9 cfg = ?c"
    using assms unfolding FundingConfig_from_env_def Let_def
    by (simp_all only: split: if_splits sum.splits) (use assms in \<open>auto simp only: sum.inject FundingConfig.select_convs\<close>)
  moreover have "in_i64 ?c" by (rule env_i64_range) (simp add: in_i64_def)
  ultimately show "0 \<le> fc_clamp_e9 cfg" "in_i64 (fc_clamp_e9 cfg)" by simp_all
qed

text \<open>
  With any configuration that \<open>from_env\<close> accepts, the rate of a period never leaves the clamp,
  whatever was sampled, and closing a period starts the next one empty; inside the clamp the rate
  is the mean premium plus interest.
\<close>

theorem close_period_clamped:
  assumes "FundingConfig_from_env env = Inr cfg"
  shows "\<exists>r t'. close_period cfg t = Some (r, t') \<and> - fc_clamp_e9 cfg \<le> r \<and> r \<le> fc_clamp_e9 cfg \<and>
    (\<bar>twap_e9 t + fc_interest_e9 cfg\<bar> \<le> fc_clamp_e9 cfg \<longrightarrow> r = twap_e9 t + fc_interest_e9 cfg) \<and>
    pt_samples t' = 0 \<and> pt_sum_e9 t' = 0"
proof -
  let ?c = "max (- fc_clamp_e9 cfg) (min (fc_clamp_e9 cfg) (twap_e9 t + fc_interest_e9 cfg))"
  note c = config_clamp [OF assms]
  have "in_i64 ?c" using c by (auto simp: in_i64_def)
  with c show ?thesis by (auto simp: close_period_def Let_def)
qed

theorem close_period_clamped_witness:
  "\<exists>cfg t'. FundingConfig_from_env (\<lambda>_. None) = Inr cfg \<and>
     close_period cfg (sample 101 100 \<lparr>pt_sum_e9 = 0, pt_samples = 0\<rparr>) = Some (7500000, t') \<and> pt_samples t' = 0"
proof -
  let ?t = "sample 101 100 \<lparr>pt_sum_e9 = 0, pt_samples = 0\<rparr>"
  let ?cfg = "\<lparr>fc_period_secs = 28800, fc_interest_e9 = 100000, fc_clamp_e9 = 7500000\<rparr>"
  have cfg: "FundingConfig_from_env (\<lambda>_. None) = Inr ?cfg"
    by (simp add: FundingConfig_from_env_def env_i64_def in_i64_def)
  obtain r t' where r: "close_period ?cfg ?t = Some (r, t')" "pt_samples t' = 0"
    using close_period_clamped [OF cfg, of ?t] by auto
  have "map_option fst (close_period ?cfg ?t) = Some 7500000"
    by (simp add: close_period_def sample_def twap_e9_def RATE_SCALE_E9_def signed_divide_int_def as_u64_def in_i64_def in_i128_def)
  with r cfg show ?thesis by simp
qed

subsection \<open>Conservation\<close>

lemma foldl_wrap: "eq64 (foldl (\<lambda>acc d. as_i64 (acc + f d)) a ds) (a + sum_list (map f ds))"
proof (induction ds arbitrary: a)
  case (Cons d ds)
  from Cons.IH [of "as_i64 (a + f d)"] eq64_add [of "as_i64 (a + f d)" "a + f d" "sum_list (map f ds)" "sum_list (map f ds)"]
  show ?case by (auto simp: algebra_simps dest: eq64_trans)
qed simp

lemma apply_delta_accounts: "account (apply_delta e d) u = None \<longleftrightarrow> account e u = None"
  by (simp add: apply_delta_def)

lemma apply_deltas_wealth:
  "eq64 (wealth (foldl apply_delta e ds))
     (wealth e + sum_list (map (\<lambda>d. if account e (fd_user_id d) = None then 0 else fd_equity_delta_atoms d) ds))"
proof (induction ds arbitrary: e)
  case (Cons d ds)
  let ?x = "if account e (fd_user_id d) = None then 0 else fd_equity_delta_atoms d"
  have one: "eq64 (wealth (apply_delta e d)) (wealth e + ?x)"
  proof (cases "account e (fd_user_id d)")
    case None
    then show ?thesis by (simp add: apply_delta_def with_account_def)
  next
    case (Some a)
    have "eq64 (wealth e - ar_equity a + as_i64 (ar_equity a + fd_equity_delta_atoms d))
        (wealth e - ar_equity a + (ar_equity a + fd_equity_delta_atoms d))"
      by (intro eq64_add) simp_all
    with Some show ?thesis by (simp add: apply_delta_def wealth_def account_sum_with algebra_simps)
  qed
  from eq64_trans [OF Cons.IH [of "apply_delta e d"] eq64_add [OF one eq64_refl]]
  show ?case by (simp add: apply_delta_accounts add.assoc cong: if_cong)
qed simp

text \<open>
  C27. Funding is conserved: booking a computed settlement leaves the sum of all equities plus the
  insurance fund unchanged (in \<open>i64\<close> arithmetic), the truncation residue included, provided every
  holder has an account; the payments of holders without one are what is missing otherwise.
\<close>

theorem funding_conserves_wealth:
  assumes "compute_settlement ps mark sc rate = Some s"
  shows "eq64 (wealth (apply_in_memory e s))
    (wealth e - sum_list (map (\<lambda>d. if account e (fd_user_id d) = None then fd_equity_delta_atoms d else 0) (fs_deltas s)))"
proof (cases "rate = 0")
  case True
  with assms show ?thesis by (auto simp: compute_settlement_def settlement_default_def apply_in_memory_def Let_def)
next
  case False
  let ?S = "sum_list (map fd_equity_delta_atoms (fs_deltas s))"
  let ?in = "sum_list (map (\<lambda>d. if account e (fd_user_id d) = None then 0 else fd_equity_delta_atoms d) (fs_deltas s))"
  let ?out = "sum_list (map (\<lambda>d. if account e (fd_user_id d) = None then fd_equity_delta_atoms d else 0) (fs_deltas s))"
  from False assms obtain out where
    s: "s = out\<lparr>fs_residue_atoms := as_i64 (- foldl (\<lambda>acc d. as_i64 (acc + fd_equity_delta_atoms d)) 0 (fs_deltas out))\<rparr>"
    by (auto simp: compute_settlement_def Let_def Option.bind_eq_Some_conv)
  have res: "eq64 (fs_residue_atoms s) (- ?S)"
    using foldl_wrap [of fd_equity_delta_atoms 0 "fs_deltas out"] by (simp add: s eq64_uminus)
  have split: "?S = ?in + ?out"
    unfolding sum_list_addf [symmetric] by (intro arg_cong [where f = sum_list] map_cong) auto
  have "eq64 (wealth (apply_in_memory e s)) (wealth (foldl apply_delta e (fs_deltas s)) + fs_residue_atoms s)"
    by (auto simp: apply_in_memory_def Let_def wealth_def eq64_def algebra_simps)
  from eq64_trans [OF this eq64_add [OF apply_deltas_wealth res]] show ?thesis
    unfolding split by (simp add: algebra_simps)
qed

theorem funding_conserves_wealth_witness:
  "\<exists>s. compute_settlement [(1, Long, 3), (2, Short, 3)] 7 1 100000 = Some s \<and>
     eq64 (wealth (apply_in_memory (initialize_account 2 1000000000 (initialize_account 1 1000000000 RiskEngine_new)) s)) 2000000000"
proof -
  let ?e = "initialize_account 2 1000000000 (initialize_account 1 1000000000 RiskEngine_new)"
  have "map_option (\<lambda>s. map fd_user_id (fs_deltas s)) (compute_settlement [(1, Long, 3), (2, Short, 3)] 7 1 100000) = Some [1, 2]" by code_simp
  then obtain s where s: "compute_settlement [(1, Long, 3), (2, Short, 3)] 7 1 100000 = Some s" "map fd_user_id (fs_deltas s) = [1, 2]" by auto
  have "account ?e u \<noteq> None" if "u = 1 \<or> u = 2" for u
    using that by (auto simp: account_def initialize_account_def RiskEngine_new_def)
  moreover have "d \<in> set (fs_deltas s) \<Longrightarrow> fd_user_id d = 1 \<or> fd_user_id d = 2" for d
    using imageI [of d "set (fs_deltas s)" fd_user_id] arg_cong [OF s(2), of set] by auto
  ultimately have none: "account ?e (fd_user_id d) \<noteq> None" if "d \<in> set (fs_deltas s)" for d using that by blast
  have "map (\<lambda>d. if account ?e (fd_user_id d) = None then fd_equity_delta_atoms d else 0) (fs_deltas s) = map (\<lambda>_. 0) (fs_deltas s)"
    by (rule map_cong [OF refl]) (simp only: none if_False)
  moreover have "wealth ?e = 2000000000" by code_simp
  ultimately show ?thesis using funding_conserves_wealth [OF s(1), of ?e] s(1) by (simp add: map_replicate_const sum_list_replicate)
qed

subsection \<open>The residue\<close>

text \<open>Value and payment of one position, and how far truncation takes the payment from the exact share.\<close>

lemma payment_share:
  fixes sc mark q rate :: int
  assumes "0 < sc" and "0 \<le> mark" and "0 \<le> q" and "0 \<le> rate" and "rate \<le> 1000000000"
  defines "p \<equiv> ((mark * q * 1000000) sdiv sc * rate) sdiv 1000000000"
  shows "sc * 1000000000 * p \<le> mark * 1000000 * rate * q" and "mark * 1000000 * rate * q \<le> sc * 1000000000 * (p + 2)"
proof -
  let ?A = "(mark * q * 1000000) sdiv sc"
  have A: "sc * ?A \<le> mark * q * 1000000" "mark * q * 1000000 \<le> sc * ?A + sc" "0 \<le> ?A"
    using sdiv_between [of "mark * q * 1000000" sc] assms by (simp_all add: sdiv_nonneg)
  have P: "1000000000 * p \<le> ?A * rate" "?A * rate \<le> 1000000000 * p + 1000000000"
    using sdiv_between [of "?A * rate" 1000000000] A(3) assms by simp_all
  have "sc * 1000000000 * p \<le> sc * (?A * rate)" using P(1) assms(1) by (simp add: mult.assoc)
  also have "\<dots> = (sc * ?A) * rate" by simp
  also have "\<dots> \<le> (mark * q * 1000000) * rate" using A(1) assms(4) by (rule mult_right_mono)
  finally show "sc * 1000000000 * p \<le> mark * 1000000 * rate * q" by (simp add: algebra_simps)
  have "(mark * q * 1000000) * rate \<le> (sc * ?A + sc) * rate" using A(2) assms(4) by (rule mult_right_mono)
  also have "\<dots> = sc * (?A * rate) + sc * rate" by (simp add: algebra_simps)
  also have "\<dots> \<le> sc * (1000000000 * p + 1000000000) + sc * 1000000000"
    using P(2) assms(1,5) by (intro add_mono mult_left_mono) simp_all
  finally show "mark * 1000000 * rate * q \<le> sc * 1000000000 * (p + 2)" by (simp add: algebra_simps)
qed

lemma payment_near:
  fixes sc mark q rate :: int
  assumes "0 < sc" and "0 \<le> mark" and "0 \<le> q" and "\<bar>rate\<bar> \<le> 1000000000"
  shows "\<bar>sc * 1000000000 * (((mark * q * 1000000) sdiv sc * rate) sdiv 1000000000) - mark * 1000000 * rate * q\<bar> \<le> sc * 1000000000 * 2"
proof (cases "0 \<le> rate")
  case True
  with payment_share [of sc mark q rate] assms show ?thesis by (simp add: algebra_simps)
next
  case False
  let ?A = "(mark * q * 1000000) sdiv sc"
  have "(?A * rate) sdiv 1000000000 = - ((?A * (- rate)) sdiv 1000000000)"
    using sdiv_neg [of 1000000000 "?A * (- rate)"] by simp
  with payment_share [of sc mark q "- rate"] assms False show ?thesis by (simp add: algebra_simps)
qed

lemma payable_payment:
  assumes "payable mark sc (u, side, q)" and "0 < sc" and "0 \<le> mark" and "\<bar>rate\<bar> \<le> 1000000000"
  shows "\<exists>p. compute_payment q mark sc rate = Some p \<and>
    (case side of Long \<Rightarrow> as_i64 (- p) | Short \<Rightarrow> p) = position_delta mark sc rate (u, side, q)"
proof -
  let ?A = "(mark * q * 1000000) sdiv sc"
  let ?p = "(?A * rate) sdiv 1000000000"
  have A: "0 \<le> ?A" "?A < 2 ^ 63 - 1" "0 \<le> q" using assms by (auto simp: payable_def sdiv_nonneg in_i64_def)
  then have in64: "in_i64 ?A" by (simp add: in_i64_def)
  have b: "\<bar>?A * rate\<bar> \<le> ?A * 1000000000" using A(1) assms(4) by (simp add: abs_mult mult_left_mono)
  have "?p \<le> (?A * 1000000000) sdiv 1000000000" using b by (intro sdiv_mono) auto
  moreover have "((- ?A) * 1000000000) sdiv 1000000000 \<le> ?p" using b by (intro sdiv_mono) auto
  ultimately have "in_i64 ?p" "in_i64 (- ?p)"
    using A sdiv_mult_self [of 1000000000 ?A] sdiv_mult_self [of 1000000000 "- ?A"] by (auto simp: in_i64_def)
  with in64 A assms show ?thesis
    by (cases side) (simp_all add: payable_def position_delta_def compute_payment_def calc_notional_atoms_def div_i128_def RATE_SCALE_E9_def)
qed

lemma settle_positions_sum:
  assumes "\<forall>p \<in> set ps. payable mark sc p" and "0 < sc" and "0 \<le> mark" and "\<bar>rate\<bar> \<le> 1000000000"
  shows "\<exists>out'. settle_positions mark sc rate ps out = Some out' \<and>
    sum_list (map fd_equity_delta_atoms (fs_deltas out')) =
      sum_list (map fd_equity_delta_atoms (fs_deltas out)) + sum_list (map (position_delta mark sc rate) ps)"
  using assms(1)
proof (induction ps arbitrary: out)
  case (Cons x ps)
  obtain u side q where x: "x = (u, side, q)" by (cases x)
  obtain p where p: "compute_payment q mark sc rate = Some p"
    "(case side of Long \<Rightarrow> as_i64 (- p) | Short \<Rightarrow> p) = position_delta mark sc rate (u, side, q)"
    using payable_payment [of mark sc u side q rate] Cons.prems assms x by auto
  let ?d = "position_delta mark sc rate (u, side, q)"
  let ?out = "(if ?d < 0 then out\<lparr>fs_long_paid_atoms := as_i64 (fs_long_paid_atoms out + as_i64 (- ?d))\<rparr>
      else out\<lparr>fs_short_received_atoms := as_i64 (fs_short_received_atoms out + ?d)\<rparr>)"
  show ?case
  proof (cases "?d = 0")
    case True
    with Cons.IH [of out] Cons.prems p show ?thesis by (simp add: x Let_def)
  next
    case False
    from Cons.IH [of "?out\<lparr>fs_deltas := fs_deltas out @ [\<lparr>fd_user_id = u, fd_equity_delta_atoms = ?d\<rparr>]\<rparr>"] Cons.prems False p
    show ?thesis by (cases "?d < 0") (simp_all add: x Let_def add.assoc)
  qed
qed simp

lemma deltas_near:
  assumes "\<forall>p \<in> set ps. payable mark sc p" and "0 < sc" and "0 \<le> mark" and "\<bar>rate\<bar> \<le> 1000000000"
  shows "\<bar>sc * 1000000000 * sum_list (map (position_delta mark sc rate) ps) + mark * 1000000 * rate * net_lots ps\<bar>
    \<le> sc * 1000000000 * (2 * int (length ps))"
  using assms(1)
proof (induction ps)
  case (Cons x ps)
  obtain u side q where x: "x = (u, side, q)" by (cases x)
  have "0 \<le> q" using Cons.prems x by (simp add: payable_def)
  from payment_near [OF assms(2,3) this assms(4)]
  have "\<bar>sc * 1000000000 * position_delta mark sc rate x + mark * 1000000 * rate * (side_sign side * q)\<bar> \<le> sc * 1000000000 * 2"
    by (cases side) (auto simp: x position_delta_def algebra_simps abs_le_iff)
  with Cons show ?case by (simp add: x net_lots_def algebra_simps)
qed (simp add: net_lots_def)

text \<open>
  The residue that a settlement sends to the insurance fund is only rounding: when long and
  short open interest match, it is at most two atoms per position, for any rate up to 100 percent
  and any partition of the open interest.
\<close>

theorem funding_residue_bounded:
  assumes "\<forall>p \<in> set ps. payable mark sc p" and "0 < sc" and "0 \<le> mark" and "\<bar>rate\<bar> \<le> 1000000000"
    and "net_lots ps = 0" and "int (length ps) < 2 ^ 60"
  shows "\<exists>s. compute_settlement ps mark sc rate = Some s \<and> \<bar>fs_residue_atoms s\<bar> \<le> 2 * int (length ps)"
proof (cases "rate = 0")
  case True
  then show ?thesis by (simp add: compute_settlement_def settlement_default_def)
next
  case False
  obtain out where out: "settle_positions mark sc rate ps settlement_default = Some out"
    "sum_list (map fd_equity_delta_atoms (fs_deltas out)) = sum_list (map (position_delta mark sc rate) ps)"
    using settle_positions_sum [OF assms(1-4), of settlement_default] by (auto simp: settlement_default_def)
  let ?D = "sum_list (map (position_delta mark sc rate) ps)"
  have "\<bar>sc * 1000000000 * ?D\<bar> \<le> sc * 1000000000 * (2 * int (length ps))"
    using deltas_near [OF assms(1-4)] assms(5) by simp
  then have "sc * 1000000000 * \<bar>?D\<bar> \<le> sc * 1000000000 * (2 * int (length ps))"
    using assms(2) by (simp add: abs_mult)
  then have D: "\<bar>?D\<bar> \<le> 2 * int (length ps)" using assms(2) by simp
  have "eq64 (foldl (\<lambda>acc d. as_i64 (acc + fd_equity_delta_atoms d)) 0 (fs_deltas out)) ?D"
    using foldl_wrap [of fd_equity_delta_atoms 0 "fs_deltas out"] out(2) by simp
  then have "as_i64 (- foldl (\<lambda>acc d. as_i64 (acc + fd_equity_delta_atoms d)) 0 (fs_deltas out)) = as_i64 (- ?D)"
    by (rule eq64_uminus [unfolded eq64_def [of "- _"]])
  also have "\<dots> = - ?D" using D assms(6) by (intro as_i64_id) (auto simp: in_i64_def)
  finally have "as_i64 (- foldl (\<lambda>acc d. as_i64 (acc + fd_equity_delta_atoms d)) 0 (fs_deltas out)) = - ?D" .
  with False out(1) D show ?thesis by (simp add: compute_settlement_def Let_def)
qed

theorem funding_residue_bounded_witness:
  "\<exists>s. compute_settlement [(1, Long, 3), (2, Short, 1), (3, Short, 2)] 7 3 (- 123456789) = Some s \<and> \<bar>fs_residue_atoms s\<bar> \<le> 6"
  using funding_residue_bounded [of "[(1, Long, 3), (2, Short, 1), (3, Short, 2)]" 7 3 "- 123456789"]
  by (simp add: payable_def net_lots_def in_i64_def in_i128_def signed_divide_int_def)

subsection \<open>The schedule\<close>

lemma settled_simps [simp]: "settled [] = []" "settled (None # bs) = settled bs" "settled (Some b # bs) = b # settled bs"
  by (simp_all add: settled_def List.map_filter_simps)

text \<open>The answer due at a poll, after \<open>k\<close> settlements.\<close>

definition answer_at :: "int \<Rightarrow> int \<Rightarrow> nat \<Rightarrow> int \<Rightarrow> int option" where
  "answer_at b0 period k now_ms = (if b0 + int k * period \<le> now_ms then Some (b0 + int k * period) else None)"

lemma answer_at_Suc: "answer_at (b0 + period) period k = answer_at b0 period (Suc k)"
  by (rule ext) (simp add: answer_at_def algebra_simps)

lemma polls_progress:
  assumes "polls ts s = (bs, s')" and "0 < sch_period_ms s"
    and "in_i64 (sch_next_settlement_at_ms s)" and "in_i64 (sch_next_settlement_at_ms s + int (length ts) * sch_period_ms s)"
  shows "length bs = length ts \<and>
    (\<forall>i < length ts. bs ! i = answer_at (sch_next_settlement_at_ms s) (sch_period_ms s) (length (settled (take i bs))) (ts ! i)) \<and>
    settled bs = map (\<lambda>k. sch_next_settlement_at_ms s + int k * sch_period_ms s) [0..<length (settled bs)] \<and>
    s' = s\<lparr>sch_next_settlement_at_ms := sch_next_settlement_at_ms s + int (length (settled bs)) * sch_period_ms s\<rparr>"
  using assms
proof (induction ts arbitrary: s bs s')
  case (Cons t ts)
  let ?n = "sch_next_settlement_at_ms s" and ?p = "sch_period_ms s"
  have le: "?n + int (length ts) * ?p \<le> ?n + int (length (t # ts)) * ?p" "?n \<le> ?n + int (length ts) * ?p"
    using Cons.prems(2) by (simp_all add: algebra_simps)
  have r: "in_i64 (?n + int (length ts) * ?p)"
    using in_i64_between [OF Cons.prems(3,4) _ le(1)] le(2) by simp
  show ?case
  proof (cases "t < ?n")
    case True
    obtain bs1 where b: "polls ts s = (bs1, s')" "bs = None # bs1"
      using Cons.prems(1) True by (auto simp: due_def Let_def split: prod.splits)
    from Cons.IH [OF b(1) Cons.prems(2,3) r] b(2) True show ?thesis
      by (auto simp: nth_Cons answer_at_def split: nat.split)
  next
    case False
    let ?s1 = "s\<lparr>sch_next_settlement_at_ms := ?n + ?p\<rparr>"
    have "?n + ?p \<le> ?n + int (length (t # ts)) * ?p" using Cons.prems(2) by (simp add: algebra_simps)
    then have n1: "as_i64 (?n + ?p) = ?n + ?p" "in_i64 (?n + ?p)"
      using in_i64_between [OF Cons.prems(3,4), of "?n + ?p"] Cons.prems(2) by simp_all
    obtain bs1 where b: "polls ts ?s1 = (bs1, s')" "bs = Some ?n # bs1"
      using Cons.prems(1) False n1(1) by (auto simp: due_def Let_def split: prod.splits)
    have "in_i64 (?n + ?p + int (length ts) * ?p)" using Cons.prems(4) by (simp add: algebra_simps)
    with Cons.IH [OF b(1)] Cons.prems(2) n1
    have ih: "length bs1 = length ts"
      "\<forall>i < length ts. bs1 ! i = answer_at (?n + ?p) ?p (length (settled (take i bs1))) (ts ! i)"
      "settled bs1 = map (\<lambda>k. ?n + ?p + int k * ?p) [0..<length (settled bs1)]"
      "s' = ?s1\<lparr>sch_next_settlement_at_ms := ?n + ?p + int (length (settled bs1)) * ?p\<rparr>"
      by simp_all
    have "map (\<lambda>k. ?n + int k * ?p) [0..<Suc (length (settled bs1))] = ?n # map (\<lambda>k. ?n + ?p + int k * ?p) [0..<length (settled bs1)]"
      unfolding upt_conv_Cons [OF zero_less_Suc] map_Suc_upt [symmetric] by (simp add: algebra_simps)
    moreover have "bs ! i = answer_at ?n ?p (length (settled (take i bs))) ((t # ts) ! i)" if "i < length (t # ts)" for i
      using that ih(2) b(2) False by (cases i) (simp_all add: answer_at_Suc, simp add: answer_at_def)
    ultimately show ?thesis using ih(1,3,4) b(2) by (simp add: algebra_simps del: upt_Suc)
  qed
qed simp

text \<open>
  C28. The schedule settles every period exactly once and on time. However often and at whatever times
  the scheduler is polled, a poll returns a boundary if and only if the next one has come, and then
  it returns that one; so the boundaries returned are the consecutive multiples of the period from
  the persisted one, with none skipped or repeated. A scheduler started again from the boundary it
  has reached is the same scheduler.
\<close>

theorem schedule_exact:
  assumes "polls ts (FundingScheduler_new (Some b0) now cfg) = (bs, s')" and "0 < fc_period_secs cfg"
    and "int (fc_period_secs cfg) * 1000 < 2 ^ 63" and "in_i64 b0"
    and "in_i64 (b0 + int (length ts) * (int (fc_period_secs cfg) * 1000))"
  shows "length bs = length ts \<and>
    (\<forall>i < length ts. let next = b0 + int (length (settled (take i bs))) * (int (fc_period_secs cfg) * 1000)
       in bs ! i = (if next \<le> ts ! i then Some next else None)) \<and>
    settled bs = map (\<lambda>k. b0 + int k * (int (fc_period_secs cfg) * 1000)) [0..<length (settled bs)] \<and>
    sch_next_settlement_at_ms s' = b0 + int (length (settled bs)) * (int (fc_period_secs cfg) * 1000) \<and>
    FundingScheduler_new (Some (sch_next_settlement_at_ms s')) later cfg = s'"
proof -
  have p: "as_i64 (as_i64 (int (fc_period_secs cfg)) * 1000) = int (fc_period_secs cfg) * 1000"
    using assms(3) by (simp add: in_i64_def)
  then have new: "FundingScheduler_new (Some b0) now cfg = \<lparr>sch_next_settlement_at_ms = b0, sch_period_ms = int (fc_period_secs cfg) * 1000\<rparr>"
    for b0 now by (simp add: FundingScheduler_new_def Let_def)
  show ?thesis using polls_progress [OF assms(1)] assms(2,4,5)
    unfolding new by (simp add: answer_at_def Let_def)
qed

theorem schedule_exact_witness:
  "\<exists>bs s'. polls [50, 1000, 5500, 5500, 5500] (FundingScheduler_new (Some 1000) 0 \<lparr>fc_period_secs = 2, fc_interest_e9 = 0, fc_clamp_e9 = 0\<rparr>) = (bs, s') \<and>
     bs = [None, Some 1000, Some 3000, Some 5000, None] \<and> sch_next_settlement_at_ms s' = 7000"
proof -
  let ?cfg = "\<lparr>fc_period_secs = 2, fc_interest_e9 = 0, fc_clamp_e9 = 0\<rparr>"
  obtain bs s' where r: "polls [50, 1000, 5500, 5500, 5500] (FundingScheduler_new (Some 1000) 0 ?cfg) = (bs, s')" by (meson surj_pair)
  have "bs = [None, Some 1000, Some 3000, Some 5000, None]"
    using r by (auto simp: FundingScheduler_new_def due_def Let_def in_i64_def)
  with schedule_exact [OF r] r show ?thesis by (simp add: in_i64_def)
qed

end
