(* ===== verification/Snowflake.thy ===== *)
theory Snowflake
  imports Prelude
begin

text \<open>
  Order identifiers, from \<open>src/src/desk/snowflake.rs\<close>.

  An identifier packs a desk number (15 bits), a millisecond timestamp (26 bits) and a sequence
  number (22 bits). The generator keeps timestamp and sequence in one atomic word, which every
  call of \<open>next_id\<close> advances by a compare-and-exchange. Words are naturals with the bit operations
  of the library, and \<open>as_u64\<close> at every left shift. \<open>advance\<close> is the body of the loop between
  the load and the exchange; \<open>next_id\<close> is the loop of one caller on a list of clock readings (\<open>None\<close>
  when the readings end before it returns); \<open>cas_step\<close> interleaves the three atomic actions of
  many callers. The clock is an input: it may stand still or go back.
\<close>

unbundle bit_operations_syntax

subsection \<open>Layout\<close>

definition DESK_ID_BITS :: nat where "DESK_ID_BITS = 15"
definition TIMESTAMP_BITS :: nat where "TIMESTAMP_BITS = 26"
definition SEQUENCE_BITS :: nat where "SEQUENCE_BITS = 22"
definition DESK_ID_SHIFT :: nat where "DESK_ID_SHIFT = TIMESTAMP_BITS + SEQUENCE_BITS"
definition TIMESTAMP_SHIFT :: nat where "TIMESTAMP_SHIFT = SEQUENCE_BITS"
definition SEQUENCE_MASK :: nat where "SEQUENCE_MASK = 2 ^ SEQUENCE_BITS - 1"
definition TIMESTAMP_MASK :: nat where "TIMESTAMP_MASK = 2 ^ TIMESTAMP_BITS - 1"
definition DESK_ID_MASK :: nat where "DESK_ID_MASK = 2 ^ DESK_ID_BITS - 1"

lemmas shift_defs = DESK_ID_BITS_def TIMESTAMP_BITS_def SEQUENCE_BITS_def DESK_ID_SHIFT_def
  TIMESTAMP_SHIFT_def

lemmas layout_defs = shift_defs SEQUENCE_MASK_def TIMESTAMP_MASK_def DESK_ID_MASK_def

definition shl :: "nat \<Rightarrow> nat \<Rightarrow> nat" where
  "shl x n = as_u64 (push_bit n x)"

record SnowflakeIdGenerator =
  gen_desk_id :: nat
  gen_state :: nat

definition snowflake_new :: "nat \<Rightarrow> nat \<Rightarrow> SnowflakeIdGenerator exec" where
  "snowflake_new desk clock_ms = (if desk < 2 ^ DESK_ID_BITS
     then Some \<lparr>gen_desk_id = desk, gen_state = shl (clock_ms AND TIMESTAMP_MASK) TIMESTAMP_SHIFT OR 0\<rparr>
     else None)"

subsection \<open>Issuing an identifier\<close>

definition advance :: "nat \<Rightarrow> nat \<Rightarrow> (nat \<times> nat) option" where
  "advance now_ms old_state =
    (let old_timestamp = drop_bit TIMESTAMP_SHIFT old_state;
         old_sequence = old_state AND SEQUENCE_MASK
     in if now_ms > old_timestamp then Some (now_ms, 0)
        else if now_ms = old_timestamp then
          (if old_sequence \<ge> SEQUENCE_MASK then None else Some (old_timestamp, old_sequence + 1))
        else Some (old_timestamp, old_sequence + 1))"

definition pack_state :: "nat \<Rightarrow> nat \<Rightarrow> nat" where
  "pack_state ts sq = shl ts TIMESTAMP_SHIFT OR sq"

definition pack_id :: "nat \<Rightarrow> nat \<Rightarrow> nat \<Rightarrow> nat" where
  "pack_id desk ts sq = shl desk DESK_ID_SHIFT OR shl ts TIMESTAMP_SHIFT OR sq"

fun next_id :: "nat list \<Rightarrow> SnowflakeIdGenerator \<Rightarrow> (nat \<times> nat list \<times> SnowflakeIdGenerator) option" where
  "next_id [] g = None"
| "next_id (clock_ms # clock) g =
    (case advance (clock_ms AND TIMESTAMP_MASK) (gen_state g) of
       None \<Rightarrow> next_id clock g
     | Some (ts, sq) \<Rightarrow>
         Some (pack_id (gen_desk_id g) ts sq, clock, g\<lparr>gen_state := pack_state ts sq\<rparr>))"

fun next_ids :: "nat \<Rightarrow> nat list \<Rightarrow> SnowflakeIdGenerator \<Rightarrow>
    (nat list \<times> nat list \<times> SnowflakeIdGenerator) option" where
  "next_ids 0 clock g = Some ([], clock, g)"
| "next_ids (Suc count) clock g =
    do { (i, clock, g) \<leftarrow> next_id clock g;
         (rest, clock, g) \<leftarrow> next_ids count clock g;
         Some (i # rest, clock, g) }"

definition parse :: "nat \<Rightarrow> nat \<times> nat \<times> nat" where
  "parse i = (drop_bit DESK_ID_SHIFT i AND DESK_ID_MASK,
              drop_bit TIMESTAMP_SHIFT i AND TIMESTAMP_MASK,
              i AND SEQUENCE_MASK)"

subsection \<open>Concurrent callers\<close>

text \<open>
  A caller of \<open>next_id\<close> reads the clock, then loads the state, then attempts the exchange; other
  callers may act between any two of these. \<open>issued\<close> collects the identifiers returned so far,
  the newest first.
\<close>

datatype caller = Idle | Timed nat | Loaded nat nat

datatype action = ReadClock nat nat | LoadState nat | Exchange nat

record desk_gen =
  gen :: SnowflakeIdGenerator
  callers :: "nat \<Rightarrow> caller"
  issued :: "nat list"

fun cas_step :: "action \<Rightarrow> desk_gen \<Rightarrow> desk_gen" where
  "cas_step (ReadClock i clock_ms) w = (case callers w i of
     Idle \<Rightarrow> w\<lparr>callers := (callers w)(i := Timed (clock_ms AND TIMESTAMP_MASK))\<rparr>
   | _ \<Rightarrow> w)"
| "cas_step (LoadState i) w = (case callers w i of
     Timed now_ms \<Rightarrow> w\<lparr>callers := (callers w)(i := Loaded now_ms (gen_state (gen w)))\<rparr>
   | _ \<Rightarrow> w)"
| "cas_step (Exchange i) w = (case callers w i of
     Loaded now_ms old_state \<Rightarrow>
       (case advance now_ms old_state of
          None \<Rightarrow> w\<lparr>callers := (callers w)(i := Idle)\<rparr>
        | Some (ts, sq) \<Rightarrow>
            if gen_state (gen w) = old_state
            then w\<lparr>gen := (gen w)\<lparr>gen_state := pack_state ts sq\<rparr>, callers := (callers w)(i := Idle),
                   issued := pack_id (gen_desk_id (gen w)) ts sq # issued w\<rparr>
            else w\<lparr>callers := (callers w)(i := Idle)\<rparr>)
   | _ \<Rightarrow> w)"

definition cas_run :: "action list \<Rightarrow> desk_gen \<Rightarrow> desk_gen" where
  "cas_run acts w = fold cas_step acts w"

definition start :: "SnowflakeIdGenerator \<Rightarrow> desk_gen" where
  "start g = \<lparr>gen = g, callers = (\<lambda>_. Idle), issued = []\<rparr>"

text \<open>
  \<open>overruns\<close> marks the one exchange the generator does not guard: a caller whose clock reading is
  behind the stored timestamp while the sequence is used up.
\<close>

fun overruns :: "action \<Rightarrow> desk_gen \<Rightarrow> bool" where
  "overruns (Exchange i) w = (case callers w i of
     Loaded now_ms old_state \<Rightarrow>
       now_ms < drop_bit TIMESTAMP_SHIFT old_state \<and> old_state AND SEQUENCE_MASK = SEQUENCE_MASK
   | _ \<Rightarrow> False)"
| "overruns _ w = False"

fun run_overruns :: "action list \<Rightarrow> desk_gen \<Rightarrow> bool" where
  "run_overruns [] w = False"
| "run_overruns (a # acts) w = (overruns a w \<or> run_overruns acts (cas_step a w))"

subsection \<open>Packing\<close>

lemma and_mask_mod: "x AND (2 ^ n - 1) = x mod 2 ^ n" for x :: nat
  by (metis take_bit_eq_mask mask_eq_exp_minus_1 take_bit_eq_mod)

lemma mask_mod [simp]:
  "x AND SEQUENCE_MASK = x mod 2 ^ 22"
  "x AND TIMESTAMP_MASK = x mod 2 ^ 26"
  "x AND DESK_ID_MASK = x mod 2 ^ 15"
  using and_mask_mod [of x 22] and_mask_mod [of x 26] and_mask_mod [of x 15]
  by (simp_all add: layout_defs)

lemma or_disjoint: "x * 2 ^ n OR y = x * 2 ^ n + y" if "y < 2 ^ n" for x y :: nat
proof -
  have "y = take_bit n y"
    using that by (simp add: take_bit_nat_eq_self)
  then have "push_bit n x AND y = 0"
    by (metis (no_types, opaque_lifting) and_zero_eq push_bit_take_bit take_bit_and take_bit_push_bit
        take_bit_eq_mask and.assoc and.commute push_bit_eq_mult take_bit_of_0 take_bit_eq_mod
        mod_mult_self2_is_0)
  then show ?thesis
    by (simp add: push_bit_eq_mult disjunctive_add_eq_or)
qed

lemma shl_eq: "x * 2 ^ n < 2 ^ 64 \<Longrightarrow> shl x n = x * 2 ^ n"
  by (simp add: shl_def push_bit_eq_mult as_u64_def)

lemma pack_state_eq:
  assumes "ts < 2 ^ 26" "sq < 2 ^ 22"
  shows "pack_state ts sq = ts * 2 ^ 22 + sq"
proof -
  have "shl ts 22 = ts * 2 ^ 22"
    by (rule shl_eq) (use assms in simp)
  then show ?thesis
    using or_disjoint [of sq 22 ts] assms by (simp add: pack_state_def layout_defs)
qed

lemma pack_state_bound:
  assumes "ts < 2 ^ 26" "sq < 2 ^ 22"
  shows "pack_state ts sq < 2 ^ 48"
  using assms by (simp add: pack_state_eq)

lemma pack_id_eq:
  assumes "desk < 2 ^ 15" "ts < 2 ^ 26" "sq < 2 ^ 22"
  shows "pack_id desk ts sq = desk * 2 ^ 48 + pack_state ts sq"
proof -
  have "shl desk 48 = desk * 2 ^ 48"
    by (rule shl_eq) (use assms in simp)
  then have "pack_id desk ts sq = desk * 2 ^ 48 OR pack_state ts sq"
    by (simp add: pack_id_def pack_state_def layout_defs or.assoc)
  then show ?thesis
    using or_disjoint [of "pack_state ts sq" 48 desk] pack_state_bound [OF assms(2,3)] by simp
qed

lemma parse_pack_id:
  assumes "desk < 2 ^ 15" "ts < 2 ^ 26" "sq < 2 ^ 22"
  shows "parse (pack_id desk ts sq) = (desk, ts, sq)"
proof -
  let ?i = "pack_id desk ts sq"
  have i: "?i = pack_state ts sq + desk * 2 ^ 48" "?i = sq + (ts + desk * 2 ^ 26) * 2 ^ 22"
    using pack_id_eq [OF assms] pack_state_eq [OF assms(2,3)] by simp_all
  have "?i div 2 ^ 48 = desk"
    using pack_state_bound [OF assms(2,3)] unfolding i(1) by (simp del: power_numeral)
  moreover have "?i div 2 ^ 22 = ts + desk * 2 ^ 26" "?i mod 2 ^ 22 = sq"
    using assms(3) unfolding i(2) by (simp_all del: power_numeral)
  moreover have "(ts + desk * 2 ^ 26) mod 2 ^ 26 = ts"
    using assms(2) by (simp del: power_numeral)
  ultimately show ?thesis
    using assms(1) by (simp add: parse_def drop_bit_eq_div shift_defs)
qed

subsection \<open>One successful exchange\<close>

lemma advance_cases:
  assumes "advance now_ms s = Some (ts, sq)" "now_ms < 2 ^ 26" "s < 2 ^ 48"
    and "\<not> (now_ms < s div 2 ^ 22 \<and> s mod 2 ^ 22 = SEQUENCE_MASK)"
  shows "ts < 2 ^ 26" "sq < 2 ^ 22" "s < ts * 2 ^ 22 + sq"
proof -
  define t q where tq: "t = s div 2 ^ 22" "q = s mod 2 ^ 22"
  have s: "s = t * 2 ^ 22 + q"
    by (simp add: tq)
  have t: "t < 2 ^ 26"
    using \<open>s < 2 ^ 48\<close> by (simp add: tq less_mult_imp_div_less)
  have q: "q < 2 ^ 22"
    by (simp add: tq)
  then have q': "q \<le> SEQUENCE_MASK"
    by (simp add: layout_defs)
  have ok: "\<not> (now_ms < t \<and> q = SEQUENCE_MASK)"
    using assms(4) by (simp only: tq not_False_eq_True)
  have adv: "advance now_ms s = (if t < now_ms then Some (now_ms, 0)
      else if now_ms = t then if SEQUENCE_MASK \<le> q then None else Some (t, q + 1)
      else Some (t, q + 1))"
    by (simp add: advance_def drop_bit_eq_div shift_defs tq Let_def)
  consider "t < now_ms" "ts = now_ms" "sq = 0" | "q < SEQUENCE_MASK" "ts = t" "sq = q + 1"
    using assms(1) ok q' unfolding adv by (auto split: if_splits)
  then have "ts < 2 ^ 26 \<and> sq < 2 ^ 22 \<and> s < ts * 2 ^ 22 + sq"
  proof cases
    case 1
    then have "t + 1 \<le> ts"
      by simp
    then have "(t + 1) * 2 ^ 22 \<le> ts * 2 ^ 22"
      by (rule mult_le_mono1)
    then have "s < ts * 2 ^ 22"
      using q by (simp add: s)
    with 1 assms(2) show ?thesis
      by simp
  next
    case 2
    with t show ?thesis
      by (simp add: s layout_defs)
  qed
  then show "ts < 2 ^ 26" "sq < 2 ^ 22" "s < ts * 2 ^ 22 + sq"
    by simp_all
qed

lemma advance_issues:
  assumes "advance now_ms s = Some (ts, sq)" "now_ms < 2 ^ 26" "s < 2 ^ 48" "desk < 2 ^ 15"
    and "\<not> (now_ms < s div 2 ^ 22 \<and> s mod 2 ^ 22 = SEQUENCE_MASK)"
  shows "s < pack_state ts sq" "pack_state ts sq < 2 ^ 48"
    "pack_id desk ts sq = desk * 2 ^ 48 + pack_state ts sq"
  using advance_cases [OF assms(1,2,3,5)] pack_state_eq pack_state_bound pack_id_eq [OF assms(4)]
  by simp_all

subsection \<open>The generator between concurrent callers\<close>

fun fresh_clock :: "caller \<Rightarrow> bool" where
  "fresh_clock Idle = True"
| "fresh_clock (Timed now_ms) = (now_ms < 2 ^ 26)"
| "fresh_clock (Loaded now_ms _) = (now_ms < 2 ^ 26)"

definition gen_inv :: "desk_gen \<Rightarrow> bool" where
  "gen_inv w \<longleftrightarrow> gen_desk_id (gen w) < 2 ^ 15 \<and> gen_state (gen w) < 2 ^ 48 \<and>
     (\<forall>i. fresh_clock (callers w i)) \<and> sorted_wrt (>) (issued w) \<and>
     (\<forall>x\<in>set (issued w). gen_desk_id (gen w) * 2 ^ 48 \<le> x \<and>
        x \<le> gen_desk_id (gen w) * 2 ^ 48 + gen_state (gen w))"

lemma gen_invD:
  assumes "gen_inv w"
  shows "gen_desk_id (gen w) < 2 ^ 15" "gen_state (gen w) < 2 ^ 48" "fresh_clock (callers w i)"
    "sorted_wrt (>) (issued w)"
    "x \<in> set (issued w) \<Longrightarrow> gen_desk_id (gen w) * 2 ^ 48 \<le> x"
    "x \<in> set (issued w) \<Longrightarrow> x \<le> gen_desk_id (gen w) * 2 ^ 48 + gen_state (gen w)"
  using assms by (auto simp: gen_inv_def)

lemma gen_inv_callers:
  "gen_inv w \<Longrightarrow> fresh_clock c \<Longrightarrow> gen_inv (w\<lparr>callers := (callers w)(i := c)\<rparr>)"
  by (simp add: gen_inv_def)

lemma gen_inv_exchange:
  assumes inv: "gen_inv w" and pc: "callers w i = Loaded now_ms (gen_state (gen w))"
    and adv: "advance now_ms (gen_state (gen w)) = Some (ts, sq)"
    and ok: "\<not> overruns (Exchange i) w"
  shows "gen_inv (w\<lparr>gen := (gen w)\<lparr>gen_state := pack_state ts sq\<rparr>, callers := (callers w)(i := Idle),
           issued := pack_id (gen_desk_id (gen w)) ts sq # issued w\<rparr>)"
proof -
  let ?s = "gen_state (gen w)" and ?d = "gen_desk_id (gen w)"
  have "now_ms < 2 ^ 26"
    using gen_invD(3) [OF inv, of i] pc by simp
  moreover have "\<not> (now_ms < ?s div 2 ^ 22 \<and> ?s mod 2 ^ 22 = SEQUENCE_MASK)"
    using ok pc by (simp add: drop_bit_eq_div shift_defs)
  ultimately have up: "?s < pack_state ts sq" "pack_state ts sq < 2 ^ 48"
    and i: "pack_id ?d ts sq = ?d * 2 ^ 48 + pack_state ts sq"
    using advance_issues [OF adv _ gen_invD(2) [OF inv] gen_invD(1) [OF inv]] by simp_all
  have below: "\<forall>x\<in>set (issued w). x < pack_id ?d ts sq"
    using gen_invD(6) [OF inv] up(1) i by fastforce
  then have "\<forall>x\<in>set (issued w). ?d * 2 ^ 48 \<le> x \<and> x \<le> ?d * 2 ^ 48 + pack_state ts sq"
    unfolding i using gen_invD(5) [OF inv] by (blast intro: less_imp_le)
  with below show ?thesis
    using gen_invD(1-4) [OF inv] up(2) by (simp add: gen_inv_def i)
qed

lemma cas_step_inv:
  assumes inv: "gen_inv w" and ok: "\<not> overruns a w"
  shows "gen_inv (cas_step a w)"
proof (cases a)
  case (ReadClock i clock_ms)
  then show ?thesis
    using inv gen_inv_callers [OF inv, of "Timed (clock_ms mod 2 ^ 26)" i]
    by (simp split: caller.split)
next
  case (LoadState i)
  then show ?thesis
    using inv gen_invD(3) [OF inv, of i] gen_inv_callers [OF inv, of "Loaded _ (gen_state (gen w))" i]
    by (auto split: caller.split)
next
  case (Exchange i)
  show ?thesis
  proof (cases "callers w i")
    case (Loaded now_ms old_state)
    note idle = gen_inv_callers [OF inv, of Idle i]
    show ?thesis
    proof (cases "gen_state (gen w) = old_state")
      case True
      then show ?thesis
        using Exchange Loaded ok idle gen_inv_exchange [OF inv, of i now_ms]
        by (simp split: option.split del: overruns.simps)
    next
      case False
      then show ?thesis
        using Exchange Loaded idle by (simp split: option.split)
    qed
  qed (use Exchange inv in simp_all)
qed

lemma cas_run_inv: "gen_inv w \<Longrightarrow> \<not> run_overruns acts w \<Longrightarrow> gen_inv (cas_run acts w)"
  by (induction acts arbitrary: w) (auto simp: cas_run_def cas_step_inv)

lemma cas_step_desk: "gen_desk_id (gen (cas_step a w)) = gen_desk_id (gen w)"
  by (induction a w rule: cas_step.induct) (auto split: caller.split option.split)

lemma cas_run_desk: "gen_desk_id (gen (cas_run acts w)) = gen_desk_id (gen w)"
  by (induction acts arbitrary: w) (auto simp: cas_run_def cas_step_desk)

lemma snowflake_new_state:
  assumes "snowflake_new desk clock_ms = Some g"
  shows "gen_desk_id g = desk" "desk < 2 ^ 15" "gen_state g = clock_ms mod 2 ^ 26 * 2 ^ 22"
proof -
  have "clock_ms mod 2 ^ 26 < 2 ^ 26"
    by simp
  then have "pack_state (clock_ms mod 2 ^ 26) 0 = clock_ms mod 2 ^ 26 * 2 ^ 22"
    using pack_state_eq [of "clock_ms mod 2 ^ 26" 0] by simp
  then show "gen_desk_id g = desk" "desk < 2 ^ 15" "gen_state g = clock_ms mod 2 ^ 26 * 2 ^ 22"
    using assms by (auto simp: snowflake_new_def pack_state_def DESK_ID_BITS_def split: if_splits)
qed

lemma snowflake_new_inv:
  assumes "snowflake_new desk clock_ms = Some g"
  shows "gen_inv (start g)"
proof -
  have "clock_ms mod 2 ^ 26 * 2 ^ 22 < 2 ^ 26 * (2 ^ 22 :: nat)"
    by (rule mult_less_mono1) simp_all
  then show ?thesis
    using snowflake_new_state [OF assms] by (simp add: gen_inv_def start_def)
qed

lemma DESK_ID_SHIFT_eq: "DESK_ID_SHIFT = 48"
  by (simp add: shift_defs)

lemma issued_desk:
  assumes "gen_inv w" "x \<in> set (issued w)"
  shows "drop_bit DESK_ID_SHIFT x = gen_desk_id (gen w)" "x < 2 ^ 63"
proof -
  let ?d = "gen_desk_id (gen w)"
  define r where "r = x - ?d * 2 ^ 48"
  have "?d * 2 ^ 48 \<le> x" "x \<le> ?d * 2 ^ 48 + gen_state (gen w)" "gen_state (gen w) < 2 ^ 48"
    by (fact gen_invD(5) [OF assms] gen_invD(6) [OF assms] gen_invD(2) [OF assms(1)])+
  then have x: "x = r + ?d * 2 ^ 48" and r: "r < 2 ^ 48"
    by (simp_all add: r_def)
  show "drop_bit DESK_ID_SHIFT x = ?d"
    unfolding drop_bit_eq_div DESK_ID_SHIFT_eq x using r by (simp del: power_numeral)
  show "x < 2 ^ 63"
    using r gen_invD(1) [OF assms(1)] by (simp add: x)
qed

subsection \<open>One caller\<close>

lemma next_id_returns:
  assumes "c \<in> set clock"
    and "c mod 2 ^ 26 \<noteq> gen_state g div 2 ^ 22 \<or> gen_state g mod 2 ^ 22 < SEQUENCE_MASK"
  shows "\<exists>r. next_id clock g = Some r"
  using assms(1)
proof (induction clock)
  case (Cons c' clock)
  show ?case
  proof (cases "advance (c' mod 2 ^ 26) (gen_state g)")
    case None
    then have "c \<noteq> c'"
      using assms(2) by (auto simp: advance_def drop_bit_eq_div shift_defs Let_def split: if_splits)
    then show ?thesis
      using Cons None by simp
  qed (use Cons in auto)
qed simp

definition later :: "nat \<Rightarrow> nat list \<Rightarrow> nat list" where
  "later k clock = map (\<lambda>c. c + k * 2 ^ TIMESTAMP_BITS) clock"

lemma later_simps [simp]:
  "later k [] = []" "later k (c # clock) = (c + k * 2 ^ TIMESTAMP_BITS) # later k clock"
  by (simp_all add: later_def)

lemma mod_later [simp]: "(c + k * 2 ^ TIMESTAMP_BITS) mod 2 ^ 26 = c mod 2 ^ 26" for c :: nat
  by (simp add: shift_defs)

lemma next_id_later:
  "next_id (later k clock) g = map_option (\<lambda>(i, rest, g'). (i, later k rest, g')) (next_id clock g)"
  by (induction clock) (auto simp del: power_numeral split: option.split)

lemma next_ids_later:
  "next_ids n (later k clock) g =
     map_option (\<lambda>(ids, rest, g'). (ids, later k rest, g')) (next_ids n clock g)"
proof (induction n arbitrary: clock g)
  case (Suc n)
  show ?case
  proof (cases "next_id clock g")
    case (Some r)
    obtain i rest g' where r: "r = (i, rest, g')"
      by (cases r)
    show ?thesis
      by (cases "next_ids n rest g'") (auto simp: next_id_later Suc Some r)
  qed (simp add: next_id_later)
qed simp

lemma snowflake_new_later: "snowflake_new desk (c + k * 2 ^ TIMESTAMP_BITS) = snowflake_new desk c"
  by (simp add: snowflake_new_def del: power_numeral)

subsection \<open>A clock behind the stored timestamp\<close>

definition stale_gen :: "nat \<Rightarrow> nat \<Rightarrow> SnowflakeIdGenerator" where
  "stale_gen desk k = \<lparr>gen_desk_id = desk, gen_state = 2 ^ 22 + k\<rparr>"

lemma stale_advance:
  assumes "k < 2 ^ 22"
  shows "advance 0 (2 ^ 22 + k) = Some (1, k + 1)"
proof -
  have "(2 ^ 22 + k) div 2 ^ 22 = 1" "(2 ^ 22 + k) mod 2 ^ 22 = k"
    using assms by simp_all
  then show ?thesis
    by (simp add: advance_def drop_bit_eq_div shift_defs)
qed

lemma stale_pack:
  assumes "k < 2 ^ 22"
  shows "pack_state 1 (k + 1) = 2 ^ 22 + (k + 1) mod 2 ^ 22"
proof (cases "k + 1 = 2 ^ 22")
  case True
  have "shl 1 22 = 2 ^ 22"
    using shl_eq [of 1 22] by simp
  with True show ?thesis
    by (simp add: pack_state_def shift_defs)
next
  case False
  then have "k + 1 < 2 ^ 22"
    using assms by simp
  then show ?thesis
    using pack_state_eq [of 1 "k + 1"] by simp
qed

lemma stale_next_id:
  assumes "k < 2 ^ 22"
  shows "next_id (0 # clock) (stale_gen desk k) =
    Some (pack_id desk 1 (k + 1), clock, stale_gen desk ((k + 1) mod 2 ^ 22))"
  using stale_advance [OF assms] stale_pack [OF assms] by (simp add: stale_gen_def)

lemma stale_next_ids:
  "k < 2 ^ 22 \<Longrightarrow> next_ids n (replicate n 0 @ clock) (stale_gen desk k) =
    Some (map (\<lambda>i. pack_id desk 1 ((k + i) mod 2 ^ 22 + 1)) [0..<n], clock,
          stale_gen desk ((k + n) mod 2 ^ 22))"
proof (induction n arbitrary: k)
  case 0
  then show ?case
    by simp
next
  case (Suc n)
  let ?k = "(k + 1) mod 2 ^ 22"
  have "(?k + i) mod 2 ^ 22 = (k + Suc i) mod 2 ^ 22" for i
    by (simp add: mod_add_left_eq del: power_numeral)
  moreover have "next_ids n (replicate n 0 @ clock) (stale_gen desk ?k) =
      Some (map (\<lambda>i. pack_id desk 1 ((?k + i) mod 2 ^ 22 + 1)) [0..<n], clock,
            stale_gen desk ((?k + n) mod 2 ^ 22))"
    by (rule Suc.IH) simp
  moreover have "k mod 2 ^ 22 = k"
    using Suc.prems by simp
  moreover have "[0..<Suc n] = 0 # map Suc [0..<n]"
    by (simp add: map_Suc_upt upt_conv_Cons)
  ultimately show ?case
    using stale_next_id [OF Suc.prems]
    by (simp add: comp_def del: power_numeral next_id.simps upt_Suc)
qed

subsection \<open>Properties\<close>

definition demo_gen :: SnowflakeIdGenerator where
  "demo_gen = \<lparr>gen_desk_id = 3, gen_state = 5 * 2 ^ 22\<rparr>"

lemma demo_gen_new: "snowflake_new 3 5 = Some demo_gen"
proof -
  have "shl 5 22 = 5 * 2 ^ 22"
    by (rule shl_eq) simp
  then show ?thesis
    by (simp add: snowflake_new_def demo_gen_def shift_defs)
qed

text \<open>
  C30. However the clock readings, loads and exchanges of concurrent callers of \<open>next_id\<close> interleave,
  the identifiers one generator returns are strictly increasing in the order of the exchanges,
  hence never repeat, stay below \<open>2 ^ 63\<close> and carry the desk number, as long as no caller with a
  clock behind the stored timestamp finds the sequence used up.
\<close>

theorem concurrent_ids_unique:
  assumes "snowflake_new desk clock_ms = Some g" "\<not> run_overruns acts (start g)"
  shows "sorted_wrt (>) (issued (cas_run acts (start g))) \<and>
    distinct (issued (cas_run acts (start g))) \<and>
    (\<forall>x\<in>set (issued (cas_run acts (start g))). drop_bit DESK_ID_SHIFT x = desk \<and> x < 2 ^ 63)"
proof -
  let ?w = "cas_run acts (start g)"
  have inv: "gen_inv ?w"
    using cas_run_inv [OF snowflake_new_inv [OF assms(1)] assms(2)] .
  have "gen_desk_id (gen ?w) = desk"
    using snowflake_new_state(1) [OF assms(1)] by (simp add: cas_run_desk start_def)
  moreover have "distinct (issued ?w)"
    using gen_invD(4) [OF inv] by (metis distinct_rev rev_rev_ident sorted_wrt_rev strict_sorted_iff)
  ultimately show ?thesis
    using gen_invD(4) [OF inv] issued_desk [OF inv] by simp
qed

theorem concurrent_ids_unique_witness:
  "snowflake_new 3 5 = Some demo_gen \<and>
   \<not> run_overruns [ReadClock 0 7, ReadClock 1 7, LoadState 0, LoadState 1, Exchange 0, Exchange 1]
        (start demo_gen) \<and>
   distinct (issued (cas_run
     [ReadClock 0 7, ReadClock 1 7, LoadState 0, LoadState 1, Exchange 0, Exchange 1] (start demo_gen)))"
proof -
  let ?acts = "[ReadClock 0 7, ReadClock 1 7, LoadState 0, LoadState 1, Exchange 0, Exchange 1]"
  have "\<not> run_overruns ?acts (start demo_gen)"
    by (simp add: start_def demo_gen_def advance_def drop_bit_eq_div shift_defs pack_state_eq)
  then show ?thesis
    using demo_gen_new concurrent_ids_unique [OF demo_gen_new, of ?acts] by blast
qed

text \<open>
  Every identifier reads back as the desk, timestamp and sequence it was packed from, for every
  value of the three fields.
\<close>

theorem id_round_trip:
  assumes "desk < 2 ^ DESK_ID_BITS" "ts \<le> TIMESTAMP_MASK" "sq \<le> SEQUENCE_MASK"
  shows "parse (pack_id desk ts sq) = (desk, ts, sq)"
  by (rule parse_pack_id) (use assms in \<open>simp_all add: layout_defs\<close>)

theorem id_round_trip_witness:
  "(7 :: nat) < 2 ^ DESK_ID_BITS \<and> (9 :: nat) \<le> TIMESTAMP_MASK \<and> (4194303 :: nat) \<le> SEQUENCE_MASK \<and>
   parse (pack_id 7 9 4194303) = (7, 9, 4194303)"
  using id_round_trip [of 7 9 4194303] by (simp add: layout_defs)

text \<open>
  The timestamp field wraps after \<open>2 ^ 26\<close> milliseconds, which is 18 hours and 38 minutes: a
  generator that starts that much later and sees the same clock readings, shifted, returns exactly the
  identifiers of its predecessor, in the same order.
\<close>

theorem ids_repeat_after_wrap:
  "snowflake_new desk (clock_ms + 2 ^ TIMESTAMP_BITS) = snowflake_new desk clock_ms \<and>
   map_option fst (next_ids n (later 1 clock) g) = map_option fst (next_ids n clock g)"
  using snowflake_new_later [of desk clock_ms 1]
  by (simp add: next_ids_later option.map_comp comp_def case_prod_unfold)

text \<open>
  A clock that has gone back is not guarded against a used-up sequence: from timestamp 1, the call
  number \<open>2 ^ 22 + 1\<close> returns the identifier of the first call again.
\<close>

theorem stale_clock_repeats_id:
  "\<exists>ids g'. next_ids (2 ^ 22 + 1) (replicate (2 ^ 22 + 1) 0) (stale_gen desk 0) = Some (ids, [], g') \<and>
     length ids = 2 ^ 22 + 1 \<and> ids ! 0 = ids ! (2 ^ 22)"
proof -
  let ?n = "2 ^ 22 + 1 :: nat"
  have "map f [0..<?n] ! 0 = f 0" "map f [0..<?n] ! (2 ^ 22) = f (2 ^ 22)" for f :: "nat \<Rightarrow> nat"
    by (simp_all add: nth_map_upt del: upt_Suc power_numeral)
  then show ?thesis
    using stale_next_ids [of 0 ?n "[]" desk] by (simp del: upt_Suc power_numeral replicate.simps)
qed

end
