(* ===== verification/RateLimit.thy ===== *)
theory RateLimit
  imports Float64 Text
begin

text \<open>
  The token buckets of \<open>src/src/desk/rate_limit.rs\<close>: the per-client \<open>RateLimiter\<close> and the
  \<open>SharedRateLimiter\<close> of the order entry paths, which keeps one bucket per user and operation
  class.

  Tokens are \<open>f64\<close> values, as in the code. The clock (\<open>current_timestamp\<close>, in seconds) is an
  argument of every operation; an operation that may create a bucket reads it twice (\<open>now0\<close> when
  the bucket is made, \<open>now\<close> when it is refilled). \<open>now - last_update\<close> is a \<open>u64\<close> subtraction,
  so a clock that goes back wraps around.
\<close>

subsection \<open>A bucket\<close>

record RateLimitPolicy =
  requests_per_second :: nat
  burst_capacity :: nat

definition default_trading :: RateLimitPolicy where
  "default_trading = \<lparr>requests_per_second = 100, burst_capacity = 200\<rparr>"

definition strict :: RateLimitPolicy where
  "strict = \<lparr>requests_per_second = 10, burst_capacity = 20\<rparr>"

definition lenient :: RateLimitPolicy where
  "lenient = \<lparr>requests_per_second = 1000, burst_capacity = 2000\<rparr>"

record TokenBucket =
  tokens :: f64
  last_update :: nat
  policy :: RateLimitPolicy

definition f_of_nat :: "nat \<Rightarrow> f64" where
  "f_of_nat n = f_of_int (int n)"

definition bucket_new :: "nat \<Rightarrow> RateLimitPolicy \<Rightarrow> TokenBucket" where
  "bucket_new now p = \<lparr>tokens = f_of_nat (burst_capacity p), last_update = now, policy = p\<rparr>"

definition u64_sub :: "nat \<Rightarrow> nat \<Rightarrow> nat" where
  "u64_sub a b = nat ((int a - int b) mod 2 ^ 64)"

definition refill :: "nat \<Rightarrow> TokenBucket \<Rightarrow> TokenBucket" where
  "refill now b =
    (let elapsed = f_of_nat (u64_sub now (last_update b));
         tokens_to_add = f_mul elapsed (f_of_nat (requests_per_second (policy b)))
     in b\<lparr>tokens := f_min (f_add (tokens b) tokens_to_add) (f_of_nat (burst_capacity (policy b))),
          last_update := now\<rparr>)"

definition bucket_try_consume :: "nat \<Rightarrow> nat \<Rightarrow> TokenBucket \<Rightarrow> bool \<times> TokenBucket" where
  "bucket_try_consume now n b =
    (let b = refill now b in
     if f_le (f_of_nat n) (tokens b) then (True, b\<lparr>tokens := f_sub (tokens b) (f_of_nat n)\<rparr>)
     else (False, b))"

subsection \<open>The limiter per client\<close>

record RateLimiter =
  rl_buckets :: "(string \<times> TokenBucket) list"
  default_policy :: RateLimitPolicy
  custom_policies :: "(string \<times> RateLimitPolicy) list"

definition limiter_new :: "RateLimitPolicy \<Rightarrow> RateLimiter" where
  "limiter_new p = \<lparr>rl_buckets = [], default_policy = p, custom_policies = []\<rparr>"

definition set_policy :: "string \<Rightarrow> RateLimitPolicy \<Rightarrow> RateLimiter \<Rightarrow> RateLimiter" where
  "set_policy client p l =
    l\<lparr>custom_policies := AList.update client p (custom_policies l),
      rl_buckets := AList.delete client (rl_buckets l)\<rparr>"

definition client_policy :: "string \<Rightarrow> RateLimiter \<Rightarrow> RateLimitPolicy" where
  "client_policy client l =
    (case map_of (custom_policies l) client of Some p \<Rightarrow> p | None \<Rightarrow> default_policy l)"

definition client_bucket :: "nat \<Rightarrow> string \<Rightarrow> RateLimiter \<Rightarrow> TokenBucket" where
  "client_bucket now0 client l = (case map_of (rl_buckets l) client of
     Some b \<Rightarrow> b | None \<Rightarrow> bucket_new now0 (client_policy client l))"

definition put_client :: "string \<Rightarrow> TokenBucket \<Rightarrow> RateLimiter \<Rightarrow> RateLimiter" where
  "put_client client b l = l\<lparr>rl_buckets := AList.update client b (rl_buckets l)\<rparr>"

definition check_limit :: "nat \<Rightarrow> nat \<Rightarrow> string \<Rightarrow> RateLimiter \<Rightarrow> (string + unit) \<times> RateLimiter" where
  "check_limit now0 now client l =
    (let p = client_policy client l; b = refill now (client_bucket now0 client l)
     in (if f_le (f_of_nat 1) (tokens b) then Inr ()
         else Inl (''Rate limit exceeded: '' @ show_nat (requests_per_second p) @ '' req/sec (burst: '' @
                   show_nat (burst_capacity p) @ '')''),
         put_client client b l))"

definition consume :: "nat \<Rightarrow> nat \<Rightarrow> string \<Rightarrow> nat \<Rightarrow> RateLimiter \<Rightarrow> (string + unit) \<times> RateLimiter" where
  "consume now0 now client n l =
    (let p = client_policy client l; (ok, b) = bucket_try_consume now n (client_bucket now0 client l)
     in (if ok then Inr ()
         else Inl (''Rate limit exceeded: '' @ show_nat (requests_per_second p) @ '' req/sec''),
         put_client client b l))"

definition get_tokens :: "nat \<Rightarrow> nat \<Rightarrow> string \<Rightarrow> RateLimiter \<Rightarrow> f64 \<times> RateLimiter" where
  "get_tokens now0 now client l =
    (let b = refill now (client_bucket now0 client l) in (tokens b, put_client client b l))"

definition reset :: "string \<Rightarrow> RateLimiter \<Rightarrow> RateLimiter" where
  "reset client l = l\<lparr>rl_buckets := AList.delete client (rl_buckets l)\<rparr>"

definition reset_all :: "RateLimiter \<Rightarrow> RateLimiter" where
  "reset_all l = l\<lparr>rl_buckets := []\<rparr>"

subsection \<open>The shared limiter\<close>

datatype OpClass = Place | Cancel

fun op_code :: "OpClass \<Rightarrow> nat" where
  "op_code Place = 0"
| "op_code Cancel = 1"

record SharedRateLimiter =
  place :: "RateLimitPolicy option"
  cancel :: "RateLimitPolicy option"
  buckets :: "((int \<times> nat) \<times> TokenBucket) list"

definition shared_new :: "RateLimitPolicy option \<Rightarrow> RateLimitPolicy option \<Rightarrow> SharedRateLimiter" where
  "shared_new p c = \<lparr>place = p, cancel = c, buckets = []\<rparr>"

definition env_policy :: "(string \<Rightarrow> string option) \<Rightarrow> string \<Rightarrow> string \<Rightarrow> RateLimitPolicy option" where
  "env_policy env rps_key burst_key =
    do { v \<leftarrow> env rps_key;
         rps \<leftarrow> parse_unsigned (2 ^ 32) v;
         if rps = 0 then None
         else let burst = (case Option.bind (env burst_key) (parse_unsigned (2 ^ 32)) of
                             Some b \<Rightarrow> b | None \<Rightarrow> (rps * 2) mod 2 ^ 32)
              in Some \<lparr>requests_per_second = rps, burst_capacity = max burst 1\<rparr> }"

definition from_env :: "(string \<Rightarrow> string option) \<Rightarrow> SharedRateLimiter" where
  "from_env env = shared_new (env_policy env ''WS_RL_PLACE_RPS'' ''WS_RL_PLACE_BURST'')
                             (env_policy env ''WS_RL_CANCEL_RPS'' ''WS_RL_CANCEL_BURST'')"

definition is_enabled :: "SharedRateLimiter \<Rightarrow> bool" where
  "is_enabled l \<longleftrightarrow> place l \<noteq> None \<or> cancel l \<noteq> None"

fun op_policy :: "OpClass \<Rightarrow> SharedRateLimiter \<Rightarrow> RateLimitPolicy option" where
  "op_policy Place l = place l"
| "op_policy Cancel l = cancel l"

fun exceeded :: "OpClass \<Rightarrow> string" where
  "exceeded Place = ''rate limit exceeded (place)''"
| "exceeded Cancel = ''rate limit exceeded (cancel)''"

definition try_consume :: "nat \<Rightarrow> nat \<Rightarrow> int \<Rightarrow> OpClass \<Rightarrow> SharedRateLimiter \<Rightarrow>
    (string + unit) \<times> SharedRateLimiter" where
  "try_consume now0 now user op l = (case op_policy op l of
     None \<Rightarrow> (Inr (), l)
   | Some p \<Rightarrow>
       let key = (user, op_code op);
           b = (case map_of (buckets l) key of Some b \<Rightarrow> b | None \<Rightarrow> bucket_new now0 p);
           (ok, b) = bucket_try_consume now 1 b
       in (if ok then Inr () else Inl (exceeded op), l\<lparr>buckets := AList.update key b (buckets l)\<rparr>))"

definition snapshot :: "nat \<Rightarrow> SharedRateLimiter \<Rightarrow>
    (int \<times> nat \<times> f64 \<times> nat) list \<times> SharedRateLimiter" where
  "snapshot now l =
    (let bs = map (\<lambda>(k, b). (k, refill now b)) (buckets l)
     in (map (\<lambda>((user, op), b). (user, op, tokens b, last_update b)) bs, l\<lparr>buckets := bs\<rparr>))"

definition code_policy :: "nat \<Rightarrow> SharedRateLimiter \<Rightarrow> RateLimitPolicy option" where
  "code_policy op l = (if op = 0 then place l else if op = 1 then cancel l else None)"

fun restore :: "nat \<Rightarrow> (int \<times> nat \<times> f64 \<times> nat) list \<Rightarrow> SharedRateLimiter \<Rightarrow> SharedRateLimiter" where
  "restore now [] l = l"
| "restore now ((user, op, t, upd) # entries) l = (case code_policy op l of
     None \<Rightarrow> restore now entries l
   | Some p \<Rightarrow>
       let b = (bucket_new now p)
             \<lparr>tokens := f_clamp t (Fin 0) (f_of_nat (burst_capacity p)), last_update := upd\<rparr>
       in restore now entries (l\<lparr>buckets := AList.update (user, op) b (buckets l)\<rparr>))"

subsection \<open>Buckets hold whole tokens\<close>

text \<open>
  On the values a bucket can take, the \<open>f64\<close> arithmetic is exact: a bucket always holds a whole number
  of tokens between zero and the burst capacity. \<open>level\<close> is that number, and \<open>bucket_ok\<close> the
  invariant.
\<close>

definition policy_ok :: "RateLimitPolicy \<Rightarrow> bool" where
  "policy_ok p \<longleftrightarrow> requests_per_second p < 2 ^ 32 \<and> burst_capacity p < 2 ^ 32"

definition level :: "TokenBucket \<Rightarrow> int" where
  "level b = (case tokens b of Fin x \<Rightarrow> \<lfloor>x\<rfloor> | _ \<Rightarrow> 0)"

definition bucket_ok :: "TokenBucket \<Rightarrow> bool" where
  "bucket_ok b \<longleftrightarrow> policy_ok (policy b) \<and> tokens b = Fin (of_int (level b)) \<and> 0 \<le> level b \<and>
     level b \<le> int (burst_capacity (policy b))"

lemma bucket_okI:
  assumes "policy_ok (policy b)" "tokens b = Fin (of_int n)" "0 \<le> n" "n \<le> int (burst_capacity (policy b))"
  shows "bucket_ok b" "level b = n"
  using assms by (simp_all add: bucket_ok_def level_def)

lemma f_of_nat_exact [simp]: "n \<le> 2 ^ 53 \<Longrightarrow> f_of_nat n = Fin (of_nat n)"
  by (simp add: f_of_nat_def)

lemma of_nat_le_pow2: "n < 2 ^ k \<Longrightarrow> int k \<le> j \<Longrightarrow> of_nat n \<le> pow2 j"
  using pow2_mono [of "int k" j] pow2_nat [of k]
  by (metis (no_types, lifting) less_imp_le of_nat_le_iff of_nat_numeral of_nat_power order.trans)

text \<open>The refill either computes exactly or exceeds every capacity.\<close>

lemma refill_saturates:
  assumes e: "e < 2 ^ 64" and r: "r < 2 ^ 32" and n: "n < 2 ^ 32" and big: "2 ^ 52 < e * r"
  shows "\<exists>y. f_add (Fin (of_nat n)) (f_mul (f_of_nat e) (f_of_nat r)) = Fin y \<and> 2 ^ 32 \<le> y"
proof -
  have r1: "1 \<le> r" and e1: "1 \<le> e"
    using big by (auto simp: Suc_le_eq intro!: Nat.gr0I)
  have "1 \<le> (of_nat e :: rat)" "of_nat e \<le> pow2 1000"
    using e1 of_nat_le_pow2 [OF e, of 1000] by simp_all
  then obtain f where f: "rnd (of_nat e) = Fin f" "of_nat e / 2 \<le> f" "f \<le> 2 * of_nat e"
    by (rule rnd_half)
  define x where "x = f * of_nat r"
  have "(2 ^ 52 :: rat) < of_nat (e * r)"
    using big by (metis of_nat_less_iff of_nat_numeral of_nat_power)
  moreover have "of_nat e / 2 * of_nat r \<le> x" "x \<le> 2 * of_nat e * of_nat r"
    unfolding x_def by (rule mult_right_mono; use f in simp)+
  ultimately have x: "2 ^ 51 \<le> x" "x \<le> 2 * of_nat (e * r)"
    by simp_all
  have "e * r < 2 ^ 64 * 2 ^ 32"
    by (rule mult_strict_mono) (use e r in simp_all)
  then have er: "of_nat (e * r) \<le> pow2 96"
    by (intro of_nat_le_pow2 [of _ 96]) simp_all
  have big96: "pow2 96 = 2 ^ 96" "pow2 100 \<le> pow2 1000" "pow2 100 = 2 ^ 100"
    using pow2_nat [of 96] pow2_nat [of 100] pow2_mono [of 100 1000] by simp_all
  then have "1 \<le> x" "x \<le> pow2 1000"
    using x er by simp_all
  then obtain g where g: "rnd x = Fin g" "x / 2 \<le> g" "g \<le> 2 * x"
    by (rule rnd_half)
  have "(of_nat n :: rat) \<le> 2 ^ 32"
    using n by (metis less_imp_le of_nat_le_iff of_nat_numeral of_nat_power)
  then have "1 \<le> of_nat n + g" "of_nat n + g \<le> pow2 1000"
    using g x er big96 by simp_all
  then obtain y where y: "rnd (of_nat n + g) = Fin y" "(of_nat n + g) / 2 \<le> y"
    using rnd_half by blast
  have "(2 :: rat) ^ 32 \<le> y"
    using y(2) g(2) x(1) by simp
  moreover have "f_add (Fin (of_nat n)) (f_mul (f_of_nat e) (f_of_nat r)) = Fin y"
  proof -
    have "f_of_nat e = Fin f" "f_of_nat r = Fin (of_nat r)"
      using f(1) r by (simp_all add: f_of_nat_def [of e] f_of_int_def)
    then show ?thesis
      using g(1) y(1) by (simp add: x_def)
  qed
  ultimately show ?thesis
    by blast
qed

lemma refill_exact:
  assumes n: "n < 2 ^ 32" and r: "r < 2 ^ 32" and e: "e < 2 ^ 64" and small: "e * r \<le> 2 ^ 52"
  shows "f_add (Fin (of_nat n)) (f_mul (f_of_nat e) (f_of_nat r)) = Fin (of_nat (n + e * r))"
proof -
  have R: "f_of_nat r = Fin (of_nat r)"
    using r by simp
  have N: "rnd (of_nat (n + e * r)) = Fin (of_nat (n + e * r))"
    by (rule rnd_nat) (use n small in simp)
  show ?thesis
  proof (cases "r = 0")
    case True
    have "\<bar>of_nat e\<bar> \<le> pow2 1000"
      using of_nat_le_pow2 [OF e, of 1000] by simp
    then obtain f where "rnd (of_nat e) = Fin f"
      by (rule rnd_error)
    then have "f_of_nat e = Fin f"
      by (simp add: f_of_nat_def f_of_int_def)
    then show ?thesis
      using True R N rnd_int [of 0] by simp
  next
    case False
    then have "e \<le> e * r"
      by simp
    then have "e \<le> 2 ^ 52"
      using small by (rule order.trans)
    then have "f_of_nat e = Fin (of_nat e)"
      by (intro f_of_nat_exact) simp
    moreover have "rnd (of_nat (e * r)) = Fin (of_nat (e * r))"
      by (rule rnd_nat) (use small in simp)
    ultimately show ?thesis
      using R N by simp
  qed
qed

lemma u64_sub_bound: "u64_sub a b < 2 ^ 64"
  by (simp add: u64_sub_def nat_less_iff)

lemma u64_sub_forward: "b \<le> a \<Longrightarrow> a < 2 ^ 64 \<Longrightarrow> u64_sub a b = a - b"
  by (simp add: u64_sub_def nat_diff_distrib flip: of_nat_diff)

lemma tokens_refill:
  "tokens (refill now b) =
    f_min (f_add (tokens b) (f_mul (f_of_nat (u64_sub now (last_update b)))
                                   (f_of_nat (requests_per_second (policy b)))))
          (f_of_nat (burst_capacity (policy b)))"
  by (simp add: refill_def Let_def)

lemma refill_ok:
  assumes ok: "bucket_ok b"
  shows "bucket_ok (refill now b)" "policy (refill now b) = policy b" "last_update (refill now b) = now"
    "level (refill now b) = min (int (burst_capacity (policy b)))
       (level b + int (u64_sub now (last_update b) * requests_per_second (policy b)))"
proof -
  let ?r = "requests_per_second (policy b)" and ?c = "burst_capacity (policy b)"
  let ?e = "u64_sub now (last_update b)" and ?n = "nat (level b)"
  have p: "?r < 2 ^ 32" "?c < 2 ^ 32" "policy_ok (policy b)" and n: "0 \<le> level b" "level b \<le> int ?c"
    and t: "tokens b = Fin (of_nat ?n)"
    using ok by (simp_all add: bucket_ok_def policy_ok_def)
  have n32: "?n < 2 ^ 32"
    using n p(2) by linarith
  have c: "f_of_nat ?c = Fin (of_nat ?c)"
    using p(2) by (intro f_of_nat_exact) simp
  have tok: "tokens (refill now b) = Fin (of_int (min (int ?c) (level b + int (?e * ?r))))"
  proof (cases "?e * ?r \<le> 2 ^ 52")
    case True
    have "f_add (tokens b) (f_mul (f_of_nat ?e) (f_of_nat ?r)) = Fin (of_nat (?n + ?e * ?r))"
      unfolding t by (rule refill_exact [OF n32 p(1) u64_sub_bound True])
    then have "tokens (refill now b) = Fin (min (of_nat (?n + ?e * ?r)) (of_nat ?c))"
      by (simp only: tokens_refill c f_le_Fin_cases)
    also have "min (of_nat (?n + ?e * ?r)) (of_nat ?c) =
        (of_int (min (int ?c) (level b + int (?e * ?r))) :: rat)"
    proof -
      have "of_nat (?n + ?e * ?r) = (of_int (level b + int (?e * ?r)) :: rat)" "of_nat ?c = (of_int (int ?c) :: rat)"
        using n(1) by simp_all
      then show ?thesis
        by (simp only: min_def of_int_le_iff) auto
    qed
    finally show ?thesis .
  next
    case False
    then have "2 ^ 52 < ?e * ?r"
      by simp
    then obtain y where y: "f_add (tokens b) (f_mul (f_of_nat ?e) (f_of_nat ?r)) = Fin y" "2 ^ 32 \<le> y"
      unfolding t using refill_saturates [OF u64_sub_bound p(1) n32] by blast
    have "(of_nat ?c :: rat) \<le> 2 ^ 32"
      using p(2) by (metis less_imp_le of_nat_le_iff of_nat_numeral of_nat_power)
    with y(2) have "min y (of_nat ?c) = of_nat ?c"
      by simp
    moreover have "min (int ?c) (level b + int (?e * ?r)) = int ?c"
    proof -
      have "?c \<le> ?e * ?r"
        using False p(2) by simp
      then have "int ?c \<le> int (?e * ?r)"
        by (simp only: of_nat_le_iff)
      then show ?thesis
        using n(1) by linarith
    qed
    ultimately show ?thesis
      using y(1) by (simp only: tokens_refill c f_le_Fin_cases of_int_of_nat_eq)
  qed
  show pol: "policy (refill now b) = policy b" and "last_update (refill now b) = now"
    by (simp_all add: refill_def Let_def)
  have "0 \<le> min (int ?c) (level b + int (?e * ?r))" "min (int ?c) (level b + int (?e * ?r)) \<le> int ?c"
    using n(1) by simp_all
  then show "bucket_ok (refill now b)" "level (refill now b) = min (int ?c) (level b + int (?e * ?r))"
    using bucket_okI [of "refill now b"] p(3) tok pol by simp_all
qed

lemma bucket_new_ok:
  "policy_ok p \<Longrightarrow> bucket_ok (bucket_new now p)" "policy_ok p \<Longrightarrow> level (bucket_new now p) = int (burst_capacity p)"
  "policy (bucket_new now p) = p" "last_update (bucket_new now p) = now"
  using bucket_okI [of "bucket_new now p" "int (burst_capacity p)"]
  by (simp_all add: bucket_new_def policy_ok_def)

lemma consume_ok:
  assumes ok: "bucket_ok b" and k: "k < 2 ^ 32" and res: "bucket_try_consume now k b = (granted, b')"
  shows "bucket_ok b'" "policy b' = policy b" "last_update b' = now"
    "granted \<longleftrightarrow> int k \<le> level (refill now b)"
    "level b' = level (refill now b) - (if granted then int k else 0)"
proof -
  let ?b = "refill now b"
  note r = refill_ok [OF ok, of now]
  have t: "tokens ?b = Fin (of_int (level ?b))" and lv: "0 \<le> level ?b" "level ?b \<le> int (burst_capacity (policy b))"
    and pol: "policy_ok (policy b)" "burst_capacity (policy b) < 2 ^ 32"
    using r(1,2) by (simp_all add: bucket_ok_def policy_ok_def)
  have K: "f_of_nat k = Fin (of_nat k)"
    using k by simp
  have le: "f_le (f_of_nat k) (tokens ?b) \<longleftrightarrow> int k \<le> level ?b"
    unfolding K t f_le.simps by (metis of_int_le_iff of_int_of_nat_eq)
  show g: "granted \<longleftrightarrow> int k \<le> level ?b"
    using res le by (auto simp: bucket_try_consume_def Let_def split: if_splits)
  show "policy b' = policy b" "last_update b' = now"
    using res r(2,3) by (auto simp: bucket_try_consume_def Let_def split: if_splits)
  have sub: "f_sub (tokens ?b) (f_of_nat k) = Fin (of_int (level ?b - int k))" if "int k \<le> level ?b"
  proof -
    have "rnd (of_int (level ?b - int k)) = Fin (of_int (level ?b - int k))"
      by (rule rnd_int) (use that lv pol(2) in simp)
    then show ?thesis
      by (simp add: f_sub_def K t)
  qed
  have "bucket_ok b' \<and> level b' = level ?b - (if granted then int k else 0)"
  proof (cases "int k \<le> level ?b")
    case True
    then have "b' = ?b\<lparr>tokens := Fin (of_int (level ?b - int k))\<rparr>"
      using res le sub by (simp add: bucket_try_consume_def Let_def)
    then show ?thesis
      using bucket_okI [of b' "level ?b - int k"] True lv pol(1) r(2) g by simp
  next
    case False
    then show ?thesis
      using res le r(1) g by (simp add: bucket_try_consume_def Let_def)
  qed
  then show "bucket_ok b'" "level b' = level ?b - (if granted then int k else 0)"
    by simp_all
qed

subsection \<open>Requests of many users\<close>

text \<open>
  A request is the pair of clock readings, the user and the operation class. \<open>served\<close> counts
  the requests of one user and class that the shared limiter lets through, and \<open>ticks t t'\<close> says that
  the clock readings of a list of requests never go back and stay between \<open>t\<close> and \<open>t'\<close>.
\<close>

type_synonym request = "nat \<times> nat \<times> int \<times> OpClass"

fun served :: "int \<Rightarrow> OpClass \<Rightarrow> request list \<Rightarrow> SharedRateLimiter \<Rightarrow> nat" where
  "served user op [] l = 0"
| "served user op ((now0, now, u, q) # reqs) l =
    (case try_consume now0 now u q l of (res, l') \<Rightarrow>
       (if u = user \<and> q = op \<and> res = Inr () then 1 else 0) + served user op reqs l')"

fun ticks :: "nat \<Rightarrow> nat \<Rightarrow> request list \<Rightarrow> bool" where
  "ticks t t' [] = (t \<le> t')"
| "ticks t t' ((now0, now, _, _) # reqs) = (t \<le> now0 \<and> now0 \<le> now \<and> ticks now t' reqs)"

lemma ticks_le: "ticks t t' reqs \<Longrightarrow> t \<le> t'"
  by (induction t t' reqs rule: ticks.induct) auto

lemma op_code_inject [simp]: "op_code a = op_code b \<longleftrightarrow> a = b"
  by (cases a; cases b) simp_all

lemma try_consume_other:
  assumes "try_consume now0 now u q l = (res, l')" "(u, q) \<noteq> (user, op)"
  shows "map_of (buckets l') (user, op_code op) = map_of (buckets l) (user, op_code op)"
  using assms by (auto simp: try_consume_def Let_def update_conv split: option.splits prod.splits if_splits)

lemma try_consume_policies:
  "try_consume now0 now u q l = (res, l') \<Longrightarrow> op_policy op l' = op_policy op l"
  by (cases op) (auto simp: try_consume_def Let_def split: option.splits prod.splits if_splits)

definition bucket_for :: "nat \<Rightarrow> RateLimitPolicy \<Rightarrow> int \<Rightarrow> OpClass \<Rightarrow> SharedRateLimiter \<Rightarrow> TokenBucket" where
  "bucket_for now0 p user op l = (case map_of (buckets l) (user, op_code op) of
     Some b \<Rightarrow> b | None \<Rightarrow> bucket_new now0 p)"

lemma try_consume_self:
  assumes "op_policy op l = Some p" "try_consume now0 now user op l = (res, l')"
  obtains granted b' where "bucket_try_consume now 1 (bucket_for now0 p user op l) = (granted, b')"
    "granted \<longleftrightarrow> res = Inr ()" "map_of (buckets l') (user, op_code op) = Some b'"
proof -
  obtain granted b' where st: "bucket_try_consume now 1 (bucket_for now0 p user op l) = (granted, b')"
    by (cases "bucket_try_consume now 1 (bucket_for now0 p user op l)")
  have "try_consume now0 now user op l = (if granted then Inr () else Inl (exceeded op),
      l\<lparr>buckets := AList.update (user, op_code op) b' (buckets l)\<rparr>)"
    using assms(1) st by (simp add: try_consume_def bucket_for_def Let_def)
  then show ?thesis
    using that [OF st] assms(2) by (auto simp: update_conv)
qed

lemma served_bucket:
  "map_of (buckets l) (user, op_code op) = Some b \<Longrightarrow> bucket_ok b \<Longrightarrow> last_update b \<le> t \<Longrightarrow>
   op_policy op l = Some p \<Longrightarrow> ticks t t' reqs \<Longrightarrow> t' < 2 ^ 64 \<Longrightarrow>
   int (served user op reqs l) \<le>
     level b + int ((t' - last_update b) * requests_per_second (policy b))"
proof (induction reqs arbitrary: l b t)
  case Nil
  then show ?case
    by (simp add: bucket_ok_def)
next
  case (Cons rq reqs)
  obtain now0 now u q where rq: "rq = (now0, now, u, q)"
    by (cases rq)
  obtain res l' where step: "try_consume now0 now u q l = (res, l')"
    by (cases "try_consume now0 now u q l")
  have tk: "t \<le> now0" "now0 \<le> now" "ticks now t' reqs" "now \<le> t'"
    using Cons.prems(5) ticks_le by (auto simp: rq)
  have pol: "op_policy op l' = Some p"
    using Cons.prems(4) try_consume_policies [OF step] by simp
  show ?case
  proof (cases "(u, q) = (user, op)")
    case False
    have "map_of (buckets l') (user, op_code op) = Some b"
      using try_consume_other [OF step False] Cons.prems(1) by simp
    then have "int (served user op reqs l') \<le>
        level b + int ((t' - last_update b) * requests_per_second (policy b))"
      by (rule Cons.IH [OF _ Cons.prems(2) _ pol tk(3) Cons.prems(6)]) (use Cons.prems(3) tk in simp)
    moreover have "served user op (rq # reqs) l = served user op reqs l'"
      using step False by (auto simp: rq)
    ultimately show ?thesis
      by (simp only:)
  next
    case True
    let ?r = "requests_per_second (policy b)"
    have uq: "u = user" "q = op"
      using True by simp_all
    obtain granted b' where st: "bucket_try_consume now 1 (bucket_for now0 p user op l) = (granted, b')"
      and g: "granted \<longleftrightarrow> res = Inr ()" and m: "map_of (buckets l') (user, op_code op) = Some b'"
      by (rule try_consume_self [OF Cons.prems(4) step [unfolded uq]])
    have "bucket_for now0 p user op l = b"
      using Cons.prems(1) by (simp add: bucket_for_def)
    note c = consume_ok [OF Cons.prems(2) _ st [unfolded this], simplified]
    have "int (served user op reqs l') \<le> level b' + int ((t' - now) * ?r)"
      using Cons.IH [OF m c(1) _ pol tk(3) Cons.prems(6)] c(2,3) by simp
    moreover have "level b' \<le> level b + int ((now - last_update b) * ?r) - (if granted then 1 else 0)"
    proof -
      have "u64_sub now (last_update b) = now - last_update b"
        using Cons.prems(3) tk le_less_trans [OF tk(4) Cons.prems(6)]
        by (intro u64_sub_forward) simp_all
      then have "level (refill now b) \<le> level b + int ((now - last_update b) * ?r)"
        using refill_ok(4) [OF Cons.prems(2), of now] by simp
      then show ?thesis
        using c(5) by auto
    qed
    moreover have "int ((now - last_update b) * ?r) + int ((t' - now) * ?r) = int ((t' - last_update b) * ?r)"
    proof -
      have "(now - last_update b) + (t' - now) = t' - last_update b"
        using Cons.prems(3) tk by linarith
      then show ?thesis
        by (metis add_mult_distrib of_nat_add)
    qed
    moreover have "int (served user op (rq # reqs) l) =
        (if granted then 1 else 0) + int (served user op reqs l')"
      using step g by (simp add: rq uq)
    ultimately show ?thesis
      by linarith
  qed
qed

lemma served_fresh:
  "map_of (buckets l) (user, op_code op) = None \<Longrightarrow> op_policy op l = Some p \<Longrightarrow> policy_ok p \<Longrightarrow>
   ticks t t' reqs \<Longrightarrow> t' < 2 ^ 64 \<Longrightarrow>
   int (served user op reqs l) \<le> int (burst_capacity p + (t' - t) * requests_per_second p)"
proof (induction reqs arbitrary: l t)
  case (Cons rq reqs)
  obtain now0 now u q where rq: "rq = (now0, now, u, q)"
    by (cases rq)
  obtain res l' where step: "try_consume now0 now u q l = (res, l')"
    by (cases "try_consume now0 now u q l")
  have tk: "t \<le> now0" "now0 \<le> now" "ticks now t' reqs"
    using Cons.prems(4) by (auto simp: rq)
  have late: "int (b + (t' - s) * r) \<le> int (b + (t' - t) * r)" if "t \<le> s" for s b r
    using that by (simp only: of_nat_le_iff) (simp add: diff_le_mono2)
  show ?case
  proof (cases "(u, q) = (user, op)")
    case False
    have "int (served user op reqs l') \<le> int (burst_capacity p + (t' - now) * requests_per_second p)"
      using Cons.IH [OF _ _ Cons.prems(3) tk(3) Cons.prems(5), of l'] Cons.prems(1,2)
        try_consume_other [OF step False] try_consume_policies [OF step] by simp
    moreover have "served user op (rq # reqs) l = served user op reqs l'"
      using step False by (auto simp: rq)
    ultimately show ?thesis
      using late [of now] tk(1,2) by (metis order.trans)
  next
    case True
    define b where "b = bucket_new now0 p"
    define l0 where "l0 = l\<lparr>buckets := AList.update (user, op_code op) b (buckets l)\<rparr>"
    have "op_policy op l0 = Some p"
      using Cons.prems(2) by (cases op) (simp_all add: l0_def)
    moreover have "try_consume now0 now u q l0 = try_consume now0 now u q l"
      using True Cons.prems(1,2) calculation
      by (simp add: try_consume_def l0_def b_def update_conv)
    moreover have "map_of (buckets l0) (user, op_code op) = Some b"
      by (simp add: l0_def update_conv)
    ultimately have "int (served user op (rq # reqs) l) \<le>
        level b + int ((t' - last_update b) * requests_per_second (policy b))"
      using served_bucket [of l0 user op b now0 p t' "rq # reqs"] Cons.prems(3,5) tk step
      by (simp add: b_def bucket_new_ok rq)
    also have "\<dots> = int (burst_capacity p + (t' - now0) * requests_per_second p)"
      using Cons.prems(3) by (simp add: b_def bucket_new_ok)
    also have "\<dots> \<le> int (burst_capacity p + (t' - t) * requests_per_second p)"
      by (rule late [OF tk(1)])
    finally show ?thesis .
  qed
qed simp

lemma served_cong:
  "map_of (buckets l) (user, op_code op) = map_of (buckets l2) (user, op_code op) \<Longrightarrow>
   op_policy op l = op_policy op l2 \<Longrightarrow>
   served user op reqs l = served user op (filter (\<lambda>(_, _, u, q). u = user \<and> q = op) reqs) l2"
proof (induction reqs arbitrary: l l2)
  case (Cons rq reqs)
  obtain now0 now u q where rq: "rq = (now0, now, u, q)"
    by (cases rq)
  obtain res l' where step: "try_consume now0 now u q l = (res, l')"
    by (cases "try_consume now0 now u q l")
  show ?case
  proof (cases "(u, q) = (user, op)")
    case False
    then show ?thesis
      using Cons.IH [of l' l2] Cons.prems step try_consume_other [OF step False]
        try_consume_policies [OF step, of op] by (auto simp: rq)
  next
    case True
    obtain res2 l2' where step2: "try_consume now0 now u q l2 = (res2, l2')"
      by (cases "try_consume now0 now u q l2")
    have "res2 = res \<and> map_of (buckets l2') (user, op_code op) = map_of (buckets l') (user, op_code op)"
      using True step step2 Cons.prems
      by (auto simp: try_consume_def Let_def update_conv split: option.splits prod.splits)
    then show ?thesis
      using Cons.IH [of l' l2'] Cons.prems True step step2 try_consume_policies [OF step, of op]
        try_consume_policies [OF step2, of op] by (simp add: rq)
  qed
qed simp

lemma restore_clamped:
  assumes "map_of (buckets (restore now entries l)) (user, op) = Some b"
    and "map_of (buckets l) (user, op) = None"
  shows "\<exists>p. code_policy op l = Some p \<and> policy b = p \<and> \<not> f_lt (f_of_nat (burst_capacity p)) (tokens b)"
proof -
  have "map_of (buckets (restore now entries l)) (user, op) = Some b \<Longrightarrow>
      (\<forall>b0. map_of (buckets l) (user, op) = Some b0 \<longrightarrow>
         (\<exists>p. code_policy op l = Some p \<and> policy b0 = p \<and> \<not> f_lt (f_of_nat (burst_capacity p)) (tokens b0))) \<Longrightarrow>
      \<exists>p. code_policy op l = Some p \<and> policy b = p \<and> \<not> f_lt (f_of_nat (burst_capacity p)) (tokens b)"
  proof (induction now entries l rule: restore.induct)
    case (2 now u q t upd entries l)
    show ?case
    proof (cases "code_policy q l")
      case (Some p)
      let ?c = "f_of_nat (burst_capacity p)"
      have lt: "\<not> f_lt ?c (f_clamp t (Fin 0) ?c)"
      proof -
        obtain c where "?c = Fin c \<or> ?c = PInf" and "0 \<le> c"
          using rnd_nonneg [of "of_nat (burst_capacity p)"]
          by (cases ?c) (auto simp: f_of_nat_def f_of_int_def rnd_def Let_def split: if_splits)
        then show ?thesis
          by (auto simp: f_clamp_def)
      qed
      have cp: "code_policy op (l\<lparr>buckets := bs\<rparr>) = code_policy op l" for bs
        by (simp add: code_policy_def)
      show ?thesis
        using 2(2)[OF Some refl] 2(3,4) Some lt
        by (auto simp: Let_def cp update_conv bucket_new_def split: if_splits)
    qed (use 2 in auto)
  qed simp
  then show ?thesis
    using assms by simp
qed

subsection \<open>Properties\<close>

text \<open>
  C31. Between two clock readings \<open>t\<close> and \<open>t'\<close> the shared limiter lets through at most the burst capacity
  plus the rate times the elapsed seconds of one user's requests in one class, however they interleave
  with the requests of other users and classes, as long as the clock does not go back. The bound is
  exact: no token is minted or lost by the floating-point refill.
\<close>

theorem rate_bound:
  assumes "op_policy op (shared_new pl ca) = Some p" "policy_ok p" "ticks t t' reqs" "t' < 2 ^ 64"
  shows "served user op reqs (shared_new pl ca) \<le> burst_capacity p + (t' - t) * requests_per_second p"
  using served_fresh [of "shared_new pl ca" user op p t t' reqs] assms
  by (simp add: shared_new_def flip: of_nat_le_iff of_nat_add of_nat_mult)

theorem rate_bound_witness:
  "op_policy Place (shared_new (Some strict) None) = Some strict \<and> policy_ok strict \<and>
   ticks 100 102 [(100, 100, 7, Place), (101, 101, 8, Place), (101, 102, 7, Cancel)] \<and>
   (102 :: nat) < 2 ^ 64 \<and>
   served 7 Place [(100, 100, 7, Place), (101, 101, 8, Place), (101, 102, 7, Cancel)]
     (shared_new (Some strict) None) \<le> 20 + (102 - 100) * 10"
  using rate_bound [of Place "Some strict" None strict 100 102
      "[(100, 100, 7, Place), (101, 101, 8, Place), (101, 102, 7, Cancel)]" 7]
  by (simp add: shared_new_def strict_def policy_ok_def)

text \<open>
  What one user is granted in one class does not depend on anyone else's requests, nor on the user's
  requests in the other class: dropping them from the run changes nothing. In particular cancels stay
  available to a user whose placements are limited.
\<close>

theorem classes_independent:
  "served user op reqs l = served user op (filter (\<lambda>(_, _, u, q). u = user \<and> q = op) reqs) l"
  by (rule served_cong) simp_all

text \<open>
  The subtraction of the timestamps wraps: one clock reading before the last update refills the bucket
  to its full capacity, however many tokens were spent.
\<close>

theorem clock_back_fills_bucket:
  assumes "bucket_ok b" "now < last_update b" "last_update b < 2 ^ 63" "0 < requests_per_second (policy b)"
  shows "level (refill now b) = int (burst_capacity (policy b))"
proof -
  let ?e = "u64_sub now (last_update b)" and ?r = "requests_per_second (policy b)"
  have "(int now - int (last_update b)) mod 2 ^ 64 = int now - int (last_update b) + 2 ^ 64"
    using assms(2,3) by (intro int_mod_pos_eq [of _ _ "- 1"]) simp_all
  then have big: "2 ^ 32 \<le> ?e"
    using assms(3) by (simp add: u64_sub_def le_nat_iff)
  have "?e * 1 \<le> ?e * ?r"
    by (rule mult_le_mono2) (use assms(4) in simp)
  with big have "2 ^ 32 \<le> ?e * ?r"
    by (metis mult.right_neutral order.trans)
  moreover have "burst_capacity (policy b) < 2 ^ 32" "0 \<le> level b"
    using assms(1) by (simp_all add: bucket_ok_def policy_ok_def)
  ultimately have "int (burst_capacity (policy b)) \<le> int (?e * ?r)" "0 \<le> level b"
    by (simp_all only: of_nat_le_iff)
  then show ?thesis
    using refill_ok(4) [OF assms(1), of now] by linarith
qed

end
