(* ===== verification/Trigger.thy ===== *)
theory Trigger
  imports RiskCalc "HOL-Library.Product_Lexorder"
begin

text \<open>
  The trigger orders of \<open>src/src/desk/trigger.rs\<close>: the per-symbol book of stop and take-profit orders,
  what a move of the mark fires, and the decision to inject an order again after a restart.

  A \<open>BTreeMap\<close> is the association list sorted by its keys, pairs of trigger price and id in
  lexicographic order; \<open>bt_insert\<close>, \<open>bt_remove\<close> and the three range lookups are its operations. The
  \<open>expect\<close> after a removal is a branch of the model: \<open>None\<close> is a panic.
\<close>

subsection \<open>Ordered maps\<close>

type_synonym ('k, 'v) btree = "('k \<times> 'v) list"

fun bt_insert :: "'k :: linorder \<Rightarrow> 'v \<Rightarrow> ('k, 'v) btree \<Rightarrow> ('k, 'v) btree" where
  "bt_insert k v [] = [(k, v)]"
| "bt_insert k v ((k', v') # m) =
    (if k < k' then (k, v) # (k', v') # m
     else if k = k' then (k, v) # m
     else (k', v') # bt_insert k v m)"

definition bt_remove :: "'k :: linorder \<Rightarrow> ('k, 'v) btree \<Rightarrow> 'v option \<times> ('k, 'v) btree" where
  "bt_remove k m = (map_of m k, filter (\<lambda>(k', _). k' \<noteq> k) m)"

definition upto_key :: "'k :: linorder \<Rightarrow> ('k, 'v) btree \<Rightarrow> ('k, 'v) btree" where
  "upto_key k m = filter (\<lambda>(k', _). k' \<le> k) m"

definition from_key :: "'k :: linorder \<Rightarrow> ('k, 'v) btree \<Rightarrow> ('k, 'v) btree" where
  "from_key k m = filter (\<lambda>(k', _). k \<le> k') m"

definition next_back :: "('k, 'v) btree \<Rightarrow> ('k \<times> 'v) option" where
  "next_back m = (if m = [] then None else Some (last m))"

definition next_front :: "('k, 'v) btree \<Rightarrow> ('k \<times> 'v) option" where
  "next_front m = (case m of [] \<Rightarrow> None | e # _ \<Rightarrow> Some e)"

subsection \<open>The trigger book\<close>

record PendingTrigger =
  t_id :: int
  t_user_id :: int
  t_side :: nat
  t_is_market :: bool
  trigger_price_ticks :: int
  t_price_ticks :: "int option"
  t_qty_lots :: int

datatype TriggerWhen = Rising | Falling

fun as_db_str :: "TriggerWhen \<Rightarrow> string" where
  "as_db_str Rising = ''rising''"
| "as_db_str Falling = ''falling''"

definition from_db_str :: "string \<Rightarrow> TriggerWhen option" where
  "from_db_str s = (if s = ''rising'' then Some Rising else if s = ''falling'' then Some Falling else None)"

definition default_stop_loss_direction :: "nat \<Rightarrow> TriggerWhen" where
  "default_stop_loss_direction side = (if side = 0 then Rising else Falling)"

record TriggerBook =
  rising :: "(int \<times> int, PendingTrigger) btree"
  falling :: "(int \<times> int, PendingTrigger) btree"

definition book_new :: TriggerBook where
  "book_new = \<lparr>rising = [], falling = []\<rparr>"

definition trigger_key :: "PendingTrigger \<Rightarrow> int \<times> int" where
  "trigger_key t = (trigger_price_ticks t, t_id t)"

fun insert_trigger :: "TriggerWhen \<Rightarrow> PendingTrigger \<Rightarrow> TriggerBook \<Rightarrow> TriggerBook" where
  "insert_trigger Rising t b = b\<lparr>rising := bt_insert (trigger_key t) t (rising b)\<rparr>"
| "insert_trigger Falling t b = b\<lparr>falling := bt_insert (trigger_key t) t (falling b)\<rparr>"

fun remove_trigger :: "TriggerWhen \<Rightarrow> int \<Rightarrow> int \<Rightarrow> TriggerBook \<Rightarrow> bool \<times> TriggerBook" where
  "remove_trigger Rising price i b =
    (let (old, m) = bt_remove (price, i) (rising b) in (old \<noteq> None, b\<lparr>rising := m\<rparr>))"
| "remove_trigger Falling price i b =
    (let (old, m) = bt_remove (price, i) (falling b) in (old \<noteq> None, b\<lparr>falling := m\<rparr>))"

definition book_len :: "TriggerBook \<Rightarrow> nat" where
  "book_len b = length (rising b) + length (falling b)"

definition book_is_empty :: "TriggerBook \<Rightarrow> bool" where
  "book_is_empty b \<longleftrightarrow> book_len b = 0"

function due_rising :: "int \<Rightarrow> (int \<times> int, PendingTrigger) btree \<Rightarrow> (PendingTrigger list \<times> (int \<times> int, PendingTrigger) btree) exec" where
  "due_rising mark m = (case next_back (upto_key (mark, i64_max) m) of
     None \<Rightarrow> Some ([], m)
   | Some (key, _) \<Rightarrow>
       (case bt_remove key m of
          (None, _) \<Rightarrow> None
        | (Some t, m') \<Rightarrow>
            if next_front (upto_key (mark, i64_max) m') = None then Some ([t], m')
            else do { (fired, m'') \<leftarrow> due_rising mark m'; Some (t # fired, m'') }))"
  by pat_completeness auto

function due_falling :: "int \<Rightarrow> (int \<times> int, PendingTrigger) btree \<Rightarrow> (PendingTrigger list \<times> (int \<times> int, PendingTrigger) btree) exec" where
  "due_falling mark m = (case next_front (from_key (mark, i64_min) m) of
     None \<Rightarrow> Some ([], m)
   | Some (key, _) \<Rightarrow>
       (case bt_remove key m of
          (None, _) \<Rightarrow> None
        | (Some t, m') \<Rightarrow> do { (fired, m'') \<leftarrow> due_falling mark m'; Some (t # fired, m'') }))"
  by pat_completeness auto

lemma bt_remove_shrinks: "bt_remove k m = (Some v, m') \<Longrightarrow> length m' < length m"
  by (auto simp: bt_remove_def dest!: map_of_SomeD intro!: length_filter_less)

termination due_rising
  by (relation "measure (\<lambda>(_, m). length m)") (auto dest: bt_remove_shrinks [OF sym])

termination due_falling
  by (relation "measure (\<lambda>(_, m). length m)") (auto dest: bt_remove_shrinks [OF sym])

declare due_rising.simps [simp del] due_falling.simps [simp del]

definition due_triggers :: "int \<Rightarrow> TriggerBook \<Rightarrow> (PendingTrigger list \<times> TriggerBook) exec" where
  "due_triggers mark b =
    do { (up, r) \<leftarrow> due_rising mark (rising b);
         (down, f) \<leftarrow> due_falling mark (falling b);
         Some (up @ down, b\<lparr>rising := r, falling := f\<rparr>) }"

definition needs_reinjection :: "bool \<Rightarrow> bool \<Rightarrow> bool \<Rightarrow> bool" where
  "needs_reinjection has_orders_row has_matching_event is_pending_submission =
    (if is_pending_submission then \<not> has_matching_event
     else \<not> has_orders_row \<and> \<not> has_matching_event)"

definition firing_margin_atoms :: "int \<Rightarrow> int \<Rightarrow> int \<Rightarrow> int \<Rightarrow> int exec" where
  "firing_margin_atoms price_ticks qty_lots notional_scale leverage =
    do { notional \<leftarrow> calc_notional_atoms price_ticks qty_lots notional_scale;
         calc_initial_margin_atoms notional leverage }"

definition closes_side :: "nat \<Rightarrow> PositionSide" where
  "closes_side order_side = (if order_side = 0 then Short else Long)"

subsection \<open>Well-formed books\<close>

definition bt_ok :: "(int \<times> int, PendingTrigger) btree \<Rightarrow> bool" where
  "bt_ok m \<longleftrightarrow> sorted_wrt (<) (map fst m) \<and> (\<forall>(k, t)\<in>set m. k = trigger_key t \<and> in_i64 (t_id t))"

definition triggers_ok :: "TriggerBook \<Rightarrow> bool" where
  "triggers_ok b \<longleftrightarrow> bt_ok (rising b) \<and> bt_ok (falling b)"

lemma bt_ok_distinct: "bt_ok m \<Longrightarrow> distinct (map fst m)"
  by (simp add: bt_ok_def strict_sorted_iff)

lemma bt_insert_set:
  "sorted_wrt (<) (map fst m) \<Longrightarrow> set (bt_insert k v m) = insert (k, v) {e \<in> set m. fst e \<noteq> k}"
  by (induction k v m rule: bt_insert.induct) auto

lemma bt_insert_sorted: "sorted_wrt (<) (map fst m) \<Longrightarrow> sorted_wrt (<) (map fst (bt_insert k v m))"
proof (induction k v m rule: bt_insert.induct)
  case (2 k v k' v' m)
  then show ?case
    using bt_insert_set [of m k v] by (auto intro: less_trans)
qed simp

lemma bt_ok_insert: "bt_ok m \<Longrightarrow> in_i64 (t_id t) \<Longrightarrow> bt_ok (bt_insert (trigger_key t) t m)"
  using bt_insert_sorted [of m] bt_insert_set [of m] by (auto simp: bt_ok_def)

lemma bt_ok_filter: "bt_ok m \<Longrightarrow> bt_ok (filter P m)"
  by (auto simp: bt_ok_def sorted_wrt_map sorted_wrt_filter)

lemma triggers_ok_new: "triggers_ok book_new"
  by (simp add: triggers_ok_def book_new_def bt_ok_def)

lemma insert_trigger_ok: "triggers_ok b \<Longrightarrow> in_i64 (t_id t) \<Longrightarrow> triggers_ok (insert_trigger w t b)"
  by (cases w) (simp_all add: triggers_ok_def bt_ok_insert)

lemma remove_trigger_ok: "triggers_ok b \<Longrightarrow> triggers_ok (snd (remove_trigger w price i b))"
  by (cases w) (simp_all add: triggers_ok_def bt_ok_filter bt_remove_def)

subsection \<open>What a mark fires\<close>

lemma filter_other_keys: "k \<notin> fst ` set xs \<Longrightarrow> filter (\<lambda>(k', _). k' \<noteq> k) xs = xs"
  by (induction xs) auto

lemma bt_remove_middle:
  assumes "distinct (map fst (ds @ (k, t) # rest))"
  shows "bt_remove k (ds @ (k, t) # rest) = (Some t, ds @ rest)"
proof -
  have "map_of ds k = None"
    using assms by (auto simp: map_of_eq_None_iff)
  then show ?thesis
    using assms filter_other_keys [of k ds] filter_other_keys [of k rest]
    by (auto simp: bt_remove_def map_add_def)
qed

lemma upto_key_split:
  assumes "\<forall>(k, t)\<in>set ds. fst k \<le> mark \<and> snd k \<le> i64_max" "\<forall>(k, t)\<in>set rest. mark < fst k"
  shows "upto_key (mark, i64_max) (ds @ rest) = ds"
proof -
  have "filter (\<lambda>(k', _). k' \<le> (mark, i64_max)) ds = ds"
    using assms(1) by (auto simp: filter_id_conv less_eq_prod_def)
  moreover have "filter (\<lambda>(k', _). k' \<le> (mark, i64_max)) rest = []"
    using assms(2) by (auto simp: filter_empty_conv less_eq_prod_def)
  ultimately show ?thesis
    by (simp add: upto_key_def)
qed

lemma due_rising_split:
  assumes "distinct (map fst (ds @ rest))"
    and "\<forall>(k, t)\<in>set ds. fst k \<le> mark \<and> snd k \<le> i64_max" "\<forall>(k, t)\<in>set rest. mark < fst k"
  shows "due_rising mark (ds @ rest) = Some (rev (map snd ds), rest)"
  using assms
proof (induction ds rule: rev_induct)
  case Nil
  then show ?case
    using upto_key_split [of "[]" mark rest] by (simp add: due_rising.simps next_back_def)
next
  case (snoc e ds)
  obtain k t where e: "e = (k, t)"
    by (cases e)
  have up: "upto_key (mark, i64_max) (ds @ e # rest) = ds @ [e]"
    using upto_key_split [of "ds @ [e]" mark rest] snoc.prems by simp
  have up': "upto_key (mark, i64_max) (ds @ rest) = ds"
    by (rule upto_key_split) (use snoc.prems in auto)
  have rm: "bt_remove k (ds @ (k, t) # rest) = (Some t, ds @ rest)"
    by (rule bt_remove_middle) (use snoc.prems e in simp)
  have IH: "due_rising mark (ds @ rest) = Some (rev (map snd ds), rest)"
    by (rule snoc.IH) (use snoc.prems in auto)
  show ?case
    using up up' rm IH
    by (subst due_rising.simps) (auto simp: e next_back_def next_front_def split: list.split)
qed

lemma from_key_split:
  assumes "\<forall>(k, t)\<in>set ds. mark \<le> fst k \<and> i64_min \<le> snd k" "\<forall>(k, t)\<in>set rest. fst k < mark"
  shows "from_key (mark, i64_min) (rest @ ds) = ds"
proof -
  have "filter (\<lambda>(k', _). (mark, i64_min) \<le> k') ds = ds"
    using assms(1) by (auto simp: filter_id_conv less_eq_prod_def)
  moreover have "filter (\<lambda>(k', _). (mark, i64_min) \<le> k') rest = []"
    using assms(2) by (auto simp: filter_empty_conv less_eq_prod_def)
  ultimately show ?thesis
    by (simp add: from_key_def)
qed

lemma due_falling_split:
  assumes "distinct (map fst (rest @ ds))"
    and "\<forall>(k, t)\<in>set ds. mark \<le> fst k \<and> i64_min \<le> snd k" "\<forall>(k, t)\<in>set rest. fst k < mark"
  shows "due_falling mark (rest @ ds) = Some (map snd ds, rest)"
  using assms
proof (induction ds)
  case Nil
  then show ?case
    using from_key_split [of "[]" mark rest] by (simp add: due_falling.simps next_front_def)
next
  case (Cons e ds)
  obtain k t where e: "e = (k, t)"
    by (cases e)
  have fk: "from_key (mark, i64_min) (rest @ e # ds) = e # ds"
    by (rule from_key_split) (use Cons.prems in auto)
  have rm: "bt_remove k (rest @ (k, t) # ds) = (Some t, rest @ ds)"
    by (rule bt_remove_middle) (use Cons.prems e in simp)
  have IH: "due_falling mark (rest @ ds) = Some (map snd ds, rest)"
    by (rule Cons.IH) (use Cons.prems in auto)
  show ?case
    using fk rm IH by (subst due_falling.simps) (simp add: e next_front_def)
qed

lemma sorted_partition:
  assumes "sorted_wrt R xs" "\<And>x y. R x y \<Longrightarrow> P y \<Longrightarrow> P x"
  shows "xs = filter P xs @ filter (\<lambda>x. \<not> P x) xs"
  using assms(1)
proof (induction xs)
  case (Cons x xs)
  show ?case
  proof (cases "P x")
    case False
    then have "\<not> P y" if "y \<in> set xs" for y
      using Cons.prems that assms(2) by auto
    then show ?thesis
      using False by (simp add: filter_empty_conv filter_id_conv)
  qed (use Cons in auto)
qed simp

definition crossed :: "TriggerWhen \<Rightarrow> int \<Rightarrow> PendingTrigger \<Rightarrow> bool" where
  "crossed w mark t = (case w of Rising \<Rightarrow> trigger_price_ticks t \<le> mark | Falling \<Rightarrow> mark \<le> trigger_price_ticks t)"

lemma bt_ok_key:
  assumes "bt_ok m" "(k, t) \<in> set m"
  shows "fst k = trigger_price_ticks t" "i64_min \<le> snd k" "snd k \<le> i64_max"
  using assms by (auto simp: bt_ok_def trigger_key_def in_i64_def i64_min_def i64_max_def)

lemma due_rising_eq:
  assumes ok: "bt_ok m"
  shows "due_rising mark m = Some (rev (filter (crossed Rising mark) (map snd m)),
    filter (\<lambda>(_, t). \<not> crossed Rising mark t) m)"
proof -
  let ?P = "\<lambda>(k, t). fst k \<le> mark" and ?d = "\<lambda>(k, t). crossed Rising mark t"
  have same: "filter ?P m = filter ?d m" "filter (\<lambda>e. \<not> ?P e) m = filter (\<lambda>e. \<not> ?d e) m"
    using bt_ok_key(1) [OF ok] by (auto simp: crossed_def intro!: filter_cong)
  have split: "m = filter ?P m @ filter (\<lambda>e. \<not> ?P e) m"
    using ok by (intro sorted_partition [of "\<lambda>x y. fst x < fst y"])
      (auto simp: bt_ok_def sorted_wrt_map less_prod_def)
  have "due_rising mark (filter ?P m @ filter (\<lambda>e. \<not> ?P e) m) =
      Some (rev (map snd (filter ?P m)), filter (\<lambda>e. \<not> ?P e) m)"
    by (rule due_rising_split) (use bt_ok_distinct [OF ok] split bt_ok_key(3) [OF ok] in auto)
  then show ?thesis
    unfolding split [symmetric] unfolding same by (simp add: filter_map comp_def case_prod_unfold)
qed

lemma due_falling_eq:
  assumes ok: "bt_ok m"
  shows "due_falling mark m = Some (filter (crossed Falling mark) (map snd m),
    filter (\<lambda>(_, t). \<not> crossed Falling mark t) m)"
proof -
  let ?P = "\<lambda>(k, t). fst k < mark" and ?d = "\<lambda>(k, t). \<not> crossed Falling mark t"
  have same: "filter ?P m = filter ?d m" "filter (\<lambda>e. \<not> ?P e) m = filter (\<lambda>e. \<not> ?d e) m"
    using bt_ok_key(1) [OF ok] by (auto simp: crossed_def intro!: filter_cong)
  have split: "m = filter ?P m @ filter (\<lambda>e. \<not> ?P e) m"
    using ok by (intro sorted_partition [of "\<lambda>x y. fst x < fst y"])
      (auto simp: bt_ok_def sorted_wrt_map less_prod_def)
  have "due_falling mark (filter ?P m @ filter (\<lambda>e. \<not> ?P e) m) =
      Some (map snd (filter (\<lambda>e. \<not> ?P e) m), filter ?P m)"
    by (rule due_falling_split) (use bt_ok_distinct [OF ok] split bt_ok_key(2) [OF ok] in auto)
  then show ?thesis
    unfolding split [symmetric] unfolding same by (simp add: filter_map comp_def case_prod_unfold)
qed

lemma due_eq:
  assumes "triggers_ok b"
  shows "due_triggers mark b = Some
    (rev (filter (crossed Rising mark) (map snd (rising b))) @ filter (crossed Falling mark) (map snd (falling b)),
     \<lparr>rising = filter (\<lambda>(_, t). \<not> crossed Rising mark t) (rising b),
      falling = filter (\<lambda>(_, t). \<not> crossed Falling mark t) (falling b)\<rparr>)"
  using assms by (cases b) (simp add: due_triggers_def triggers_ok_def due_rising_eq due_falling_eq)

lemma due_ok: "triggers_ok b \<Longrightarrow> due_triggers mark b = Some (fired, b') \<Longrightarrow> triggers_ok b'"
  by (auto simp: due_eq triggers_ok_def intro: bt_ok_filter)

subsection \<open>A sequence of marks\<close>

definition pending :: "TriggerWhen \<Rightarrow> TriggerBook \<Rightarrow> PendingTrigger set" where
  "pending w b = snd ` set (case w of Rising \<Rightarrow> rising b | Falling \<Rightarrow> falling b)"

fun due_run :: "int list \<Rightarrow> TriggerBook \<Rightarrow> (PendingTrigger list list \<times> TriggerBook) exec" where
  "due_run [] b = Some ([], b)"
| "due_run (mark # marks) b =
    do { (fired, b) \<leftarrow> due_triggers mark b; (rest, b) \<leftarrow> due_run marks b; Some (fired # rest, b) }"

lemma pending_simps:
  "pending Rising b = set (map snd (rising b))" "pending Falling b = set (map snd (falling b))"
  by (simp_all add: pending_def)

lemma UN_when: "(\<Union>w. A w) = A Rising \<union> A Falling"
proof -
  have "(\<exists>w. x \<in> A w) \<longleftrightarrow> x \<in> A Rising \<or> x \<in> A Falling" for x
    by (metis TriggerWhen.exhaust)
  then show ?thesis
    by blast
qed

lemma due_pending:
  assumes "triggers_ok b" "due_triggers mark b = Some (fired, b')"
  shows "set fired = (\<Union>w. {t \<in> pending w b. crossed w mark t})"
    "pending w b' = {t \<in> pending w b. \<not> crossed w mark t}"
proof -
  show "set fired = (\<Union>w. {t \<in> pending w b. crossed w mark t})"
    unfolding UN_when using assms by (auto simp: due_eq pending_simps simp del: set_map)
  show "pending w b' = {t \<in> pending w b. \<not> crossed w mark t}"
    using assms by (cases w) (auto simp: due_eq pending_def image_iff)
qed

lemma due_run_total:
  "triggers_ok b \<Longrightarrow> \<exists>fs b'. due_run marks b = Some (fs, b') \<and> length fs = length marks \<and> triggers_ok b'"
proof (induction marks arbitrary: b)
  case (Cons mark marks)
  obtain fired b1 where d: "due_triggers mark b = Some (fired, b1)" and ok: "triggers_ok b1"
    using due_eq [OF Cons.prems] due_ok [OF Cons.prems] by blast
  obtain fs b' where "due_run marks b1 = Some (fs, b')" "length fs = length marks" "triggers_ok b'"
    using Cons.IH [OF ok] by blast
  with d show ?case
    by simp
qed simp

lemma due_run_fired:
  "triggers_ok b \<Longrightarrow> due_run marks b = Some (fs, b') \<Longrightarrow> i < length marks \<Longrightarrow>
   set (fs ! i) = (\<Union>w. {t \<in> pending w b. crossed w (marks ! i) t \<and> (\<forall>j<i. \<not> crossed w (marks ! j) t)})"
proof (induction marks arbitrary: b fs i)
  case (Cons mark marks)
  obtain fired b1 where d: "due_triggers mark b = Some (fired, b1)"
    using due_eq [OF Cons.prems(1)] by blast
  obtain rest where r: "due_run marks b1 = Some (rest, b')" "fs = fired # rest"
    using Cons.prems(2) d by (auto simp: bind_eq_Some_conv)
  note ok = due_ok [OF Cons.prems(1) d] and pd = due_pending [OF Cons.prems(1) d]
  show ?case
  proof (cases i)
    case 0
    then show ?thesis
      using pd(1) r(2) by simp
  next
    case (Suc i')
    have "set (rest ! i') =
        (\<Union>w. {t \<in> pending w b1. crossed w (marks ! i') t \<and> (\<forall>j<i'. \<not> crossed w (marks ! j) t)})"
      by (rule Cons.IH [OF ok r(1)]) (use Cons.prems(3) Suc in simp)
    then show ?thesis
      using r(2) Suc by (simp add: pd(2) All_less_Suc2 conj_ac)
  qed
qed simp

subsection \<open>Books in use\<close>

text \<open>The operations of the desk on a symbol's book, in any order, from the empty book.\<close>

inductive reachable_book :: "TriggerBook \<Rightarrow> bool" where
  start: "reachable_book book_new"
| arm: "reachable_book b \<Longrightarrow> in_i64 (t_id t) \<Longrightarrow> reachable_book (insert_trigger w t b)"
| disarm: "reachable_book b \<Longrightarrow> reachable_book (snd (remove_trigger w price i b))"
| mark: "reachable_book b \<Longrightarrow> due_triggers m b = Some (fired, b') \<Longrightarrow> reachable_book b'"

lemma reachable_book_ok: "reachable_book b \<Longrightarrow> triggers_ok b"
  by (induction rule: reachable_book.induct)
    (auto intro: triggers_ok_new insert_trigger_ok remove_trigger_ok due_ok)

definition demo_trigger :: "int \<Rightarrow> int \<Rightarrow> PendingTrigger" where
  "demo_trigger i price = \<lparr>t_id = i, t_user_id = 1, t_side = 1, t_is_market = True,
     trigger_price_ticks = price, t_price_ticks = None, t_qty_lots = 10\<rparr>"

definition demo_triggers :: TriggerBook where
  "demo_triggers = insert_trigger Falling (demo_trigger 2 90) (insert_trigger Rising (demo_trigger 1 110) book_new)"

lemma demo_triggers_reachable: "reachable_book demo_triggers"
  unfolding demo_triggers_def
  by (intro reachable_book.intros) (simp_all add: demo_trigger_def in_i64_def)

text \<open>
  C33. On every book the desk can build, a sequence of marks never panics, and each pending trigger fires
  exactly at the first mark that reaches its price from its side (touching counts): it is in the list of
  that mark and of no earlier or later one, and a trigger no mark reaches stays pending.
\<close>

theorem triggers_fire_at_first_crossing:
  assumes "reachable_book b"
  shows "\<exists>fs b'. due_run marks b = Some (fs, b') \<and> length fs = length marks \<and>
    (\<forall>i<length marks. set (fs ! i) =
       (\<Union>w. {t \<in> pending w b. crossed w (marks ! i) t \<and> (\<forall>j<i. \<not> crossed w (marks ! j) t)}))"
  using due_run_total [OF reachable_book_ok [OF assms], of marks]
    due_run_fired [OF reachable_book_ok [OF assms], of marks] by blast

theorem triggers_fire_at_first_crossing_witness:
  "reachable_book demo_triggers \<and>
   (\<exists>fs b'. due_run [100, 111, 90] demo_triggers = Some (fs, b') \<and> length fs = 3 \<and>
     (\<forall>i<3. set (fs ! i) = (\<Union>w. {t \<in> pending w demo_triggers. crossed w ([100, 111, 90] ! i) t \<and>
        (\<forall>j<i. \<not> crossed w ([100, 111, 90] ! j) t)})))"
proof -
  have "length [100, 111, 90 :: int] = 3"
    by simp
  from triggers_fire_at_first_crossing [OF demo_triggers_reachable, of "[100, 111, 90]", unfolded this]
  show ?thesis
    using demo_triggers_reachable by blast
qed

text \<open>
  One mark fires the rising triggers it has reached from the highest price down and the falling ones
  from the lowest price up, ties by id, and leaves exactly the others in the book: the loops over the two
  maps compute the reference definition by filters.
\<close>

theorem due_is_filter:
  assumes "triggers_ok b"
  shows "due_triggers mark b = Some
    (rev (filter (crossed Rising mark) (map snd (rising b))) @ filter (crossed Falling mark) (map snd (falling b)),
     \<lparr>rising = filter (\<lambda>(_, t). \<not> crossed Rising mark t) (rising b),
      falling = filter (\<lambda>(_, t). \<not> crossed Falling mark t) (falling b)\<rparr>)"
  using assms by (rule due_eq)

theorem due_is_filter_witness:
  "triggers_ok demo_triggers \<and> due_triggers 111 demo_triggers =
     Some ([demo_trigger 1 110], \<lparr>rising = [], falling = [((90, 2), demo_trigger 2 90)]\<rparr>)"
  using due_is_filter [of demo_triggers 111] reachable_book_ok [OF demo_triggers_reachable]
  by (simp add: demo_triggers_def demo_trigger_def book_new_def crossed_def trigger_key_def)

text \<open>
  After a restart an order is injected again exactly when no matching event shows that the engine has
  accepted it and either it was never inserted or its submission was cut off half way; an order the
  engine has accepted is never injected twice.
\<close>

theorem reinjection_safe:
  "needs_reinjection has_row has_event half \<longleftrightarrow> \<not> has_event \<and> (half \<or> \<not> has_row)"
  by (auto simp: needs_reinjection_def)

lemma when_round_trip: "from_db_str (as_db_str w) = Some w"
  by (cases w) (simp_all add: from_db_str_def)

end
