(* ===== verification/IndexPrice.thy ===== *)
theory IndexPrice
  imports Funding "HOL-Library.Multiset"
begin

text \<open>
  The index price and the clamped mark of \<open>src/src/desk/index_price.rs\<close>: external sources store prices,
  the aggregator takes the median of the fresh ones, drops the outliers once and takes the median of
  the survivors; the mark is the book's mid clamped around the index. The HTTP pollers that fill the
  sources are not modelled; the wall clock is the argument \<open>now_ms\<close>.

  \<open>None\<close> in the execution is a panic: an empty list of prices indexed when \<open>INDEX_MIN_SOURCES\<close> is
  zero, or a clamp whose bounds are swapped.
\<close>

record SharedSource =
  src_name :: string
  src_prices :: "(symbol16 \<times> (int \<times> int)) list"

definition source_new :: "string \<Rightarrow> SharedSource" where
  "source_new name = \<lparr>src_name = name, src_prices = []\<rparr>"

definition store :: "symbol16 \<Rightarrow> int \<Rightarrow> int \<Rightarrow> SharedSource \<Rightarrow> SharedSource" where
  "store symbol price_ticks now_ms s =
    (if price_ticks > 0 then s\<lparr>src_prices := AList.update symbol (price_ticks, now_ms) (src_prices s)\<rparr>
     else s)"

definition fresh :: "symbol16 \<Rightarrow> int \<Rightarrow> int \<Rightarrow> SharedSource \<Rightarrow> int option" where
  "fresh symbol now_ms staleness_ms s =
    do { (price, ts) \<leftarrow> map_of (src_prices s) symbol;
         if as_i64 (now_ms - ts) \<le> staleness_ms then Some price else None }"

record IndexHealth =
  h_ok :: nat
  h_frozen :: nat
  h_outliers_dropped :: nat

record IndexAggregator =
  sources :: "SharedSource list"
  staleness_ms :: int
  outlier_bps :: int
  min_sources :: nat
  health :: IndexHealth

definition aggregator_new :: "(string \<Rightarrow> string option) \<Rightarrow> SharedSource list \<Rightarrow> IndexAggregator" where
  "aggregator_new env srcs =
    \<lparr>sources = srcs,
     staleness_ms = env_i64 env ''INDEX_STALENESS_MS'' 30000,
     outlier_bps = env_i64 env ''INDEX_OUTLIER_BPS'' 200,
     min_sources = nat (env_i64 env ''INDEX_MIN_SOURCES'' 2 mod 2 ^ 64),
     health = \<lparr>h_ok = 0, h_frozen = 0, h_outliers_dropped = 0\<rparr>\<rparr>"

definition dev_bps :: "int \<Rightarrow> int \<Rightarrow> int exec" where
  "dev_bps median p = div_i128 (as_i64 \<bar>as_i64 (p - median)\<bar> * 10000) (max median 1)"

fun keep_close :: "int \<Rightarrow> int \<Rightarrow> int list \<Rightarrow> IndexHealth \<Rightarrow> (int list \<times> IndexHealth) exec" where
  "keep_close bps median [] h = Some ([], h)"
| "keep_close bps median (p # ps) h =
    do { d \<leftarrow> dev_bps median p;
         if d \<le> bps
         then do { (kept, h) \<leftarrow> keep_close bps median ps h; Some (p # kept, h) }
         else keep_close bps median ps (h\<lparr>h_outliers_dropped := as_u64 (h_outliers_dropped h + 1)\<rparr>) }"

definition freeze_index :: "IndexHealth \<Rightarrow> IndexHealth" where
  "freeze_index h = h\<lparr>h_frozen := as_u64 (h_frozen h + 1)\<rparr>"

definition index_at :: "symbol16 \<Rightarrow> int \<Rightarrow> IndexAggregator \<Rightarrow> (int option \<times> IndexAggregator) exec" where
  "index_at symbol now_ms a =
    (let prices = List.map_filter (fresh symbol now_ms (staleness_ms a)) (sources a) in
     if length prices < min_sources a then Some (None, a\<lparr>health := freeze_index (health a)\<rparr>)
     else
       let prices = sort prices in
       do { median \<leftarrow> vec_get prices (length prices div 2);
            (survivors, h) \<leftarrow> keep_close (outlier_bps a) median prices (health a);
            if length survivors < min_sources a then Some (None, a\<lparr>health := freeze_index h\<rparr>)
            else do { price \<leftarrow> vec_get survivors (length survivors div 2);
                      Some (Some price, a\<lparr>health := h\<lparr>h_ok := as_u64 (h_ok h + 1)\<rparr>\<rparr>) } })"

definition i64_clamp :: "int \<Rightarrow> int \<Rightarrow> int \<Rightarrow> int exec" where
  "i64_clamp x lo hi = (if lo \<le> hi then Some (if x < lo then lo else if hi < x then hi else x) else None)"

definition clamped_mark :: "int \<Rightarrow> int \<Rightarrow> int \<Rightarrow> int exec" where
  "clamped_mark mid_ticks index_ticks clamp_bps =
    do { lo \<leftarrow> div_i128 (index_ticks * as_i64 (10000 - clamp_bps)) 10000;
         hi \<leftarrow> div_i128 (index_ticks * as_i64 (10000 + clamp_bps)) 10000;
         i64_clamp mid_ticks (as_i64 lo) (as_i64 hi) }"

subsection \<open>Medians\<close>

lemma take_filter_length: "\<forall>x\<in>set (take m xs). P x \<Longrightarrow> m \<le> length xs \<Longrightarrow> m \<le> length (filter P xs)"
  by (metis (no_types, lifting) append_take_drop_id filter_True filter_append le_add1 length_append
      length_take min.absorb2)

lemma drop_filter_length: "\<forall>x\<in>set (drop m xs). P x \<Longrightarrow> length xs - m \<le> length (filter P xs)"
  by (metis (no_types, lifting) append_take_drop_id filter_True filter_append le_add2 length_append
      length_drop)

lemma median_between:
  fixes prices :: "int list"
  assumes perm: "mset prices = mset (honest @ bad)" and few: "length bad < length honest"
    and range: "\<forall>p\<in>set honest. lo \<le> p \<and> p \<le> hi"
  shows "lo \<le> sort prices ! (length prices div 2)" "sort prices ! (length prices div 2) \<le> hi"
proof -
  let ?xs = "sort prices" and ?k = "length prices div 2"
  have len: "length prices = length honest + length bad"
    using mset_eq_length [OF perm] by simp
  then have k: "length bad \<le> ?k" "length bad < length prices - ?k" "?k < length ?xs"
    using few by simp_all
  have few_out: "length (filter P ?xs) \<le> length bad" if "\<forall>p\<in>set honest. \<not> P p" for P
  proof -
    have "length (filter P ?xs) = size (filter_mset P (mset (honest @ bad)))"
      using perm by (metis mset_filter mset_sort size_mset)
    also have "\<dots> = length (filter P honest) + length (filter P bad)"
      by (metis filter_append length_append mset_filter size_mset)
    also have "filter P honest = []"
      using that by (simp add: filter_empty_conv)
    finally show ?thesis
      by simp
  qed
  show "lo \<le> ?xs ! ?k"
  proof (rule ccontr)
    assume low: "\<not> lo \<le> ?xs ! ?k"
    have "\<forall>x\<in>set (take (Suc ?k) ?xs). x < lo"
    proof
      fix x assume "x \<in> set (take (Suc ?k) ?xs)"
      then obtain i where "i \<le> ?k" "x = ?xs ! i"
        by (auto simp: in_set_conv_nth less_Suc_eq_le)
      then show "x < lo"
        using low sorted_nth_mono [OF sorted_sort, of i ?k prices] k(3) by simp
    qed
    then have "Suc ?k \<le> length (filter (\<lambda>x. x < lo) ?xs)"
      by (rule take_filter_length) (use k(3) in simp)
    also have "\<dots> \<le> length bad"
      by (rule few_out) (use range in auto)
    finally show False
      using k(1) by simp
  qed
  show "?xs ! ?k \<le> hi"
  proof (rule ccontr)
    assume high: "\<not> ?xs ! ?k \<le> hi"
    have "\<forall>x\<in>set (drop ?k ?xs). hi < x"
    proof
      fix x assume "x \<in> set (drop ?k ?xs)"
      then obtain i where "i < length ?xs - ?k" "x = ?xs ! (?k + i)"
        by (auto simp: in_set_conv_nth)
      then show "hi < x"
        using high sorted_nth_mono [OF sorted_sort, of ?k "?k + i" prices]
        by (simp add: less_diff_conv add.commute)
    qed
    then have "length ?xs - ?k \<le> length (filter (\<lambda>x. hi < x) ?xs)"
      by (rule drop_filter_length)
    also have "\<dots> \<le> length bad"
      by (rule few_out) (use range in auto)
    finally show False
      using k(2) by simp
  qed
qed

subsection \<open>Outliers\<close>

definition source_ok :: "SharedSource \<Rightarrow> bool" where
  "source_ok s \<longleftrightarrow> (\<forall>(_, price, _)\<in>set (src_prices s). 0 < price \<and> in_i64 price)"

lemma source_new_ok: "source_ok (source_new name)"
  by (simp add: source_ok_def source_new_def)

lemma store_ok: "source_ok s \<Longrightarrow> in_i64 price \<Longrightarrow> source_ok (store symbol price now_ms s)"
  using set_update_subset [of symbol "(price, now_ms)" "src_prices s"]
  by (auto simp: source_ok_def store_def)

lemma fresh_ok: "source_ok s \<Longrightarrow> fresh symbol now_ms st s = Some p \<Longrightarrow> 0 < p \<and> in_i64 p"
  by (auto simp: fresh_def source_ok_def bind_eq_Some_conv split: if_splits dest!: map_of_SomeD)

definition close_to :: "int \<Rightarrow> int \<Rightarrow> int \<Rightarrow> bool" where
  "close_to bps m p \<longleftrightarrow> \<bar>p - m\<bar> * 10000 div m \<le> bps"

lemma dev_bps_eq:
  assumes "0 < m" "in_i64 m" "0 < p" "in_i64 p"
  shows "dev_bps m p = Some (\<bar>p - m\<bar> * 10000 div m)"
proof -
  have "in_i64 (p - m)" "in_i64 \<bar>p - m\<bar>"
    using assms by (auto simp: in_i64_def)
  moreover have "max m 1 = m"
    using assms(1) by simp
  ultimately show ?thesis
    using assms(1) by (simp add: dev_bps_def div_i128_def sdiv_pos)
qed

lemma keep_close_eq:
  assumes "0 < m" "in_i64 m" "\<forall>p\<in>set ps. 0 < p \<and> in_i64 p"
  shows "\<exists>h'. keep_close bps m ps h = Some (filter (close_to bps m) ps, h')"
  using assms(3)
proof (induction ps arbitrary: h)
  case (Cons p ps)
  have IH: "\<exists>h'. keep_close bps m ps h0 = Some (filter (close_to bps m) ps, h')" for h0
    using Cons by simp
  have d: "dev_bps m p = Some (\<bar>p - m\<bar> * 10000 div m)"
    using dev_bps_eq [OF assms(1,2)] Cons.prems by simp
  show ?case
  proof (cases "close_to bps m p")
    case True
    obtain h' where "keep_close bps m ps h = Some (filter (close_to bps m) ps, h')"
      using IH by blast
    then show ?thesis
      using True d by (simp add: close_to_def [of bps m p])
  next
    case False
    then show ?thesis
      using IH d by (simp add: close_to_def [of bps m p])
  qed
qed simp

lemma close_to_bound:
  assumes "close_to bps m p" "0 < m"
  shows "\<bar>p - m\<bar> * 10000 < (bps + 1) * m"
proof -
  let ?x = "\<bar>p - m\<bar> * 10000"
  have "m * (?x div m) \<le> m * bps"
    by (rule mult_left_mono) (use assms in \<open>simp_all add: close_to_def\<close>)
  moreover have "?x = m * (?x div m) + ?x mod m" "?x mod m < m"
    using assms(2) by simp_all
  moreover have "(bps + 1) * m = m * bps + m"
    by (simp add: algebra_simps)
  ultimately show ?thesis
    by linarith
qed

text \<open>The prices the aggregator works on, and what it makes of them.\<close>

definition fresh_prices :: "symbol16 \<Rightarrow> int \<Rightarrow> IndexAggregator \<Rightarrow> int list" where
  "fresh_prices symbol now_ms a = List.map_filter (fresh symbol now_ms (staleness_ms a)) (sources a)"

lemma fresh_prices_ok:
  "\<forall>s\<in>set (sources a). source_ok s \<Longrightarrow> \<forall>p\<in>set (fresh_prices symbol now_ms a). 0 < p \<and> in_i64 p"
  using fresh_ok by (fastforce simp: fresh_prices_def set_map_filter)

definition survivors_of :: "int \<Rightarrow> int list \<Rightarrow> int list" where
  "survivors_of bps ps = filter (close_to bps (sort ps ! (length ps div 2))) (sort ps)"

definition index_value :: "nat \<Rightarrow> int \<Rightarrow> int list \<Rightarrow> int option" where
  "index_value least bps ps =
     (if length ps < least \<or> length (survivors_of bps ps) < least then None
      else Some (survivors_of bps ps ! (length (survivors_of bps ps) div 2)))"

lemma median_pos:
  assumes "\<forall>p\<in>set ps. 0 < p \<and> in_i64 p" "ps \<noteq> []"
  shows "0 < sort ps ! (length ps div 2)" "in_i64 (sort ps ! (length ps div 2))"
  using assms nth_mem [of "length ps div 2" "sort ps"] by simp_all

lemma index_at_value:
  assumes ok: "\<forall>s\<in>set (sources a). source_ok s" and min: "0 < min_sources a"
  shows "\<exists>a'. index_at symbol now_ms a =
    Some (index_value (min_sources a) (outlier_bps a) (fresh_prices symbol now_ms a), a')"
proof (cases "length (fresh_prices symbol now_ms a) < min_sources a")
  case True
  then show ?thesis
    by (simp add: index_at_def index_value_def fresh_prices_def)
next
  case False
  let ?ps = "fresh_prices symbol now_ms a"
  let ?m = "sort ?ps ! (length ?ps div 2)" and ?sv = "survivors_of (outlier_bps a) ?ps"
  have ne: "?ps \<noteq> []"
    using False min by auto
  note pos = fresh_prices_ok [OF ok, of symbol now_ms]
  have get: "vec_get (sort ?ps) (length (sort ?ps) div 2) = Some ?m"
    using ne by (simp add: vec_get_def)
  obtain h where keep: "keep_close (outlier_bps a) ?m (sort ?ps) (health a) = Some (?sv, h)"
    using keep_close_eq [OF median_pos [OF pos ne], of "sort ?ps" "outlier_bps a" "health a"] pos
    by (auto simp: survivors_of_def)
  show ?thesis
  proof (cases "length ?sv < min_sources a")
    case True
    then show ?thesis
      using False get keep by (simp add: index_at_def index_value_def fresh_prices_def [symmetric])
  next
    case few: False
    then have "vec_get ?sv (length ?sv div 2) = Some (?sv ! (length ?sv div 2))"
      using min by (auto simp: vec_get_def)
    then show ?thesis
      using few False get keep by (simp add: index_at_def index_value_def Let_def fresh_prices_def [symmetric])
  qed
qed

lemma index_value_close:
  assumes "index_value least bps ps = Some r" "0 < least"
  shows "r \<in> set ps" "close_to bps (sort ps ! (length ps div 2)) r" "ps \<noteq> []"
proof -
  let ?sv = "survivors_of bps ps"
  have "?sv \<noteq> []" "r = ?sv ! (length ?sv div 2)"
    using assms by (auto simp: index_value_def split: if_splits)
  then have "r \<in> set ?sv"
    using nth_mem [of "length ?sv div 2" ?sv] by simp
  then show "r \<in> set ps" "close_to bps (sort ps ! (length ps div 2)) r" "ps \<noteq> []"
    by (auto simp: survivors_of_def)
qed

text \<open>Honest prices that agree within the tolerance all survive, and their majority decides.\<close>

lemma index_value_agreed:
  assumes perm: "mset ps = mset (honest @ bad)" and few: "length bad < length honest"
    and range: "\<forall>p\<in>set honest. lo \<le> p \<and> p \<le> hi"
    and agree: "0 < lo" "(hi - lo) * 10000 < (bps + 1) * lo" and least: "least \<le> length honest"
  shows "\<exists>r. index_value least bps ps = Some r \<and> lo \<le> r \<and> r \<le> hi"
proof -
  let ?m = "sort ps ! (length ps div 2)" and ?sv = "survivors_of bps ps"
  note m = median_between [OF perm few range]
  have close: "close_to bps ?m p" if "lo \<le> p" "p \<le> hi" for p
  proof -
    have "0 \<le> (hi - lo) * 10000"
      using m by simp
    then have "0 < (bps + 1) * lo"
      using agree(2) by linarith
    then have "0 < bps + 1"
      using agree(1) zero_less_mult_pos2 by blast
    then have "(bps + 1) * lo \<le> (bps + 1) * ?m"
      using m(1) by (intro mult_left_mono) simp_all
    moreover have "\<bar>p - ?m\<bar> * 10000 \<le> (hi - lo) * 10000"
      by (rule mult_right_mono) (use that m in linarith, simp)
    ultimately have "\<bar>p - ?m\<bar> * 10000 < (bps + 1) * ?m"
      using agree(2) by linarith
    moreover have "\<bar>p - ?m\<bar> * 10000 div ?m * ?m \<le> \<bar>p - ?m\<bar> * 10000" "0 < ?m"
      using m(1) agree(1) pos_imp_zdiv_nonneg_iff [of ?m] div_mult_mod_eq [of "\<bar>p - ?m\<bar> * 10000" ?m]
        pos_mod_sign [of ?m "\<bar>p - ?m\<bar> * 10000"] by linarith+
    ultimately have "\<bar>p - ?m\<bar> * 10000 div ?m * ?m < (bps + 1) * ?m" "0 < ?m"
      by linarith+
    then have "\<bar>p - ?m\<bar> * 10000 div ?m < bps + 1"
      using mult_less_cancel_right_pos by blast
    then show ?thesis
      by (simp add: close_to_def)
  qed
  then have kept: "filter (close_to bps ?m) honest = honest"
    using range by (simp add: filter_id_conv)
  have "mset ?sv = filter_mset (close_to bps ?m) (mset (honest @ bad))"
    using perm by (simp add: survivors_of_def)
  also have "\<dots> = mset (honest @ filter (close_to bps ?m) bad)"
    using kept by (metis filter_append mset_filter)
  finally have sv: "mset ?sv = mset (honest @ filter (close_to bps ?m) bad)" .
  have len: "length honest \<le> length ?sv" "length honest \<le> length ps"
    using mset_eq_length [OF sv] mset_eq_length [OF perm] by simp_all
  have "sort ?sv = ?sv"
    unfolding survivors_of_def by (intro sorted_sort_id sorted_wrt_filter) simp
  moreover have "length (filter (close_to bps ?m) bad) < length honest"
    using few le_less_trans [OF length_filter_le] by blast
  ultimately show ?thesis
    using median_between [OF sv _ range] len least by (simp add: index_value_def)
qed

subsection \<open>The mark\<close>

lemma sdiv_10000: "(0 :: int) \<le> x \<Longrightarrow> x sdiv 10000 = x div 10000"
  by (simp add: sdiv_pos)

lemma clamped_mark_eq:
  assumes "0 \<le> index_ticks" "in_i64 (2 * index_ticks)" "0 \<le> bps" "bps \<le> 10000"
  shows "clamped_mark mid index_ticks bps =
    Some (max (index_ticks * (10000 - bps) div 10000) (min (index_ticks * (10000 + bps) div 10000) mid))"
proof -
  let ?lo = "index_ticks * (10000 - bps)" and ?hi = "index_ticks * (10000 + bps)"
  have nn: "0 \<le> ?lo" "?lo \<le> ?hi" "?hi \<le> index_ticks * 20000" "0 \<le> ?hi"
    using assms by (simp_all add: mult_left_mono)
  have "?hi div 10000 \<le> (index_ticks * 20000) div 10000"
    by (rule zdiv_mono1 [OF nn(3)]) simp
  then have bounds: "0 \<le> ?lo div 10000" "?lo div 10000 \<le> ?hi div 10000" "?hi div 10000 \<le> 2 * index_ticks"
    using nn(1,2) by (simp_all add: zdiv_mono1)
  then have "in_i64 (?lo div 10000)" "in_i64 (?hi div 10000)"
    using assms(2) by (auto simp: in_i64_def)
  moreover have "in_i64 (10000 - bps)" "in_i64 (10000 + bps)"
    using assms(3,4) by (simp_all add: in_i64_def)
  moreover have "div_i128 ?lo 10000 = Some (?lo div 10000)" "div_i128 ?hi 10000 = Some (?hi div 10000)"
    using nn by (simp_all add: div_i128_def sdiv_10000)
  ultimately have "clamped_mark mid index_ticks bps = i64_clamp mid (?lo div 10000) (?hi div 10000)"
    by (simp add: clamped_mark_def)
  then show ?thesis
    using bounds(2) by (auto simp: i64_clamp_def)
qed

subsection \<open>Properties\<close>

definition demo_sources :: "int list \<Rightarrow> IndexAggregator" where
  "demo_sources ps =
    \<lparr>sources = map (\<lambda>p. store [] p 0 (source_new ''s'')) ps, staleness_ms = 30000, outlier_bps = 200,
     min_sources = 2, health = \<lparr>h_ok = 0, h_frozen = 0, h_outliers_dropped = 0\<rparr>\<rparr>"

lemma demo_sources_ok:
  assumes "\<forall>p\<in>set ps. 0 < p \<and> in_i64 p"
  shows "\<forall>s\<in>set (sources (demo_sources ps)). source_ok s" "fresh_prices [] 0 (demo_sources ps) = ps"
proof -
  show "\<forall>s\<in>set (sources (demo_sources ps)). source_ok s"
    using assms by (auto simp: demo_sources_def store_ok source_new_ok)
  show "fresh_prices [] 0 (demo_sources ps) = ps"
    using assms
    by (induction ps) (auto simp: fresh_prices_def demo_sources_def map_filter_simps fresh_def store_def
        source_new_def)
qed

text \<open>
  C34. With at least one source required, the aggregation never panics. When fewer than half of the
  fresh sources are compromised, then whatever these report, every index it produces is one of the
  reported prices and deviates by at most the outlier tolerance from some value between the lowest and
  the highest honest price. When moreover the honest prices agree within the tolerance and are as
  many as required, an index is produced and lies between the lowest and the highest honest price.
\<close>

theorem index_resists_minority:
  assumes "\<forall>s\<in>set (sources a). source_ok s" "0 < min_sources a"
    and "mset (fresh_prices symbol now_ms a) = mset (honest @ bad)" "length bad < length honest"
    and "\<forall>p\<in>set honest. lo \<le> p \<and> p \<le> hi"
  shows "\<exists>res a'. index_at symbol now_ms a = Some (res, a') \<and>
    (\<forall>r. res = Some r \<longrightarrow> r \<in> set (honest @ bad) \<and>
       (\<exists>m. lo \<le> m \<and> m \<le> hi \<and> \<bar>r - m\<bar> * 10000 < (outlier_bps a + 1) * m)) \<and>
    (0 < lo \<and> (hi - lo) * 10000 < (outlier_bps a + 1) * lo \<and> min_sources a \<le> length honest \<longrightarrow>
       (\<exists>r. res = Some r \<and> lo \<le> r \<and> r \<le> hi))"
proof -
  let ?ps = "fresh_prices symbol now_ms a"
  obtain a' where v: "index_at symbol now_ms a = Some (index_value (min_sources a) (outlier_bps a) ?ps, a')"
    using index_at_value [OF assms(1,2)] by blast
  have "r \<in> set (honest @ bad) \<and> (\<exists>m. lo \<le> m \<and> m \<le> hi \<and> \<bar>r - m\<bar> * 10000 < (outlier_bps a + 1) * m)"
    if "index_value (min_sources a) (outlier_bps a) ?ps = Some r" for r
  proof -
    note r = index_value_close [OF that assms(2)]
    have "set ?ps = set (honest @ bad)"
      using assms(3) by (metis set_mset_mset)
    then show ?thesis
      using r(1) close_to_bound [OF r(2) median_pos(1) [OF fresh_prices_ok [OF assms(1)] r(3)]]
        median_between [OF assms(3-5)] by blast
  qed
  then show ?thesis
    using v index_value_agreed [OF assms(3-5)] by blast
qed

theorem index_resists_minority_witness:
  "list_all source_ok (sources (demo_sources [10000, 10010, 20000])) \<and>
   0 < min_sources (demo_sources [10000, 10010, 20000]) \<and>
   mset (fresh_prices [] 0 (demo_sources [10000, 10010, 20000])) = mset ([10000, 10010] @ [20000]) \<and>
   (\<exists>r a'. index_at [] 0 (demo_sources [10000, 10010, 20000]) = Some (Some r, a') \<and> 10000 \<le> r \<and> r \<le> 10010)"
proof -
  let ?a = "demo_sources [10000, 10010, 20000]"
  have pos: "\<forall>p\<in>set [10000, 10010, 20000 :: int]. 0 < p \<and> in_i64 p"
    by (simp add: in_i64_def)
  note ok = demo_sources_ok [OF pos]
  have min: "0 < min_sources ?a" "min_sources ?a = 2" "outlier_bps ?a = 200"
    by (simp_all add: demo_sources_def)
  have fp: "mset (fresh_prices [] 0 ?a) = mset ([10000, 10010] @ [20000])"
    by (simp add: ok(2))
  show ?thesis
    using index_resists_minority [OF ok(1) min(1) fp, of 10000 10010] ok(1) min fp by (auto simp: list_all_iff)
qed

text \<open>
  With two sources, the default minimum, the index is the higher of the two whenever both lie within the
  tolerance: a single compromised source moves it, although there is only one honest price.
\<close>

theorem two_sources_follow_the_higher:
  "map_option fst (index_at [] 0 (demo_sources [10000, 10000])) = Some (Some 10000) \<and>
   map_option fst (index_at [] 0 (demo_sources [10000, 10200])) = Some (Some 10200)"
proof -
  have "dev_bps 10000 10000 = Some 0" "dev_bps 10200 10000 = Some 196" "dev_bps 10200 10200 = Some 0"
    by (simp_all add: dev_bps_eq in_i64_def)
  then show ?thesis
    by (simp add: index_at_def demo_sources_def fresh_def store_def source_new_def map_filter_simps
        vec_get_def Let_def)
qed

text \<open>
  For a sensible clamp width the mark is the book's mid when that lies inside the band around the
  index and the nearer end of the band otherwise, so a swept book moves the mark by at most the width; the
  clamp never panics.
\<close>

theorem mark_stays_in_band:
  assumes "0 \<le> index_ticks" "in_i64 (2 * index_ticks)" "0 \<le> bps" "bps \<le> 10000"
  shows "\<exists>mark. clamped_mark mid index_ticks bps = Some mark \<and>
    index_ticks * (10000 - bps) div 10000 \<le> mark \<and> mark \<le> index_ticks * (10000 + bps) div 10000 \<and>
    (index_ticks * (10000 - bps) div 10000 \<le> mid \<and> mid \<le> index_ticks * (10000 + bps) div 10000 \<longrightarrow> mark = mid)"
proof -
  have "index_ticks * (10000 - bps) \<le> index_ticks * (10000 + bps)"
    using assms by (intro mult_left_mono) simp_all
  then have "index_ticks * (10000 - bps) div 10000 \<le> index_ticks * (10000 + bps) div 10000"
    by (rule zdiv_mono1) simp
  then show ?thesis
    using clamped_mark_eq [OF assms, of mid] by auto
qed

theorem mark_stays_in_band_witness:
  "in_i64 (2 * 5000000) \<and> (\<exists>mark. clamped_mark 6000000 5000000 50 = Some mark \<and>
     4975000 \<le> mark \<and> mark \<le> 5025000)"
  using mark_stays_in_band [of 5000000 50 6000000] by (auto simp: in_i64_def)

end
