(* ===== verification/Money.thy ===== *)
theory Money
  imports Text RiskCalc
begin

text \<open>
  Fixed-point amounts and balances of \<open>src/desk/money.rs\<close>: eight decimals in an \<open>i64\<close>, their
  decimal text form, checked arithmetic and the freezing of balances. The conversions from and to
  \<open>f64\<close> are in \<open>MoneyFloat\<close>.
\<close>

definition AMOUNT_SCALE :: int where
  "AMOUNT_SCALE = 100000000"

definition overflow_error :: string where
  "overflow_error = ''amount overflows i64 atoms''"

subsection \<open>Decimal text\<close>

fun checked_digits :: "int \<Rightarrow> string \<Rightarrow> int option" where
  "checked_digits atoms [] = Some atoms"
| "checked_digits atoms (c # cs) =
     (if in_i128 (atoms * 10) \<and> in_i128 (atoms * 10 + int (digit_val c))
      then checked_digits (atoms * 10 + int (digit_val c)) cs else None)"

fun scale_up :: "nat \<Rightarrow> int \<Rightarrow> int" where
  "scale_up 0 x = x"
| "scale_up (Suc n) x = scale_up n (x * 10)"

definition add_fraction :: "string option \<Rightarrow> int \<Rightarrow> string + int" where
  "add_fraction frac atoms =
     (case frac of
        None \<Rightarrow> Inr atoms
      | Some frac \<Rightarrow>
          if length frac > 8 then Inl ''amount has more than 8 decimal places''
          else if \<not> list_all is_digit frac then Inl ''invalid fractional amount digits''
          else let v = atoms + scale_up (8 - length frac) (int (digits_val frac))
               in if in_i128 v then Inr v else Inl overflow_error)"

definition from_decimal_str :: "string \<Rightarrow> string + int" where
  "from_decimal_str input =
     (case trim input of
        [] \<Rightarrow> Inl ''empty amount''
      | c # cs \<Rightarrow>
          let (negative, body) =
                (if c = CHR ''-'' then (True, cs) else if c = CHR ''+'' then (False, cs) else (False, c # cs))
          in if body = [] then Inl ''missing amount digits''
             else case split_on (CHR ''.'') body of
                 whole # rest \<Rightarrow>
                   let frac = (case rest of [] \<Rightarrow> None | f # _ \<Rightarrow> Some f)
                   in if length rest > 1 then Inl ''amount has multiple decimal points''
                      else if whole = [] \<and> (case frac of None \<Rightarrow> [] | Some f \<Rightarrow> f) = [] then Inl ''missing amount digits''
                      else if \<not> list_all is_digit whole then Inl ''invalid whole amount digits''
                      else (case checked_digits 0 whole of
                              None \<Rightarrow> Inl overflow_error
                            | Some v \<Rightarrow>
                                if \<not> in_i128 (v * AMOUNT_SCALE) then Inl overflow_error
                                else (case add_fraction frac (v * AMOUNT_SCALE) of
                                        Inl err \<Rightarrow> Inl err
                                      | Inr atoms \<Rightarrow>
                                          let atoms = (if negative then - atoms else atoms)
                                          in if atoms > i64_max \<or> atoms < i64_min then Inl overflow_error else Inr atoms))
               | [] \<Rightarrow> Inl ''missing amount digits'')"

definition pop_zeros :: "string \<Rightarrow> string" where
  "pop_zeros s = rev (dropWhile (\<lambda>c. c = CHR ''0'') (rev s))"

definition pad8 :: "nat \<Rightarrow> string" where
  "pad8 n = replicate (8 - length (show_nat n)) (CHR ''0'') @ show_nat n"

definition to_decimal_string :: "int \<Rightarrow> string" where
  "to_decimal_string atoms =
     (let abs_atoms = (if atoms < 0 then - atoms else atoms);
          whole = abs_atoms sdiv AMOUNT_SCALE;
          frac = abs_atoms smod AMOUNT_SCALE;
          out = (if frac = 0 then show_nat (nat whole)
                 else show_nat (nat whole) @ CHR ''.'' # pop_zeros (pad8 (nat frac)))
      in if atoms < 0 then CHR ''-'' # out else out)"

subsection \<open>Checked arithmetic\<close>

definition checked_mul_scaled :: "int \<Rightarrow> int \<Rightarrow> string + int" where
  "checked_mul_scaled a b =
     (if a < 0 \<or> b < 0 then Inl ''negative amount in scaled multiply''
      else let scaled = (a * b + AMOUNT_SCALE sdiv 2) sdiv AMOUNT_SCALE
           in if scaled > i64_max then Inl overflow_error else Inr scaled)"

definition checked_add :: "int \<Rightarrow> int \<Rightarrow> string + int" where
  "checked_add a b = (if in_i64 (a + b) then Inr (a + b) else Inl overflow_error)"

definition checked_sub :: "int \<Rightarrow> int \<Rightarrow> string + int" where
  "checked_sub a b = (if in_i64 (a - b) then Inr (a - b) else Inl overflow_error)"

subsection \<open>Balances\<close>

record AccountBalance =
  ab_balance_atoms :: int
  ab_frozen_atoms :: int

definition available_atoms :: "AccountBalance \<Rightarrow> int" where
  "available_atoms b = as_i64 (ab_balance_atoms b - ab_frozen_atoms b)"

definition try_freeze_atoms :: "int \<Rightarrow> AccountBalance \<Rightarrow> bool \<times> AccountBalance" where
  "try_freeze_atoms amount b =
     (if amount \<le> 0 then (True, b)
      else if available_atoms b \<ge> amount then (True, b\<lparr>ab_frozen_atoms := as_i64 (ab_frozen_atoms b + amount)\<rparr>)
      else (False, b))"

definition release_atoms :: "int \<Rightarrow> AccountBalance \<Rightarrow> AccountBalance" where
  "release_atoms amount b =
     (if amount \<le> 0 then b else b\<lparr>ab_frozen_atoms := sat_i64 (ab_frozen_atoms b - amount)\<rparr>)"

definition apply_atoms_delta :: "int \<Rightarrow> int \<Rightarrow> AccountBalance \<Rightarrow> AccountBalance" where
  "apply_atoms_delta balance_delta frozen_release b =
     release_atoms frozen_release (b\<lparr>ab_balance_atoms := max (sat_i64 (ab_balance_atoms b + balance_delta)) 0\<rparr>)"

definition balance_ok :: "AccountBalance \<Rightarrow> bool" where
  "balance_ok b \<longleftrightarrow> 0 \<le> ab_frozen_atoms b \<and> ab_frozen_atoms b \<le> ab_balance_atoms b \<and> in_i64 (ab_balance_atoms b)"

subsection \<open>Round trip\<close>

lemma checked_digits_eq:
  "int (digits_from (nat a) s) < 2 ^ 127 \<Longrightarrow> 0 \<le> a \<Longrightarrow> checked_digits a s = Some (int (digits_from (nat a) s))"
proof (induction s arbitrary: a)
  case (Cons c cs)
  let ?b = "a * 10 + int (digit_val c)"
  have b: "nat ?b = nat a * 10 + digit_val c" "0 \<le> ?b" using Cons.prems(2) by (simp_all add: nat_add_distrib nat_mult_distrib)
  have "int (nat ?b) \<le> int (digits_from (nat ?b) cs)" by (simp only: of_nat_le_iff digits_from_ge)
  with Cons.prems b have "?b < 2 ^ 127" by simp
  with Cons.prems b have "in_i128 (a * 10)" "in_i128 ?b" by (auto simp: in_i128_def)
  with Cons.IH [of ?b] Cons.prems b show ?case by simp
qed simp

lemma scale_up_eq: "scale_up n x = x * 10 ^ n"
  by (induction n arbitrary: x) simp_all

lemma pop_zeros_split: "\<exists>k. s = pop_zeros s @ replicate k (CHR ''0'')"
proof -
  have "rev s = takeWhile (\<lambda>c. c = CHR ''0'') (rev s) @ dropWhile (\<lambda>c. c = CHR ''0'') (rev s)" by simp
  then have "s = pop_zeros s @ rev (takeWhile (\<lambda>c. c = CHR ''0'') (rev s))"
    unfolding pop_zeros_def by (metis rev_append rev_rev_ident)
  moreover have "rev (takeWhile (\<lambda>c. c = CHR ''0'') (rev s)) = replicate (length (takeWhile (\<lambda>c. c = CHR ''0'') (rev s))) (CHR ''0'')"
    by (rule replicate_eqI) (auto dest: set_takeWhileD)
  ultimately show ?thesis by metis
qed

lemma pad8_props:
  assumes "n < 10 ^ 8"
  shows "length (pad8 n) = 8" and "list_all is_digit (pad8 n)" and "digits_val (pad8 n) = n"
proof -
  have "is_digit (CHR ''0'')" by (simp add: is_digit_def)
  then show "length (pad8 n) = 8" "list_all is_digit (pad8 n)" "digits_val (pad8 n) = n"
    using length_show_nat [OF assms] show_nat_digits(1) [of n] by (auto simp: pad8_def digits_val_leading list_all_iff)
qed

lemma fraction_props:
  assumes "0 < n" and "n < 10 ^ 8"
  shows "list_all is_digit (pop_zeros (pad8 n))" and "length (pop_zeros (pad8 n)) \<le> 8" and "pop_zeros (pad8 n) \<noteq> []"
    and "digits_val (pop_zeros (pad8 n)) * 10 ^ (8 - length (pop_zeros (pad8 n))) = n"
proof -
  obtain k where k: "pad8 n = pop_zeros (pad8 n) @ replicate k (CHR ''0'')" using pop_zeros_split by blast
  have len: "8 = length (pop_zeros (pad8 n)) + k" using arg_cong [OF k, of length] pad8_props(1) [OF assms(2)] by simp
  show "list_all is_digit (pop_zeros (pad8 n))" using pad8_props(2) [OF assms(2)] k by (metis list_all_append)
  show "length (pop_zeros (pad8 n)) \<le> 8" using len by simp
  have v: "digits_val (pop_zeros (pad8 n)) * 10 ^ k = n"
    using digits_val_zeros [of "pop_zeros (pad8 n)" k] pad8_props(3) [OF assms(2)] k by simp
  have "8 - length (pop_zeros (pad8 n)) = k" using len by simp
  with v show "digits_val (pop_zeros (pad8 n)) * 10 ^ (8 - length (pop_zeros (pad8 n))) = n" by simp
  show "pop_zeros (pad8 n) \<noteq> []" using v assms(1) by (auto simp: digits_val_def)
qed

lemma digits_no_dot: "list_all is_digit s \<Longrightarrow> CHR ''.'' \<notin> set s"
  by (auto simp: list_all_iff is_digit_def)

text \<open>The unsigned part: what the parser makes of the printed body.\<close>

lemma body_split:
  assumes "0 \<le> a" and "a \<le> 2 ^ 63"
  shows "\<exists>rest. split_on (CHR ''.'')
      (if a smod AMOUNT_SCALE = 0 then show_nat (nat (a sdiv AMOUNT_SCALE))
       else show_nat (nat (a sdiv AMOUNT_SCALE)) @ CHR ''.'' # pop_zeros (pad8 (nat (a smod AMOUNT_SCALE)))) =
      show_nat (nat (a sdiv AMOUNT_SCALE)) # rest \<and> length rest \<le> 1 \<and>
      add_fraction (case rest of [] \<Rightarrow> None | f # _ \<Rightarrow> Some f) (a sdiv AMOUNT_SCALE * AMOUNT_SCALE) = Inr a"
proof -
  let ?w = "a sdiv AMOUNT_SCALE" and ?f = "a smod AMOUNT_SCALE"
  have dec: "?w * AMOUNT_SCALE + ?f = a" using sdiv_smod [OF assms(1), of AMOUNT_SCALE] by (simp add: AMOUNT_SCALE_def algebra_simps)
  have f: "0 \<le> ?f" "?f < 100000000" using smod_bound [OF assms(1), of AMOUNT_SCALE] by (simp_all add: AMOUNT_SCALE_def)
  note nd = digits_no_dot [OF show_nat_digits(1), of "nat ?w"]
  show ?thesis
  proof (cases "?f = 0")
    case True
    with dec nd show ?thesis by (simp add: split_on_none add_fraction_def)
  next
    case False
    have n: "0 < nat ?f" "nat ?f < 10 ^ 8" using f False by simp_all
    note fr = fraction_props [OF n]
    have "int (digits_val (pop_zeros (pad8 (nat ?f)))) * 10 ^ (8 - length (pop_zeros (pad8 (nat ?f)))) = ?f"
      using arg_cong [OF fr(4), of int] f by simp
    moreover have "in_i128 a" using assms by (simp add: in_i128_def)
    ultimately show ?thesis
      using False nd dec fr digits_no_dot [OF fr(1)]
      by (simp add: split_on_append split_on_none add_fraction_def scale_up_eq)
  qed
qed

lemma body_ends:
  "b = (if a smod AMOUNT_SCALE = 0 then show_nat n else show_nat n @ CHR ''.'' # pop_zeros (pad8 (nat (a smod AMOUNT_SCALE)))) \<Longrightarrow>
   0 \<le> a \<Longrightarrow> b \<noteq> [] \<and> is_digit (hd b) \<and> is_digit (last b)"
proof -
  assume b: "b = (if a smod AMOUNT_SCALE = 0 then show_nat n else show_nat n @ CHR ''.'' # pop_zeros (pad8 (nat (a smod AMOUNT_SCALE))))"
    and a: "0 \<le> a"
  have l: "is_digit (last s)" if "list_all is_digit s" "s \<noteq> []" for s using that by (simp add: list_all_iff)
  have f: "0 \<le> a smod AMOUNT_SCALE" "a smod AMOUNT_SCALE < 100000000"
    using smod_bound [OF a, of AMOUNT_SCALE] by (simp_all add: AMOUNT_SCALE_def)
  show ?thesis
  proof (cases "a smod AMOUNT_SCALE = 0")
    case True
    with b l [of b] hd_show_nat show ?thesis by simp
  next
    case False
    then have "0 < nat (a smod AMOUNT_SCALE)" "nat (a smod AMOUNT_SCALE) < 10 ^ 8" using f by simp_all
    note fr = fraction_props [OF this]
    from False b l [OF fr(1,3)] fr(3) hd_show_nat [of n] show_nat_digits(2) [of n] show ?thesis by (simp add: hd_append)
  qed
qed

text \<open>
  C29. Amounts survive their text form: printing any \<open>i64\<close> amount with \<open>to_decimal_string\<close> and
  reading it back with \<open>from_decimal_str\<close> gives the same amount, for every sign and every number of
  significant decimals, \<open>i64::MIN\<close> included.
\<close>

theorem decimal_round_trip:
  assumes "in_i64 a"
  shows "from_decimal_str (to_decimal_string a) = Inr a"
proof -
  let ?m = "if a < 0 then - a else a"
  let ?b = "if ?m smod AMOUNT_SCALE = 0 then show_nat (nat (?m sdiv AMOUNT_SCALE))
    else show_nat (nat (?m sdiv AMOUNT_SCALE)) @ CHR ''.'' # pop_zeros (pad8 (nat (?m smod AMOUNT_SCALE)))"
  have m: "0 \<le> ?m" "?m \<le> 2 ^ 63" using assms by (auto simp: in_i64_def)
  define b where "b = ?b"
  obtain rest where rest: "split_on (CHR ''.'') b = show_nat (nat (?m sdiv AMOUNT_SCALE)) # rest" "length rest \<le> 1"
    "add_fraction (case rest of [] \<Rightarrow> None | f # _ \<Rightarrow> Some f) (?m sdiv AMOUNT_SCALE * AMOUNT_SCALE) = Inr ?m"
    using body_split [OF m] unfolding b_def by blast
  have b: "b \<noteq> []" "is_digit (hd b)" "is_digit (last b)" using body_ends [OF _ m(1), of b] by (simp_all add: b_def)
  then obtain c cs where c: "b = c # cs" "is_digit c" by (cases b) simp_all
  have w: "0 \<le> ?m sdiv AMOUNT_SCALE" "?m sdiv AMOUNT_SCALE * AMOUNT_SCALE \<le> ?m"
    using sdiv_nonneg [OF m(1), of AMOUNT_SCALE] sdiv_between [OF m(1), of AMOUNT_SCALE] by (simp_all add: AMOUNT_SCALE_def algebra_simps)
  then have "?m sdiv AMOUNT_SCALE \<le> 2 ^ 63" using m(2) by (simp add: AMOUNT_SCALE_def)
  then have dig: "checked_digits 0 (show_nat (nat (?m sdiv AMOUNT_SCALE))) = Some (?m sdiv AMOUNT_SCALE)"
    using checked_digits_eq [of 0 "show_nat (nat (?m sdiv AMOUNT_SCALE))"] w(1)
    by (simp add: digits_val_def [symmetric])
  have wide: "in_i128 (?m sdiv AMOUNT_SCALE * AMOUNT_SCALE)"
    using w m by (simp add: in_i128_def AMOUNT_SCALE_def)
  have out: "to_decimal_string a = (if a < 0 then CHR ''-'' # b else b)"
    by (simp add: to_decimal_string_def b_def Let_def)
  have "trim (to_decimal_string a) = to_decimal_string a"
    using b c by (intro trim_id) (auto simp: out is_white_def dest: digit_not_special(4))
  then show ?thesis
    using rest dig wide assms b(1) c digit_not_special(1,2) [OF c(2)]
    by (auto simp: from_decimal_str_def out i64_max_def i64_min_def in_i64_def)
qed

theorem decimal_round_trip_witness:
  "to_decimal_string (- 123450000) = ''-1.2345'' \<and> from_decimal_str (to_decimal_string (- 123450000)) = Inr (- 123450000)"
proof
  show "to_decimal_string (- 123450000) = ''-1.2345''"
    by (simp add: to_decimal_string_def AMOUNT_SCALE_def signed_divide_int_def signed_modulo_int_def pad8_def pop_zeros_def
        show_nat.simps digit_char_def char_of_def bit_Suc_0_iff)
  show "from_decimal_str (to_decimal_string (- 123450000)) = Inr (- 123450000)"
    by (rule decimal_round_trip) (simp add: in_i64_def)
qed

subsection \<open>Arithmetic and balances\<close>

text \<open>
  The scaled product is the exact product rounded half up to the nearest atom: on success it
  differs from the true value by at most half an atom; negative inputs and products that do not
  fit are errors.
\<close>

theorem scaled_product_rounds:
  "case checked_mul_scaled a b of
     Inr r \<Rightarrow> 0 \<le> a \<and> 0 \<le> b \<and> r \<le> i64_max \<and> 2 * \<bar>r * AMOUNT_SCALE - a * b\<bar> \<le> AMOUNT_SCALE
   | Inl err \<Rightarrow> a < 0 \<or> b < 0 \<or> a * b + 50000000 \<ge> 2 ^ 63 * AMOUNT_SCALE"
proof (cases "a < 0 \<or> b < 0")
  case False
  let ?n = "a * b + 50000000"
  have n: "0 \<le> ?n" using False by simp
  have half: "AMOUNT_SCALE sdiv 2 = 50000000" by (simp add: AMOUNT_SCALE_def sdiv_pos)
  have "100000000 * (?n sdiv 100000000) \<le> ?n \<and> ?n < 100000000 * (?n sdiv 100000000) + 100000000"
    by (rule sdiv_between [OF n]) simp
  with False half show ?thesis
    by (auto simp: checked_mul_scaled_def Let_def AMOUNT_SCALE_def i64_max_def)
qed (auto simp: checked_mul_scaled_def)

text \<open>
  Freezing keeps a balance sound: it never freezes more than is held, it refuses exactly what
  is not available and then changes nothing, and releasing what was frozen restores the balance.
\<close>

theorem freeze_release:
  assumes "balance_ok b" and "0 < amount" and "try_freeze_atoms amount b = (ok, b')"
  shows "ok = (amount \<le> ab_balance_atoms b - ab_frozen_atoms b) \<and> balance_ok b' \<and>
    (if ok then ab_frozen_atoms b' = ab_frozen_atoms b + amount \<and> release_atoms amount b' = b else b' = b)"
proof -
  have r: "in_i64 (ab_balance_atoms b - ab_frozen_atoms b)" "in_i64 (ab_frozen_atoms b)"
    using assms(1) by (auto simp: balance_ok_def intro: in_i64_diff_nonneg in_i64_between [OF in_i64_0])
  have "in_i64 (ab_frozen_atoms b + amount)" if "amount \<le> ab_balance_atoms b - ab_frozen_atoms b"
    using assms(1,2) that by (auto simp: balance_ok_def intro: in_i64_between [OF in_i64_0])
  with r assms show ?thesis
    by (auto simp: try_freeze_atoms_def available_atoms_def release_atoms_def balance_ok_def split: if_splits)
qed

theorem freeze_release_witness:
  "\<exists>b'. try_freeze_atoms 30 \<lparr>ab_balance_atoms = 100, ab_frozen_atoms = 60\<rparr> = (True, b') \<and>
     release_atoms 30 b' = \<lparr>ab_balance_atoms = 100, ab_frozen_atoms = 60\<rparr>"
proof -
  let ?b = "\<lparr>ab_balance_atoms = 100, ab_frozen_atoms = 60\<rparr>"
  obtain ok b' where f: "try_freeze_atoms 30 ?b = (ok, b')" by (meson surj_pair)
  from freeze_release [OF _ _ f] f show ?thesis by (auto simp: balance_ok_def in_i64_def)
qed

end
