(* ===== verification/MoneyFloat.thy ===== *)
theory MoneyFloat
  imports Money Float64
begin

text \<open>
  The \<open>f64\<close> boundary of \<open>src/src/desk/money.rs\<close>: amounts read from and shown as floating-point
  numbers.
\<close>

definition from_f64_round :: "f64 \<Rightarrow> string + int" where
  "from_f64_round value =
    (if \<not> is_finite value then Inl ''amount is not finite''
     else let scaled = f_round (f_mul value (f_of_int AMOUNT_SCALE))
          in if f_lt (f_of_int i64_max) scaled \<or> f_lt scaled (f_of_int i64_min) then Inl overflow_error
             else Inr (f_as_i64 scaled))"

definition to_f64 :: "int \<Rightarrow> f64" where
  "to_f64 atoms = f_div (f_of_int atoms) (f_of_int AMOUNT_SCALE)"

definition balance_from_f64_round :: "f64 \<Rightarrow> f64 \<Rightarrow> string + AccountBalance" where
  "balance_from_f64_round balance frozen = (case from_f64_round balance of
     Inl e \<Rightarrow> Inl e
   | Inr b \<Rightarrow> (case from_f64_round frozen of
       Inl e \<Rightarrow> Inl e
     | Inr f \<Rightarrow> Inr \<lparr>ab_balance_atoms = b, ab_frozen_atoms = f\<rparr>))"

definition balance_f64 :: "AccountBalance \<Rightarrow> f64" where
  "balance_f64 b = to_f64 (ab_balance_atoms b)"

definition frozen_f64 :: "AccountBalance \<Rightarrow> f64" where
  "frozen_f64 b = to_f64 (ab_frozen_atoms b)"

definition available_f64 :: "AccountBalance \<Rightarrow> f64" where
  "available_f64 b = to_f64 (available_atoms b)"

lemma rnd_neg: "rnd (- x) = f_neg (rnd x)"
  by (auto simp: rnd_def Let_def)

lemma f_of_int_large:
  assumes "2 ^ 53 \<le> \<bar>n\<bar>" "\<bar>n\<bar> \<le> 2 ^ 64"
  obtains y where "f_of_int n = Fin y" "2 ^ 52 \<le> \<bar>y\<bar>" "0 < y \<longleftrightarrow> 0 < n" "0 < n \<or> y \<le> - (2 ^ 52)"
proof -
  have q: "(2 ^ 53 :: rat) \<le> of_int \<bar>n\<bar>" "(of_int \<bar>n\<bar> :: rat) \<le> 2 ^ 64"
    using assms by (metis of_int_le_iff of_int_numeral of_int_power)+
  moreover have "(2 ^ 64 :: rat) \<le> pow2 1000"
    using pow2_mono [of 64 1000] pow2_nat [of 64] by simp
  ultimately have "1 \<le> (of_int \<bar>n\<bar> :: rat)" "of_int \<bar>n\<bar> \<le> pow2 1000"
    by simp_all
  then obtain y where y: "rnd (of_int \<bar>n\<bar>) = Fin y" "of_int \<bar>n\<bar> / 2 \<le> y"
    by (rule rnd_half)
  have big: "2 ^ 52 \<le> y"
    using y(2) q(1) by simp
  show ?thesis
  proof (cases "0 < n")
    case True
    then show ?thesis
      using that [of y] y(1) big by (simp add: f_of_int_def)
  next
    case False
    then have "rnd (of_int n) = Fin (- y)"
      using y(1) rnd_neg [of "of_int \<bar>n\<bar>"] by simp
    then show ?thesis
      using that [of "- y"] False big by (simp add: f_of_int_def)
  qed
qed

lemma i64_limits_f64:
  assumes "\<bar>n\<bar> \<le> 2 ^ 52"
  shows "\<not> f_lt (f_of_int i64_max) (Fin (of_int n))" "\<not> f_lt (Fin (of_int n)) (f_of_int i64_min)"
proof -
  have n: "\<bar>of_int n :: rat\<bar> \<le> 2 ^ 52"
    using assms by (metis of_int_abs of_int_le_iff of_int_numeral of_int_power)
  obtain y where "f_of_int i64_max = Fin y" "2 ^ 52 \<le> \<bar>y\<bar>" "0 < y \<longleftrightarrow> 0 < i64_max"
    by (rule f_of_int_large [of i64_max]) (simp_all add: i64_max_def)
  then show "\<not> f_lt (f_of_int i64_max) (Fin (of_int n))"
    using n by (simp add: i64_max_def abs_le_iff)
  obtain z where "f_of_int i64_min = Fin z" "0 < i64_min \<or> z \<le> - (2 ^ 52)"
    by (rule f_of_int_large [of i64_min]) (simp_all add: i64_min_def)
  then show "\<not> f_lt (Fin (of_int n)) (f_of_int i64_min)"
    using n by (simp add: i64_min_def abs_le_iff)
qed

lemma scale_f64: "f_of_int AMOUNT_SCALE = Fin 100000000"
  using f_of_int_exact [of AMOUNT_SCALE] by (simp add: AMOUNT_SCALE_def)

lemma f_as_i64_int: "in_i64 n \<Longrightarrow> f_as_i64 (Fin (of_int n)) = n"
  by (simp add: trunc_rat_def in_i64_def)

text \<open>
  Amounts up to 2.8 million units survive the trip through \<open>f64\<close> unchanged, although neither the
  division nor the multiplication by the scale is exact.
\<close>

theorem amount_f64_round_trip:
  assumes "\<bar>atoms\<bar> \<le> 2 ^ 48"
  shows "from_f64_round (to_f64 atoms) = Inr atoms"
proof (cases "atoms = 0")
  case True
  have "to_f64 0 = Fin 0"
    by (simp add: to_f64_def scale_f64 rnd_def)
  moreover have "from_f64_round (Fin 0) = Inr 0"
    using i64_limits_f64 [of 0] round_away_near [of 0 0]
    by (simp add: from_f64_round_def scale_f64 rnd_def trunc_rat_def Let_def)
  ultimately show ?thesis
    using True by simp
next
  case False
  let ?x = "of_int atoms :: rat"
  have x: "\<bar>?x\<bar> \<le> 2 ^ 48"
    using assms by (metis of_int_abs of_int_le_iff of_int_numeral of_int_power)
  have "1 \<le> \<bar>?x\<bar>"
    using False by (metis of_int_abs of_int_1_le_iff zero_less_abs_iff int_one_le_iff_zero_less)
  moreover have "\<bar>?x\<bar> \<le> pow2 100"
    using x pow2_nat [of 100] by simp
  moreover have "pow2 (- 100) \<le> 1 / 100000000" "1 / 100000000 \<le> pow2 100"
    by (simp_all add: pow2_def)
  ultimately obtain v u where v: "rnd (?x * (1 / 100000000)) = Fin v"
    and u: "rnd (v / (1 / 100000000)) = Fin u" and near: "\<bar>u - ?x\<bar> \<le> \<bar>?x\<bar> / 2 ^ 50"
    by (rule scale_round_trip)
  have "\<bar>?x\<bar> / 2 ^ 50 \<le> 2 ^ 48 / 2 ^ 50"
    by (rule divide_right_mono [OF x]) simp
  then have "\<bar>u - ?x\<bar> < 1 / 2"
    using near by simp
  then have "round_away u = atoms"
    by (rule round_away_near)
  moreover have "f_of_int atoms = Fin ?x"
    using assms by (intro f_of_int_exact) simp
  moreover have "in_i64 atoms" "\<bar>atoms\<bar> \<le> 2 ^ 52"
    using assms by (auto simp: in_i64_def)
  ultimately show ?thesis
    using v u i64_limits_f64 [of atoms]
    by (simp add: from_f64_round_def to_f64_def scale_f64 f_as_i64_int Let_def del: f_as_i64.simps f_of_int_exact)
qed

theorem amount_f64_round_trip_witness:
  "\<bar>- 123456789012 :: int\<bar> \<le> 2 ^ 48 \<and> from_f64_round (to_f64 (- 123456789012)) = Inr (- 123456789012)"
  using amount_f64_round_trip [of "- 123456789012"] by simp

end
