(* ===== verification/SymbolRules.thy ===== *)
theory SymbolRules
  imports MoneyFloat Orders Funding
begin

text \<open>
  The trading rules of \<open>src/src/desk/symbol_rules.rs\<close>: tick and lot sizes per symbol, the conversions
  between prices and ticks and between quantities and lots (in floating point and in atoms), the
  validation of symbols and the normalisation of an order's shape.

  A \<open>panic!\<close> on an unknown symbol is \<open>None\<close>; an error string is \<open>Inl\<close>. Decimal literals are
  rounded to \<open>f64\<close> by \<open>rnd\<close>. The environment is a parameter. Strings are byte strings, and
  \<open>to_uppercase\<close> is the ASCII one.
\<close>

record SymbolRules =
  price_tick :: f64
  quantity_step :: f64
  price_tick_atoms :: int
  quantity_step_atoms :: int
  min_notional :: f64
  notional_scale :: int
  default_leverage :: nat
  maintenance_rate_bps :: int
  margin_call_rate_bps :: int
  price_band_bps :: nat
  max_position_lots :: int
  max_symbol_oi_lots :: int

record FixedOrderShape =
  shape_price_ticks :: "int option"
  shape_quantity_lots :: int

record FixedOrderInput =
  fo_id :: nat
  fo_side :: Side
  fo_price_ticks :: int
  fo_quantity_lots :: int
  fo_time_in_force :: TimeInForce
  fo_timestamp :: nat
  fo_is_market :: bool

definition dec :: "rat \<Rightarrow> f64" where
  "dec x = rnd x"

definition for_symbol :: "string \<Rightarrow> SymbolRules exec" where
  "for_symbol symbol =
    (if symbol = ''BTC_USDT'' then Some
       \<lparr>price_tick = dec (1 / 100), quantity_step = dec (1 / 1000000), price_tick_atoms = 1000000,
        quantity_step_atoms = 100, min_notional = dec 5, notional_scale = 1000000, default_leverage = 10,
        maintenance_rate_bps = 50, margin_call_rate_bps = 75, price_band_bps = 10000,
        max_position_lots = 0, max_symbol_oi_lots = 0\<rparr>
     else if symbol = ''ETH_USDT'' then Some
       \<lparr>price_tick = dec (1 / 100), quantity_step = dec (1 / 10000), price_tick_atoms = 1000000,
        quantity_step_atoms = 10000, min_notional = dec 5, notional_scale = 10000, default_leverage = 10,
        maintenance_rate_bps = 50, margin_call_rate_bps = 75, price_band_bps = 10000,
        max_position_lots = 0, max_symbol_oi_lots = 0\<rparr>
     else if symbol = ''SOL_USDT'' then Some
       \<lparr>price_tick = dec (1 / 1000), quantity_step = dec (1 / 1000), price_tick_atoms = 100000,
        quantity_step_atoms = 100000, min_notional = dec 5, notional_scale = 10000, default_leverage = 10,
        maintenance_rate_bps = 50, margin_call_rate_bps = 75, price_band_bps = 10000,
        max_position_lots = 0, max_symbol_oi_lots = 0\<rparr>
     else None)"

subsection \<open>Fees\<close>

definition upper :: "char \<Rightarrow> char" where
  "upper c = (if 97 \<le> (of_char c :: nat) \<and> of_char c \<le> (122 :: nat) then char_of (of_char c - 32 :: nat) else c)"

fun first_env :: "(string \<Rightarrow> string option) \<Rightarrow> string list \<Rightarrow> int \<Rightarrow> int" where
  "first_env env [] d = d"
| "first_env env (k # ks) d = (case Option.bind (env k) parse_i64 of Some v \<Rightarrow> v | None \<Rightarrow> first_env env ks d)"

definition fee_bps :: "(string \<Rightarrow> string option) \<Rightarrow> string \<Rightarrow> int \<times> int" where
  "fee_bps env symbol =
    (let up = map upper symbol;
         maker = first_env env [''FEE_'' @ up @ ''_MAKER_BPS'', ''MAKER_FEE_BPS''] 1;
         taker = first_env env [''FEE_'' @ up @ ''_TAKER_BPS'', ''TAKER_FEE_BPS''] 5
     in (maker, taker))"

subsection \<open>Conversions\<close>

definition to_units :: "f64 \<Rightarrow> f64 \<Rightarrow> string \<Rightarrow> string + int" where
  "to_units value step misaligned =
    (if f_le value (Fin 0) \<or> \<not> is_finite value \<or> f_le step (Fin 0) \<or> \<not> is_finite step then Inl misaligned
     else
       let units = f_div value step in
       if f_lt (f_of_int i64_max) units \<or> f_lt units (f_of_int i64_min) then Inl misaligned
       else
         let rounded = f_round units in
         if f_lt (f_abs (f_sub units rounded)) (f_mul (f_max (f_abs units) (Fin 1)) (dec (1 / 1000000000)))
         then Inr (f_as_i64 rounded)
         else Inl misaligned)"

definition price_to_ticks :: "SymbolRules \<Rightarrow> f64 \<Rightarrow> string + int" where
  "price_to_ticks r price = to_units price (price_tick r) ''price does not match tick size''"

definition quantity_to_lots :: "SymbolRules \<Rightarrow> f64 \<Rightarrow> string + int" where
  "quantity_to_lots r quantity = to_units quantity (quantity_step r) ''quantity does not match lot size''"

definition ticks_to_price :: "SymbolRules \<Rightarrow> int \<Rightarrow> f64" where
  "ticks_to_price r ticks = f_mul (f_of_int ticks) (price_tick r)"

definition lots_to_quantity :: "SymbolRules \<Rightarrow> int \<Rightarrow> f64" where
  "lots_to_quantity r lots = f_mul (f_of_int lots) (quantity_step r)"

definition ticks_to_price_atoms :: "SymbolRules \<Rightarrow> int \<Rightarrow> string + int" where
  "ticks_to_price_atoms r ticks =
    (if in_i64 (ticks * price_tick_atoms r) then Inr (ticks * price_tick_atoms r)
     else Inl ''price overflows atoms'')"

definition lots_to_quantity_atoms :: "SymbolRules \<Rightarrow> int \<Rightarrow> string + int" where
  "lots_to_quantity_atoms r lots =
    (if in_i64 (lots * quantity_step_atoms r) then Inr (lots * quantity_step_atoms r)
     else Inl ''quantity overflows atoms'')"

definition price_atoms_to_ticks :: "SymbolRules \<Rightarrow> int \<Rightarrow> (string + int) exec" where
  "price_atoms_to_ticks r a =
    (if a \<le> 0 then Some (Inl ''price must be > 0'')
     else do { m \<leftarrow> rem_i64 a (price_tick_atoms r);
               if m \<noteq> 0 then Some (Inl ''price does not match tick size'')
               else do { q \<leftarrow> div_i64 a (price_tick_atoms r); Some (Inr q) } })"

definition quantity_atoms_to_lots :: "SymbolRules \<Rightarrow> int \<Rightarrow> (string + int) exec" where
  "quantity_atoms_to_lots r a =
    (if a \<le> 0 then Some (Inl ''quantity must be > 0'')
     else do { m \<leftarrow> rem_i64 a (quantity_step_atoms r);
               if m \<noteq> 0 then Some (Inl ''quantity does not match lot size'')
               else do { q \<leftarrow> div_i64 a (quantity_step_atoms r); Some (Inr q) } })"

subsection \<open>Orders\<close>

definition MAX_SYMBOL_LEN :: nat where
  "MAX_SYMBOL_LEN = 16"

definition symbol_byte :: "char \<Rightarrow> bool" where
  "symbol_byte c \<longleftrightarrow> (65 \<le> (of_char c :: nat) \<and> of_char c \<le> (90 :: nat)) \<or> is_digit c \<or> c = CHR ''_''"

definition validate_symbol :: "string \<Rightarrow> string + unit" where
  "validate_symbol symbol =
    (if symbol = [] then Inl ''symbol must not be empty''
     else if length symbol > MAX_SYMBOL_LEN then Inl ''symbol too long''
     else if \<not> list_all symbol_byte symbol then Inl ''symbol has invalid characters''
     else Inr ())"

definition normalize_order_shape ::
    "string \<Rightarrow> string \<Rightarrow> f64 option \<Rightarrow> f64 \<Rightarrow> (string + FixedOrderShape) exec" where
  "normalize_order_shape symbol order_type price quantity = (case validate_symbol symbol of
     Inl e \<Rightarrow> Some (Inl e)
   | Inr _ \<Rightarrow> do {
       rules \<leftarrow> for_symbol symbol;
       Some
        (if f_le quantity (Fin 0) \<or> \<not> is_finite quantity then Inl ''quantity must be > 0''
         else case quantity_to_lots rules quantity of
           Inl e \<Rightarrow> Inl e
         | Inr lots \<Rightarrow>
             if order_type \<noteq> ''market'' then
               (case price of
                  None \<Rightarrow> Inl ''price required for non-market orders''
                | Some p \<Rightarrow>
                    if f_le p (Fin 0) \<or> \<not> is_finite p then Inl ''price required for non-market orders''
                    else case price_to_ticks rules p of
                      Inl e \<Rightarrow> Inl e
                    | Inr ticks \<Rightarrow>
                        if f_lt (f_mul p quantity) (min_notional rules)
                        then Inl ''order notional is below minimum''
                        else Inr \<lparr>shape_price_ticks = Some ticks, shape_quantity_lots = lots\<rparr>)
             else Inr \<lparr>shape_price_ticks = None, shape_quantity_lots = lots\<rparr>) })"

definition validate_order_shape ::
    "string \<Rightarrow> string \<Rightarrow> f64 option \<Rightarrow> f64 \<Rightarrow> (string + unit) exec" where
  "validate_order_shape symbol order_type price quantity =
    map_option (map_sum id (\<lambda>_. ())) (normalize_order_shape symbol order_type price quantity)"

definition from_order_fields :: "nat \<Rightarrow> string \<Rightarrow> Side \<Rightarrow> string \<Rightarrow> f64 option \<Rightarrow> f64 \<Rightarrow> TimeInForce \<Rightarrow> nat \<Rightarrow>
    (string + FixedOrderInput) exec" where
  "from_order_fields i symbol side order_type price quantity tif timestamp =
    map_option (map_sum id (\<lambda>shape.
      \<lparr>fo_id = i, fo_side = side,
       fo_price_ticks = (case shape_price_ticks shape of Some t \<Rightarrow> t | None \<Rightarrow> 0),
       fo_quantity_lots = shape_quantity_lots shape, fo_time_in_force = tif, fo_timestamp = timestamp,
       fo_is_market = (shape_price_ticks shape = None)\<rparr>))
      (normalize_order_shape symbol order_type price quantity)"

subsection \<open>Steps and tolerance\<close>

lemma dec_bounds:
  assumes "1 / 1000000000 \<le> x" "x \<le> 1"
  obtains y where "dec x = Fin y" "x / 2 \<le> y" "y \<le> 2 * x"
proof -
  have "pow2 (- 900) \<le> pow2 (- 30)" "pow2 (- 30) = 1 / 2 ^ 30" "pow2 0 \<le> pow2 1000" "pow2 0 = 1"
    using pow2_mono [of "- 900" "- 30"] pow2_mono [of 0 1000] by (simp_all add: pow2_def [of "- 30"] pow2_def [of 0])
  then have "pow2 (- 900) \<le> x" "x \<le> pow2 1000"
    using assms by simp_all
  then show ?thesis
    by (rule rnd_double) (rule that, simp_all add: dec_def)
qed

definition step_ok :: "f64 \<Rightarrow> bool" where
  "step_ok st \<longleftrightarrow> (\<exists>s. st = Fin s \<and> 1 / 2000000 \<le> s \<and> s \<le> 2)"

lemma dec_step_ok: "1 / 1000000 \<le> x \<Longrightarrow> x \<le> 1 \<Longrightarrow> step_ok (dec x)"
  by (rule dec_bounds [of x]) (auto simp: step_ok_def)

lemma for_symbol_steps: "for_symbol symbol = Some r \<Longrightarrow> step_ok (price_tick r) \<and> step_ok (quantity_step r)"
  by (auto simp: for_symbol_def dec_step_ok split: if_splits)

lemma i64_limits_rat:
  assumes "\<bar>x\<bar> \<le> 2 ^ 52"
  shows "\<not> f_lt (f_of_int i64_max) (Fin x)" "\<not> f_lt (Fin x) (f_of_int i64_min)"
proof -
  have "x \<le> 2 ^ 52" "- (2 ^ 52) \<le> x"
    using assms by (simp_all only: abs_le_iff) simp
  then have "x \<le> of_int (2 ^ 52)" "of_int (- (2 ^ 52)) \<le> x"
    by simp_all
  moreover have "\<bar>2 ^ 52 :: int\<bar> \<le> 2 ^ 52" "\<bar>- (2 ^ 52) :: int\<bar> \<le> 2 ^ 52"
    by simp_all
  note i64_limits_f64 [OF this(1)] i64_limits_f64 [OF this(2)]
  ultimately show "\<not> f_lt (f_of_int i64_max) (Fin x)" "\<not> f_lt (Fin x) (f_of_int i64_min)"
    by (cases "f_of_int i64_max"; cases "f_of_int i64_min"; simp)+
qed

text \<open>The tolerance of \<open>to_units\<close> is far wider than the error of scaling and scaling back.\<close>

lemma tolerance_accepts:
  assumes near: "\<bar>u - t\<bar> \<le> t / 2 ^ 50" and t: "1 \<le> t" "t \<le> 2 ^ 48"
  shows "f_lt (f_abs (f_sub (Fin u) (Fin t))) (f_mul (f_max (f_abs (Fin u)) (Fin 1)) (dec (1 / 1000000000)))"
proof -
  have small: "\<bar>u - t\<bar> \<le> 1 / 4"
  proof -
    have "t / 2 ^ 50 \<le> 2 ^ 48 / 2 ^ 50"
      by (rule divide_right_mono [OF t(2)]) simp
    then show ?thesis
      using near by simp
  qed
  then have u: "u - t \<le> 1 / 4" "t - u \<le> 1 / 4"
    by (simp_all only: abs_le_iff) simp
  have pw: "pow2 (- 1075) \<le> pow2 (- 50)" "pow2 (- 50) = 1 / 2 ^ 50" "pow2 0 \<le> pow2 1000" "pow2 0 = 1"
      "pow2 (- 900) \<le> pow2 (- 50)" "pow2 60 \<le> pow2 1000" "pow2 60 = 2 ^ 60"
    using pow2_mono [of "- 1075" "- 50"] pow2_mono [of 0 1000] pow2_mono [of "- 900" "- 50"] pow2_mono [of 60 1000]
    by (simp_all add: pow2_def [of "- 50"] pow2_def [of 0] pow2_def [of 60])
  have "\<bar>u - t\<bar> \<le> pow2 1000"
    using small pw by linarith
  then obtain d where d: "rnd (u - t) = Fin d" "\<bar>d - (u - t)\<bar> \<le> \<bar>u - t\<bar> / 2 ^ 53 + pow2 (- 1075)"
    by (rule rnd_error)
  have "\<bar>u - t\<bar> / 2 ^ 53 \<le> \<bar>u - t\<bar>"
    by (simp add: field_simps)
  moreover have "\<bar>d\<bar> \<le> \<bar>u - t\<bar> + \<bar>d - (u - t)\<bar>"
    using abs_triangle_ineq [of "u - t" "d - (u - t)"] by simp
  ultimately have "\<bar>d\<bar> \<le> 3 * (t / 2 ^ 50)"
    using d(2) near pw t(1) by simp
  moreover obtain e where e: "dec (1 / 1000000000) = Fin e" "1 / 2000000000 \<le> e" "e \<le> 1 / 500000000"
    using dec_bounds [of "1 / 1000000000"] by auto
  define m where "m = max \<bar>u\<bar> 1"
  have m: "t / 2 \<le> m" "1 \<le> m" "m \<le> 2 ^ 49"
    using u t by (auto simp: m_def)
  have low: "1 * (1 / 2000000000) \<le> m * e" "t / 2 * (1 / 2000000000) \<le> m * e"
    by (rule mult_mono; use e m t in simp)+
  have me2: "m * e \<le> 2 ^ 49 * 1"
    by (rule mult_mono) (use e m in simp_all)
  have "pow2 (- 900) \<le> m * e" "m * e \<le> pow2 1000"
    using low(1) me2 pw by simp_all
  then obtain w where w: "rnd (m * e) = Fin w" "m * e / 2 \<le> w"
    by (rule rnd_double)
  have "3 * (t / 2 ^ 50) < w"
    using w(2) low(2) t(1) by simp
  ultimately have "\<bar>d\<bar> < w"
    by linarith
  moreover have "f_max (Fin \<bar>u\<bar>) (Fin 1) = Fin m"
    by (simp add: f_le_Fin_cases m_def)
  ultimately show ?thesis
    using d(1) e(1) w(1) by (simp add: f_sub_def)
qed

lemma to_units_round_trip:
  assumes "step_ok step" "0 < n" "n \<le> 2 ^ 48"
  shows "to_units (f_mul (f_of_int n) step) step e = Inr n"
proof -
  obtain s where s: "step = Fin s" "1 / 2000000 \<le> s" "s \<le> 2"
    using assms(1) by (auto simp: step_ok_def)
  let ?x = "of_int n :: rat"
  have x: "1 \<le> ?x" "?x \<le> 2 ^ 48"
    using assms(2,3) by (simp, metis of_int_le_iff of_int_numeral of_int_power)
  have "1 \<le> \<bar>?x\<bar>" "\<bar>?x\<bar> \<le> pow2 100" "pow2 (- 100) \<le> s" "s \<le> pow2 100"
    using x s pow2_nat [of 100] by (simp_all add: pow2_def [of "- 100"])
  then obtain v u where v: "rnd (?x * s) = Fin v" and u: "rnd (v / s) = Fin u"
    and near: "\<bar>u - ?x\<bar> \<le> \<bar>?x\<bar> / 2 ^ 50" and ve: "\<bar>v - ?x * s\<bar> \<le> \<bar>?x * s\<bar> / 2 ^ 52"
    by (rule scale_round_trip)
  have near': "\<bar>u - ?x\<bar> \<le> ?x / 2 ^ 50"
    using near x(1) by simp
  have "?x / 2 ^ 50 \<le> 2 ^ 48 / 2 ^ 50"
    by (rule divide_right_mono [OF x(2)]) simp
  then have quarter: "\<bar>u - ?x\<bar> \<le> 1 / 4"
    using near' by simp
  then have "round_away u = n"
    by (intro round_away_near) simp
  moreover have "0 < v"
  proof -
    have xs: "0 < ?x * s"
      using x(1) s(2) by simp
    have "\<bar>y\<bar> / 2 ^ 52 \<le> y / 2" if "0 < y" for y :: rat
      using that by (simp add: frac_le)
    from this [OF xs] have "\<bar>?x * s\<bar> / 2 ^ 52 \<le> ?x * s / 2" .
    then have "?x * s - v \<le> ?x * s / 2"
      using ve by (simp only: abs_le_iff) simp
    then show ?thesis
      using xs by linarith
  qed
  moreover have "f_of_int n = Fin ?x"
    using assms(2,3) by (intro f_of_int_exact) simp
  moreover have "\<bar>u\<bar> \<le> 2 ^ 52"
    using quarter x abs_triangle_ineq2 [of u ?x] by simp
  moreover have "in_i64 n"
    using assms(2,3) by (simp add: in_i64_def)
  moreover note tolerance_accepts [OF near' x]
  ultimately show ?thesis
    using v u s i64_limits_rat [of u]
    by (simp add: to_units_def Let_def f_as_i64_int del: f_as_i64.simps f_of_int_exact f_abs.simps)
qed

subsection \<open>Properties\<close>

lemma for_symbol_atoms:
  "for_symbol symbol = Some r \<Longrightarrow> 0 < price_tick_atoms r \<and> 0 < quantity_step_atoms r"
  by (auto simp: for_symbol_def split: if_splits)

lemma smod_pos: "0 \<le> a \<Longrightarrow> 0 < b \<Longrightarrow> a smod b = a mod (b :: int)"
  by (metis add_left_cancel mult_div_mod_eq sdiv_pos sdiv_smod)

lemma exact_division:
  assumes "0 < st" "0 < n"
  shows "rem_i64 (n * st) st = Some 0" "div_i64 (n * st) st = Some n"
proof -
  have "0 \<le> n * st"
    using assms by simp
  then have "(n * st) sdiv st = n" "(n * st) smod st = 0"
    using assms by (simp_all add: sdiv_pos smod_pos)
  then show "rem_i64 (n * st) st = Some 0" "div_i64 (n * st) st = Some n"
    using assms by (simp_all add: div_i64_def rem_i64_def)
qed

lemma to_units_value: "to_units v st e = Inr n \<Longrightarrow> \<not> f_le v (Fin 0) \<and> is_finite v"
  by (auto simp: to_units_def split: if_splits)

lemma for_symbol_valid: "for_symbol symbol = Some r \<Longrightarrow> validate_symbol symbol = Inr ()"
  by (auto simp: for_symbol_def validate_symbol_def MAX_SYMBOL_LEN_def symbol_byte_def is_digit_def split: if_splits)

text \<open>
  C37. On every listed symbol, up to \<open>2 ^ 48\<close> ticks and lots, turning ticks into a floating-point price and
  back returns the same ticks, and likewise for lots and quantities: the relative tolerance absorbs the
  rounding of the step, of the product and of the quotient. Hence an order with this price and quantity
  is normalised to exactly these ticks and lots: a market order always and without the price, any
  other order unless the product of price and quantity is below the minimum notional, for which it is
  refused.
\<close>

theorem shape_round_trip:
  assumes "for_symbol symbol = Some r" "0 < ticks" "ticks \<le> 2 ^ 48" "0 < lots" "lots \<le> 2 ^ 48"
  shows "price_to_ticks r (ticks_to_price r ticks) = Inr ticks \<and>
    quantity_to_lots r (lots_to_quantity r lots) = Inr lots \<and>
    normalize_order_shape symbol ''market'' price (lots_to_quantity r lots) =
      Some (Inr \<lparr>shape_price_ticks = None, shape_quantity_lots = lots\<rparr>) \<and>
    (order_type \<noteq> ''market'' \<longrightarrow>
      normalize_order_shape symbol order_type (Some (ticks_to_price r ticks)) (lots_to_quantity r lots) =
        Some (if f_lt (f_mul (ticks_to_price r ticks) (lots_to_quantity r lots)) (min_notional r)
              then Inl ''order notional is below minimum''
              else Inr \<lparr>shape_price_ticks = Some ticks, shape_quantity_lots = lots\<rparr>))"
proof -
  have trip: "price_to_ticks r (ticks_to_price r ticks) = Inr ticks" "quantity_to_lots r (lots_to_quantity r lots) = Inr lots"
    using to_units_round_trip for_symbol_steps [OF assms(1)] assms(2-5)
    by (simp_all add: price_to_ticks_def ticks_to_price_def quantity_to_lots_def lots_to_quantity_def)
  then show ?thesis
    using assms(1) for_symbol_valid [OF assms(1)] to_units_value [OF trip(1) [unfolded price_to_ticks_def]]
      to_units_value [OF trip(2) [unfolded quantity_to_lots_def]]
    by (simp add: normalize_order_shape_def)
qed

lemma rnd_at_least:
  assumes "1 \<le> 2 * x" "x \<le> 2 ^ 60"
  shows "\<exists>y. rnd x = Fin y \<and> x / 2 \<le> y \<and> y \<le> 2 * x"
proof -
  have "pow2 (- 900) \<le> pow2 (- 1)" "pow2 (- 1) = 1 / 2" "pow2 60 \<le> pow2 1000" "pow2 60 = 2 ^ 60"
    using pow2_mono [of "- 900" "- 1"] pow2_mono [of 60 1000] by (simp_all add: pow2_def [of "- 1"] pow2_def [of 60])
  then have "pow2 (- 900) \<le> x" "x \<le> pow2 1000"
    using assms by simp_all
  then show ?thesis
    by (metis rnd_double)
qed

lemma demo_notional:
  assumes "for_symbol ''BTC_USDT'' = Some r"
  shows "\<not> f_lt (f_mul (ticks_to_price r 7589361) (lots_to_quantity r 12340000)) (min_notional r)"
proof -
  obtain t where t: "dec (1 / 100) = Fin t" "1 / 200 \<le> t" "t \<le> 1 / 50"
    using dec_bounds [of "1 / 100"] by auto
  obtain l where l: "dec (1 / 1000000) = Fin l" "1 / 2000000 \<le> l" "l \<le> 1 / 500000"
    using dec_bounds [of "1 / 1000000"] by auto
  obtain p where p: "rnd (7589361 * t) = Fin p" "7589361 * t / 2 \<le> p" "p \<le> 2 * (7589361 * t)"
    using rnd_at_least [of "7589361 * t"] t by auto
  obtain q where q: "rnd (12340000 * l) = Fin q" "12340000 * l / 2 \<le> q" "q \<le> 2 * (12340000 * l)"
    using rnd_at_least [of "12340000 * l"] l by auto
  have "10000 \<le> p" "p \<le> 1000000" "1 \<le> q" "q \<le> 100"
    using p q t l by simp_all
  then have pq: "10000 * 1 \<le> p * q" "p * q \<le> 1000000 * 100"
    by (intro mult_mono; simp)+
  obtain v where "rnd (p * q) = Fin v" "p * q / 2 \<le> v"
    using rnd_at_least [of "p * q"] pq by auto
  moreover obtain n where "dec 5 = Fin n" "n \<le> 10"
    using rnd_at_least [of 5] by (auto simp: dec_def)
  ultimately show ?thesis
    using assms t(1) l(1) p(1) q(1) pq(1)
    by (auto simp: for_symbol_def ticks_to_price_def lots_to_quantity_def)
qed

theorem shape_round_trip_witness:
  "\<exists>r. for_symbol ''BTC_USDT'' = Some r \<and> price_to_ticks r (ticks_to_price r 7589361) = Inr 7589361 \<and>
     quantity_to_lots r (lots_to_quantity r 12340000) = Inr 12340000 \<and>
     normalize_order_shape ''BTC_USDT'' ''limit'' (Some (ticks_to_price r 7589361)) (lots_to_quantity r 12340000) =
       Some (Inr \<lparr>shape_price_ticks = Some 7589361, shape_quantity_lots = 12340000\<rparr>)"
proof -
  obtain r where r: "for_symbol ''BTC_USDT'' = Some r"
    by (simp add: for_symbol_def)
  then show ?thesis
    using demo_notional [OF r] shape_round_trip [OF r, of 7589361 12340000 None "''limit''"] by simp
qed

text \<open>
  In atoms the conversion is exact in both directions: a price in atoms is accepted exactly when it is
  a positive multiple of the tick, and then converting the ticks back gives the same atoms.
\<close>

theorem atoms_conversion_exact:
  assumes "for_symbol symbol = Some r" "in_i64 a"
  shows "price_atoms_to_ticks r a = Some (Inr ticks) \<longleftrightarrow> 0 < ticks \<and> ticks_to_price_atoms r ticks = Inr a"
proof
  assume *: "price_atoms_to_ticks r a = Some (Inr ticks)"
  let ?st = "price_tick_atoms r"
  have st: "0 < ?st"
    using for_symbol_atoms [OF assms(1)] by blast
  have a: "0 < a" "a smod ?st = 0" "ticks = a sdiv ?st"
    using * by (auto simp: price_atoms_to_ticks_def rem_i64_def div_i64_def bind_eq_Some_conv split: if_splits)
  then have "a mod ?st = 0" "ticks = a div ?st"
    using st by (simp_all add: sdiv_pos smod_pos)
  then have "ticks * ?st = a"
    by (simp add: mod_0_imp_dvd)
  moreover have "0 < ticks"
    using calculation a(1) st by (metis zero_less_mult_pos2)
  ultimately show "0 < ticks \<and> ticks_to_price_atoms r ticks = Inr a"
    using assms(2) by (simp add: ticks_to_price_atoms_def)
next
  assume *: "0 < ticks \<and> ticks_to_price_atoms r ticks = Inr a"
  let ?st = "price_tick_atoms r"
  have st: "0 < ?st"
    using for_symbol_atoms [OF assms(1)] by blast
  have "a = ticks * ?st"
    using * by (auto simp: ticks_to_price_atoms_def split: if_splits)
  moreover have "0 < ticks * ?st"
    using * st by simp
  ultimately show "price_atoms_to_ticks r a = Some (Inr ticks)"
    using exact_division [OF st] * by (simp add: price_atoms_to_ticks_def not_le)
qed

theorem atoms_conversion_exact_witness:
  "\<exists>r. for_symbol ''BTC_USDT'' = Some r \<and> price_atoms_to_ticks r 7589361000000 = Some (Inr 7589361)"
proof -
  obtain r where r: "for_symbol ''BTC_USDT'' = Some r" and t: "price_tick_atoms r = 1000000"
    by (simp add: for_symbol_def)
  then show ?thesis
    using atoms_conversion_exact [OF r, of 7589361000000 7589361]
    by (simp add: ticks_to_price_atoms_def in_i64_def)
qed

text \<open>
  A positive quantity far below the lot size is not rejected: its number of lots rounds to zero within
  the tolerance, and a market order is not held to the minimum notional. The shape has zero lots.
\<close>

theorem dust_market_order_has_zero_lots:
  "normalize_order_shape ''BTC_USDT'' ''market'' None (Fin (1 / 2 ^ 60)) =
     Some (Inr \<lparr>shape_price_ticks = None, shape_quantity_lots = 0\<rparr>)"
proof -
  obtain s where s: "dec (1 / 1000000) = Fin s" "1 / 2000000 \<le> s" "s \<le> 1 / 500000"
    using dec_bounds [of "1 / 1000000"] by auto
  obtain e where e: "dec (1 / 1000000000) = Fin e" "1 / 2000000000 \<le> e" "e \<le> 1 / 500000000"
    using dec_bounds [of "1 / 1000000000"] by auto
  define x where "x = 1 / 2 ^ 60 / s"
  have x: "1 / 2 ^ 60 \<le> x" "x \<le> 2000000 / 2 ^ 60"
    using s by (simp_all add: x_def field_simps)
  have pw: "pow2 (- 900) \<le> pow2 (- 61)" "pow2 (- 61) = 1 / 2 ^ 61" "pow2 0 \<le> pow2 1000" "pow2 0 = 1"
    using pow2_mono [of "- 900" "- 61"] pow2_mono [of 0 1000] by (simp_all add: pow2_def [of "- 61"] pow2_def [of 0])
  have "pow2 (- 900) \<le> x" "x \<le> pow2 1000"
    using x pw by simp_all
  then obtain u where u: "rnd x = Fin u" "x / 2 \<le> u" "u \<le> 2 * x"
    by (rule rnd_double)
  then have u2: "0 < u" "u \<le> 4000000 / 2 ^ 60"
    using x by simp_all
  have "pow2 (- 900) \<le> u" "u \<le> pow2 1000"
    using u(2) u2(2) x(1) pw by simp_all
  then obtain y where y: "rnd u = Fin y" "u / 2 \<le> y" "y \<le> 2 * u"
    by (rule rnd_double)
  have "pow2 (- 900) \<le> e" "e \<le> pow2 1000"
    using e pw by simp_all
  then obtain w where w: "rnd e = Fin w" "e / 2 \<le> w"
    by (rule rnd_double)
  have "y < w"
    using y(3) u2(2) w(2) e(2) by simp
  moreover have "round_away u = 0"
    using round_away_near [of u 0] u2 by simp
  moreover have "\<bar>u\<bar> \<le> 2 ^ 52"
    using u2 by simp
  moreover have "0 \<le> y" "max u 1 = 1"
    using y(2) u2 by simp_all
  ultimately have "to_units (Fin (1 / 2 ^ 60)) (dec (1 / 1000000)) msg = Inr 0" for msg
    using s(2) u(1) u2(1) y(1) w(1) i64_limits_rat [of u]
    by (simp add: to_units_def s(1) e(1) Let_def x_def f_sub_def f_le_Fin_cases trunc_rat_def)
  then show ?thesis
    by (simp add: normalize_order_shape_def validate_symbol_def MAX_SYMBOL_LEN_def symbol_byte_def is_digit_def
        for_symbol_def quantity_to_lots_def)
qed

end
