(* ===== verification/Wire.thy ===== *)
theory Wire
  imports Prelude
begin

text \<open>
  Bytes on the wire.

  The messages of \<open>src/src/transport\<close> are \<open>repr(C, packed)\<close> structs copied to and from byte buffers, so
  a message is the concatenation of its fields in declaration order, integers in little-endian order.
  \<open>put_u\<close> writes an unsigned integer of a given number of bytes and \<open>u_at\<close> reads one at an
  offset, \<open>put_i\<close> and \<open>i_at\<close> do the same in two's complement, and \<open>slice\<close> reads a byte array.
  An \<open>f64\<close> field travels as its bit pattern, an unsigned integer of eight bytes.

  The locale \<open>wire\<close> is the contract of a message type: how many bytes it takes, and that writing and
  reading are inverse to each other. Every message type of the development interprets it.
\<close>

type_synonym bytes = "8 word list"

named_theorems wire_simps \<open>reading back what was written\<close>

subsection \<open>Integers\<close>

primrec put_u :: "nat \<Rightarrow> nat \<Rightarrow> bytes" where
  "put_u 0 x = []"
| "put_u (Suc n) x = word_of_nat x # put_u n (x div 256)"

primrec val_u :: "bytes \<Rightarrow> nat" where
  "val_u [] = 0"
| "val_u (b # bs) = unat b + 256 * val_u bs"

definition slice :: "nat \<Rightarrow> nat \<Rightarrow> bytes \<Rightarrow> bytes" where
  "slice off n bs = take n (drop off bs)"

definition u_at :: "nat \<Rightarrow> nat \<Rightarrow> bytes \<Rightarrow> nat" where
  "u_at off n bs = val_u (slice off n bs)"

definition put_i :: "nat \<Rightarrow> int \<Rightarrow> bytes" where
  "put_i n x = put_u n (nat (x mod 2 ^ (8 * n)))"

definition val_i :: "nat \<Rightarrow> bytes \<Rightarrow> int" where
  "val_i n bs = (let v = int (val_u bs) in if v < 2 ^ (8 * n - 1) then v else v - 2 ^ (8 * n))"

definition i_at :: "nat \<Rightarrow> nat \<Rightarrow> bytes \<Rightarrow> int" where
  "i_at off n bs = val_i n (slice off n bs)"

definition fits_u :: "nat \<Rightarrow> nat \<Rightarrow> bool" where
  "fits_u n x \<longleftrightarrow> x < 2 ^ (8 * n)"

definition fits_i :: "nat \<Rightarrow> int \<Rightarrow> bool" where
  "fits_i n x \<longleftrightarrow> - (2 ^ (8 * n - 1)) \<le> x \<and> x < 2 ^ (8 * n - 1)"

lemma length_put_u [simp]: "length (put_u n x) = n"
  by (induction n arbitrary: x) simp_all

lemma length_put_i [simp]: "length (put_i n x) = n"
  by (simp add: put_i_def)

lemma val_put_u: "val_u (put_u n x) = x mod 256 ^ n"
proof (induction n arbitrary: x)
  case (Suc n)
  have "unat (word_of_nat x :: 8 word) = x mod 256"
    by (simp add: unat_of_nat)
  then show ?case
    using Suc by (simp add: mod_mult2_eq)
qed simp

lemma unat_byte: "unat (b :: 8 word) < 256"
proof -
  have "unat b < 2 ^ LENGTH(8)"
    by (rule unsigned_less)
  then show ?thesis
    by simp
qed

lemma val_u_less: "val_u bs < 256 ^ length bs"
proof (induction bs)
  case (Cons b bs)
  have "unat b < 256"
    by (rule unat_byte)
  moreover have "256 * val_u bs + 256 \<le> 256 * 256 ^ length bs"
    using Cons by simp
  ultimately show ?case
    by simp
qed simp

lemma put_val_u: "length bs = n \<Longrightarrow> put_u n (val_u bs) = bs"
proof (induction bs arbitrary: n)
  case (Cons b bs)
  have "unat b < 256"
    by (rule unat_byte)
  then have "(unat b + 256 * val_u bs) div 256 = val_u bs"
    by simp
  moreover have "word_of_nat (unat b + 256 * val_u bs) = b"
  proof -
    have "(word_of_nat 256 :: 8 word) = 0"
      by simp
    then have "(word_of_nat (256 * val_u bs) :: 8 word) = 0"
      by (metis mult_zero_left of_nat_mult)
    then show ?thesis
      by (simp only: of_nat_add) simp
  qed
  ultimately show ?case
    using Cons by auto
qed simp

lemma pow_256: "(256 :: nat) ^ n = 2 ^ (8 * n)" "(256 :: int) ^ n = 2 ^ (8 * n)"
  by (simp_all add: power_mult)

lemma val_put_fits: "fits_u n x \<Longrightarrow> val_u (put_u n x) = x"
  by (simp add: val_put_u fits_u_def pow_256)

lemma fits_val_u: "length bs = n \<Longrightarrow> fits_u n (val_u bs)"
  using val_u_less [of bs] by (auto simp: fits_u_def pow_256)

lemma pow_split: "0 < n \<Longrightarrow> (2 :: int) ^ (8 * n) = 2 * 2 ^ (8 * n - 1)"
proof -
  assume "0 < n"
  then have "8 * n = Suc (8 * n - 1)"
    by simp
  then show ?thesis
    by (metis power_Suc)
qed

lemma val_put_i:
  assumes "fits_i n x" "0 < n"
  shows "val_i n (put_i n x) = x"
proof -
  let ?m = "2 ^ (8 * n) :: int" and ?h = "2 ^ (8 * n - 1) :: int"
  have m: "?m = 2 * ?h" "0 < ?h"
    using pow_split [OF assms(2)] by simp_all
  have "0 \<le> x mod ?m" "x mod ?m < ?m"
    using m by simp_all
  then have "int (val_u (put_i n x)) = x mod ?m"
    by (simp add: put_i_def val_put_u pow_256 nat_mod_distrib zmod_int flip: nat_less_iff)
  moreover have "x mod ?m = (if 0 \<le> x then x else x + ?m)"
  proof (cases "0 \<le> x")
    case True
    then show ?thesis
      using assms(1) m by (simp add: fits_i_def)
  next
    case False
    then have "(x + ?m) mod ?m = x + ?m"
      using assms(1) m by (intro mod_pos_pos_trivial) (simp_all add: fits_i_def)
    then show ?thesis
      using False by simp
  qed
  ultimately show ?thesis
    using assms(1) m by (auto simp: val_i_def Let_def fits_i_def)
qed

lemma val_i_cases:
  assumes "length bs = n" "0 < n"
  shows "fits_i n (val_i n bs)" "put_i n (val_i n bs) = bs"
proof -
  let ?m = "2 ^ (8 * n) :: int" and ?h = "2 ^ (8 * n - 1) :: int"
  have m: "?m = 2 * ?h" "0 < ?h"
    using pow_split [OF assms(2)] by simp_all
  have "int (val_u bs) < int (256 ^ n)"
    using val_u_less [of bs] assms(1) by (simp only: of_nat_less_iff)
  then have v: "int (val_u bs) < ?m"
    by (simp add: pow_256)
  then show "fits_i n (val_i n bs)"
    using m by (auto simp: val_i_def fits_i_def Let_def)
  have "val_i n bs mod ?m = int (val_u bs)"
  proof (cases "int (val_u bs) < ?h")
    case True
    then show ?thesis
      using v by (simp add: val_i_def)
  next
    case False
    have "(int (val_u bs) - ?m) mod ?m = int (val_u bs) mod ?m"
      by simp
    then show ?thesis
      using False v by (simp add: val_i_def Let_def)
  qed
  then show "put_i n (val_i n bs) = bs"
    using put_val_u [OF assms(1)] by (simp add: put_i_def)
qed

lemma fits_i_i64: "fits_i 8 x \<longleftrightarrow> in_i64 x"
  by (simp add: fits_i_def in_i64_def)

declare put_u.simps [simp del]

subsection \<open>Fields at offsets\<close>

lemma length_slice: "off + n \<le> length bs \<Longrightarrow> length (slice off n bs) = n"
  by (simp add: slice_def)

lemma slice_hit [wire_simps]: "length b = n \<Longrightarrow> slice 0 n (b @ rest) = b"
  by (simp add: slice_def)

lemma slice_whole [wire_simps]: "length b = n \<Longrightarrow> slice 0 n b = b"
  by (simp add: slice_def)

lemma slice_skip [wire_simps]: "length b = k \<Longrightarrow> k \<le> off \<Longrightarrow> slice off n (b @ rest) = slice (off - k) n rest"
  by (simp add: slice_def)

lemma u_at_hit [wire_simps]:
  "fits_u n x \<Longrightarrow> u_at 0 n (put_u n x @ rest) = x" "fits_u n x \<Longrightarrow> u_at 0 n (put_u n x) = x"
  by (simp_all add: u_at_def wire_simps val_put_fits)

lemma i_at_hit [wire_simps]:
  "fits_i n x \<Longrightarrow> 0 < n \<Longrightarrow> i_at 0 n (put_i n x @ rest) = x"
  "fits_i n x \<Longrightarrow> 0 < n \<Longrightarrow> i_at 0 n (put_i n x) = x"
  by (simp_all add: i_at_def wire_simps val_put_i)

lemma at_skip [wire_simps]:
  "length b = k \<Longrightarrow> k \<le> off \<Longrightarrow> u_at off n (b @ rest) = u_at (off - k) n rest"
  "length b = k \<Longrightarrow> k \<le> off \<Longrightarrow> i_at off n (b @ rest) = i_at (off - k) n rest"
  by (simp_all add: u_at_def i_at_def wire_simps)

lemma put_at [wire_simps]:
  "off + n \<le> length bs \<Longrightarrow> put_u n (u_at off n bs) = slice off n bs"
  "off + n \<le> length bs \<Longrightarrow> 0 < n \<Longrightarrow> put_i n (i_at off n bs) = slice off n bs"
  by (simp_all add: u_at_def i_at_def put_val_u val_i_cases length_slice)

lemma fits_at [wire_simps]:
  "off + n \<le> length bs \<Longrightarrow> fits_u n (u_at off n bs)"
  "off + n \<le> length bs \<Longrightarrow> 0 < n \<Longrightarrow> fits_i n (i_at off n bs)"
  "off + n \<le> length bs \<Longrightarrow> length (slice off n bs) = n"
  by (simp_all add: u_at_def i_at_def fits_val_u val_i_cases length_slice)

lemma slice_glue [wire_simps]:
  "off + n = off' \<Longrightarrow> slice off n bs @ slice off' n' bs = slice off (n + n') bs"
  "off + n = off' \<Longrightarrow> slice off n bs @ (slice off' n' bs @ rest) = slice off (n + n') bs @ rest"
  by (auto simp: slice_def take_add add.commute)

lemma slice_take: "slice 0 n bs = take n bs"
  by (simp add: slice_def)

subsection \<open>The contract of a message type\<close>

locale wire =
  fixes size :: nat and put :: "'m \<Rightarrow> bytes" and get :: "bytes \<Rightarrow> 'm" and wf :: "'m \<Rightarrow> bool"
  assumes length_put: "wf m \<Longrightarrow> length (put m) = size"
    and get_put: "wf m \<Longrightarrow> get (put m @ rest) = m"
    and put_get: "size \<le> length bs \<Longrightarrow> put (get bs) = slice 0 size bs"
    and wf_get: "size \<le> length bs \<Longrightarrow> wf (get bs)"
begin

lemma get_put_exact: "wf m \<Longrightarrow> get (put m) = m"
  using get_put [of m "[]"] by simp

lemma put_inject: "wf m \<Longrightarrow> wf m' \<Longrightarrow> put m = put m' \<Longrightarrow> m = m'"
  using get_put_exact by metis

end

end
