(* ===== verification/Sbe.thy ===== *)
theory Sbe
  imports Wire
begin

text \<open>
  The binary messages between desk and engine, \<open>src/src/transport/sbe.rs\<close> and \<open>OrderUpdateMsg\<close> of
  \<open>src/src/transport/mod.rs\<close>.

  A message is an eight-byte header followed by a packed struct. Each struct is a record with a
  writer (\<open>put_\<dots>\<close>, the struct viewed as bytes), a reader (\<open>get_\<dots>\<close>, the unaligned read) and the
  widths of its fields (\<open>wf_\<dots>\<close>), and interprets the contract \<open>wire\<close>. An encoder takes the
  caller's buffer and returns the result with the buffer it leaves behind. The locale
  \<open>sbe_message\<close> carries what all nine encoders share.
\<close>

subsection \<open>Header and templates\<close>

definition SCHEMA_ID :: nat where "SCHEMA_ID = 1"
definition VERSION :: nat where "VERSION = 0"

definition TEMPLATE_NEW_ORDER :: nat where "TEMPLATE_NEW_ORDER = 1"
definition TEMPLATE_CANCEL_ORDER :: nat where "TEMPLATE_CANCEL_ORDER = 2"
definition TEMPLATE_ORDER_ACCEPTED :: nat where "TEMPLATE_ORDER_ACCEPTED = 10"
definition TEMPLATE_ORDER_FILLED :: nat where "TEMPLATE_ORDER_FILLED = 11"
definition TEMPLATE_ORDER_PARTIAL_FILL :: nat where "TEMPLATE_ORDER_PARTIAL_FILL = 12"
definition TEMPLATE_ORDER_CANCELLED :: nat where "TEMPLATE_ORDER_CANCELLED = 13"
definition TEMPLATE_ORDER_REJECTED :: nat where "TEMPLATE_ORDER_REJECTED = 14"
definition TEMPLATE_ORDER_UPDATE :: nat where "TEMPLATE_ORDER_UPDATE = 15"
definition TEMPLATE_TRADE_NOTIFICATION :: nat where "TEMPLATE_TRADE_NOTIFICATION = 20"

lemmas template_defs = TEMPLATE_NEW_ORDER_def TEMPLATE_CANCEL_ORDER_def TEMPLATE_ORDER_ACCEPTED_def
  TEMPLATE_ORDER_FILLED_def TEMPLATE_ORDER_PARTIAL_FILL_def TEMPLATE_ORDER_CANCELLED_def
  TEMPLATE_ORDER_REJECTED_def TEMPLATE_ORDER_UPDATE_def TEMPLATE_TRADE_NOTIFICATION_def


record SbeHeader =
  sh_block_length :: nat
  sh_template_id :: nat
  sh_schema_id :: nat
  sh_version :: nat

definition put_sbe_header :: "SbeHeader \<Rightarrow> bytes" where
  "put_sbe_header m =
     put_u 2 (sh_block_length m) @ put_u 2 (sh_template_id m) @ put_u 2 (sh_schema_id m) @
     put_u 2 (sh_version m)"

definition get_sbe_header :: "bytes \<Rightarrow> SbeHeader" where
  "get_sbe_header bs =
     \<lparr>sh_block_length = u_at 0 2 bs, sh_template_id = u_at 2 2 bs,
      sh_schema_id = u_at 4 2 bs, sh_version = u_at 6 2 bs\<rparr>"

definition wf_sbe_header :: "SbeHeader \<Rightarrow> bool" where
  "wf_sbe_header m \<longleftrightarrow> fits_u 2 (sh_block_length m) \<and>
     fits_u 2 (sh_template_id m) \<and> fits_u 2 (sh_schema_id m) \<and> fits_u 2 (sh_version m)"

interpretation sbe_header: wire 8 put_sbe_header get_sbe_header wf_sbe_header
  by unfold_locales (simp_all add: put_sbe_header_def get_sbe_header_def wf_sbe_header_def wire_simps)

definition SbeHeader_new :: "nat \<Rightarrow> nat \<Rightarrow> SbeHeader" where
  "SbeHeader_new template_id block_length =
     \<lparr>sh_block_length = block_length, sh_template_id = template_id, sh_schema_id = SCHEMA_ID, sh_version = VERSION\<rparr>"

definition encode_header :: "nat \<Rightarrow> nat \<Rightarrow> bytes" where
  "encode_header template_id block_length = put_sbe_header (SbeHeader_new template_id block_length)"

definition decode_header :: "bytes \<Rightarrow> SbeHeader option" where
  "decode_header buf = (if length buf < 8 then None else Some (get_sbe_header buf))"

subsection \<open>The structs\<close>

record NewOrderRequest =
  no_client_order_id :: nat
  no_participant_id :: nat
  no_price_ticks :: int
  no_quantity_lots :: int
  no_side :: nat
  no_time_in_force :: nat
  no_response_stream_id :: int
  no_reduce_only :: nat
  no_pad :: bytes
  no_symbol :: bytes

definition put_new_order :: "NewOrderRequest \<Rightarrow> bytes" where
  "put_new_order m =
     put_u 8 (no_client_order_id m) @ put_u 8 (no_participant_id m) @ put_i 8 (no_price_ticks m) @
     put_i 8 (no_quantity_lots m) @ put_u 1 (no_side m) @ put_u 1 (no_time_in_force m) @
     put_i 4 (no_response_stream_id m) @ put_u 1 (no_reduce_only m) @ no_pad m @ no_symbol m"

definition get_new_order :: "bytes \<Rightarrow> NewOrderRequest" where
  "get_new_order bs =
     \<lparr>no_client_order_id = u_at 0 8 bs, no_participant_id = u_at 8 8 bs,
      no_price_ticks = i_at 16 8 bs, no_quantity_lots = i_at 24 8 bs, no_side = u_at 32 1 bs,
      no_time_in_force = u_at 33 1 bs, no_response_stream_id = i_at 34 4 bs,
      no_reduce_only = u_at 38 1 bs, no_pad = slice 39 9 bs, no_symbol = slice 48 16 bs\<rparr>"

definition wf_new_order :: "NewOrderRequest \<Rightarrow> bool" where
  "wf_new_order m \<longleftrightarrow> fits_u 8 (no_client_order_id m) \<and>
     fits_u 8 (no_participant_id m) \<and> fits_i 8 (no_price_ticks m) \<and>
     fits_i 8 (no_quantity_lots m) \<and> fits_u 1 (no_side m) \<and> fits_u 1 (no_time_in_force m) \<and>
     fits_i 4 (no_response_stream_id m) \<and> fits_u 1 (no_reduce_only m) \<and>
     length (no_pad m) = 9 \<and> length (no_symbol m) = 16"

interpretation new_order: wire 64 put_new_order get_new_order wf_new_order
  by unfold_locales (simp_all add: put_new_order_def get_new_order_def wf_new_order_def wire_simps)

record CancelOrderRequest =
  co_order_id :: nat
  co_participant_id :: nat
  co_response_stream_id :: int
  co_pad :: bytes

definition put_cancel_request :: "CancelOrderRequest \<Rightarrow> bytes" where
  "put_cancel_request m =
     put_u 8 (co_order_id m) @ put_u 8 (co_participant_id m) @ put_i 4 (co_response_stream_id m) @
     co_pad m"

definition get_cancel_request :: "bytes \<Rightarrow> CancelOrderRequest" where
  "get_cancel_request bs =
     \<lparr>co_order_id = u_at 0 8 bs, co_participant_id = u_at 8 8 bs,
      co_response_stream_id = i_at 16 4 bs, co_pad = slice 20 4 bs\<rparr>"

definition wf_cancel_request :: "CancelOrderRequest \<Rightarrow> bool" where
  "wf_cancel_request m \<longleftrightarrow> fits_u 8 (co_order_id m) \<and>
     fits_u 8 (co_participant_id m) \<and> fits_i 4 (co_response_stream_id m) \<and> length (co_pad m) = 4"

interpretation cancel_request: wire 24 put_cancel_request get_cancel_request wf_cancel_request
  by unfold_locales (simp_all add: put_cancel_request_def get_cancel_request_def wf_cancel_request_def wire_simps)

record OrderAccepted =
  oa_order_id :: nat
  oa_client_order_id :: nat
  oa_participant_id :: nat
  oa_timestamp :: nat

definition put_order_accepted :: "OrderAccepted \<Rightarrow> bytes" where
  "put_order_accepted m =
     put_u 8 (oa_order_id m) @ put_u 8 (oa_client_order_id m) @ put_u 8 (oa_participant_id m) @
     put_u 8 (oa_timestamp m)"

definition get_order_accepted :: "bytes \<Rightarrow> OrderAccepted" where
  "get_order_accepted bs =
     \<lparr>oa_order_id = u_at 0 8 bs, oa_client_order_id = u_at 8 8 bs,
      oa_participant_id = u_at 16 8 bs, oa_timestamp = u_at 24 8 bs\<rparr>"

definition wf_order_accepted :: "OrderAccepted \<Rightarrow> bool" where
  "wf_order_accepted m \<longleftrightarrow> fits_u 8 (oa_order_id m) \<and>
     fits_u 8 (oa_client_order_id m) \<and> fits_u 8 (oa_participant_id m) \<and> fits_u 8 (oa_timestamp m)"

interpretation order_accepted: wire 32 put_order_accepted get_order_accepted wf_order_accepted
  by unfold_locales (simp_all add: put_order_accepted_def get_order_accepted_def wf_order_accepted_def wire_simps)

record OrderFilled =
  of_order_id :: nat
  of_client_order_id :: nat
  of_fill_price :: nat
  of_fill_qty :: nat

definition put_order_filled :: "OrderFilled \<Rightarrow> bytes" where
  "put_order_filled m =
     put_u 8 (of_order_id m) @ put_u 8 (of_client_order_id m) @ put_u 8 (of_fill_price m) @
     put_u 8 (of_fill_qty m)"

definition get_order_filled :: "bytes \<Rightarrow> OrderFilled" where
  "get_order_filled bs =
     \<lparr>of_order_id = u_at 0 8 bs, of_client_order_id = u_at 8 8 bs,
      of_fill_price = u_at 16 8 bs, of_fill_qty = u_at 24 8 bs\<rparr>"

definition wf_order_filled :: "OrderFilled \<Rightarrow> bool" where
  "wf_order_filled m \<longleftrightarrow> fits_u 8 (of_order_id m) \<and>
     fits_u 8 (of_client_order_id m) \<and> fits_u 8 (of_fill_price m) \<and> fits_u 8 (of_fill_qty m)"

interpretation order_filled: wire 32 put_order_filled get_order_filled wf_order_filled
  by unfold_locales (simp_all add: put_order_filled_def get_order_filled_def wf_order_filled_def wire_simps)

record OrderPartialFill =
  op_order_id :: nat
  op_client_order_id :: nat
  op_fill_qty :: nat
  op_remaining_qty :: nat

definition put_order_partial :: "OrderPartialFill \<Rightarrow> bytes" where
  "put_order_partial m =
     put_u 8 (op_order_id m) @ put_u 8 (op_client_order_id m) @ put_u 8 (op_fill_qty m) @
     put_u 8 (op_remaining_qty m)"

definition get_order_partial :: "bytes \<Rightarrow> OrderPartialFill" where
  "get_order_partial bs =
     \<lparr>op_order_id = u_at 0 8 bs, op_client_order_id = u_at 8 8 bs,
      op_fill_qty = u_at 16 8 bs, op_remaining_qty = u_at 24 8 bs\<rparr>"

definition wf_order_partial :: "OrderPartialFill \<Rightarrow> bool" where
  "wf_order_partial m \<longleftrightarrow> fits_u 8 (op_order_id m) \<and>
     fits_u 8 (op_client_order_id m) \<and> fits_u 8 (op_fill_qty m) \<and> fits_u 8 (op_remaining_qty m)"

interpretation order_partial: wire 32 put_order_partial get_order_partial wf_order_partial
  by unfold_locales (simp_all add: put_order_partial_def get_order_partial_def wf_order_partial_def wire_simps)

record OrderCancelled =
  oc_order_id :: nat
  oc_client_order_id :: nat
  oc_cancelled_qty :: nat

definition put_order_cancelled :: "OrderCancelled \<Rightarrow> bytes" where
  "put_order_cancelled m =
     put_u 8 (oc_order_id m) @ put_u 8 (oc_client_order_id m) @ put_u 8 (oc_cancelled_qty m)"

definition get_order_cancelled :: "bytes \<Rightarrow> OrderCancelled" where
  "get_order_cancelled bs =
     \<lparr>oc_order_id = u_at 0 8 bs, oc_client_order_id = u_at 8 8 bs,
      oc_cancelled_qty = u_at 16 8 bs\<rparr>"

definition wf_order_cancelled :: "OrderCancelled \<Rightarrow> bool" where
  "wf_order_cancelled m \<longleftrightarrow> fits_u 8 (oc_order_id m) \<and>
     fits_u 8 (oc_client_order_id m) \<and> fits_u 8 (oc_cancelled_qty m)"

interpretation order_cancelled: wire 24 put_order_cancelled get_order_cancelled wf_order_cancelled
  by unfold_locales (simp_all add: put_order_cancelled_def get_order_cancelled_def wf_order_cancelled_def wire_simps)

record OrderRejected =
  or_client_order_id :: nat
  or_reason :: nat
  or_pad :: bytes

definition put_order_rejected :: "OrderRejected \<Rightarrow> bytes" where
  "put_order_rejected m =
     put_u 8 (or_client_order_id m) @ put_u 1 (or_reason m) @ or_pad m"

definition get_order_rejected :: "bytes \<Rightarrow> OrderRejected" where
  "get_order_rejected bs =
     \<lparr>or_client_order_id = u_at 0 8 bs, or_reason = u_at 8 1 bs,
      or_pad = slice 9 7 bs\<rparr>"

definition wf_order_rejected :: "OrderRejected \<Rightarrow> bool" where
  "wf_order_rejected m \<longleftrightarrow> fits_u 8 (or_client_order_id m) \<and>
     fits_u 1 (or_reason m) \<and> length (or_pad m) = 7"

interpretation order_rejected: wire 16 put_order_rejected get_order_rejected wf_order_rejected
  by unfold_locales (simp_all add: put_order_rejected_def get_order_rejected_def wf_order_rejected_def wire_simps)

record TradeNotification =
  tn_sequence :: nat
  tn_taker_order_id :: nat
  tn_maker_order_id :: nat
  tn_price :: nat
  tn_quantity :: nat
  tn_side :: nat
  tn_pad :: bytes
  tn_symbol :: bytes

definition put_trade_note :: "TradeNotification \<Rightarrow> bytes" where
  "put_trade_note m =
     put_u 8 (tn_sequence m) @ put_u 8 (tn_taker_order_id m) @ put_u 8 (tn_maker_order_id m) @
     put_u 8 (tn_price m) @ put_u 8 (tn_quantity m) @ put_u 1 (tn_side m) @ tn_pad m @
     tn_symbol m"

definition get_trade_note :: "bytes \<Rightarrow> TradeNotification" where
  "get_trade_note bs =
     \<lparr>tn_sequence = u_at 0 8 bs, tn_taker_order_id = u_at 8 8 bs,
      tn_maker_order_id = u_at 16 8 bs, tn_price = u_at 24 8 bs, tn_quantity = u_at 32 8 bs,
      tn_side = u_at 40 1 bs, tn_pad = slice 41 7 bs, tn_symbol = slice 48 16 bs\<rparr>"

definition wf_trade_note :: "TradeNotification \<Rightarrow> bool" where
  "wf_trade_note m \<longleftrightarrow> fits_u 8 (tn_sequence m) \<and>
     fits_u 8 (tn_taker_order_id m) \<and> fits_u 8 (tn_maker_order_id m) \<and>
     fits_u 8 (tn_price m) \<and> fits_u 8 (tn_quantity m) \<and> fits_u 1 (tn_side m) \<and>
     length (tn_pad m) = 7 \<and> length (tn_symbol m) = 16"

interpretation trade_note: wire 64 put_trade_note get_trade_note wf_trade_note
  by unfold_locales (simp_all add: put_trade_note_def get_trade_note_def wf_trade_note_def wire_simps)

record OrderUpdateMsg =
  ou_kind :: nat
  ou_reject_reason :: nat
  ou_pad1 :: bytes
  ou_sequence :: nat
  ou_order_id :: nat
  ou_client_order_id :: nat
  ou_participant_id :: nat
  ou_fill_price :: nat
  ou_fill_qty :: nat
  ou_remaining_qty :: nat
  ou_timestamp :: nat

definition put_order_update :: "OrderUpdateMsg \<Rightarrow> bytes" where
  "put_order_update m =
     put_u 1 (ou_kind m) @ put_u 1 (ou_reject_reason m) @ ou_pad1 m @ put_u 8 (ou_sequence m) @
     put_u 8 (ou_order_id m) @ put_u 8 (ou_client_order_id m) @ put_u 8 (ou_participant_id m) @
     put_u 8 (ou_fill_price m) @ put_u 8 (ou_fill_qty m) @ put_u 8 (ou_remaining_qty m) @
     put_u 8 (ou_timestamp m)"

definition get_order_update :: "bytes \<Rightarrow> OrderUpdateMsg" where
  "get_order_update bs =
     \<lparr>ou_kind = u_at 0 1 bs, ou_reject_reason = u_at 1 1 bs, ou_pad1 = slice 2 6 bs,
      ou_sequence = u_at 8 8 bs, ou_order_id = u_at 16 8 bs, ou_client_order_id = u_at 24 8 bs,
      ou_participant_id = u_at 32 8 bs, ou_fill_price = u_at 40 8 bs, ou_fill_qty = u_at 48 8 bs,
      ou_remaining_qty = u_at 56 8 bs, ou_timestamp = u_at 64 8 bs\<rparr>"

definition wf_order_update :: "OrderUpdateMsg \<Rightarrow> bool" where
  "wf_order_update m \<longleftrightarrow> fits_u 1 (ou_kind m) \<and> fits_u 1 (ou_reject_reason m) \<and>
     length (ou_pad1 m) = 6 \<and> fits_u 8 (ou_sequence m) \<and> fits_u 8 (ou_order_id m) \<and>
     fits_u 8 (ou_client_order_id m) \<and> fits_u 8 (ou_participant_id m) \<and>
     fits_u 8 (ou_fill_price m) \<and> fits_u 8 (ou_fill_qty m) \<and> fits_u 8 (ou_remaining_qty m) \<and>
     fits_u 8 (ou_timestamp m)"

interpretation order_update: wire 72 put_order_update get_order_update wf_order_update
  by unfold_locales (simp_all add: put_order_update_def get_order_update_def wf_order_update_def wire_simps)

subsection \<open>Encoders\<close>

text \<open>\<open>buf[off..off + n].copy_from_slice(bs)\<close> for \<open>bs\<close> of \<open>n\<close> bytes inside the buffer.\<close>

definition copy_at :: "nat \<Rightarrow> bytes \<Rightarrow> bytes \<Rightarrow> bytes" where
  "copy_at off bs buf = take off buf @ bs @ drop (off + length bs) buf"

definition encode_new_order :: "NewOrderRequest \<Rightarrow> bytes \<Rightarrow> (unit + nat) \<times> bytes" where
  "encode_new_order msg buf =
     (if length buf < 72 then (Inl (), buf)
      else let buf = copy_at 0 (encode_header TEMPLATE_NEW_ORDER 64) buf;
               buf = copy_at 8 (put_new_order msg) buf
           in (Inr 72, buf))"

definition encode_cancel_order :: "CancelOrderRequest \<Rightarrow> bytes \<Rightarrow> (unit + nat) \<times> bytes" where
  "encode_cancel_order msg buf =
     (if length buf < 32 then (Inl (), buf)
      else let buf = copy_at 0 (encode_header TEMPLATE_CANCEL_ORDER 24) buf;
               buf = copy_at 8 (put_cancel_request msg) buf
           in (Inr 32, buf))"

definition encode_accepted :: "OrderAccepted \<Rightarrow> bytes \<Rightarrow> (unit + nat) \<times> bytes" where
  "encode_accepted msg buf =
     (if length buf < 40 then (Inl (), buf)
      else let buf = copy_at 0 (encode_header TEMPLATE_ORDER_ACCEPTED 32) buf;
               buf = copy_at 8 (put_order_accepted msg) buf
           in (Inr 40, buf))"

definition encode_filled :: "OrderFilled \<Rightarrow> bytes \<Rightarrow> (unit + nat) \<times> bytes" where
  "encode_filled msg buf =
     (if length buf < 40 then (Inl (), buf)
      else let buf = copy_at 0 (encode_header TEMPLATE_ORDER_FILLED 32) buf;
               buf = copy_at 8 (put_order_filled msg) buf
           in (Inr 40, buf))"

definition encode_partial_fill :: "OrderPartialFill \<Rightarrow> bytes \<Rightarrow> (unit + nat) \<times> bytes" where
  "encode_partial_fill msg buf =
     (if length buf < 40 then (Inl (), buf)
      else let buf = copy_at 0 (encode_header TEMPLATE_ORDER_PARTIAL_FILL 32) buf;
               buf = copy_at 8 (put_order_partial msg) buf
           in (Inr 40, buf))"

definition encode_cancelled :: "OrderCancelled \<Rightarrow> bytes \<Rightarrow> (unit + nat) \<times> bytes" where
  "encode_cancelled msg buf =
     (if length buf < 32 then (Inl (), buf)
      else let buf = copy_at 0 (encode_header TEMPLATE_ORDER_CANCELLED 24) buf;
               buf = copy_at 8 (put_order_cancelled msg) buf
           in (Inr 32, buf))"

definition encode_rejected :: "OrderRejected \<Rightarrow> bytes \<Rightarrow> (unit + nat) \<times> bytes" where
  "encode_rejected msg buf =
     (if length buf < 24 then (Inl (), buf)
      else let buf = copy_at 0 (encode_header TEMPLATE_ORDER_REJECTED 16) buf;
               buf = copy_at 8 (put_order_rejected msg) buf
           in (Inr 24, buf))"

definition encode_trade_notification :: "TradeNotification \<Rightarrow> bytes \<Rightarrow> (unit + nat) \<times> bytes" where
  "encode_trade_notification msg buf =
     (if length buf < 72 then (Inl (), buf)
      else let buf = copy_at 0 (encode_header TEMPLATE_TRADE_NOTIFICATION 64) buf;
               buf = copy_at 8 (put_trade_note msg) buf
           in (Inr 72, buf))"

definition encode_order_update :: "OrderUpdateMsg \<Rightarrow> bytes \<Rightarrow> (unit + nat) \<times> bytes" where
  "encode_order_update msg buf =
     (if length buf < 80 then (Inl (), buf)
      else let buf = copy_at 0 (encode_header TEMPLATE_ORDER_UPDATE 72) buf;
               buf = copy_at 8 (put_order_update msg) buf
           in (Inr 80, buf))"

definition decode_new_order :: "bytes \<Rightarrow> NewOrderRequest option" where
  "decode_new_order buf = (if length buf < 8 + 64 then None else Some (get_new_order (drop 8 buf)))"

definition decode_cancel_order :: "bytes \<Rightarrow> CancelOrderRequest option" where
  "decode_cancel_order buf = (if length buf < 8 + 24 then None else Some (get_cancel_request (drop 8 buf)))"

definition decode_order_update :: "bytes \<Rightarrow> OrderUpdateMsg option" where
  "decode_order_update buf = (if length buf < 8 + 72 then None else Some (get_order_update (drop 8 buf)))"

subsection \<open>Order updates\<close>

definition KIND_ACCEPTED :: nat where "KIND_ACCEPTED = 1"
definition KIND_FILLED :: nat where "KIND_FILLED = 2"
definition KIND_PARTIAL_FILL :: nat where "KIND_PARTIAL_FILL = 3"
definition KIND_CANCELLED :: nat where "KIND_CANCELLED = 4"
definition KIND_REJECTED :: nat where "KIND_REJECTED = 5"

text \<open>The constructors; \<open>0\<close> is also the bit pattern of \<open>0.0\<close>.\<close>

definition update_accepted :: "nat \<Rightarrow> nat \<Rightarrow> nat \<Rightarrow> nat \<Rightarrow> OrderUpdateMsg" where
  "update_accepted order_id client_order_id participant_id ts =
     \<lparr>ou_kind = KIND_ACCEPTED, ou_reject_reason = 0, ou_pad1 = replicate 6 0, ou_sequence = 0,
      ou_order_id = order_id, ou_client_order_id = client_order_id, ou_participant_id = participant_id,
      ou_fill_price = 0, ou_fill_qty = 0, ou_remaining_qty = 0, ou_timestamp = ts\<rparr>"

definition update_filled :: "nat \<Rightarrow> nat \<Rightarrow> nat \<Rightarrow> nat \<Rightarrow> nat \<Rightarrow> nat \<Rightarrow> OrderUpdateMsg" where
  "update_filled order_id client_order_id participant_id price qty ts =
     \<lparr>ou_kind = KIND_FILLED, ou_reject_reason = 0, ou_pad1 = replicate 6 0, ou_sequence = 0,
      ou_order_id = order_id, ou_client_order_id = client_order_id, ou_participant_id = participant_id,
      ou_fill_price = price, ou_fill_qty = qty, ou_remaining_qty = 0, ou_timestamp = ts\<rparr>"

definition update_partial_fill :: "nat \<Rightarrow> nat \<Rightarrow> nat \<Rightarrow> nat \<Rightarrow> nat \<Rightarrow> nat \<Rightarrow> nat \<Rightarrow> OrderUpdateMsg" where
  "update_partial_fill order_id client_order_id participant_id price filled remaining ts =
     \<lparr>ou_kind = KIND_PARTIAL_FILL, ou_reject_reason = 0, ou_pad1 = replicate 6 0, ou_sequence = 0,
      ou_order_id = order_id, ou_client_order_id = client_order_id, ou_participant_id = participant_id,
      ou_fill_price = price, ou_fill_qty = filled, ou_remaining_qty = remaining, ou_timestamp = ts\<rparr>"

definition update_cancelled :: "nat \<Rightarrow> nat \<Rightarrow> nat \<Rightarrow> nat \<Rightarrow> nat \<Rightarrow> OrderUpdateMsg" where
  "update_cancelled order_id client_order_id participant_id cancelled_qty ts =
     \<lparr>ou_kind = KIND_CANCELLED, ou_reject_reason = 0, ou_pad1 = replicate 6 0, ou_sequence = 0,
      ou_order_id = order_id, ou_client_order_id = client_order_id, ou_participant_id = participant_id,
      ou_fill_price = 0, ou_fill_qty = cancelled_qty, ou_remaining_qty = 0, ou_timestamp = ts\<rparr>"

definition update_rejected :: "nat \<Rightarrow> nat \<Rightarrow> nat \<Rightarrow> nat \<Rightarrow> OrderUpdateMsg" where
  "update_rejected client_order_id participant_id reason ts =
     \<lparr>ou_kind = KIND_REJECTED, ou_reject_reason = reason, ou_pad1 = replicate 6 0, ou_sequence = 0,
      ou_order_id = 0, ou_client_order_id = client_order_id, ou_participant_id = participant_id,
      ou_fill_price = 0, ou_fill_qty = 0, ou_remaining_qty = 0, ou_timestamp = ts\<rparr>"

definition with_sequence :: "OrderUpdateMsg \<Rightarrow> nat \<Rightarrow> OrderUpdateMsg" where
  "with_sequence m sequence = m\<lparr>ou_sequence := sequence\<rparr>"

lemmas update_defs = update_accepted_def update_filled_def update_partial_fill_def update_cancelled_def
  update_rejected_def KIND_ACCEPTED_def KIND_FILLED_def KIND_PARTIAL_FILL_def KIND_CANCELLED_def KIND_REJECTED_def

subsection \<open>What every encoder does\<close>

lemma length_copy_at: "off + length bs \<le> length buf \<Longrightarrow> length (copy_at off bs buf) = length buf"
  by (simp add: copy_at_def)

lemma copy_at_twice:
  assumes "length h = 8" "8 + length b \<le> length buf"
  shows "copy_at 8 b (copy_at 0 h buf) = h @ b @ drop (8 + length b) buf"
  using assms by (simp add: copy_at_def add.commute)

lemma length_encode_header [simp]: "length (encode_header t n) = 8"
  by (simp add: encode_header_def put_sbe_header_def)

lemma decode_encode_header:
  assumes "fits_u 2 t" "fits_u 2 n"
  shows "decode_header (encode_header t n @ rest) = Some (SbeHeader_new t n)"
proof -
  have "wf_sbe_header (SbeHeader_new t n)"
    using assms by (simp add: wf_sbe_header_def SbeHeader_new_def SCHEMA_ID_def VERSION_def fits_u_def)
  then show ?thesis
    by (simp add: decode_header_def encode_header_def sbe_header.get_put sbe_header.length_put)
qed

lemma template_at_2:
  assumes "fits_u 2 t"
  shows "u_at 2 2 (encode_header t n @ rest) = t"
  using assms by (simp add: encode_header_def put_sbe_header_def SbeHeader_new_def wire_simps)

locale sbe_message = wire size put get wf
  for size :: nat and put :: "'m \<Rightarrow> bytes" and get :: "bytes \<Rightarrow> 'm" and wf :: "'m \<Rightarrow> bool" +
  fixes template :: nat and encode :: "'m \<Rightarrow> bytes \<Rightarrow> (unit + nat) \<times> bytes"
  assumes encode_law: "encode m buf =
      (if length buf < 8 + size then (Inl (), buf)
       else (Inr (8 + size), copy_at 8 (put m) (copy_at 0 (encode_header template size) buf)))"
    and template_fits: "fits_u 2 template" and size_fits: "fits_u 2 size"
begin

lemma encode_short: "length buf < 8 + size \<Longrightarrow> encode m buf = (Inl (), buf)"
  by (simp add: encode_law)

lemma encode_ok:
  assumes "wf m" "8 + size \<le> length buf"
  shows "encode m buf = (Inr (8 + size), encode_header template size @ put m @ drop (8 + size) buf)"
  using assms by (simp add: encode_law copy_at_twice length_put)

lemma encode_header_ok:
  assumes "wf m" "8 + size \<le> length buf"
  shows "decode_header (snd (encode m buf)) = Some (SbeHeader_new template size)"
  using assms template_fits size_fits by (simp add: encode_ok decode_encode_header)

lemma encode_template:
  assumes "wf m" "8 + size \<le> length buf"
  shows "u_at 2 2 (snd (encode m buf)) = template"
  using assms template_fits by (simp add: encode_ok template_at_2)

lemma encode_length:
  assumes "wf m"
  shows "length (snd (encode m buf)) = length buf"
  using assms by (cases "length buf < 8 + size") (simp_all add: encode_short encode_ok length_put)

lemma encode_body:
  assumes "wf m" "8 + size \<le> length buf"
  shows "get (drop 8 (snd (encode m buf))) = m"
  using assms by (simp add: encode_ok get_put)

lemma encode_tail:
  assumes "wf m" "8 + size \<le> length buf"
  shows "drop (8 + size) (snd (encode m buf)) = drop (8 + size) buf"
  using assms by (simp add: encode_ok length_put)

end

interpretation nw: sbe_message 64 put_new_order get_new_order wf_new_order TEMPLATE_NEW_ORDER encode_new_order
  by unfold_locales (simp_all add: encode_new_order_def template_defs fits_u_def)

interpretation cx: sbe_message 24 put_cancel_request get_cancel_request wf_cancel_request TEMPLATE_CANCEL_ORDER encode_cancel_order
  by unfold_locales (simp_all add: encode_cancel_order_def template_defs fits_u_def)

interpretation ac: sbe_message 32 put_order_accepted get_order_accepted wf_order_accepted TEMPLATE_ORDER_ACCEPTED encode_accepted
  by unfold_locales (simp_all add: encode_accepted_def template_defs fits_u_def)

interpretation fi: sbe_message 32 put_order_filled get_order_filled wf_order_filled TEMPLATE_ORDER_FILLED encode_filled
  by unfold_locales (simp_all add: encode_filled_def template_defs fits_u_def)

interpretation pf: sbe_message 32 put_order_partial get_order_partial wf_order_partial TEMPLATE_ORDER_PARTIAL_FILL encode_partial_fill
  by unfold_locales (simp_all add: encode_partial_fill_def template_defs fits_u_def)

interpretation cd: sbe_message 24 put_order_cancelled get_order_cancelled wf_order_cancelled TEMPLATE_ORDER_CANCELLED encode_cancelled
  by unfold_locales (simp_all add: encode_cancelled_def template_defs fits_u_def)

interpretation rj: sbe_message 16 put_order_rejected get_order_rejected wf_order_rejected TEMPLATE_ORDER_REJECTED encode_rejected
  by unfold_locales (simp_all add: encode_rejected_def template_defs fits_u_def)

interpretation tr: sbe_message 64 put_trade_note get_trade_note wf_trade_note TEMPLATE_TRADE_NOTIFICATION encode_trade_notification
  by unfold_locales (simp_all add: encode_trade_notification_def template_defs fits_u_def)

interpretation up: sbe_message 72 put_order_update get_order_update wf_order_update TEMPLATE_ORDER_UPDATE encode_order_update
  by unfold_locales (simp_all add: encode_order_update_def template_defs fits_u_def)

end
