(* ===== verification/PersistEvent.thy ===== *)
theory PersistEvent
  imports Wire
begin

text \<open>
  Persistence events, \<open>src/src/transport/persist_event.rs\<close>: the frames a desk publishes and the
  PostgreSQL and Redis writers apply.

  A frame is 152 bytes: a kind, the publisher, its sequence number and a 136-byte payload area that
  holds one of eleven packed structs. Strings are kept as the bytes of their UTF-8 form, and
  \<open>valid_utf8\<close> is the test \<open>std::str::from_utf8\<close> makes. The locale \<open>persist_payload\<close> carries what
  the eleven constructors and the eleven typed views share.
\<close>

subsection \<open>Kinds\<close>

datatype PersistKind = OrderUpsert | OrderDelete | AccountSet | TradeInsert | OrderFillUpdate
  | MatchingEvent | PositionUpsert | PositionDelete | RiskAccountSet | InsuranceFundSet | FundingSettled

fun kind_code :: "PersistKind \<Rightarrow> nat" where
  "kind_code OrderUpsert = 1"
| "kind_code OrderDelete = 2"
| "kind_code AccountSet = 3"
| "kind_code TradeInsert = 4"
| "kind_code OrderFillUpdate = 5"
| "kind_code MatchingEvent = 6"
| "kind_code PositionUpsert = 7"
| "kind_code PositionDelete = 8"
| "kind_code RiskAccountSet = 9"
| "kind_code InsuranceFundSet = 10"
| "kind_code FundingSettled = 11"

definition PersistKind_from_u8 :: "nat \<Rightarrow> PersistKind option" where
  "PersistKind_from_u8 v =
     (if v = 1 then Some OrderUpsert else if v = 2 then Some OrderDelete
      else if v = 3 then Some AccountSet else if v = 4 then Some TradeInsert
      else if v = 5 then Some OrderFillUpdate else if v = 6 then Some MatchingEvent
      else if v = 7 then Some PositionUpsert else if v = 8 then Some PositionDelete
      else if v = 9 then Some RiskAccountSet else if v = 10 then Some InsuranceFundSet
      else if v = 11 then Some FundingSettled else None)"

subsection \<open>Payloads\<close>

record OrderFillUpdatePayload =
  ofu_id :: int
  ofu_filled :: nat
  ofu_status :: nat
  ofu_pad :: bytes

definition put_fill_update :: "OrderFillUpdatePayload \<Rightarrow> bytes" where
  "put_fill_update m =
     put_i 8 (ofu_id m) @ put_u 8 (ofu_filled m) @ put_u 1 (ofu_status m) @ ofu_pad m"

definition get_fill_update :: "bytes \<Rightarrow> OrderFillUpdatePayload" where
  "get_fill_update bs =
     \<lparr>ofu_id = i_at 0 8 bs, ofu_filled = u_at 8 8 bs, ofu_status = u_at 16 1 bs,
      ofu_pad = slice 17 7 bs\<rparr>"

definition wf_fill_update :: "OrderFillUpdatePayload \<Rightarrow> bool" where
  "wf_fill_update m \<longleftrightarrow> fits_i 8 (ofu_id m) \<and> fits_u 8 (ofu_filled m) \<and>
     fits_u 1 (ofu_status m) \<and> length (ofu_pad m) = 7"

interpretation fill_update: wire 24 put_fill_update get_fill_update wf_fill_update
  by unfold_locales (simp_all add: put_fill_update_def get_fill_update_def wf_fill_update_def wire_simps)

record OrderUpsertPayload =
  oup_id :: int
  oup_user_id :: int
  oup_symbol :: bytes
  oup_side :: nat
  oup_status :: nat
  oup_pad :: bytes
  oup_order_type :: bytes
  oup_price :: nat
  oup_qty :: nat
  oup_filled :: nat
  oup_freeze_price :: nat
  oup_client_order_id :: bytes
  oup_created_at_ms :: int

definition put_order_upsert_payload :: "OrderUpsertPayload \<Rightarrow> bytes" where
  "put_order_upsert_payload m =
     put_i 8 (oup_id m) @ put_i 8 (oup_user_id m) @ oup_symbol m @ put_u 1 (oup_side m) @
     put_u 1 (oup_status m) @ oup_pad m @ oup_order_type m @ put_u 8 (oup_price m) @
     put_u 8 (oup_qty m) @ put_u 8 (oup_filled m) @ put_u 8 (oup_freeze_price m) @
     oup_client_order_id m @ put_i 8 (oup_created_at_ms m)"

definition get_order_upsert_payload :: "bytes \<Rightarrow> OrderUpsertPayload" where
  "get_order_upsert_payload bs =
     \<lparr>oup_id = i_at 0 8 bs, oup_user_id = i_at 8 8 bs, oup_symbol = slice 16 16 bs,
      oup_side = u_at 32 1 bs, oup_status = u_at 33 1 bs, oup_pad = slice 34 6 bs,
      oup_order_type = slice 40 16 bs, oup_price = u_at 56 8 bs, oup_qty = u_at 64 8 bs,
      oup_filled = u_at 72 8 bs, oup_freeze_price = u_at 80 8 bs,
      oup_client_order_id = slice 88 32 bs, oup_created_at_ms = i_at 120 8 bs\<rparr>"

definition wf_order_upsert_payload :: "OrderUpsertPayload \<Rightarrow> bool" where
  "wf_order_upsert_payload m \<longleftrightarrow> fits_i 8 (oup_id m) \<and>
     fits_i 8 (oup_user_id m) \<and> length (oup_symbol m) = 16 \<and> fits_u 1 (oup_side m) \<and>
     fits_u 1 (oup_status m) \<and> length (oup_pad m) = 6 \<and> length (oup_order_type m) = 16 \<and>
     fits_u 8 (oup_price m) \<and> fits_u 8 (oup_qty m) \<and> fits_u 8 (oup_filled m) \<and>
     fits_u 8 (oup_freeze_price m) \<and> length (oup_client_order_id m) = 32 \<and>
     fits_i 8 (oup_created_at_ms m)"

interpretation order_upsert_payload: wire 128 put_order_upsert_payload get_order_upsert_payload wf_order_upsert_payload
  by unfold_locales (simp_all add: put_order_upsert_payload_def get_order_upsert_payload_def wf_order_upsert_payload_def wire_simps)

record OrderDeletePayload =
  odl_id :: int

definition put_order_delete_payload :: "OrderDeletePayload \<Rightarrow> bytes" where
  "put_order_delete_payload m =
     put_i 8 (odl_id m)"

definition get_order_delete_payload :: "bytes \<Rightarrow> OrderDeletePayload" where
  "get_order_delete_payload bs =
     \<lparr>odl_id = i_at 0 8 bs\<rparr>"

definition wf_order_delete_payload :: "OrderDeletePayload \<Rightarrow> bool" where
  "wf_order_delete_payload m \<longleftrightarrow> fits_i 8 (odl_id m)"

interpretation order_delete_payload: wire 8 put_order_delete_payload get_order_delete_payload wf_order_delete_payload
  by unfold_locales (simp_all add: put_order_delete_payload_def get_order_delete_payload_def wf_order_delete_payload_def wire_simps)

record AccountSetPayload =
  acs_user_id :: int
  acs_asset :: bytes
  acs_balance :: nat
  acs_frozen :: nat
  acs_balance_atoms :: int
  acs_frozen_atoms :: int

definition put_account_set_payload :: "AccountSetPayload \<Rightarrow> bytes" where
  "put_account_set_payload m =
     put_i 8 (acs_user_id m) @ acs_asset m @ put_u 8 (acs_balance m) @ put_u 8 (acs_frozen m) @
     put_i 8 (acs_balance_atoms m) @ put_i 8 (acs_frozen_atoms m)"

definition get_account_set_payload :: "bytes \<Rightarrow> AccountSetPayload" where
  "get_account_set_payload bs =
     \<lparr>acs_user_id = i_at 0 8 bs, acs_asset = slice 8 16 bs, acs_balance = u_at 24 8 bs,
      acs_frozen = u_at 32 8 bs, acs_balance_atoms = i_at 40 8 bs,
      acs_frozen_atoms = i_at 48 8 bs\<rparr>"

definition wf_account_set_payload :: "AccountSetPayload \<Rightarrow> bool" where
  "wf_account_set_payload m \<longleftrightarrow> fits_i 8 (acs_user_id m) \<and>
     length (acs_asset m) = 16 \<and> fits_u 8 (acs_balance m) \<and> fits_u 8 (acs_frozen m) \<and>
     fits_i 8 (acs_balance_atoms m) \<and> fits_i 8 (acs_frozen_atoms m)"

interpretation account_set_payload: wire 56 put_account_set_payload get_account_set_payload wf_account_set_payload
  by unfold_locales (simp_all add: put_account_set_payload_def get_account_set_payload_def wf_account_set_payload_def wire_simps)

record TradeInsertPayload =
  tri_buy_order_id :: int
  tri_sell_order_id :: int
  tri_symbol :: bytes
  tri_price :: nat
  tri_qty :: nat
  tri_ts_ms :: int

definition put_trade_insert_payload :: "TradeInsertPayload \<Rightarrow> bytes" where
  "put_trade_insert_payload m =
     put_i 8 (tri_buy_order_id m) @ put_i 8 (tri_sell_order_id m) @ tri_symbol m @
     put_u 8 (tri_price m) @ put_u 8 (tri_qty m) @ put_i 8 (tri_ts_ms m)"

definition get_trade_insert_payload :: "bytes \<Rightarrow> TradeInsertPayload" where
  "get_trade_insert_payload bs =
     \<lparr>tri_buy_order_id = i_at 0 8 bs, tri_sell_order_id = i_at 8 8 bs,
      tri_symbol = slice 16 16 bs, tri_price = u_at 32 8 bs, tri_qty = u_at 40 8 bs,
      tri_ts_ms = i_at 48 8 bs\<rparr>"

definition wf_trade_insert_payload :: "TradeInsertPayload \<Rightarrow> bool" where
  "wf_trade_insert_payload m \<longleftrightarrow> fits_i 8 (tri_buy_order_id m) \<and>
     fits_i 8 (tri_sell_order_id m) \<and> length (tri_symbol m) = 16 \<and> fits_u 8 (tri_price m) \<and>
     fits_u 8 (tri_qty m) \<and> fits_i 8 (tri_ts_ms m)"

interpretation trade_insert_payload: wire 56 put_trade_insert_payload get_trade_insert_payload wf_trade_insert_payload
  by unfold_locales (simp_all add: put_trade_insert_payload_def get_trade_insert_payload_def wf_trade_insert_payload_def wire_simps)

record MatchingEventPayload =
  mev_sequence :: nat
  mev_response_stream_id :: int
  mev_event_kind :: nat
  mev_pad :: bytes
  mev_order_id :: int
  mev_client_order_id :: int
  mev_participant_id :: int
  mev_counterparty_order_id :: int
  mev_symbol :: bytes
  mev_price_ticks :: int
  mev_quantity_lots :: int
  mev_remaining_lots :: int
  mev_ts_ns :: nat

definition put_matching_event_payload :: "MatchingEventPayload \<Rightarrow> bytes" where
  "put_matching_event_payload m =
     put_u 8 (mev_sequence m) @ put_i 4 (mev_response_stream_id m) @ put_u 1 (mev_event_kind m) @
     mev_pad m @ put_i 8 (mev_order_id m) @ put_i 8 (mev_client_order_id m) @
     put_i 8 (mev_participant_id m) @ put_i 8 (mev_counterparty_order_id m) @ mev_symbol m @
     put_i 8 (mev_price_ticks m) @ put_i 8 (mev_quantity_lots m) @
     put_i 8 (mev_remaining_lots m) @ put_u 8 (mev_ts_ns m)"

definition get_matching_event_payload :: "bytes \<Rightarrow> MatchingEventPayload" where
  "get_matching_event_payload bs =
     \<lparr>mev_sequence = u_at 0 8 bs, mev_response_stream_id = i_at 8 4 bs,
      mev_event_kind = u_at 12 1 bs, mev_pad = slice 13 3 bs, mev_order_id = i_at 16 8 bs,
      mev_client_order_id = i_at 24 8 bs, mev_participant_id = i_at 32 8 bs,
      mev_counterparty_order_id = i_at 40 8 bs, mev_symbol = slice 48 16 bs,
      mev_price_ticks = i_at 64 8 bs, mev_quantity_lots = i_at 72 8 bs,
      mev_remaining_lots = i_at 80 8 bs, mev_ts_ns = u_at 88 8 bs\<rparr>"

definition wf_matching_event_payload :: "MatchingEventPayload \<Rightarrow> bool" where
  "wf_matching_event_payload m \<longleftrightarrow> fits_u 8 (mev_sequence m) \<and>
     fits_i 4 (mev_response_stream_id m) \<and> fits_u 1 (mev_event_kind m) \<and>
     length (mev_pad m) = 3 \<and> fits_i 8 (mev_order_id m) \<and> fits_i 8 (mev_client_order_id m) \<and>
     fits_i 8 (mev_participant_id m) \<and> fits_i 8 (mev_counterparty_order_id m) \<and>
     length (mev_symbol m) = 16 \<and> fits_i 8 (mev_price_ticks m) \<and>
     fits_i 8 (mev_quantity_lots m) \<and> fits_i 8 (mev_remaining_lots m) \<and> fits_u 8 (mev_ts_ns m)"

interpretation matching_event_payload: wire 96 put_matching_event_payload get_matching_event_payload wf_matching_event_payload
  by unfold_locales (simp_all add: put_matching_event_payload_def get_matching_event_payload_def wf_matching_event_payload_def wire_simps)

record PositionUpsertPayload =
  pup_user_id :: int
  pup_symbol :: bytes
  pup_side :: nat
  pup_leverage :: nat
  pup_pad :: bytes
  pup_qty_lots :: int
  pup_entry_price_ticks :: int
  pup_used_margin_atoms :: int
  pup_cost_atoms :: int

definition put_position_upsert_payload :: "PositionUpsertPayload \<Rightarrow> bytes" where
  "put_position_upsert_payload m =
     put_i 8 (pup_user_id m) @ pup_symbol m @ put_u 1 (pup_side m) @ put_u 1 (pup_leverage m) @
     pup_pad m @ put_i 8 (pup_qty_lots m) @ put_i 8 (pup_entry_price_ticks m) @
     put_i 8 (pup_used_margin_atoms m) @ put_i 8 (pup_cost_atoms m)"

definition get_position_upsert_payload :: "bytes \<Rightarrow> PositionUpsertPayload" where
  "get_position_upsert_payload bs =
     \<lparr>pup_user_id = i_at 0 8 bs, pup_symbol = slice 8 16 bs, pup_side = u_at 24 1 bs,
      pup_leverage = u_at 25 1 bs, pup_pad = slice 26 6 bs, pup_qty_lots = i_at 32 8 bs,
      pup_entry_price_ticks = i_at 40 8 bs, pup_used_margin_atoms = i_at 48 8 bs,
      pup_cost_atoms = i_at 56 8 bs\<rparr>"

definition wf_position_upsert_payload :: "PositionUpsertPayload \<Rightarrow> bool" where
  "wf_position_upsert_payload m \<longleftrightarrow> fits_i 8 (pup_user_id m) \<and>
     length (pup_symbol m) = 16 \<and> fits_u 1 (pup_side m) \<and> fits_u 1 (pup_leverage m) \<and>
     length (pup_pad m) = 6 \<and> fits_i 8 (pup_qty_lots m) \<and>
     fits_i 8 (pup_entry_price_ticks m) \<and> fits_i 8 (pup_used_margin_atoms m) \<and>
     fits_i 8 (pup_cost_atoms m)"

interpretation position_upsert_payload: wire 64 put_position_upsert_payload get_position_upsert_payload wf_position_upsert_payload
  by unfold_locales (simp_all add: put_position_upsert_payload_def get_position_upsert_payload_def wf_position_upsert_payload_def wire_simps)

record PositionDeletePayload =
  pdl_user_id :: int
  pdl_symbol :: bytes

definition put_position_delete_payload :: "PositionDeletePayload \<Rightarrow> bytes" where
  "put_position_delete_payload m =
     put_i 8 (pdl_user_id m) @ pdl_symbol m"

definition get_position_delete_payload :: "bytes \<Rightarrow> PositionDeletePayload" where
  "get_position_delete_payload bs =
     \<lparr>pdl_user_id = i_at 0 8 bs, pdl_symbol = slice 8 16 bs\<rparr>"

definition wf_position_delete_payload :: "PositionDeletePayload \<Rightarrow> bool" where
  "wf_position_delete_payload m \<longleftrightarrow> fits_i 8 (pdl_user_id m) \<and>
     length (pdl_symbol m) = 16"

interpretation position_delete_payload: wire 24 put_position_delete_payload get_position_delete_payload wf_position_delete_payload
  by unfold_locales (simp_all add: put_position_delete_payload_def get_position_delete_payload_def wf_position_delete_payload_def wire_simps)

record RiskAccountSetPayload =
  ras_user_id :: int
  ras_equity_atoms :: int
  ras_used_margin_atoms :: int
  ras_order_margin_atoms :: int
  ras_status :: nat
  ras_pad :: bytes

definition put_risk_account_payload :: "RiskAccountSetPayload \<Rightarrow> bytes" where
  "put_risk_account_payload m =
     put_i 8 (ras_user_id m) @ put_i 8 (ras_equity_atoms m) @ put_i 8 (ras_used_margin_atoms m) @
     put_i 8 (ras_order_margin_atoms m) @ put_u 1 (ras_status m) @ ras_pad m"

definition get_risk_account_payload :: "bytes \<Rightarrow> RiskAccountSetPayload" where
  "get_risk_account_payload bs =
     \<lparr>ras_user_id = i_at 0 8 bs, ras_equity_atoms = i_at 8 8 bs,
      ras_used_margin_atoms = i_at 16 8 bs, ras_order_margin_atoms = i_at 24 8 bs,
      ras_status = u_at 32 1 bs, ras_pad = slice 33 7 bs\<rparr>"

definition wf_risk_account_payload :: "RiskAccountSetPayload \<Rightarrow> bool" where
  "wf_risk_account_payload m \<longleftrightarrow> fits_i 8 (ras_user_id m) \<and>
     fits_i 8 (ras_equity_atoms m) \<and> fits_i 8 (ras_used_margin_atoms m) \<and>
     fits_i 8 (ras_order_margin_atoms m) \<and> fits_u 1 (ras_status m) \<and> length (ras_pad m) = 7"

interpretation risk_account_payload: wire 40 put_risk_account_payload get_risk_account_payload wf_risk_account_payload
  by unfold_locales (simp_all add: put_risk_account_payload_def get_risk_account_payload_def wf_risk_account_payload_def wire_simps)

record InsuranceFundSetPayload =
  ifs_balance_atoms :: int

definition put_insurance_fund_payload :: "InsuranceFundSetPayload \<Rightarrow> bytes" where
  "put_insurance_fund_payload m =
     put_i 8 (ifs_balance_atoms m)"

definition get_insurance_fund_payload :: "bytes \<Rightarrow> InsuranceFundSetPayload" where
  "get_insurance_fund_payload bs =
     \<lparr>ifs_balance_atoms = i_at 0 8 bs\<rparr>"

definition wf_insurance_fund_payload :: "InsuranceFundSetPayload \<Rightarrow> bool" where
  "wf_insurance_fund_payload m \<longleftrightarrow> fits_i 8 (ifs_balance_atoms m)"

interpretation insurance_fund_payload: wire 8 put_insurance_fund_payload get_insurance_fund_payload wf_insurance_fund_payload
  by unfold_locales (simp_all add: put_insurance_fund_payload_def get_insurance_fund_payload_def wf_insurance_fund_payload_def wire_simps)

record FundingSettledPayload =
  fus_symbol :: bytes
  fus_rate_e9 :: int
  fus_mark_price_ticks :: int
  fus_notional_scale :: int
  fus_settled_at_ms :: int
  fus_next_settlement_at_ms :: int

definition put_funding_payload :: "FundingSettledPayload \<Rightarrow> bytes" where
  "put_funding_payload m =
     fus_symbol m @ put_i 8 (fus_rate_e9 m) @ put_i 8 (fus_mark_price_ticks m) @
     put_i 8 (fus_notional_scale m) @ put_i 8 (fus_settled_at_ms m) @
     put_i 8 (fus_next_settlement_at_ms m)"

definition get_funding_payload :: "bytes \<Rightarrow> FundingSettledPayload" where
  "get_funding_payload bs =
     \<lparr>fus_symbol = slice 0 16 bs, fus_rate_e9 = i_at 16 8 bs,
      fus_mark_price_ticks = i_at 24 8 bs, fus_notional_scale = i_at 32 8 bs,
      fus_settled_at_ms = i_at 40 8 bs, fus_next_settlement_at_ms = i_at 48 8 bs\<rparr>"

definition wf_funding_payload :: "FundingSettledPayload \<Rightarrow> bool" where
  "wf_funding_payload m \<longleftrightarrow> length (fus_symbol m) = 16 \<and>
     fits_i 8 (fus_rate_e9 m) \<and> fits_i 8 (fus_mark_price_ticks m) \<and>
     fits_i 8 (fus_notional_scale m) \<and> fits_i 8 (fus_settled_at_ms m) \<and>
     fits_i 8 (fus_next_settlement_at_ms m)"

interpretation funding_payload: wire 56 put_funding_payload get_funding_payload wf_funding_payload
  by unfold_locales (simp_all add: put_funding_payload_def get_funding_payload_def wf_funding_payload_def wire_simps)

subsection \<open>Frames\<close>

definition MAX_PAYLOAD :: nat where "MAX_PAYLOAD = 136"
definition FRAME_SIZE :: nat where "FRAME_SIZE = 152"

record PersistFrame =
  fr_kind :: nat
  fr_pad :: nat
  fr_publisher_id :: nat
  fr_pad2 :: bytes
  fr_seq :: nat
  fr_payload :: bytes

definition put_frame :: "PersistFrame \<Rightarrow> bytes" where
  "put_frame m =
     put_u 1 (fr_kind m) @ put_u 1 (fr_pad m) @ put_u 2 (fr_publisher_id m) @ fr_pad2 m @
     put_u 8 (fr_seq m) @ fr_payload m"

definition get_frame :: "bytes \<Rightarrow> PersistFrame" where
  "get_frame bs =
     \<lparr>fr_kind = u_at 0 1 bs, fr_pad = u_at 1 1 bs, fr_publisher_id = u_at 2 2 bs,
      fr_pad2 = slice 4 4 bs, fr_seq = u_at 8 8 bs, fr_payload = slice 16 136 bs\<rparr>"

definition wf_frame :: "PersistFrame \<Rightarrow> bool" where
  "wf_frame m \<longleftrightarrow> fits_u 1 (fr_kind m) \<and> fits_u 1 (fr_pad m) \<and>
     fits_u 2 (fr_publisher_id m) \<and> length (fr_pad2 m) = 4 \<and> fits_u 8 (fr_seq m) \<and>
     length (fr_payload m) = 136"

interpretation frame: wire 152 put_frame get_frame wf_frame
  by unfold_locales (simp_all add: put_frame_def get_frame_def wf_frame_def wire_simps)

definition frame_zero :: PersistFrame where
  "frame_zero = \<lparr>fr_kind = 0, fr_pad = 0, fr_publisher_id = 0, fr_pad2 = replicate 4 0, fr_seq = 0,
     fr_payload = replicate MAX_PAYLOAD 0\<rparr>"

text \<open>\<open>f.payload[..bytes.len()].copy_from_slice(bytes)\<close>.\<close>

definition write_payload :: "bytes \<Rightarrow> PersistFrame \<Rightarrow> PersistFrame" where
  "write_payload bs f = f\<lparr>fr_payload := bs @ drop (length bs) (fr_payload f)\<rparr>"

definition order_fill_update :: "OrderFillUpdatePayload \<Rightarrow> PersistFrame" where
  "order_fill_update p = write_payload (put_fill_update p) (frame_zero\<lparr>fr_kind := kind_code OrderFillUpdate\<rparr>)"

definition order_upsert :: "OrderUpsertPayload \<Rightarrow> PersistFrame" where
  "order_upsert p = write_payload (put_order_upsert_payload p) (frame_zero\<lparr>fr_kind := kind_code OrderUpsert\<rparr>)"

definition order_delete :: "OrderDeletePayload \<Rightarrow> PersistFrame" where
  "order_delete p = write_payload (put_order_delete_payload p) (frame_zero\<lparr>fr_kind := kind_code OrderDelete\<rparr>)"

definition account_set :: "AccountSetPayload \<Rightarrow> PersistFrame" where
  "account_set p = write_payload (put_account_set_payload p) (frame_zero\<lparr>fr_kind := kind_code AccountSet\<rparr>)"

definition trade_insert :: "TradeInsertPayload \<Rightarrow> PersistFrame" where
  "trade_insert p = write_payload (put_trade_insert_payload p) (frame_zero\<lparr>fr_kind := kind_code TradeInsert\<rparr>)"

definition matching_event :: "MatchingEventPayload \<Rightarrow> PersistFrame" where
  "matching_event p = write_payload (put_matching_event_payload p) (frame_zero\<lparr>fr_kind := kind_code MatchingEvent\<rparr>)"

definition position_upsert :: "PositionUpsertPayload \<Rightarrow> PersistFrame" where
  "position_upsert p = write_payload (put_position_upsert_payload p) (frame_zero\<lparr>fr_kind := kind_code PositionUpsert\<rparr>)"

definition position_delete :: "PositionDeletePayload \<Rightarrow> PersistFrame" where
  "position_delete p = write_payload (put_position_delete_payload p) (frame_zero\<lparr>fr_kind := kind_code PositionDelete\<rparr>)"

definition risk_account_set :: "RiskAccountSetPayload \<Rightarrow> PersistFrame" where
  "risk_account_set p = write_payload (put_risk_account_payload p) (frame_zero\<lparr>fr_kind := kind_code RiskAccountSet\<rparr>)"

definition insurance_fund_set :: "InsuranceFundSetPayload \<Rightarrow> PersistFrame" where
  "insurance_fund_set p = write_payload (put_insurance_fund_payload p) (frame_zero\<lparr>fr_kind := kind_code InsuranceFundSet\<rparr>)"

definition funding_settled :: "FundingSettledPayload \<Rightarrow> PersistFrame" where
  "funding_settled p = write_payload (put_funding_payload p) (frame_zero\<lparr>fr_kind := kind_code FundingSettled\<rparr>)"

definition as_bytes :: "PersistFrame \<Rightarrow> bytes" where
  "as_bytes f = put_frame f"

definition from_bytes :: "bytes \<Rightarrow> PersistFrame option" where
  "from_bytes data = (if length data < FRAME_SIZE then None else Some (get_frame data))"

definition frame_kind :: "PersistFrame \<Rightarrow> PersistKind option" where
  "frame_kind f = PersistKind_from_u8 (fr_kind f)"

definition as_order_fill_update :: "PersistFrame \<Rightarrow> OrderFillUpdatePayload option" where
  "as_order_fill_update f = (if frame_kind f \<noteq> Some OrderFillUpdate then None else Some (get_fill_update (fr_payload f)))"

definition as_order_upsert :: "PersistFrame \<Rightarrow> OrderUpsertPayload option" where
  "as_order_upsert f = (if frame_kind f \<noteq> Some OrderUpsert then None else Some (get_order_upsert_payload (fr_payload f)))"

definition as_order_delete :: "PersistFrame \<Rightarrow> OrderDeletePayload option" where
  "as_order_delete f = (if frame_kind f \<noteq> Some OrderDelete then None else Some (get_order_delete_payload (fr_payload f)))"

definition as_account_set :: "PersistFrame \<Rightarrow> AccountSetPayload option" where
  "as_account_set f = (if frame_kind f \<noteq> Some AccountSet then None else Some (get_account_set_payload (fr_payload f)))"

definition as_trade_insert :: "PersistFrame \<Rightarrow> TradeInsertPayload option" where
  "as_trade_insert f = (if frame_kind f \<noteq> Some TradeInsert then None else Some (get_trade_insert_payload (fr_payload f)))"

definition as_matching_event :: "PersistFrame \<Rightarrow> MatchingEventPayload option" where
  "as_matching_event f = (if frame_kind f \<noteq> Some MatchingEvent then None else Some (get_matching_event_payload (fr_payload f)))"

definition as_position_upsert :: "PersistFrame \<Rightarrow> PositionUpsertPayload option" where
  "as_position_upsert f = (if frame_kind f \<noteq> Some PositionUpsert then None else Some (get_position_upsert_payload (fr_payload f)))"

definition as_position_delete :: "PersistFrame \<Rightarrow> PositionDeletePayload option" where
  "as_position_delete f = (if frame_kind f \<noteq> Some PositionDelete then None else Some (get_position_delete_payload (fr_payload f)))"

definition as_risk_account_set :: "PersistFrame \<Rightarrow> RiskAccountSetPayload option" where
  "as_risk_account_set f = (if frame_kind f \<noteq> Some RiskAccountSet then None else Some (get_risk_account_payload (fr_payload f)))"

definition as_insurance_fund_set :: "PersistFrame \<Rightarrow> InsuranceFundSetPayload option" where
  "as_insurance_fund_set f = (if frame_kind f \<noteq> Some InsuranceFundSet then None else Some (get_insurance_fund_payload (fr_payload f)))"

definition as_funding_settled :: "PersistFrame \<Rightarrow> FundingSettledPayload option" where
  "as_funding_settled f = (if frame_kind f \<noteq> Some FundingSettled then None else Some (get_funding_payload (fr_payload f)))"

definition stamp :: "nat \<Rightarrow> nat \<Rightarrow> PersistFrame \<Rightarrow> PersistFrame" where
  "stamp publisher_id seq f = f\<lparr>fr_publisher_id := publisher_id, fr_seq := seq\<rparr>"

subsection \<open>Strings\<close>

definition cont_byte :: "8 word \<Rightarrow> bool" where
  "cont_byte b \<longleftrightarrow> 128 \<le> b \<and> b < 192"

text \<open>The well-formed byte sequences of UTF-8, by the range of the first two bytes.\<close>

fun valid_utf8 :: "bytes \<Rightarrow> bool" where
  "valid_utf8 [] = True"
| "valid_utf8 (a # rest) =
     (if a < 128 then valid_utf8 rest
      else case rest of [] \<Rightarrow> False | b # rest1 \<Rightarrow>
        if 194 \<le> a \<and> a < 224 then cont_byte b \<and> valid_utf8 rest1
        else case rest1 of [] \<Rightarrow> False | c # rest2 \<Rightarrow>
          if 224 \<le> a \<and> a < 240
          then cont_byte b \<and> cont_byte c \<and> (a = 224 \<longrightarrow> 160 \<le> b) \<and> (a = 237 \<longrightarrow> b < 160) \<and> valid_utf8 rest2
          else case rest2 of [] \<Rightarrow> False | d # rest3 \<Rightarrow>
            240 \<le> a \<and> a < 245 \<and> cont_byte b \<and> cont_byte c \<and> cont_byte d \<and>
            (a = 240 \<longrightarrow> 144 \<le> b) \<and> (a = 244 \<longrightarrow> b < 144) \<and> valid_utf8 rest3)"

definition pack_str :: "nat \<Rightarrow> bytes \<Rightarrow> bytes" where
  "pack_str N s = (let n = min (length s) N in take n s @ replicate (N - n) 0)"

definition unpack_str :: "bytes \<Rightarrow> bytes" where
  "unpack_str bs = (let s = takeWhile (\<lambda>b. b \<noteq> 0) bs in if valid_utf8 s then s else [])"

subsection \<open>Lemmas\<close>

lemma kind_round_trip [simp]: "PersistKind_from_u8 (kind_code k) = Some k"
  by (cases k) (simp_all add: PersistKind_from_u8_def)

lemma kind_code_inverse: "PersistKind_from_u8 v = Some k \<longleftrightarrow> v = kind_code k"
  by (cases k) (auto simp: PersistKind_from_u8_def split: if_splits)

lemma kind_code_fits: "fits_u 1 (kind_code k)"
  by (cases k) (simp_all add: fits_u_def)

lemma length_pack_str [simp]: "length (pack_str N s) = N"
  by (simp add: pack_str_def Let_def)

lemma unpack_pack_str:
  assumes "length s \<le> N" "0 \<notin> set s" "valid_utf8 s"
  shows "unpack_str (pack_str N s) = s"
proof -
  have "takeWhile (\<lambda>b. b \<noteq> 0) (s @ replicate (N - length s) 0) = s"
    using assms(2) by (cases "N - length s") (auto simp: takeWhile_append)
  then show ?thesis
    using assms by (simp add: unpack_str_def pack_str_def Let_def)
qed

lemma frame_kind_stamp [simp]: "frame_kind (stamp d s f) = frame_kind f"
  by (simp add: frame_kind_def stamp_def)

lemma frame_zero_wf: "wf_frame frame_zero"
  by (simp add: wf_frame_def frame_zero_def MAX_PAYLOAD_def fits_u_def)

locale persist_payload = wire size put get wf
  for size :: nat and put :: "'p \<Rightarrow> bytes" and get :: "bytes \<Rightarrow> 'p" and wf :: "'p \<Rightarrow> bool" +
  fixes kind :: PersistKind and build :: "'p \<Rightarrow> PersistFrame" and view :: "PersistFrame \<Rightarrow> 'p option"
  assumes build_law: "build p = write_payload (put p) (frame_zero\<lparr>fr_kind := kind_code kind\<rparr>)"
    and view_law: "view f = (if frame_kind f \<noteq> Some kind then None else Some (get (fr_payload f)))"
    and size_max: "size \<le> MAX_PAYLOAD"
begin

lemma wf_build: "wf p \<Longrightarrow> wf_frame (build p)"
  using frame_zero_wf size_max kind_code_fits [of kind]
  by (simp add: build_law write_payload_def wf_frame_def length_put frame_zero_def MAX_PAYLOAD_def)

lemma kind_build: "frame_kind (build p) = Some kind"
  by (simp add: build_law write_payload_def frame_kind_def)

lemma view_build: "wf p \<Longrightarrow> fr_kind f = fr_kind (build p) \<Longrightarrow> fr_payload f = fr_payload (build p) \<Longrightarrow> view f = Some p"
  using kind_build [of p] by (simp add: view_law frame_kind_def) (simp add: build_law write_payload_def get_put)

lemma view_stamp: "wf p \<Longrightarrow> view (stamp d s (build p)) = Some p"
  by (rule view_build) (simp_all add: stamp_def)

lemma view_other: "frame_kind f \<noteq> Some kind \<Longrightarrow> view f = None"
  by (simp add: view_law)

lemma view_wf: "view f = Some p \<Longrightarrow> length (fr_payload f) = MAX_PAYLOAD \<Longrightarrow> wf p"
  using size_max wf_get by (auto simp: view_law split: if_splits)

end

interpretation pfu: persist_payload 24 put_fill_update get_fill_update wf_fill_update OrderFillUpdate order_fill_update as_order_fill_update
  by unfold_locales (simp_all add: order_fill_update_def as_order_fill_update_def MAX_PAYLOAD_def)

interpretation pou: persist_payload 128 put_order_upsert_payload get_order_upsert_payload wf_order_upsert_payload OrderUpsert order_upsert as_order_upsert
  by unfold_locales (simp_all add: order_upsert_def as_order_upsert_def MAX_PAYLOAD_def)

interpretation pod: persist_payload 8 put_order_delete_payload get_order_delete_payload wf_order_delete_payload OrderDelete order_delete as_order_delete
  by unfold_locales (simp_all add: order_delete_def as_order_delete_def MAX_PAYLOAD_def)

interpretation pas: persist_payload 56 put_account_set_payload get_account_set_payload wf_account_set_payload AccountSet account_set as_account_set
  by unfold_locales (simp_all add: account_set_def as_account_set_def MAX_PAYLOAD_def)

interpretation pti: persist_payload 56 put_trade_insert_payload get_trade_insert_payload wf_trade_insert_payload TradeInsert trade_insert as_trade_insert
  by unfold_locales (simp_all add: trade_insert_def as_trade_insert_def MAX_PAYLOAD_def)

interpretation pme: persist_payload 96 put_matching_event_payload get_matching_event_payload wf_matching_event_payload MatchingEvent matching_event as_matching_event
  by unfold_locales (simp_all add: matching_event_def as_matching_event_def MAX_PAYLOAD_def)

interpretation ppu: persist_payload 64 put_position_upsert_payload get_position_upsert_payload wf_position_upsert_payload PositionUpsert position_upsert as_position_upsert
  by unfold_locales (simp_all add: position_upsert_def as_position_upsert_def MAX_PAYLOAD_def)

interpretation ppd: persist_payload 24 put_position_delete_payload get_position_delete_payload wf_position_delete_payload PositionDelete position_delete as_position_delete
  by unfold_locales (simp_all add: position_delete_def as_position_delete_def MAX_PAYLOAD_def)

interpretation pra: persist_payload 40 put_risk_account_payload get_risk_account_payload wf_risk_account_payload RiskAccountSet risk_account_set as_risk_account_set
  by unfold_locales (simp_all add: risk_account_set_def as_risk_account_set_def MAX_PAYLOAD_def)

interpretation pif: persist_payload 8 put_insurance_fund_payload get_insurance_fund_payload wf_insurance_fund_payload InsuranceFundSet insurance_fund_set as_insurance_fund_set
  by unfold_locales (simp_all add: insurance_fund_set_def as_insurance_fund_set_def MAX_PAYLOAD_def)

interpretation pfs: persist_payload 56 put_funding_payload get_funding_payload wf_funding_payload FundingSettled funding_settled as_funding_settled
  by unfold_locales (simp_all add: funding_settled_def as_funding_settled_def MAX_PAYLOAD_def)

subsection \<open>Events\<close>

text \<open>What a frame carries, one constructor per kind.\<close>

datatype persist_event =
    Ev_OrderFillUpdate OrderFillUpdatePayload
  | Ev_OrderUpsert OrderUpsertPayload
  | Ev_OrderDelete OrderDeletePayload
  | Ev_AccountSet AccountSetPayload
  | Ev_TradeInsert TradeInsertPayload
  | Ev_MatchingEvent MatchingEventPayload
  | Ev_PositionUpsert PositionUpsertPayload
  | Ev_PositionDelete PositionDeletePayload
  | Ev_RiskAccountSet RiskAccountSetPayload
  | Ev_InsuranceFundSet InsuranceFundSetPayload
  | Ev_FundingSettled FundingSettledPayload

fun frame_of :: "persist_event \<Rightarrow> PersistFrame" where
  "frame_of (Ev_OrderFillUpdate p) = order_fill_update p"
| "frame_of (Ev_OrderUpsert p) = order_upsert p"
| "frame_of (Ev_OrderDelete p) = order_delete p"
| "frame_of (Ev_AccountSet p) = account_set p"
| "frame_of (Ev_TradeInsert p) = trade_insert p"
| "frame_of (Ev_MatchingEvent p) = matching_event p"
| "frame_of (Ev_PositionUpsert p) = position_upsert p"
| "frame_of (Ev_PositionDelete p) = position_delete p"
| "frame_of (Ev_RiskAccountSet p) = risk_account_set p"
| "frame_of (Ev_InsuranceFundSet p) = insurance_fund_set p"
| "frame_of (Ev_FundingSettled p) = funding_settled p"

fun wf_event :: "persist_event \<Rightarrow> bool" where
  "wf_event (Ev_OrderFillUpdate p) = wf_fill_update p"
| "wf_event (Ev_OrderUpsert p) = wf_order_upsert_payload p"
| "wf_event (Ev_OrderDelete p) = wf_order_delete_payload p"
| "wf_event (Ev_AccountSet p) = wf_account_set_payload p"
| "wf_event (Ev_TradeInsert p) = wf_trade_insert_payload p"
| "wf_event (Ev_MatchingEvent p) = wf_matching_event_payload p"
| "wf_event (Ev_PositionUpsert p) = wf_position_upsert_payload p"
| "wf_event (Ev_PositionDelete p) = wf_position_delete_payload p"
| "wf_event (Ev_RiskAccountSet p) = wf_risk_account_payload p"
| "wf_event (Ev_InsuranceFundSet p) = wf_insurance_fund_payload p"
| "wf_event (Ev_FundingSettled p) = wf_funding_payload p"

text \<open>A writer tries the view of the kind the frame names.\<close>

definition event_of :: "PersistFrame \<Rightarrow> persist_event option" where
  "event_of f = (case frame_kind f of None \<Rightarrow> None | Some k \<Rightarrow> (case k of
       OrderFillUpdate \<Rightarrow> map_option Ev_OrderFillUpdate (as_order_fill_update f)
     | OrderUpsert \<Rightarrow> map_option Ev_OrderUpsert (as_order_upsert f)
     | OrderDelete \<Rightarrow> map_option Ev_OrderDelete (as_order_delete f)
     | AccountSet \<Rightarrow> map_option Ev_AccountSet (as_account_set f)
     | TradeInsert \<Rightarrow> map_option Ev_TradeInsert (as_trade_insert f)
     | MatchingEvent \<Rightarrow> map_option Ev_MatchingEvent (as_matching_event f)
     | PositionUpsert \<Rightarrow> map_option Ev_PositionUpsert (as_position_upsert f)
     | PositionDelete \<Rightarrow> map_option Ev_PositionDelete (as_position_delete f)
     | RiskAccountSet \<Rightarrow> map_option Ev_RiskAccountSet (as_risk_account_set f)
     | InsuranceFundSet \<Rightarrow> map_option Ev_InsuranceFundSet (as_insurance_fund_set f)
     | FundingSettled \<Rightarrow> map_option Ev_FundingSettled (as_funding_settled f)))"

lemmas kind_builds = pfu.kind_build pou.kind_build pod.kind_build pas.kind_build pti.kind_build pme.kind_build ppu.kind_build ppd.kind_build pra.kind_build pif.kind_build pfs.kind_build

lemmas wf_builds = pfu.wf_build pou.wf_build pod.wf_build pas.wf_build pti.wf_build pme.wf_build ppu.wf_build ppd.wf_build pra.wf_build pif.wf_build pfs.wf_build

lemmas view_builds = pfu.view_stamp pou.view_stamp pod.view_stamp pas.view_stamp pti.view_stamp pme.view_stamp ppu.view_stamp ppd.view_stamp pra.view_stamp pif.view_stamp pfs.view_stamp

lemma wf_stamp: "wf_frame f \<Longrightarrow> fits_u 2 d \<Longrightarrow> fits_u 8 s \<Longrightarrow> wf_frame (stamp d s f)"
  by (simp add: wf_frame_def stamp_def)

lemma wf_frame_of: "wf_event e \<Longrightarrow> wf_frame (frame_of e)"
  by (cases e) (simp_all add: wf_builds)

lemma event_of_frame_of: "wf_event e \<Longrightarrow> event_of (stamp d s (frame_of e)) = Some e"
  by (cases e) (simp_all add: event_of_def kind_builds view_builds)

lemma from_bytes_as_bytes: "wf_frame f \<Longrightarrow> from_bytes (as_bytes f @ rest) = Some f"
  by (simp add: from_bytes_def as_bytes_def FRAME_SIZE_def frame.length_put frame.get_put)

text \<open>
  C40. A persistence event survives the wire. Stamped with a publisher and a sequence number, written
  as bytes and read back, with anything behind it in the buffer, the frame is the same, and the
  writer that looks at its kind gets exactly the event that was published: no payload is ever read
  as another kind. A shorter buffer is refused.
\<close>

theorem persist_round_trip:
  assumes "wf_event e" "fits_u 2 publisher" "fits_u 8 seq"
  shows "\<exists>f. from_bytes (as_bytes (stamp publisher seq (frame_of e)) @ rest) = Some f \<and> event_of f = Some e \<and>
      fr_publisher_id f = publisher \<and> fr_seq f = seq \<and> length (as_bytes f) = FRAME_SIZE \<and>
      from_bytes (take n (as_bytes f)) = (if n < FRAME_SIZE then None else Some f)"
proof -
  let ?f = "stamp publisher seq (frame_of e)"
  have wf: "wf_frame ?f"
    using assms by (simp add: wf_stamp wf_frame_of)
  then have len: "length (as_bytes ?f) = FRAME_SIZE"
    by (simp add: as_bytes_def FRAME_SIZE_def frame.length_put)
  then have "from_bytes (take n (as_bytes ?f)) = (if n < FRAME_SIZE then None else Some ?f)"
    using from_bytes_as_bytes [OF wf, of "[]"] by (simp add: from_bytes_def)
  moreover have "fr_publisher_id ?f = publisher" "fr_seq ?f = seq"
    by (simp_all add: stamp_def)
  ultimately show ?thesis
    using from_bytes_as_bytes [OF wf, of rest] event_of_frame_of [OF assms(1), of publisher seq] len by simp
qed

theorem persist_round_trip_witness:
  "\<exists>f. from_bytes (as_bytes (stamp 1 7 (frame_of (Ev_InsuranceFundSet \<lparr>ifs_balance_atoms = - 5\<rparr>))) @ [1]) = Some f \<and>
     event_of f = Some (Ev_InsuranceFundSet \<lparr>ifs_balance_atoms = - 5\<rparr>) \<and> from_bytes (take 151 (as_bytes f)) = None"
  using persist_round_trip [of "Ev_InsuranceFundSet \<lparr>ifs_balance_atoms = - 5\<rparr>" 1 7 "[1]" 151]
  by (auto simp: wf_insurance_fund_payload_def fits_i_def fits_u_def FRAME_SIZE_def)

text \<open>The sizes of the two structs whose comments give a smaller one.\<close>

theorem payload_sizes:
  "wf_position_upsert_payload p \<Longrightarrow> length (put_position_upsert_payload p) = 64"
  "wf_funding_payload q \<Longrightarrow> length (put_funding_payload q) = 56"
  by (rule position_upsert_payload.length_put funding_payload.length_put; assumption)+

text \<open>
  A string longer than its field is cut at a byte, which can split a character: the reader then gives
  the empty string, not a prefix.
\<close>

theorem cut_character_reads_empty:
  "valid_utf8 (replicate 15 97 @ [195, 169]) \<and> unpack_str (pack_str 16 (replicate 15 97 @ [195, 169])) = []"
  by code_simp

end
