(* ===== verification/CounterForward.thy ===== *)
theory CounterForward
  imports Sbe PersistEvent
begin

text \<open>
  Requests and frames forwarded between desks, \<open>src/src/transport/counter_forward.rs\<close>, and the
  16-byte strings of \<open>src/src/transport/mod.rs\<close>.
\<close>

definition COUNTER_FORWARD_KIND_NEW_ORDER :: nat where "COUNTER_FORWARD_KIND_NEW_ORDER = 1"
definition COUNTER_FORWARD_KIND_CANCEL :: nat where "COUNTER_FORWARD_KIND_CANCEL = 2"
definition COUNTER_FORWARD_KIND_WS_FRAME :: nat where "COUNTER_FORWARD_KIND_WS_FRAME = 3"
definition COUNTER_FORWARD_MAX_CLIENT_ID :: nat where "COUNTER_FORWARD_MAX_CLIENT_ID = 32"
definition COUNTER_FORWARD_MAX_WS_FRAME :: nat where "COUNTER_FORWARD_MAX_WS_FRAME = 512"

lemmas forward_consts = COUNTER_FORWARD_KIND_NEW_ORDER_def COUNTER_FORWARD_KIND_CANCEL_def
  COUNTER_FORWARD_KIND_WS_FRAME_def COUNTER_FORWARD_MAX_CLIENT_ID_def COUNTER_FORWARD_MAX_WS_FRAME_def

record CounterForwardOrderMeta =
  fm_user_id :: int
  fm_symbol :: bytes
  fm_side :: nat
  fm_pad1 :: bytes
  fm_order_type :: bytes
  fm_price :: nat
  fm_qty :: nat
  fm_freeze_price :: nat
  fm_initial_margin_atoms :: int
  fm_client_order_id_len :: nat
  fm_pad2 :: bytes
  fm_client_order_id :: bytes

definition put_forward_meta :: "CounterForwardOrderMeta \<Rightarrow> bytes" where
  "put_forward_meta m =
     put_i 8 (fm_user_id m) @ fm_symbol m @ put_u 1 (fm_side m) @ fm_pad1 m @ fm_order_type m @
     put_u 8 (fm_price m) @ put_u 8 (fm_qty m) @ put_u 8 (fm_freeze_price m) @
     put_i 8 (fm_initial_margin_atoms m) @ put_u 1 (fm_client_order_id_len m) @ fm_pad2 m @
     fm_client_order_id m"

definition get_forward_meta :: "bytes \<Rightarrow> CounterForwardOrderMeta" where
  "get_forward_meta bs =
     \<lparr>fm_user_id = i_at 0 8 bs, fm_symbol = slice 8 16 bs, fm_side = u_at 24 1 bs,
      fm_pad1 = slice 25 7 bs, fm_order_type = slice 32 16 bs, fm_price = u_at 48 8 bs,
      fm_qty = u_at 56 8 bs, fm_freeze_price = u_at 64 8 bs,
      fm_initial_margin_atoms = i_at 72 8 bs, fm_client_order_id_len = u_at 80 1 bs,
      fm_pad2 = slice 81 7 bs, fm_client_order_id = slice 88 32 bs\<rparr>"

definition wf_forward_meta :: "CounterForwardOrderMeta \<Rightarrow> bool" where
  "wf_forward_meta m \<longleftrightarrow> fits_i 8 (fm_user_id m) \<and> length (fm_symbol m) = 16 \<and>
     fits_u 1 (fm_side m) \<and> length (fm_pad1 m) = 7 \<and> length (fm_order_type m) = 16 \<and>
     fits_u 8 (fm_price m) \<and> fits_u 8 (fm_qty m) \<and> fits_u 8 (fm_freeze_price m) \<and>
     fits_i 8 (fm_initial_margin_atoms m) \<and> fits_u 1 (fm_client_order_id_len m) \<and>
     length (fm_pad2 m) = 7 \<and> length (fm_client_order_id m) = 32"

interpretation forward_meta: wire 120 put_forward_meta get_forward_meta wf_forward_meta
  by unfold_locales (simp_all add: put_forward_meta_def get_forward_meta_def wf_forward_meta_def wire_simps)

record CounterForwardNewOrder =
  fn_kind :: nat
  fn_ingress_desk_id :: nat
  fn_pad :: bytes
  fn_req :: NewOrderRequest
  fn_meta :: CounterForwardOrderMeta

definition put_forward_new_order :: "CounterForwardNewOrder \<Rightarrow> bytes" where
  "put_forward_new_order m =
     put_u 1 (fn_kind m) @ put_u 2 (fn_ingress_desk_id m) @ fn_pad m @ put_new_order (fn_req m) @
     put_forward_meta (fn_meta m)"

definition get_forward_new_order :: "bytes \<Rightarrow> CounterForwardNewOrder" where
  "get_forward_new_order bs =
     \<lparr>fn_kind = u_at 0 1 bs, fn_ingress_desk_id = u_at 1 2 bs, fn_pad = slice 3 5 bs,
      fn_req = get_new_order (slice 8 64 bs),
      fn_meta = get_forward_meta (slice 72 120 bs)\<rparr>"

definition wf_forward_new_order :: "CounterForwardNewOrder \<Rightarrow> bool" where
  "wf_forward_new_order m \<longleftrightarrow> fits_u 1 (fn_kind m) \<and>
     fits_u 2 (fn_ingress_desk_id m) \<and> length (fn_pad m) = 5 \<and> wf_new_order (fn_req m) \<and>
     wf_forward_meta (fn_meta m)"

interpretation forward_new_order: wire 192 put_forward_new_order get_forward_new_order wf_forward_new_order
  by unfold_locales (simp_all add: put_forward_new_order_def get_forward_new_order_def wf_forward_new_order_def wire_simps forward_meta.length_put forward_meta.get_put_exact forward_meta.put_get forward_meta.wf_get new_order.length_put new_order.get_put_exact new_order.put_get new_order.wf_get)

record CounterForwardCancel =
  fc_kind :: nat
  fc_ingress_desk_id :: nat
  fc_pad :: bytes
  fc_req :: CancelOrderRequest

definition put_forward_cancel :: "CounterForwardCancel \<Rightarrow> bytes" where
  "put_forward_cancel m =
     put_u 1 (fc_kind m) @ put_u 2 (fc_ingress_desk_id m) @ fc_pad m @
     put_cancel_request (fc_req m)"

definition get_forward_cancel :: "bytes \<Rightarrow> CounterForwardCancel" where
  "get_forward_cancel bs =
     \<lparr>fc_kind = u_at 0 1 bs, fc_ingress_desk_id = u_at 1 2 bs, fc_pad = slice 3 5 bs,
      fc_req = get_cancel_request (slice 8 24 bs)\<rparr>"

definition wf_forward_cancel :: "CounterForwardCancel \<Rightarrow> bool" where
  "wf_forward_cancel m \<longleftrightarrow> fits_u 1 (fc_kind m) \<and>
     fits_u 2 (fc_ingress_desk_id m) \<and> length (fc_pad m) = 5 \<and> wf_cancel_request (fc_req m)"

interpretation forward_cancel: wire 32 put_forward_cancel get_forward_cancel wf_forward_cancel
  by unfold_locales (simp_all add: put_forward_cancel_def get_forward_cancel_def wf_forward_cancel_def wire_simps cancel_request.length_put cancel_request.get_put_exact cancel_request.put_get cancel_request.wf_get)

record CounterForwardWsFrame =
  fw_kind :: nat
  fw_user_id :: int
  fw_order_id :: nat
  fw_len :: nat
  fw_pad :: bytes
  fw_payload :: bytes

definition put_forward_ws :: "CounterForwardWsFrame \<Rightarrow> bytes" where
  "put_forward_ws m =
     put_u 1 (fw_kind m) @ put_i 8 (fw_user_id m) @ put_u 8 (fw_order_id m) @ put_u 2 (fw_len m) @
     fw_pad m @ fw_payload m"

definition get_forward_ws :: "bytes \<Rightarrow> CounterForwardWsFrame" where
  "get_forward_ws bs =
     \<lparr>fw_kind = u_at 0 1 bs, fw_user_id = i_at 1 8 bs, fw_order_id = u_at 9 8 bs,
      fw_len = u_at 17 2 bs, fw_pad = slice 19 5 bs, fw_payload = slice 24 512 bs\<rparr>"

definition wf_forward_ws :: "CounterForwardWsFrame \<Rightarrow> bool" where
  "wf_forward_ws m \<longleftrightarrow> fits_u 1 (fw_kind m) \<and> fits_i 8 (fw_user_id m) \<and>
     fits_u 8 (fw_order_id m) \<and> fits_u 2 (fw_len m) \<and> length (fw_pad m) = 5 \<and>
     length (fw_payload m) = 512"

interpretation forward_ws: wire 536 put_forward_ws get_forward_ws wf_forward_ws
  by unfold_locales (simp_all add: put_forward_ws_def get_forward_ws_def wf_forward_ws_def wire_simps)

datatype CounterForwardMsg =
    ForwardNewOrder CounterForwardNewOrder
  | ForwardCancel CounterForwardCancel
  | ForwardWsFrame CounterForwardWsFrame

definition pack_str16 :: "bytes \<Rightarrow> bytes" where
  "pack_str16 value = (let n = min (length value) 16 in take n value @ replicate (16 - n) 0)"

definition unpack_str16 :: "bytes \<Rightarrow> bytes option" where
  "unpack_str16 value =
     (let s = takeWhile (\<lambda>b. b \<noteq> 0) value in if valid_utf8 s then Some s else None)"

definition pack_client_order_id :: "bytes \<Rightarrow> nat \<times> bytes" where
  "pack_client_order_id value =
     (let n = min (length value) COUNTER_FORWARD_MAX_CLIENT_ID
      in (n mod 256, take n value @ replicate (COUNTER_FORWARD_MAX_CLIENT_ID - n) 0))"

definition unpack_client_order_id :: "nat \<Rightarrow> bytes \<Rightarrow> bytes" where
  "unpack_client_order_id len value =
     (let s = take (min len COUNTER_FORWARD_MAX_CLIENT_ID) value in if valid_utf8 s then s else [])"

definition forward_meta_new :: "int \<Rightarrow> bytes \<Rightarrow> nat \<Rightarrow> bytes \<Rightarrow> nat option \<Rightarrow> nat \<Rightarrow> nat \<Rightarrow> int \<Rightarrow> bytes \<Rightarrow>
    CounterForwardOrderMeta" where
  "forward_meta_new user_id symbol side order_type price qty freeze_price initial_margin_atoms client_order_id =
     (let (len, packed) = pack_client_order_id client_order_id
      in \<lparr>fm_user_id = user_id, fm_symbol = symbol, fm_side = side, fm_pad1 = replicate 7 0,
          fm_order_type = pack_str16 order_type, fm_price = (case price of Some p \<Rightarrow> p | None \<Rightarrow> 0), fm_qty = qty,
          fm_freeze_price = freeze_price, fm_initial_margin_atoms = initial_margin_atoms,
          fm_client_order_id_len = len, fm_pad2 = replicate 7 0, fm_client_order_id = packed\<rparr>)"

definition client_order_id_string :: "CounterForwardOrderMeta \<Rightarrow> bytes" where
  "client_order_id_string m = unpack_client_order_id (fm_client_order_id_len m) (fm_client_order_id m)"

definition forward_new_order_new :: "nat \<Rightarrow> NewOrderRequest \<Rightarrow> CounterForwardOrderMeta \<Rightarrow> CounterForwardNewOrder" where
  "forward_new_order_new ingress_desk_id req meta =
     \<lparr>fn_kind = COUNTER_FORWARD_KIND_NEW_ORDER, fn_ingress_desk_id = ingress_desk_id, fn_pad = replicate 5 0,
      fn_req = req, fn_meta = meta\<rparr>"

definition forward_cancel_new :: "nat \<Rightarrow> CancelOrderRequest \<Rightarrow> CounterForwardCancel" where
  "forward_cancel_new ingress_desk_id req =
     \<lparr>fc_kind = COUNTER_FORWARD_KIND_CANCEL, fc_ingress_desk_id = ingress_desk_id, fc_pad = replicate 5 0,
      fc_req = req\<rparr>"

definition forward_ws_new :: "int \<Rightarrow> nat \<Rightarrow> bytes \<Rightarrow> CounterForwardWsFrame option" where
  "forward_ws_new user_id order_id payload =
     (if length payload > COUNTER_FORWARD_MAX_WS_FRAME then None
      else Some \<lparr>fw_kind = COUNTER_FORWARD_KIND_WS_FRAME, fw_user_id = user_id, fw_order_id = order_id,
         fw_len = length payload mod 65536, fw_pad = replicate 5 0,
         fw_payload = payload @ drop (length payload) (replicate COUNTER_FORWARD_MAX_WS_FRAME 0)\<rparr>)"

definition ws_payload :: "CounterForwardWsFrame \<Rightarrow> bytes" where
  "ws_payload f = take (min (fw_len f) COUNTER_FORWARD_MAX_WS_FRAME) (fw_payload f)"

subsection \<open>Lemmas\<close>

lemma length_pack_str16 [simp]: "length (pack_str16 s) = 16"
  by (simp add: pack_str16_def Let_def)

lemma pack_str16_is_pack_str: "pack_str16 s = pack_str 16 s"
  by (simp add: pack_str16_def pack_str_def)

lemma unpack_pack_str16:
  assumes "length s \<le> 16" "0 \<notin> set s" "valid_utf8 s"
  shows "unpack_str16 (pack_str16 s) = Some s"
proof -
  have "takeWhile (\<lambda>b. b \<noteq> 0) (s @ replicate (16 - length s) 0) = s"
    using assms(2) by (cases "16 - length s") (auto simp: takeWhile_append)
  then show ?thesis
    using assms by (simp add: unpack_str16_def pack_str16_def Let_def)
qed

lemma client_id_round_trip:
  assumes "length s \<le> 32" "valid_utf8 s" "pack_client_order_id s = (n, packed)"
  shows "unpack_client_order_id n packed = s" "length packed = 32" "fits_u 1 n"
  using assms by (auto simp: pack_client_order_id_def unpack_client_order_id_def forward_consts fits_u_def Let_def)

lemma client_order_id_kept:
  assumes "length c \<le> 32" "valid_utf8 c"
  shows "client_order_id_string (forward_meta_new uid s16 sd t p q fz im c) = c"
proof -
  obtain n packed where "pack_client_order_id c = (n, packed)"
    by (cases "pack_client_order_id c")
  then show ?thesis
    using client_id_round_trip [OF assms] by (simp add: client_order_id_string_def forward_meta_new_def)
qed

lemma ws_payload_new:
  assumes "forward_ws_new u oid bs = Some f"
  shows "ws_payload f = bs"
  using assms by (auto simp: forward_ws_new_def ws_payload_def forward_consts split: if_splits)

lemma wf_forward_ws_new:
  assumes "forward_ws_new u oid bs = Some f" "fits_i 8 u" "fits_u 8 oid"
  shows "wf_forward_ws f"
  using assms by (auto simp: forward_ws_new_def wf_forward_ws_def forward_consts fits_u_def split: if_splits)

end
