(* ===== verification/Aeron.thy ===== *)
theory Aeron
  imports CounterForward
begin

text \<open>
  Publishing and receiving, \<open>src/src/transport/aeron_transport.rs\<close>.

  Aeron itself and the \<open>rtrb\<close> rings are parameters: \<open>try_claim\<close> asks the publication for a buffer of
  a given length, \<open>commit\<close> hands a filled buffer over, and \<open>push\<close> puts a message into a ring unless it
  is full. What the development relies on is named where it is used: a claimed buffer has the length
  that was asked for. The publishers retry on back pressure; the callbacks decode a frame and push it,
  counting the messages a full ring drops.
\<close>

datatype TransportError = Disconnected | BackPressured | Closed

datatype AeronError = AeronBackPressured | AeronNotConnected | AeronClosed | AeronOther

datatype InboundMsg = NewOrder NewOrderRequest | CancelOrder CancelOrderRequest

definition MAX_BACKPRESSURE_SPINS :: nat where "MAX_BACKPRESSURE_SPINS = 100000"

subsection \<open>Publishing\<close>

type_synonym 'p claim = "nat \<Rightarrow> 'p \<Rightarrow> (AeronError + bytes) \<times> 'p"

type_synonym 'p commit = "bytes \<Rightarrow> 'p \<Rightarrow> bool \<times> 'p"

function claim_loop :: "'p claim \<Rightarrow> nat \<Rightarrow> nat \<Rightarrow> 'p \<Rightarrow> (TransportError + bytes) \<times> 'p" where
  "claim_loop try_claim n spins p =
     (case try_claim n p of
        (Inr buf, p) \<Rightarrow> (Inr buf, p)
      | (Inl AeronBackPressured, p) \<Rightarrow>
          if MAX_BACKPRESSURE_SPINS \<le> spins + 1 then (Inl BackPressured, p)
          else claim_loop try_claim n (spins + 1) p
      | (Inl AeronNotConnected, p) \<Rightarrow> (Inl Disconnected, p)
      | (Inl AeronClosed, p) \<Rightarrow> (Inl Closed, p)
      | (Inl AeronOther, p) \<Rightarrow> (Inl BackPressured, p))"
  by pat_completeness auto
termination
  by (relation "measure (\<lambda>(_, _, spins, _). MAX_BACKPRESSURE_SPINS - spins)") auto

declare claim_loop.simps [simp del]

definition publish_with_retry_claim ::
  "'p claim \<Rightarrow> 'p commit \<Rightarrow> nat \<Rightarrow> (bytes \<Rightarrow> bytes) \<Rightarrow> 'p \<Rightarrow> (TransportError + unit) \<times> 'p" where
  "publish_with_retry_claim try_claim commit n writer p =
     (case claim_loop try_claim n 0 p of
        (Inl e, p) \<Rightarrow> (Inl e, p)
      | (Inr buf, p) \<Rightarrow>
          (case commit (writer buf) p of
             (True, p) \<Rightarrow> (Inr (), p)
           | (False, p) \<Rightarrow> (Inl BackPressured, p)))"

definition publish_order_update :: "'p claim \<Rightarrow> 'p commit \<Rightarrow> OrderUpdateMsg \<Rightarrow> 'p \<Rightarrow> (TransportError + unit) \<times> 'p" where
  "publish_order_update try_claim commit msg =
     publish_with_retry_claim try_claim commit 80 (\<lambda>buf. snd (encode_order_update msg buf))"

definition publish_trade :: "'p claim \<Rightarrow> 'p commit \<Rightarrow> TradeNotification \<Rightarrow> 'p \<Rightarrow> (TransportError + unit) \<times> 'p" where
  "publish_trade try_claim commit msg =
     publish_with_retry_claim try_claim commit 72 (\<lambda>buf. snd (encode_trade_notification msg buf))"

definition publish_new_order :: "'p claim \<Rightarrow> 'p commit \<Rightarrow> NewOrderRequest \<Rightarrow> 'p \<Rightarrow> (TransportError + unit) \<times> 'p" where
  "publish_new_order try_claim commit req =
     publish_with_retry_claim try_claim commit 72 (\<lambda>buf. snd (encode_new_order req buf))"

definition publish_cancel :: "'p claim \<Rightarrow> 'p commit \<Rightarrow> CancelOrderRequest \<Rightarrow> 'p \<Rightarrow> (TransportError + unit) \<times> 'p" where
  "publish_cancel try_claim commit req =
     publish_with_retry_claim try_claim commit 32 (\<lambda>buf. snd (encode_cancel_order req buf))"

text \<open>A packed struct is copied as it is; \<open>bs\<close> is its bytes, \<open>length bs\<close> its size.\<close>

definition publish_pod :: "'p claim \<Rightarrow> 'p commit \<Rightarrow> bytes \<Rightarrow> 'p \<Rightarrow> (TransportError + unit) \<times> 'p" where
  "publish_pod try_claim commit bs =
     publish_with_retry_claim try_claim commit (length bs) (\<lambda>buf. copy_at 0 bs buf)"

definition forward_new_order :: "'p claim \<Rightarrow> 'p commit \<Rightarrow> CounterForwardNewOrder \<Rightarrow> 'p \<Rightarrow> (TransportError + unit) \<times> 'p" where
  "forward_new_order try_claim commit msg = publish_pod try_claim commit (put_forward_new_order msg)"

definition forward_cancel :: "'p claim \<Rightarrow> 'p commit \<Rightarrow> CounterForwardCancel \<Rightarrow> 'p \<Rightarrow> (TransportError + unit) \<times> 'p" where
  "forward_cancel try_claim commit msg = publish_pod try_claim commit (put_forward_cancel msg)"

definition forward_ws_frame :: "'p claim \<Rightarrow> 'p commit \<Rightarrow> CounterForwardWsFrame \<Rightarrow> 'p \<Rightarrow> (TransportError + unit) \<times> 'p" where
  "forward_ws_frame try_claim commit msg = publish_pod try_claim commit (put_forward_ws msg)"

definition publish_frame :: "'p claim \<Rightarrow> 'p commit \<Rightarrow> PersistFrame \<Rightarrow> 'p \<Rightarrow> (TransportError + unit) \<times> 'p" where
  "publish_frame try_claim commit frame =
     publish_with_retry_claim try_claim commit (length (as_bytes frame)) (\<lambda>buf. copy_at 0 (as_bytes frame) buf)"

subsection \<open>Receiving\<close>

text \<open>A callback owns the producer of a ring and a counter of dropped messages.\<close>

type_synonym ('m, 'q) push = "'m \<Rightarrow> 'q \<Rightarrow> 'q option"

definition push_or_drop :: "('m, 'q) push \<Rightarrow> 'm \<Rightarrow> 'q \<times> nat \<Rightarrow> 'q \<times> nat" where
  "push_or_drop push m s =
     (case push m (fst s) of Some q \<Rightarrow> (q, snd s) | None \<Rightarrow> (fst s, as_u64 (snd s + 1)))"

definition order_on_data :: "(InboundMsg, 'q) push \<Rightarrow> bytes \<Rightarrow> 'q \<times> nat \<Rightarrow> 'q \<times> nat" where
  "order_on_data push data s =
     (if length data < 8 then s
      else let template_id = u_at 2 2 data in
        if template_id = 1 then
          (case decode_new_order data of
             Some req \<Rightarrow> push_or_drop push (NewOrder req) s
           | None \<Rightarrow> (fst s, as_u64 (snd s + 1)))
        else if template_id = 2 then
          (case decode_cancel_order data of
             Some req \<Rightarrow> push_or_drop push (CancelOrder req) s
           | None \<Rightarrow> s)
        else s)"

definition order_update_on_data :: "(OrderUpdateMsg, 'q) push \<Rightarrow> bytes \<Rightarrow> 'q \<times> nat \<Rightarrow> 'q \<times> nat" where
  "order_update_on_data push data s =
     (if length data < 80 then s
      else if u_at 2 2 data = TEMPLATE_ORDER_UPDATE then
        (case decode_order_update data of Some msg \<Rightarrow> push_or_drop push msg s | None \<Rightarrow> s)
      else s)"

definition trade_on_data :: "(TradeNotification, 'q) push \<Rightarrow> bytes \<Rightarrow> 'q \<times> nat \<Rightarrow> 'q \<times> nat" where
  "trade_on_data push data s =
     (if length data < 72 then s
      else if u_at 2 2 data = TEMPLATE_TRADE_NOTIFICATION
           then push_or_drop push (get_trade_note (drop 8 data)) s
      else s)"

definition forward_on_data :: "(CounterForwardMsg, 'q) push \<Rightarrow> bytes \<Rightarrow> 'q \<times> nat \<Rightarrow> 'q \<times> nat" where
  "forward_on_data push data s =
     (case data of [] \<Rightarrow> s
      | b # _ \<Rightarrow>
        (let kind = unat b;
             msg = (if kind = COUNTER_FORWARD_KIND_NEW_ORDER \<and> 192 \<le> length data
                    then Some (ForwardNewOrder (get_forward_new_order data))
                    else if kind = COUNTER_FORWARD_KIND_CANCEL \<and> 32 \<le> length data
                    then Some (ForwardCancel (get_forward_cancel data))
                    else if kind = COUNTER_FORWARD_KIND_WS_FRAME \<and> 536 \<le> length data
                    then Some (ForwardWsFrame (get_forward_ws data))
                    else None)
         in case msg of Some m \<Rightarrow> push_or_drop push m s | None \<Rightarrow> s))"

definition persist_on_data :: "(PersistFrame, 'q) push \<Rightarrow> bytes \<Rightarrow> 'q \<times> nat \<Rightarrow> 'q \<times> nat" where
  "persist_on_data push data s =
     (case from_bytes data of None \<Rightarrow> s | Some frame \<Rightarrow> push_or_drop push frame s)"

text \<open>Three rings polled in turn: the one whose turn it is first, then the other two in cyclic order.\<close>

type_synonym ('m, 'q) pop = "'q \<Rightarrow> ('m \<times> 'q) option"

definition pop_or_else :: "('m, 'q) pop \<Rightarrow> nat \<Rightarrow> nat \<Rightarrow> nat \<Rightarrow> (nat \<Rightarrow> 'q) \<Rightarrow> 'm option \<times> (nat \<Rightarrow> 'q)" where
  "pop_or_else pop i j k rings =
     (case pop (rings i) of
        Some (m, q) \<Rightarrow> (Some m, rings(i := q))
      | None \<Rightarrow> (case pop (rings j) of
          Some (m, q) \<Rightarrow> (Some m, rings(j := q))
        | None \<Rightarrow> (case pop (rings k) of
            Some (m, q) \<Rightarrow> (Some m, rings(k := q))
          | None \<Rightarrow> (None, rings))))"

definition depth_poll :: "('m, 'q) pop \<Rightarrow> nat \<Rightarrow> (nat \<Rightarrow> 'q) \<Rightarrow> 'm option \<times> nat \<times> (nat \<Rightarrow> 'q)" where
  "depth_poll pop poll_counter rings =
     (let r = poll_counter mod 3;
          (m, rings) = (if r = 0 then pop_or_else pop 0 1 2 rings
                        else if r = 1 then pop_or_else pop 1 2 0 rings
                        else pop_or_else pop 2 0 1 rings)
      in (m, as_u64 (poll_counter + 1), rings))"


subsection \<open>Lemmas\<close>

text \<open>What Aeron documents of a claim: the buffer has the length that was asked for.\<close>

definition claims_exact :: "'p claim \<Rightarrow> bool" where
  "claims_exact try_claim \<longleftrightarrow> (\<forall>n p buf p'. try_claim n p = (Inr buf, p') \<longrightarrow> length buf = n)"

lemma claim_loop_length:
  "claims_exact try_claim \<Longrightarrow> claim_loop try_claim n spins p = (Inr buf, p') \<Longrightarrow> length buf = n"
proof (induction try_claim n spins p rule: claim_loop.induct)
  case (1 try_claim n spins p)
  obtain r q where tc: "try_claim n p = (r, q)"
    by (cases "try_claim n p")
  show ?case
  proof (cases r)
    case (Inr b)
    then have "buf = b" "p' = q"
      using 1(3) tc by (simp_all add: claim_loop.simps)
    then show ?thesis
      using 1(2) tc Inr by (auto simp: claims_exact_def)
  next
    case (Inl e)
    then have "e = AeronBackPressured" "\<not> MAX_BACKPRESSURE_SPINS \<le> spins + 1"
      "claim_loop try_claim n (spins + 1) q = (Inr buf, p')"
      using 1(3) tc by (simp_all add: claim_loop.simps [of try_claim n spins p] split: AeronError.splits if_splits)
    then show ?thesis
      using 1(1) [OF tc [symmetric]] Inl 1(2) by simp
  qed
qed

lemma publish_ok:
  assumes "claims_exact try_claim" "publish_with_retry_claim try_claim commit n writer p = (Inr (), p')"
  shows "\<exists>buf p0. length buf = n \<and> commit (writer buf) p0 = (True, p')"
proof -
  obtain r p0 where c: "claim_loop try_claim n 0 p = (r, p0)"
    by (cases "claim_loop try_claim n 0 p")
  moreover obtain buf where "r = Inr buf"
    using assms(2) c by (auto simp: publish_with_retry_claim_def split: sum.splits)
  ultimately have "length buf = n" "commit (writer buf) p0 = (True, p')"
    using assms(2) claim_loop_length [OF assms(1), of n 0 p buf p0]
    by (auto simp: publish_with_retry_claim_def split: prod.splits bool.splits)
  then show ?thesis
    by blast
qed

lemma copy_at_whole: "length bs = length buf \<Longrightarrow> copy_at 0 bs buf = bs"
  by (simp add: copy_at_def)

lemma order_frame_delivered:
  assumes "length buf = 72" "wf_new_order req"
  shows "order_on_data push (snd (encode_new_order req buf)) s = push_or_drop push (NewOrder req) s"
proof -
  let ?f = "snd (encode_new_order req buf)"
  have "length ?f = 72" "u_at 2 2 ?f = 1" "get_new_order (drop 8 ?f) = req"
    using assms nw.encode_length [of req buf] nw.encode_template [of req buf] nw.encode_body [of req buf]
    by (simp_all add: TEMPLATE_NEW_ORDER_def)
  then show ?thesis
    by (simp add: order_on_data_def decode_new_order_def)
qed

lemma cancel_frame_delivered:
  assumes "length buf = 32" "wf_cancel_request req"
  shows "order_on_data push (snd (encode_cancel_order req buf)) s = push_or_drop push (CancelOrder req) s"
proof -
  let ?f = "snd (encode_cancel_order req buf)"
  have "length ?f = 32" "u_at 2 2 ?f = 2" "get_cancel_request (drop 8 ?f) = req"
    using assms cx.encode_length [of req buf] cx.encode_template [of req buf] cx.encode_body [of req buf]
    by (simp_all add: TEMPLATE_CANCEL_ORDER_def)
  then show ?thesis
    by (simp add: order_on_data_def decode_cancel_order_def)
qed

lemma update_frame_delivered:
  assumes "length buf = 80" "wf_order_update msg"
  shows "order_update_on_data push (snd (encode_order_update msg buf)) s = push_or_drop push msg s"
proof -
  let ?f = "snd (encode_order_update msg buf)"
  have "length ?f = 80" "u_at 2 2 ?f = TEMPLATE_ORDER_UPDATE" "get_order_update (drop 8 ?f) = msg"
    using assms up.encode_length [of msg buf] up.encode_template [of msg buf] up.encode_body [of msg buf]
    by simp_all
  then show ?thesis
    by (simp add: order_update_on_data_def decode_order_update_def)
qed

lemma trade_frame_delivered:
  assumes "length buf = 72" "wf_trade_note msg"
  shows "trade_on_data push (snd (encode_trade_notification msg buf)) s = push_or_drop push msg s"
proof -
  let ?f = "snd (encode_trade_notification msg buf)"
  have "length ?f = 72" "u_at 2 2 ?f = TEMPLATE_TRADE_NOTIFICATION" "get_trade_note (drop 8 ?f) = msg"
    using assms tr.encode_length [of msg buf] tr.encode_template [of msg buf] tr.encode_body [of msg buf]
    by simp_all
  then show ?thesis
    by (simp add: trade_on_data_def)
qed

lemma persist_frame_delivered:
  assumes "length buf = length (as_bytes frame)" "wf_frame frame"
  shows "persist_on_data push (copy_at 0 (as_bytes frame) buf) s = push_or_drop push frame s"
  using assms from_bytes_as_bytes [of frame "[]"] by (simp add: copy_at_whole persist_on_data_def)

lemma put_byte: "put_u (Suc 0) k = [word_of_nat k]"
  by (simp add: put_u.simps)

definition forward_bytes :: "CounterForwardMsg \<Rightarrow> bytes" where
  "forward_bytes m = (case m of
     ForwardNewOrder x \<Rightarrow> put_forward_new_order x
   | ForwardCancel x \<Rightarrow> put_forward_cancel x
   | ForwardWsFrame x \<Rightarrow> put_forward_ws x)"

definition wf_forward :: "CounterForwardMsg \<Rightarrow> bool" where
  "wf_forward m \<longleftrightarrow> (case m of
     ForwardNewOrder x \<Rightarrow> wf_forward_new_order x \<and> fn_kind x = COUNTER_FORWARD_KIND_NEW_ORDER
   | ForwardCancel x \<Rightarrow> wf_forward_cancel x \<and> fc_kind x = COUNTER_FORWARD_KIND_CANCEL
   | ForwardWsFrame x \<Rightarrow> wf_forward_ws x \<and> fw_kind x = COUNTER_FORWARD_KIND_WS_FRAME)"

lemma forward_delivered:
  assumes "wf_forward m"
  shows "forward_on_data push (forward_bytes m) s = push_or_drop push m s"
proof (cases m)
  case (ForwardNewOrder x)
  then have wf: "wf_forward_new_order x" and k: "fn_kind x = COUNTER_FORWARD_KIND_NEW_ORDER"
    using assms by (simp_all add: wf_forward_def)
  obtain rest where "put_forward_new_order x = 1 # rest"
    using k by (simp add: put_forward_new_order_def put_byte forward_consts)
  then show ?thesis
    using ForwardNewOrder forward_new_order.length_put [OF wf] forward_new_order.get_put_exact [OF wf]
    by (simp add: forward_bytes_def forward_on_data_def forward_consts)
next
  case (ForwardCancel x)
  then have wf: "wf_forward_cancel x" and k: "fc_kind x = COUNTER_FORWARD_KIND_CANCEL"
    using assms by (simp_all add: wf_forward_def)
  obtain rest where "put_forward_cancel x = 2 # rest"
    using k by (simp add: put_forward_cancel_def put_byte forward_consts)
  then show ?thesis
    using ForwardCancel forward_cancel.length_put [OF wf] forward_cancel.get_put_exact [OF wf]
    by (simp add: forward_bytes_def forward_on_data_def forward_consts)
next
  case (ForwardWsFrame x)
  then have wf: "wf_forward_ws x" and k: "fw_kind x = COUNTER_FORWARD_KIND_WS_FRAME"
    using assms by (simp_all add: wf_forward_def)
  obtain rest where "put_forward_ws x = 3 # rest"
    using k by (simp add: put_forward_ws_def put_byte forward_consts)
  then show ?thesis
    using ForwardWsFrame forward_ws.length_put [OF wf] forward_ws.get_put_exact [OF wf]
    by (simp add: forward_bytes_def forward_on_data_def forward_consts)
qed


subsection \<open>Properties\<close>

text \<open>What a desk sends to the engine, as the desk's publisher sends it.\<close>

fun publish_inbound :: "'p claim \<Rightarrow> 'p commit \<Rightarrow> InboundMsg \<Rightarrow> 'p \<Rightarrow> (TransportError + unit) \<times> 'p" where
  "publish_inbound try_claim commit (NewOrder req) = publish_new_order try_claim commit req"
| "publish_inbound try_claim commit (CancelOrder req) = publish_cancel try_claim commit req"

fun wf_inbound :: "InboundMsg \<Rightarrow> bool" where
  "wf_inbound (NewOrder req) = wf_new_order req"
| "wf_inbound (CancelOrder req) = wf_cancel_request req"

text \<open>
  C38. An order or a cancel request that a desk publishes successfully is the message the engine's
  callback puts into its ring: some buffer was committed to Aeron, and whatever callback receives
  that buffer pushes exactly the request that was published, and counts it as dropped if its ring is
  full. No assumption on Aeron but that a claimed buffer has the requested length.
\<close>

theorem order_reaches_engine:
  assumes "claims_exact try_claim" "wf_inbound msg" "publish_inbound try_claim commit msg p = (Inr (), p')"
  shows "\<exists>frame p0. commit frame p0 = (True, p') \<and>
    (\<forall>push s. order_on_data push frame s = push_or_drop push msg s)"
proof (cases msg)
  case (NewOrder req)
  then obtain buf p0 where "length buf = 72" "commit (snd (encode_new_order req buf)) p0 = (True, p')"
    using publish_ok [OF assms(1)] assms(3) by (force simp: publish_new_order_def)
  then show ?thesis
    using order_frame_delivered [of buf req] assms(2) NewOrder by auto
next
  case (CancelOrder req)
  then obtain buf p0 where "length buf = 32" "commit (snd (encode_cancel_order req buf)) p0 = (True, p')"
    using publish_ok [OF assms(1)] assms(3) by (force simp: publish_cancel_def)
  then show ?thesis
    using cancel_frame_delivered [of buf req] assms(2) CancelOrder by auto
qed

definition demo_claim :: "bytes list claim" where
  "demo_claim n p = (Inr (replicate n 0), p)"

definition demo_commit :: "bytes list commit" where
  "demo_commit frame p = (True, p @ [frame])"

definition demo_cancel :: CancelOrderRequest where
  "demo_cancel = \<lparr>co_order_id = 7, co_participant_id = 1, co_response_stream_id = 200, co_pad = [0, 0, 0, 0]\<rparr>"

lemma demo_claims_exact: "claims_exact demo_claim"
  by (simp add: claims_exact_def demo_claim_def)

theorem order_reaches_engine_witness:
  "\<exists>p' frame p0. publish_inbound demo_claim demo_commit (CancelOrder demo_cancel) [] = (Inr (), p') \<and>
     demo_commit frame p0 = (True, p') \<and>
     order_on_data (\<lambda>m q. Some (q @ [m])) frame ([], 0) = ([CancelOrder demo_cancel], 0)"
proof -
  have wf: "wf_inbound (CancelOrder demo_cancel)"
    by (simp add: wf_cancel_request_def demo_cancel_def fits_u_def fits_i_def)
  obtain p' where p: "publish_inbound demo_claim demo_commit (CancelOrder demo_cancel) [] = (Inr (), p')"
    by (simp add: publish_cancel_def publish_with_retry_claim_def claim_loop.simps demo_claim_def demo_commit_def)
  obtain frame p0 where "demo_commit frame p0 = (True, p')"
    and d: "\<forall>push (s :: InboundMsg list \<times> nat). order_on_data push frame s = push_or_drop push (CancelOrder demo_cancel) s"
    using order_reaches_engine [OF demo_claims_exact wf p] by auto
  then show ?thesis
    using p d [rule_format, of "\<lambda>m q. Some (q @ [m])" "([], 0)"] by (auto simp: push_or_drop_def)
qed

text \<open>The same for the other streams: order updates, trades, persistence frames and forwarded messages.\<close>

lemma update_reaches_desk:
  assumes "claims_exact try_claim" "wf_order_update msg" "publish_order_update try_claim commit msg p = (Inr (), p')"
  shows "\<exists>frame p0. commit frame p0 = (True, p') \<and>
    (\<forall>push s. order_update_on_data push frame s = push_or_drop push msg s)"
  using publish_ok [OF assms(1) assms(3) [unfolded publish_order_update_def]] update_frame_delivered [OF _ assms(2)]
  by blast

lemma trade_reaches_desk:
  assumes "claims_exact try_claim" "wf_trade_note msg" "publish_trade try_claim commit msg p = (Inr (), p')"
  shows "\<exists>frame p0. commit frame p0 = (True, p') \<and>
    (\<forall>push s. trade_on_data push frame s = push_or_drop push msg s)"
  using publish_ok [OF assms(1) assms(3) [unfolded publish_trade_def]] trade_frame_delivered [OF _ assms(2)]
  by blast

lemma frame_reaches_writer:
  assumes "claims_exact try_claim" "wf_frame f" "publish_frame try_claim commit f p = (Inr (), p')"
  shows "\<exists>frame p0. commit frame p0 = (True, p') \<and>
    (\<forall>push s. persist_on_data push frame s = push_or_drop push f s)"
  using publish_ok [OF assms(1) assms(3) [unfolded publish_frame_def]] persist_frame_delivered [OF _ assms(2)]
  by blast

lemma forward_reaches_owner:
  assumes "claims_exact try_claim" "wf_forward m" "publish_pod try_claim commit (forward_bytes m) p = (Inr (), p')"
  shows "\<exists>frame p0. commit frame p0 = (True, p') \<and>
    (\<forall>push s. forward_on_data push frame s = push_or_drop push m s)"
proof -
  obtain buf p0 where b: "length buf = length (forward_bytes m)"
    and c: "commit (copy_at 0 (forward_bytes m) buf) p0 = (True, p')"
    using publish_ok [OF assms(1) assms(3) [unfolded publish_pod_def]] by blast
  have "copy_at 0 (forward_bytes m) buf = forward_bytes m"
    using b by (simp add: copy_at_whole)
  then show ?thesis
    using c forward_delivered [OF assms(2)] by metis
qed

text \<open>What Aeron answers to the claims of a publish, one after the other, and the state it is left in.\<close>

definition claimed :: "'p claim \<Rightarrow> nat \<Rightarrow> 'p \<Rightarrow> nat \<Rightarrow> 'p" where
  "claimed try_claim n p k = ((\<lambda>p. snd (try_claim n p)) ^^ k) p"

definition answer :: "'p claim \<Rightarrow> nat \<Rightarrow> 'p \<Rightarrow> nat \<Rightarrow> AeronError + bytes" where
  "answer try_claim n p k = fst (try_claim n (claimed try_claim n p k))"

fun claim_error :: "AeronError \<Rightarrow> TransportError" where
  "claim_error AeronNotConnected = Disconnected"
| "claim_error AeronClosed = Closed"
| "claim_error _ = BackPressured"

lemma claimed_0 [simp]: "claimed try_claim n p 0 = p"
  by (simp add: claimed_def)

lemma claimed_Suc: "claimed try_claim n p (Suc k) = snd (try_claim n (claimed try_claim n p k))"
  by (simp add: claimed_def)

lemma try_claim_eq: "try_claim n (claimed try_claim n p k) = (answer try_claim n p k, claimed try_claim n p (Suc k))"
  by (simp add: answer_def claimed_Suc)

lemma claim_loop_answers:
  "spins < MAX_BACKPRESSURE_SPINS \<Longrightarrow>
   claim_loop try_claim n spins (claimed try_claim n p spins) =
     (case find (\<lambda>k. answer try_claim n p k \<noteq> Inl AeronBackPressured) [spins..<MAX_BACKPRESSURE_SPINS] of
        None \<Rightarrow> (Inl BackPressured, claimed try_claim n p MAX_BACKPRESSURE_SPINS)
      | Some k \<Rightarrow> (map_sum claim_error id (answer try_claim n p k), claimed try_claim n p (Suc k)))"
proof (induction "MAX_BACKPRESSURE_SPINS - spins" arbitrary: spins)
  case (Suc d)
  note loop = claim_loop.simps [of try_claim n spins "claimed try_claim n p spins", unfolded try_claim_eq]
    and range = upt_conv_Cons [OF Suc.prems]
  show ?case
  proof (cases "answer try_claim n p spins = Inl AeronBackPressured")
    case False
    then show ?thesis
      unfolding loop range by (cases "answer try_claim n p spins") (simp_all split: AeronError.split)
  next
    case True
    then show ?thesis
      using Suc.hyps(1) [of "Suc spins"] Suc.hyps(2) Suc.prems
      unfolding loop range by (cases "Suc spins < MAX_BACKPRESSURE_SPINS") (simp_all add: not_less le_Suc_eq)
  qed
qed simp

text \<open>
  C39. A publish ends, and its outcome is decided by the first claim that does not meet back pressure.
  If the first 100000 claims all do, no further one is made and the publish reports back pressure.
  Otherwise the first other answer ends the loop: an error is reported at once, and a buffer is
  written and committed, so that the publish succeeds exactly when its commit does. The publication
  is left in the state after exactly these claims.
\<close>

theorem publish_attempts_bounded:
  "publish_with_retry_claim try_claim commit n writer p =
     (case find (\<lambda>k. answer try_claim n p k \<noteq> Inl AeronBackPressured) [0..<100000] of
        None \<Rightarrow> (Inl BackPressured, claimed try_claim n p 100000)
      | Some k \<Rightarrow>
          (case answer try_claim n p k of
             Inl e \<Rightarrow> (Inl (claim_error e), claimed try_claim n p (Suc k))
           | Inr buf \<Rightarrow>
               let (ok, p') = commit (writer buf) (claimed try_claim n p (Suc k))
               in (if ok then Inr () else Inl BackPressured, p')))"
  using claim_loop_answers [of 0 try_claim n p]
  by (simp add: publish_with_retry_claim_def MAX_BACKPRESSURE_SPINS_def Let_def
      split: option.split sum.split prod.split bool.split)

text \<open>A publication that is congested for the first two claims: the third one gets the buffer.\<close>

definition busy_claim :: "(nat \<times> bytes list) claim" where
  "busy_claim n s = (if fst s < 2 then (Inl AeronBackPressured, Suc (fst s), snd s) else (Inr (replicate n 0), Suc (fst s), snd s))"

theorem publish_attempts_bounded_witness:
  "publish_with_retry_claim busy_claim (\<lambda>b s. (True, fst s, snd s @ [b])) 2 (\<lambda>b. b) (0, []) = (Inr (), 3, [[0, 0]])"
proof -
  have first: "[0..<3] = [0, 1, 2]"
    by (simp add: upt_rec)
  have "(3 + 99997 :: nat) = 100000"
    by simp
  with upt_add_eq_append [of 0 3 99997] have "[0..<100000] = [0..<3] @ [3..<100000]"
    by (simp only: zero_le)
  then obtain ks where "[0..<100000] = [0, 1, 2] @ ks"
    unfolding first by blast
  then show ?thesis
    unfolding publish_attempts_bounded
    by (simp only:) (simp add: answer_def claimed_def busy_claim_def numeral_2_eq_2 Let_def)
qed

text \<open>
  No ring of the depth subscriber starves: when its turn comes, every third poll, the message at
  the head of a ring is the one the poll returns.
\<close>

theorem depth_poll_fair:
  assumes "pop (rings (c mod 3)) = Some (m, q)"
  shows "depth_poll pop c rings = (Some m, as_u64 (c + 1), rings(c mod 3 := q))"
proof -
  consider "c mod 3 = 0" | "c mod 3 = 1" | "c mod 3 = 2"
    by linarith
  then show ?thesis
    by cases (use assms in \<open>simp_all add: depth_poll_def pop_or_else_def Let_def\<close>)
qed

end
