(* ===== verification/MarketData.thy ===== *)
theory MarketData
  imports Float64 Engine
begin

text \<open>
  Market data, \<open>src/src/matching/market_data.rs\<close>: best prices, ten levels of depth, candles of one second,
  five seconds and one minute, the statistics of the day, and the increments between depth
  snapshots.

  Prices and quantities are \<open>f64\<close>. An array with a count is a list of the full length with the
  count beside it; a write behind the end of an array is a panic. The three candle windows run the
  same code, which is \<open>update_bucket\<close> here, and the two increments differ in the capacity of their
  arrays only, which is an argument of \<open>compute_diff\<close>.
\<close>

subsection \<open>Data\<close>

record BBOSnapshot =
  bbo_timestamp :: nat
  bbo_sequence :: nat
  best_bid_price :: f64
  best_bid_qty :: f64
  best_ask_price :: f64
  best_ask_qty :: f64
  bid_level_count :: nat
  ask_level_count :: nat

definition bbo_default :: BBOSnapshot where
  "bbo_default = \<lparr>bbo_timestamp = 0, bbo_sequence = 0, best_bid_price = Fin 0, best_bid_qty = Fin 0,
     best_ask_price = Fin 0, best_ask_qty = Fin 0, bid_level_count = 0, ask_level_count = 0\<rparr>"

definition mid_price :: "BBOSnapshot \<Rightarrow> f64" where
  "mid_price b = f_div (f_add (best_bid_price b) (best_ask_price b)) (Fin 2)"

definition spread :: "BBOSnapshot \<Rightarrow> f64" where
  "spread b = f_sub (best_ask_price b) (best_bid_price b)"

text \<open>A level is a pair of price and quantity.\<close>

type_synonym level = "f64 \<times> f64"

definition level_default :: level where
  "level_default = (Fin 0, Fin 0)"

record Level2Snapshot =
  l2_timestamp :: nat
  l2_sequence :: nat
  l2_bids :: "level list"
  l2_asks :: "level list"
  l2_num_bids :: nat
  l2_num_asks :: nat

definition Level2Snapshot_new :: "nat \<Rightarrow> nat \<Rightarrow> Level2Snapshot" where
  "Level2Snapshot_new ts sq = \<lparr>l2_timestamp = ts, l2_sequence = sq, l2_bids = replicate 10 level_default,
     l2_asks = replicate 10 level_default, l2_num_bids = 0, l2_num_asks = 0\<rparr>"

definition l2_add_bid :: "f64 \<Rightarrow> f64 \<Rightarrow> Level2Snapshot \<Rightarrow> bool \<times> Level2Snapshot" where
  "l2_add_bid price quantity s =
     (if l2_num_bids s \<ge> 10 then (False, s)
      else (True, s\<lparr>l2_bids := (l2_bids s)[l2_num_bids s := (price, quantity)], l2_num_bids := l2_num_bids s + 1\<rparr>))"

definition l2_add_ask :: "f64 \<Rightarrow> f64 \<Rightarrow> Level2Snapshot \<Rightarrow> bool \<times> Level2Snapshot" where
  "l2_add_ask price quantity s =
     (if l2_num_asks s \<ge> 10 then (False, s)
      else (True, s\<lparr>l2_asks := (l2_asks s)[l2_num_asks s := (price, quantity)], l2_num_asks := l2_num_asks s + 1\<rparr>))"

definition l2_clear :: "Level2Snapshot \<Rightarrow> Level2Snapshot" where
  "l2_clear s = s\<lparr>l2_bids := replicate 10 level_default, l2_asks := replicate 10 level_default,
     l2_num_bids := 0, l2_num_asks := 0\<rparr>"

definition l2_best_bid :: "Level2Snapshot \<Rightarrow> level option" where
  "l2_best_bid s = (if l2_num_bids s > 0 then Some (l2_bids s ! 0) else None)"

definition l2_best_ask :: "Level2Snapshot \<Rightarrow> level option" where
  "l2_best_ask s = (if l2_num_asks s > 0 then Some (l2_asks s ! 0) else None)"

record AggregateTrade =
  ag_start_time :: nat
  ag_end_time :: nat
  ag_sequence :: nat
  ag_open :: f64
  ag_close :: f64
  ag_high :: f64
  ag_low :: f64
  ag_volume :: f64
  ag_quote_asset_volume :: f64
  ag_trade_count :: nat

definition AggregateTrade_new :: "nat \<Rightarrow> nat \<Rightarrow> nat \<Rightarrow> AggregateTrade" where
  "AggregateTrade_new st en sq = \<lparr>ag_start_time = st, ag_end_time = en, ag_sequence = sq, ag_open = Fin 0,
     ag_close = Fin 0, ag_high = Fin 0, ag_low = Fin 0, ag_volume = Fin 0, ag_quote_asset_volume = Fin 0,
     ag_trade_count = 0\<rparr>"

definition ag_init_with_first_trade :: "f64 \<Rightarrow> f64 \<Rightarrow> AggregateTrade \<Rightarrow> AggregateTrade" where
  "ag_init_with_first_trade price quantity a =
     a\<lparr>ag_open := price, ag_close := price, ag_high := price, ag_low := price, ag_volume := quantity,
       ag_quote_asset_volume := f_mul price quantity, ag_trade_count := 1\<rparr>"

definition ag_update_with_trade :: "f64 \<Rightarrow> f64 \<Rightarrow> AggregateTrade \<Rightarrow> AggregateTrade" where
  "ag_update_with_trade price quantity a =
     a\<lparr>ag_close := price, ag_high := f_max (ag_high a) price, ag_low := f_min (ag_low a) price,
       ag_volume := f_add (ag_volume a) quantity,
       ag_quote_asset_volume := f_add (ag_quote_asset_volume a) (f_mul price quantity),
       ag_trade_count := as_u64 (ag_trade_count a + 1)\<rparr>"

definition vwap :: "AggregateTrade \<Rightarrow> f64" where
  "vwap a = (if f_lt (Fin 0) (ag_volume a) then f_div (ag_quote_asset_volume a) (ag_volume a) else Fin 0)"

datatype BucketType = OneSecond | FiveSeconds | OneMinute

fun window_nanos :: "BucketType \<Rightarrow> nat" where
  "window_nanos OneSecond = 1000000000"
| "window_nanos FiveSeconds = 5000000000"
| "window_nanos OneMinute = 60000000000"

record AggregateTradeWindow =
  aw_bucket_type :: BucketType
  aw_start_time :: nat
  aw_end_time :: nat
  aw_open :: f64
  aw_high :: f64
  aw_low :: f64
  aw_close :: f64
  aw_volume :: f64
  aw_quote_asset_volume :: f64
  aw_trade_count :: nat
  aw_sequence :: nat
  aw_has_trades :: bool

definition window_new :: "BucketType \<Rightarrow> nat \<Rightarrow> nat \<Rightarrow> AggregateTradeWindow" where
  "window_new bt st sq = \<lparr>aw_bucket_type = bt, aw_start_time = st, aw_end_time = as_u64 (st + window_nanos bt),
     aw_open = Fin 0, aw_high = Fin 0, aw_low = Fin 0, aw_close = Fin 0, aw_volume = Fin 0,
     aw_quote_asset_volume = Fin 0, aw_trade_count = 0, aw_sequence = sq, aw_has_trades = False\<rparr>"

definition contains_time :: "nat \<Rightarrow> AggregateTradeWindow \<Rightarrow> bool" where
  "contains_time ts w \<longleftrightarrow> ts < aw_end_time w"

definition init_with_first_trade :: "f64 \<Rightarrow> f64 \<Rightarrow> AggregateTradeWindow \<Rightarrow> AggregateTradeWindow" where
  "init_with_first_trade price quantity w =
     w\<lparr>aw_open := price, aw_close := price, aw_high := price, aw_low := price, aw_volume := quantity,
       aw_quote_asset_volume := f_mul price quantity, aw_trade_count := 1, aw_has_trades := True\<rparr>"

text \<open>The trade count of a window is a \<open>u32\<close>.\<close>

definition update_with_trade :: "f64 \<Rightarrow> f64 \<Rightarrow> AggregateTradeWindow \<Rightarrow> AggregateTradeWindow" where
  "update_with_trade price quantity w =
     w\<lparr>aw_close := price, aw_high := f_max (aw_high w) price, aw_low := f_min (aw_low w) price,
       aw_volume := f_add (aw_volume w) quantity,
       aw_quote_asset_volume := f_add (aw_quote_asset_volume w) (f_mul price quantity),
       aw_trade_count := (aw_trade_count w + 1) mod 2 ^ 32\<rparr>"

definition to_aggregate_trade :: "AggregateTradeWindow \<Rightarrow> AggregateTrade" where
  "to_aggregate_trade w = \<lparr>ag_start_time = aw_start_time w, ag_end_time = aw_end_time w, ag_sequence = aw_sequence w,
     ag_open = aw_open w, ag_close = aw_close w, ag_high = aw_high w, ag_low = aw_low w, ag_volume = aw_volume w,
     ag_quote_asset_volume = aw_quote_asset_volume w, ag_trade_count = aw_trade_count w\<rparr>"

record Statistics24h =
  st_timestamp :: nat
  price_24h_high :: f64
  price_24h_low :: f64
  price_change_percent :: f64
  weighted_avg_price :: f64
  volume_24h :: f64
  quote_asset_volume_24h :: f64
  st_bid_price :: f64
  st_bid_qty :: f64
  st_ask_price :: f64
  st_ask_qty :: f64
  st_open_time :: nat
  st_close_time :: nat
  first_trade_id :: nat
  last_trade_id :: nat
  st_trade_count :: nat

definition Statistics24h_new :: "nat \<Rightarrow> Statistics24h" where
  "Statistics24h_new ts = \<lparr>st_timestamp = ts, price_24h_high = Fin 0, price_24h_low = Fin 0,
     price_change_percent = Fin 0, weighted_avg_price = Fin 0, volume_24h = Fin 0, quote_asset_volume_24h = Fin 0,
     st_bid_price = Fin 0, st_bid_qty = Fin 0, st_ask_price = Fin 0, st_ask_qty = Fin 0, st_open_time = 0,
     st_close_time = 0, first_trade_id = 0, last_trade_id = 0, st_trade_count = 0\<rparr>"

text \<open>Equality of \<open>f64\<close>: not a number is not equal to itself.\<close>

definition f_eq :: "f64 \<Rightarrow> f64 \<Rightarrow> bool" where
  "f_eq x y \<longleftrightarrow> x = y \<and> x \<noteq> NaN"

definition update_price_range :: "f64 \<Rightarrow> Statistics24h \<Rightarrow> Statistics24h" where
  "update_price_range price s =
     (let s = (if f_eq (price_24h_high s) (Fin 0) \<or> f_lt (price_24h_high s) price then s\<lparr>price_24h_high := price\<rparr> else s)
      in if f_eq (price_24h_low s) (Fin 0) \<or> f_lt price (price_24h_low s) then s\<lparr>price_24h_low := price\<rparr> else s)"

definition update_price_change :: "f64 \<Rightarrow> Statistics24h \<Rightarrow> Statistics24h" where
  "update_price_change open_price s =
     (if f_lt (Fin 0) open_price then
        let last_price = (if f_lt (Fin 0) (quote_asset_volume_24h s)
                          then f_div (quote_asset_volume_24h s) (volume_24h s) else Fin 0)
        in s\<lparr>price_change_percent := f_mul (f_div (f_sub last_price open_price) open_price) (Fin 100)\<rparr>
      else s)"

definition calculate_weighted_avg_price :: "Statistics24h \<Rightarrow> f64" where
  "calculate_weighted_avg_price s =
     (if f_lt (Fin 0) (volume_24h s) then f_div (quote_asset_volume_24h s) (volume_24h s) else Fin 0)"

record PublishedSnapshot =
  ps_timestamp :: nat
  ps_sequence :: nat
  ps_bbo :: BBOSnapshot
  ps_level2 :: Level2Snapshot
  ps_agg_1s :: AggregateTrade
  ps_agg_5s :: AggregateTrade
  ps_agg_1m :: AggregateTrade
  ps_stats_24h :: Statistics24h

text \<open>\<open>new\<close> of \<open>DepthSnapshotEvent\<close>, \<open>Depth50SnapshotEvent\<close> and \<open>Level2SnapshotEvent\<close>: arrays of 20, 50 and 400 levels.\<close>

definition depth_snap_new :: "nat \<Rightarrow> nat \<Rightarrow> nat \<Rightarrow> DepthEvent" where
  "depth_snap_new cap ts sq = \<lparr>ev_timestamp = ts, ev_sequence = sq, ev_num_bids = 0, ev_num_asks = 0,
     ev_bids = replicate cap (Fin 0, Fin 0), ev_asks = replicate cap (Fin 0, Fin 0)\<rparr>"

record MarketDataEngine =
  bbo_snapshot :: BBOSnapshot
  level2_snapshot :: Level2Snapshot
  statistics_24h :: Statistics24h
  active_1s_bucket :: AggregateTradeWindow
  active_5s_bucket :: AggregateTradeWindow
  active_1m_bucket :: AggregateTradeWindow
  completed_1s_trades :: "AggregateTrade list"
  completed_5s_trades :: "AggregateTrade list"
  completed_1m_trades :: "AggregateTrade list"
  max_history :: nat
  prev_depth50_bids :: "level list"
  prev_depth50_asks :: "level list"
  prev_depth50_num_bids :: nat
  prev_depth50_num_asks :: nat
  prev_level2_bids :: "level list"
  prev_level2_asks :: "level list"
  prev_level2_num_bids :: nat
  prev_level2_num_asks :: nat

definition md_new :: MarketDataEngine where
  "md_new = \<lparr>bbo_snapshot = bbo_default, level2_snapshot = Level2Snapshot_new 0 0, statistics_24h = Statistics24h_new 0,
     active_1s_bucket = window_new OneSecond 0 0, active_5s_bucket = window_new FiveSeconds 0 0,
     active_1m_bucket = window_new OneMinute 0 0, completed_1s_trades = [], completed_5s_trades = [],
     completed_1m_trades = [], max_history = 10,
     prev_depth50_bids = replicate 50 (Fin 0, Fin 0), prev_depth50_asks = replicate 50 (Fin 0, Fin 0),
     prev_depth50_num_bids = 0, prev_depth50_num_asks = 0,
     prev_level2_bids = replicate 400 (Fin 0, Fin 0), prev_level2_asks = replicate 400 (Fin 0, Fin 0),
     prev_level2_num_bids = 0, prev_level2_num_asks = 0\<rparr>"


subsection \<open>Best prices\<close>

definition update_bbo_from_trade :: "TradeEvent \<Rightarrow> BBOSnapshot \<Rightarrow> bool \<times> BBOSnapshot" where
  "update_bbo_from_trade ev b =
     (case te_side ev of
        Buy \<Rightarrow>
          if f_eq (best_ask_price b) (Fin 0) \<or> f_lt (te_price ev) (best_ask_price b)
          then (True, b\<lparr>best_ask_price := te_price ev, best_ask_qty := te_quantity ev\<rparr>)
          else if f_eq (te_price ev) (best_ask_price b) then
            (let q = f_sub (best_ask_qty b) (te_quantity ev)
             in (True, b\<lparr>best_ask_qty := (if f_lt q (Fin 0) then Fin 0 else q)\<rparr>))
          else (False, b)
      | Sell \<Rightarrow>
          if f_eq (best_bid_price b) (Fin 0) \<or> f_lt (best_bid_price b) (te_price ev)
          then (True, b\<lparr>best_bid_price := te_price ev, best_bid_qty := te_quantity ev\<rparr>)
          else if f_eq (te_price ev) (best_bid_price b) then
            (let q = f_sub (best_bid_qty b) (te_quantity ev)
             in (True, b\<lparr>best_bid_qty := (if f_lt q (Fin 0) then Fin 0 else q)\<rparr>))
          else (False, b))"

subsection \<open>Ten levels\<close>

text \<open>The tolerance \<open>1e-10\<close>.\<close>

definition EPS :: f64 where
  "EPS = rnd (1 / 10 ^ 10)"

definition near :: "f64 \<Rightarrow> f64 \<Rightarrow> bool" where
  "near x y \<longleftrightarrow> f_lt (f_abs (f_sub x y)) EPS"

text \<open>The first index below \<open>n\<close> with a property.\<close>

fun first_index :: "(nat \<Rightarrow> bool) \<Rightarrow> nat list \<Rightarrow> nat option" where
  "first_index P [] = None"
| "first_index P (i # is) = (if P i then Some i else first_index P is)"

text \<open>Move the levels behind \<open>i\<close> one place to the front and clear the last one.\<close>

definition drop_level :: "nat \<Rightarrow> nat \<Rightarrow> level list \<Rightarrow> level list" where
  "drop_level i n xs = (fold (\<lambda>j ys. ys[j := ys ! (j + 1)]) [i..<n - 1] xs)[n - 1 := level_default]"

text \<open>Move the levels from \<open>pos\<close> on one place to the back, the last one first, and write the new one.\<close>

definition put_level :: "nat \<Rightarrow> nat \<Rightarrow> level \<Rightarrow> level list \<Rightarrow> level list" where
  "put_level pos n l xs = (fold (\<lambda>i ys. ys[i + 1 := ys ! i]) (rev [pos..<n]) xs)[pos := l]"

text \<open>One side: \<open>ahead\<close> is the order in which a new price goes in front of an old one.\<close>

definition update_levels :: "(f64 \<Rightarrow> f64 \<Rightarrow> bool) \<Rightarrow> TradeEvent \<Rightarrow> nat \<Rightarrow> level list \<Rightarrow> bool \<times> nat \<times> level list" where
  "update_levels ahead ev n xs =
     (case first_index (\<lambda>i. near (fst (xs ! i)) (te_price ev)) [0..<n] of
        Some i \<Rightarrow>
          (let xs = xs[i := (fst (xs ! i), f_sub (snd (xs ! i)) (te_quantity ev))]
           in if f_lt (snd (xs ! i)) EPS then (True, n - 1, drop_level i n xs) else (True, n, xs))
      | None \<Rightarrow>
          if n < 10 then
            (let pos = (case first_index (\<lambda>i. ahead (te_price ev) (fst (xs ! i))) [0..<n] of Some i \<Rightarrow> i | None \<Rightarrow> n)
             in (True, n + 1, put_level pos n (te_price ev, te_quantity ev) xs))
          else (False, n, xs))"

definition update_level2_from_trade :: "TradeEvent \<Rightarrow> Level2Snapshot \<Rightarrow> bool \<times> Level2Snapshot" where
  "update_level2_from_trade ev s =
     (case te_side ev of
        Buy \<Rightarrow> (let (changed, n, xs) = update_levels f_lt ev (l2_num_asks s) (l2_asks s)
                in (changed, s\<lparr>l2_num_asks := n, l2_asks := xs\<rparr>))
      | Sell \<Rightarrow> (let (changed, n, xs) = update_levels (\<lambda>x y. f_lt y x) ev (l2_num_bids s) (l2_bids s)
                 in (changed, s\<lparr>l2_num_bids := n, l2_bids := xs\<rparr>)))"

subsection \<open>Candles\<close>

definition push_completed :: "nat \<Rightarrow> AggregateTrade \<Rightarrow> AggregateTrade list \<Rightarrow> AggregateTrade list" where
  "push_completed limit a xs = (let xs = xs @ [a] in if length xs > limit then tl xs else xs)"

definition update_bucket :: "BucketType \<Rightarrow> nat \<Rightarrow> TradeEvent \<Rightarrow> AggregateTradeWindow \<times> AggregateTrade list \<Rightarrow>
    AggregateTradeWindow \<times> AggregateTrade list" where
  "update_bucket bt limit ev s =
     (let (w, completed) = s in
      if contains_time (te_timestamp ev) w then
        (if \<not> aw_has_trades w then (init_with_first_trade (te_price ev) (te_quantity ev) w, completed)
         else (update_with_trade (te_price ev) (te_quantity ev) w, completed))
      else
        (let completed = (if aw_has_trades w then push_completed limit (to_aggregate_trade w) completed else completed)
         in (init_with_first_trade (te_price ev) (te_quantity ev) (window_new bt (te_timestamp ev) (te_sequence ev)),
             completed)))"

definition update_aggregate_trades_from_event :: "TradeEvent \<Rightarrow> MarketDataEngine \<Rightarrow> MarketDataEngine" where
  "update_aggregate_trades_from_event ev e =
     (let (w1, c1) = update_bucket OneSecond (max_history e) ev (active_1s_bucket e, completed_1s_trades e);
          (w5, c5) = update_bucket FiveSeconds (max_history e) ev (active_5s_bucket e, completed_5s_trades e);
          (wm, cm) = update_bucket OneMinute (max_history e) ev (active_1m_bucket e, completed_1m_trades e)
      in e\<lparr>active_1s_bucket := w1, completed_1s_trades := c1, active_5s_bucket := w5, completed_5s_trades := c5,
           active_1m_bucket := wm, completed_1m_trades := cm\<rparr>)"

subsection \<open>Events\<close>

definition stats_from_trade :: "TradeEvent \<Rightarrow> Statistics24h \<Rightarrow> Statistics24h" where
  "stats_from_trade ev s =
     (let s = s\<lparr>st_timestamp := te_timestamp ev\<rparr>;
          s = (if te_side ev = Buy then s\<lparr>st_ask_price := te_price ev\<rparr> else s\<lparr>st_bid_price := te_price ev\<rparr>);
          s = s\<lparr>volume_24h := f_add (volume_24h s) (te_quantity ev),
                quote_asset_volume_24h := f_add (quote_asset_volume_24h s) (f_mul (te_price ev) (te_quantity ev))\<rparr>;
          s = (if st_trade_count s = 0 then s\<lparr>first_trade_id := te_order_id ev\<rparr> else s);
          s = s\<lparr>last_trade_id := te_order_id ev, st_trade_count := as_u64 (st_trade_count s + 1)\<rparr>
      in update_price_range (te_price ev) s)"

definition consume_trade_event :: "TradeEvent \<Rightarrow> MarketDataEngine \<Rightarrow> bool \<times> MarketDataEngine" where
  "consume_trade_event ev e =
     (let e = e\<lparr>bbo_snapshot := (bbo_snapshot e)\<lparr>bbo_timestamp := te_timestamp ev, bbo_sequence := te_sequence ev\<rparr>,
                level2_snapshot := (level2_snapshot e)\<lparr>l2_timestamp := te_timestamp ev, l2_sequence := te_sequence ev\<rparr>,
                statistics_24h := stats_from_trade ev (statistics_24h e)\<rparr>;
          e = e\<lparr>bbo_snapshot := snd (update_bbo_from_trade ev (bbo_snapshot e))\<rparr>;
          e = e\<lparr>level2_snapshot := snd (update_level2_from_trade ev (level2_snapshot e))\<rparr>
      in (True, update_aggregate_trades_from_event ev e))"

definition reset_24h_statistics :: "nat \<Rightarrow> MarketDataEngine \<Rightarrow> MarketDataEngine" where
  "reset_24h_statistics ts e =
     e\<lparr>statistics_24h := (Statistics24h_new ts)\<lparr>st_open_time := ts, st_close_time := ts\<rparr>\<rparr>"

definition generate_published_snapshot :: "nat \<Rightarrow> nat \<Rightarrow> MarketDataEngine \<Rightarrow> PublishedSnapshot" where
  "generate_published_snapshot ts sq e =
     \<lparr>ps_timestamp = ts, ps_sequence = sq, ps_bbo = bbo_snapshot e, ps_level2 = level2_snapshot e,
      ps_agg_1s = to_aggregate_trade (active_1s_bucket e), ps_agg_5s = to_aggregate_trade (active_5s_bucket e),
      ps_agg_1m = to_aggregate_trade (active_1m_bucket e), ps_stats_24h = statistics_24h e\<rparr>"

text \<open>A depth event has counts within its arrays; a larger count is an access behind the end.\<close>

definition consume_depth_snapshot :: "DepthEvent \<Rightarrow> MarketDataEngine \<Rightarrow> MarketDataEngine exec" where
  "consume_depth_snapshot ev e =
     (if length (ev_bids ev) < ev_num_bids ev \<or> length (ev_asks ev) < ev_num_asks ev then None
      else
        let b = bbo_snapshot e;
            b = (if ev_num_bids ev > 0
                 then b\<lparr>best_bid_price := fst (ev_bids ev ! 0), best_bid_qty := snd (ev_bids ev ! 0)\<rparr> else b);
            b = (if ev_num_asks ev > 0
                 then b\<lparr>best_ask_price := fst (ev_asks ev ! 0), best_ask_qty := snd (ev_asks ev ! 0)\<rparr> else b);
            b = b\<lparr>bbo_timestamp := ev_timestamp ev, bbo_sequence := ev_sequence ev\<rparr>;
            s = l2_clear (level2_snapshot e);
            s = fold (\<lambda>(p, q) s. snd (l2_add_bid p q s)) (take (ev_num_bids ev) (ev_bids ev)) s;
            s = fold (\<lambda>(p, q) s. snd (l2_add_ask p q s)) (take (ev_num_asks ev) (ev_asks ev)) s;
            s = s\<lparr>l2_timestamp := ev_timestamp ev, l2_sequence := ev_sequence ev\<rparr>
        in Some (e\<lparr>bbo_snapshot := b, level2_snapshot := s\<rparr>))"

subsection \<open>Increments\<close>

text \<open>\<open>out_changes[out_count] = c; out_count += 1\<close>; behind the end of the array this panics.\<close>

definition emit_change :: "level \<Rightarrow> nat \<times> level list \<Rightarrow> (nat \<times> level list) exec" where
  "emit_change c s = (let (n, out) = s in if n < length out then Some (n + 1, out[n := c]) else None)"

fun emit_removed :: "level list \<Rightarrow> level list \<Rightarrow> nat \<times> level list \<Rightarrow> (nat \<times> level list) exec" where
  "emit_removed news [] s = Some s"
| "emit_removed news ((p, q) # olds) s =
     (case find (\<lambda>c. near (fst c) p) news of
        Some c \<Rightarrow>
          if f_lt EPS (f_abs (f_sub (snd c) q))
          then do { s \<leftarrow> emit_change (p, snd c) s; emit_removed news olds s }
          else emit_removed news olds s
      | None \<Rightarrow> do { s \<leftarrow> emit_change (p, Fin 0) s; emit_removed news olds s })"

fun emit_added :: "level list \<Rightarrow> level list \<Rightarrow> nat \<times> level list \<Rightarrow> (nat \<times> level list) exec" where
  "emit_added olds [] s = Some s"
| "emit_added olds ((p, q) # news) s =
     (case find (\<lambda>c. near (fst c) p) olds of
        Some _ \<Rightarrow> emit_added olds news s
      | None \<Rightarrow> do { s \<leftarrow> emit_change (p, q) s; emit_added olds news s })"

definition compute_diff :: "nat \<Rightarrow> level list \<Rightarrow> nat \<Rightarrow> level list \<Rightarrow> nat \<Rightarrow> level list \<Rightarrow> (nat \<times> level list) exec" where
  "compute_diff cap olds prev_count news curr_count out =
     (if cap < prev_count \<or> cap < curr_count then None
      else do {
        s \<leftarrow> emit_removed (take curr_count news) (take prev_count olds) (0, out);
        emit_added (take prev_count olds) (take curr_count news) s
      })"

definition compute_depth_diff :: "level list \<Rightarrow> nat \<Rightarrow> level list \<Rightarrow> nat \<Rightarrow> level list \<Rightarrow> (nat \<times> level list) exec" where
  "compute_depth_diff = compute_diff 50"

definition compute_level2_diff :: "level list \<Rightarrow> nat \<Rightarrow> level list \<Rightarrow> nat \<Rightarrow> level list \<Rightarrow> (nat \<times> level list) exec" where
  "compute_level2_diff = compute_diff 400"

definition consume_depth50_snapshot :: "DepthEvent \<Rightarrow> MarketDataEngine \<Rightarrow> (DepthEvent \<times> MarketDataEngine) exec" where
  "consume_depth50_snapshot ev e = do {
     let out = depth_snap_new 50 (ev_timestamp ev) (ev_sequence ev);
     (nb, bids) \<leftarrow> compute_depth_diff (prev_depth50_bids e) (prev_depth50_num_bids e) (ev_bids ev) (ev_num_bids ev) (ev_bids out);
     (na, asks) \<leftarrow> compute_depth_diff (prev_depth50_asks e) (prev_depth50_num_asks e) (ev_asks ev) (ev_num_asks ev) (ev_asks out);
     Some (out\<lparr>ev_num_bids := nb, ev_bids := bids, ev_num_asks := na, ev_asks := asks\<rparr>,
       e\<lparr>prev_depth50_bids := take (ev_num_bids ev) (ev_bids ev) @ drop (ev_num_bids ev) (prev_depth50_bids e),
         prev_depth50_num_bids := ev_num_bids ev,
         prev_depth50_asks := take (ev_num_asks ev) (ev_asks ev) @ drop (ev_num_asks ev) (prev_depth50_asks e),
         prev_depth50_num_asks := ev_num_asks ev\<rparr>)
   }"

definition consume_level2_snapshot :: "DepthEvent \<Rightarrow> MarketDataEngine \<Rightarrow> (DepthEvent \<times> MarketDataEngine) exec" where
  "consume_level2_snapshot ev e = do {
     let out = depth_snap_new 400 (ev_timestamp ev) (ev_sequence ev);
     (nb, bids) \<leftarrow> compute_level2_diff (prev_level2_bids e) (prev_level2_num_bids e) (ev_bids ev) (ev_num_bids ev) (ev_bids out);
     (na, asks) \<leftarrow> compute_level2_diff (prev_level2_asks e) (prev_level2_num_asks e) (ev_asks ev) (ev_num_asks ev) (ev_asks out);
     Some (out\<lparr>ev_num_bids := nb, ev_bids := bids, ev_num_asks := na, ev_asks := asks\<rparr>,
       e\<lparr>prev_level2_bids := take (ev_num_bids ev) (ev_bids ev) @ drop (ev_num_bids ev) (prev_level2_bids e),
         prev_level2_num_bids := ev_num_bids ev,
         prev_level2_asks := take (ev_num_asks ev) (ev_asks ev) @ drop (ev_num_asks ev) (prev_level2_asks e),
         prev_level2_num_asks := ev_num_asks ev\<rparr>)
   }"

end
