(* ===== verification/MdCandles.thy ===== *)
theory MdCandles
  imports MarketData
begin

text \<open>
  Candles: a run of trades is cut into groups by the windows, and a candle is the summary of its group.
\<close>

subsection \<open>Candles\<close>

fun fin_val :: "f64 \<Rightarrow> rat" where
  "fin_val (Fin r) = r"
| "fin_val _ = 0"

abbreviation prices :: "TradeEvent list \<Rightarrow> rat set" where
  "prices g \<equiv> (\<lambda>ev. fin_val (te_price ev)) ` set g"

definition traded :: "TradeEvent \<Rightarrow> f64" where
  "traded ev = f_mul (te_price ev) (te_quantity ev)"

text \<open>The summary of a group of trades.\<close>

definition candle :: "BucketType \<Rightarrow> TradeEvent list \<Rightarrow> AggregateTrade" where
  "candle bt g = \<lparr>ag_start_time = te_timestamp (hd g), ag_end_time = te_timestamp (hd g) + window_nanos bt,
     ag_sequence = te_sequence (hd g), ag_open = te_price (hd g), ag_close = te_price (last g),
     ag_high = Fin (Max (prices g)), ag_low = Fin (Min (prices g)),
     ag_volume = foldl f_add (te_quantity (hd g)) (map te_quantity (tl g)),
     ag_quote_asset_volume = foldl f_add (traded (hd g)) (map traded (tl g)),
     ag_trade_count = length g mod 2 ^ 32\<rparr>"

definition group_window :: "BucketType \<Rightarrow> TradeEvent list \<Rightarrow> AggregateTradeWindow" where
  "group_window bt g = foldl (\<lambda>w ev. update_with_trade (te_price ev) (te_quantity ev) w)
     (init_with_first_trade (te_price (hd g)) (te_quantity (hd g)) (window_new bt (te_timestamp (hd g)) (te_sequence (hd g))))
     (tl g)"

definition tick_ok :: "TradeEvent \<Rightarrow> bool" where
  "tick_ok ev \<longleftrightarrow> is_finite (te_price ev) \<and> window_nanos OneMinute \<le> te_timestamp ev \<and> te_timestamp ev < 2 ^ 63"

lemma window_nanos_bounds: "0 < window_nanos bt" "window_nanos bt \<le> window_nanos OneMinute" "window_nanos bt < 2 ^ 63"
  by (cases bt; simp)+

lemma finite_price: "tick_ok ev \<Longrightarrow> te_price ev = Fin (fin_val (te_price ev))"
  by (cases "te_price ev") (auto simp: tick_ok_def)

lemma group_window_snoc:
  "g \<noteq> [] \<Longrightarrow> group_window bt (g @ [ev]) = update_with_trade (te_price ev) (te_quantity ev) (group_window bt g)"
  by (simp add: group_window_def)

lemma group_window_one:
  "group_window bt [ev] = init_with_first_trade (te_price ev) (te_quantity ev) (window_new bt (te_timestamp ev) (te_sequence ev))"
  by (simp add: group_window_def)

lemma group_window_time:
  "g \<noteq> [] \<Longrightarrow> aw_end_time (group_window bt g) = as_u64 (te_timestamp (hd g) + window_nanos bt) \<and> aw_has_trades (group_window bt g)"
proof (induction g rule: rev_induct)
  case (snoc ev g)
  then show ?case
    by (cases "g = []") (simp_all add: group_window_one group_window_snoc init_with_first_trade_def update_with_trade_def window_new_def)
qed simp

lemma end_no_wrap: "tick_ok ev \<Longrightarrow> as_u64 (te_timestamp ev + window_nanos bt) = te_timestamp ev + window_nanos bt"
proof -
  assume "tick_ok ev"
  then have "te_timestamp ev + window_nanos bt < 2 ^ 64"
    using window_nanos_bounds(3) [of bt] by (simp add: tick_ok_def)
  then show ?thesis
    by (simp add: as_u64_def)
qed

lemma group_candle:
  "g \<noteq> [] \<Longrightarrow> \<forall>ev\<in>set g. tick_ok ev \<Longrightarrow> to_aggregate_trade (group_window bt g) = candle bt g"
proof (induction g rule: rev_induct)
  case (snoc ev g)
  have ok: "tick_ok ev"
    using snoc.prems(2) by simp
  show ?case
  proof (cases "g = []")
    case True
    then show ?thesis
      using end_no_wrap [OF ok, of bt] finite_price [OF ok]
      by (simp add: group_window_one candle_def to_aggregate_trade_def init_with_first_trade_def window_new_def traded_def)
  next
    case False
    then have IH: "to_aggregate_trade (group_window bt g) = candle bt g"
      using snoc by simp
    have m: "Max (prices (g @ [ev])) = max (Max (prices g)) (fin_val (te_price ev))"
      "Min (prices (g @ [ev])) = min (Min (prices g)) (fin_val (te_price ev))"
      using False by (simp_all add: Max_insert Min_insert max.commute min.commute)
    have "f_max (Fin x) (te_price ev) = Fin (max x (fin_val (te_price ev)))" "f_min (Fin x) (te_price ev) = Fin (min x (fin_val (te_price ev)))" for x
      using finite_price [OF ok] f_le_Fin_cases by metis+
    then show ?thesis
      using IH False m
      by (simp add: group_window_snoc candle_def to_aggregate_trade_def update_with_trade_def traded_def mod_Suc_eq)
  qed
qed simp

text \<open>The last \<open>k\<close> elements of a list.\<close>

definition last_n :: "nat \<Rightarrow> 'a list \<Rightarrow> 'a list" where
  "last_n k xs = drop (length xs - k) xs"

lemma push_last_n:
  assumes "0 < k"
  shows "push_completed k a (last_n k xs) = last_n k (xs @ [a])"
proof (cases "length xs < k")
  case True
  then show ?thesis
    by (simp add: push_completed_def last_n_def Let_def)
next
  case False
  then have "tl (drop (length xs - k) xs @ [a]) = drop (Suc (length xs - k)) xs @ [a]"
    using assms by (simp add: drop_Suc tl_drop)
  then show ?thesis
    using False assms by (simp add: push_completed_def last_n_def Let_def Suc_diff_le)
qed

text \<open>Groups of trades as the windows cut them: every trade within the window of its group, the next
  group at or after its end.\<close>

definition window_cut :: "nat \<Rightarrow> TradeEvent list list \<Rightarrow> bool" where
  "window_cut w gs \<longleftrightarrow> [] \<notin> set gs \<and> (\<forall>g\<in>set gs. \<forall>ev\<in>set g. te_timestamp ev < te_timestamp (hd g) + w) \<and>
     (\<forall>i. Suc i < length gs \<longrightarrow> te_timestamp (hd (gs ! i)) + w \<le> te_timestamp (hd (gs ! Suc i)))"

lemma cut_extend:
  assumes "window_cut w (gs @ [g])" "te_timestamp ev < te_timestamp (hd g) + w"
  shows "window_cut w (gs @ [g @ [ev]])"
proof -
  have "g \<noteq> []"
    using assms(1) by (auto simp: window_cut_def)
  then show ?thesis
    using assms by (auto simp: window_cut_def nth_append less_Suc_eq)
qed

lemma cut_new:
  assumes "window_cut w (gs @ [g])" "te_timestamp (hd g) + w \<le> te_timestamp ev" "0 < w"
  shows "window_cut w (gs @ [g, [ev]])"
  using assms by (auto simp: window_cut_def nth_append less_Suc_eq)

lemma bucket_run:
  assumes "evs \<noteq> []" "\<forall>ev\<in>set evs. tick_ok ev" "0 < k"
  shows "\<exists>gs g. concat gs @ g = evs \<and> window_cut (window_nanos bt) (gs @ [g]) \<and>
    fold (update_bucket bt k) evs (window_new bt 0 0, []) = (group_window bt g, last_n k (map (candle bt) gs))"
  using assms(1,2)
proof (induction evs rule: rev_induct)
  case (snoc ev evs)
  have ok: "tick_ok ev"
    using snoc.prems(2) by simp
  show ?case
  proof (cases "evs = []")
    case True
    have "\<not> contains_time (te_timestamp ev) (window_new bt 0 0)"
      using ok window_nanos_bounds [of bt] by (simp add: contains_time_def window_new_def tick_ok_def as_u64_def)
    then have "update_bucket bt k ev (window_new bt 0 0, []) = (group_window bt [ev], [])"
      by (simp add: update_bucket_def group_window_one) (simp add: window_new_def)
    moreover have "window_cut (window_nanos bt) [[ev]]"
      using window_nanos_bounds(1) by (simp add: window_cut_def)
    ultimately show ?thesis
      using True by (intro exI [of _ "[]"] exI [of _ "[ev]"]) (simp add: last_n_def)
  next
    case False
    then obtain gs g where IH: "concat gs @ g = evs" "window_cut (window_nanos bt) (gs @ [g])"
      "fold (update_bucket bt k) evs (window_new bt 0 0, []) = (group_window bt g, last_n k (map (candle bt) gs))"
      using snoc by auto
    have g: "g \<noteq> []" "\<forall>ev\<in>set g. tick_ok ev"
      using IH(1,2) snoc.prems(2) by (auto simp: window_cut_def)
    then have hd: "tick_ok (hd g)"
      by simp
    note t = group_window_time [OF g(1), of bt] end_no_wrap [OF hd, of bt]
    show ?thesis
    proof (cases "te_timestamp ev < te_timestamp (hd g) + window_nanos bt")
      case True
      then have "update_bucket bt k ev (group_window bt g, last_n k (map (candle bt) gs)) =
        (group_window bt (g @ [ev]), last_n k (map (candle bt) gs))"
        using t by (simp add: update_bucket_def contains_time_def group_window_snoc [OF g(1)])
      then show ?thesis
        using IH cut_extend [OF IH(2) True] by (intro exI [of _ gs] exI [of _ "g @ [ev]"]) auto
    next
      case False
      then have "update_bucket bt k ev (group_window bt g, last_n k (map (candle bt) gs)) =
        (group_window bt [ev], last_n k (map (candle bt) (gs @ [g])))"
        using t group_candle [OF g, of bt] push_last_n [OF assms(3), of "candle bt g" "map (candle bt) gs"]
        by (simp add: update_bucket_def contains_time_def group_window_one)
      then show ?thesis
        using IH False cut_new [OF IH(2) _ window_nanos_bounds(1)]
        by (intro exI [of _ "gs @ [g]"] exI [of _ "[ev]"]) auto
    qed
  qed
qed simp


fun bucket_of :: "BucketType \<Rightarrow> MarketDataEngine \<Rightarrow> AggregateTradeWindow \<times> AggregateTrade list" where
  "bucket_of OneSecond e = (active_1s_bucket e, completed_1s_trades e)"
| "bucket_of FiveSeconds e = (active_5s_bucket e, completed_5s_trades e)"
| "bucket_of OneMinute e = (active_1m_bucket e, completed_1m_trades e)"

abbreviation run_trades :: "TradeEvent list \<Rightarrow> MarketDataEngine \<Rightarrow> MarketDataEngine" where
  "run_trades evs e \<equiv> fold (\<lambda>ev e. snd (consume_trade_event ev e)) evs e"

lemma consume_trade_bucket:
  "bucket_of bt (snd (consume_trade_event ev e)) = update_bucket bt (max_history e) ev (bucket_of bt e)"
  "max_history (snd (consume_trade_event ev e)) = max_history e"
  by (cases bt; simp add: consume_trade_event_def update_aggregate_trades_from_event_def Let_def split: prod.splits)+

lemma run_trades_bucket:
  "bucket_of bt (run_trades evs e) = fold (update_bucket bt (max_history e)) evs (bucket_of bt e)"
  by (induction evs arbitrary: e) (simp_all add: consume_trade_bucket)

text \<open>
  C32. Candles are exact. After any sequence of trades with finite prices, the trades fall into
  consecutive groups, each within the window that its first trade opens and the next one at or after
  its end; the running candle is the summary of the last group, open, close, highest and lowest
  price, volume and count, and the history holds the summaries of the last ten groups before it. So
  every trade is counted in exactly one candle, for each of the three windows.
\<close>

theorem candles_exact:
  assumes "evs \<noteq> []" "\<forall>ev\<in>set evs. tick_ok ev"
  shows "\<exists>gs g. concat gs @ g = evs \<and> window_cut (window_nanos bt) (gs @ [g]) \<and>
    to_aggregate_trade (fst (bucket_of bt (run_trades evs md_new))) = candle bt g \<and>
    snd (bucket_of bt (run_trades evs md_new)) = last_n 10 (map (candle bt) gs)"
proof -
  have new: "bucket_of bt md_new = (window_new bt 0 0, [])" "max_history md_new = 10"
    by (cases bt; simp add: md_new_def)+
  obtain gs g where g: "concat gs @ g = evs" "window_cut (window_nanos bt) (gs @ [g])"
    "fold (update_bucket bt 10) evs (window_new bt 0 0, []) = (group_window bt g, last_n 10 (map (candle bt) gs))"
    using bucket_run [OF assms, of 10 bt] by auto
  moreover have "g \<noteq> []" "\<forall>ev\<in>set g. tick_ok ev"
    using g(1,2) assms(2) by (auto simp: window_cut_def)
  ultimately show ?thesis
    using group_candle [of g bt] by (auto simp: run_trades_bucket new)
qed

definition demo_tick :: "nat \<Rightarrow> int \<Rightarrow> TradeEvent" where
  "demo_tick ts price = \<lparr>te_sequence = 1, te_order_id = 1, te_maker_order_id = 2, te_timestamp = ts,
     te_price = Fin (of_int price), te_quantity = Fin 1, te_taker_id = 1, te_maker_id = 2, te_side = Buy\<rparr>"

theorem candles_exact_witness:
  "tick_ok (demo_tick 60000000000 5) \<and> tick_ok (demo_tick 60000000001 9) \<and>
   (\<exists>gs g. concat gs @ g = [demo_tick 60000000000 5, demo_tick 60000000001 9] \<and> window_cut 1000000000 (gs @ [g]) \<and>
     ag_close (to_aggregate_trade (fst (bucket_of OneSecond
       (run_trades [demo_tick 60000000000 5, demo_tick 60000000001 9] md_new)))) = ag_close (candle OneSecond g))"
proof -
  let ?evs = "[demo_tick 60000000000 5, demo_tick 60000000001 9]"
  have ok: "tick_ok (demo_tick 60000000000 5)" "tick_ok (demo_tick 60000000001 9)"
    by (simp_all add: tick_ok_def demo_tick_def)
  obtain gs g where g: "concat gs @ g = ?evs" "window_cut 1000000000 (gs @ [g])"
    "to_aggregate_trade (fst (bucket_of OneSecond (run_trades ?evs md_new))) = candle OneSecond g"
    using candles_exact [of ?evs OneSecond] ok by auto
  have "ag_close (to_aggregate_trade (fst (bucket_of OneSecond (run_trades ?evs md_new)))) = ag_close (candle OneSecond g)"
    by (simp only: g(3))
  then show ?thesis
    using ok g(1,2) by blast
qed

end
