(* ===== verification/MdDiff.thy ===== *)
theory MdDiff
  imports MarketData
begin

text \<open>
  The increments between depth snapshots. The matching engine publishes prices and quantities as
  whole ticks and lots, so the values that meet in \<open>compute_diff\<close> are integers; \<open>whole\<close> says so.
  On them the tolerance of the comparison decides equality, the increments lead exactly from one
  snapshot to the next, and the array of fifty changes is too short for some of them.
\<close>

definition whole :: "f64 \<Rightarrow> bool" where
  "whole x \<longleftrightarrow> (\<exists>n. \<bar>n\<bar> \<le> 2 ^ 52 \<and> x = Fin (of_int n))"

definition whole_levels :: "level list \<Rightarrow> bool" where
  "whole_levels xs \<longleftrightarrow> (\<forall>l\<in>set xs. whole (fst l) \<and> whole (snd l))"

lemma EPS_bounds: "\<exists>e. EPS = Fin e \<and> 0 < e \<and> e < 1"
proof -
  have "pow2 (- 900) \<le> pow2 (- 34)" "pow2 0 \<le> pow2 1000"
    by (rule pow2_mono; simp)+
  then have "pow2 (- 900) \<le> 1 / 10 ^ 10" "1 / 10 ^ 10 \<le> pow2 1000"
    by (simp_all add: pow2_def [of "- 34"] pow2_def [of 0])
  then obtain y where "rnd (1 / 10 ^ 10) = Fin y" "1 / 10 ^ 10 / 2 \<le> y" "y \<le> 2 * (1 / 10 ^ 10)"
    by (rule rnd_double)
  then show ?thesis
    by (auto simp: EPS_def)
qed

lemma whole_sub:
  assumes "whole x" "whole y"
  obtains n where "f_abs (f_sub x y) = Fin (of_int \<bar>n\<bar>)" "n = 0 \<longleftrightarrow> x = y"
proof -
  obtain a b where ab: "\<bar>a\<bar> \<le> 2 ^ 52" "x = Fin (of_int a)" "\<bar>b\<bar> \<le> 2 ^ 52" "y = Fin (of_int b)"
    using assms by (auto simp: whole_def)
  have "\<bar>a - b\<bar> \<le> \<bar>a\<bar> + \<bar>b\<bar>"
    by simp
  then have "\<bar>a - b\<bar> \<le> 2 ^ 53"
    using ab by simp
  then have "rnd (of_int (a - b)) = Fin (of_int (a - b))"
    by (rule rnd_int)
  then have "f_abs (f_sub x y) = Fin (of_int \<bar>a - b\<bar>)"
    using ab by (simp add: f_sub_def)
  then show thesis
    using that [of "a - b"] ab by simp
qed

lemma near_whole: "whole x \<Longrightarrow> whole y \<Longrightarrow> near x y \<longleftrightarrow> x = y"
proof -
  assume xy: "whole x" "whole y"
  obtain n where n: "f_abs (f_sub x y) = Fin (of_int \<bar>n\<bar>)" "n = 0 \<longleftrightarrow> x = y"
    using whole_sub [OF xy] .
  obtain e where e: "EPS = Fin e" "0 < e" "e < 1"
    using EPS_bounds by auto
  moreover have "(of_int \<bar>n\<bar> :: rat) < e \<longleftrightarrow> n = 0"
  proof
    assume l: "(of_int \<bar>n\<bar> :: rat) < e"
    have "(of_int \<bar>n\<bar> :: rat) < of_int 1"
      using l \<open>e < 1\<close> by simp
    then have "\<bar>n\<bar> < 1"
      by (simp only: of_int_less_iff)
    then show "n = 0"
      by simp
  qed (use \<open>0 < e\<close> in simp)
  ultimately show ?thesis
    using n by (simp add: near_def e(1))
qed

lemma far_whole: "whole x \<Longrightarrow> whole y \<Longrightarrow> f_lt EPS (f_abs (f_sub x y)) \<longleftrightarrow> x \<noteq> y"
proof -
  assume xy: "whole x" "whole y"
  obtain n where n: "f_abs (f_sub x y) = Fin (of_int \<bar>n\<bar>)" "n = 0 \<longleftrightarrow> x = y"
    using whole_sub [OF xy] .
  obtain e where e: "EPS = Fin e" "0 < e" "e < 1"
    using EPS_bounds by auto
  moreover have "e < (of_int \<bar>n\<bar> :: rat) \<longleftrightarrow> n \<noteq> 0"
  proof
    assume "n \<noteq> 0"
    then have "1 \<le> \<bar>n\<bar>"
      by simp
    then have "(of_int 1 :: rat) \<le> of_int \<bar>n\<bar>"
      by (simp only: of_int_le_iff)
    then show "e < of_int \<bar>n\<bar>"
      using \<open>e < 1\<close> by simp
  qed (use \<open>0 < e\<close> in auto)
  ultimately show ?thesis
    using n by (simp add: e(1))
qed

subsection \<open>The changes as a list\<close>

definition removed_changes :: "level list \<Rightarrow> level list \<Rightarrow> level list" where
  "removed_changes news olds = concat (map (\<lambda>(p, q).
     case map_of news p of Some c \<Rightarrow> if c \<noteq> q then [(p, c)] else [] | None \<Rightarrow> [(p, Fin 0)]) olds)"

definition added_changes :: "level list \<Rightarrow> level list \<Rightarrow> level list" where
  "added_changes olds news = filter (\<lambda>(p, q). map_of olds p = None) news"

definition diff_changes :: "level list \<Rightarrow> level list \<Rightarrow> level list" where
  "diff_changes olds news = removed_changes news olds @ added_changes olds news"

fun emit_list :: "level list \<Rightarrow> nat \<times> level list \<Rightarrow> (nat \<times> level list) exec" where
  "emit_list [] s = Some s"
| "emit_list (c # cs) s = do { s \<leftarrow> emit_change c s; emit_list cs s }"

lemma emit_list_append: "emit_list (xs @ ys) s = do { s \<leftarrow> emit_list xs s; emit_list ys s }"
  by (induction xs arbitrary: s) (simp_all split: Option.bind_split)

lemma emit_list_eq:
  "n \<le> length out \<Longrightarrow> emit_list cs (n, out) =
     (if n + length cs \<le> length out then Some (n + length cs, take n out @ cs @ drop (n + length cs) out) else None)"
proof (induction cs arbitrary: n out)
  case (Cons c cs)
  show ?case
  proof (cases "n < length out")
    case True
    then have "take (Suc n) (out[n := c]) = take n out @ [c]"
      by (simp add: take_Suc_conv_app_nth)
    then show ?thesis
      using True Cons.IH [of "n + 1" "out[n := c]"] by (simp add: emit_change_def)
  qed (use Cons.prems in \<open>simp add: emit_change_def\<close>)
qed simp

lemma find_near:
  assumes "whole p" "\<forall>l\<in>set xs. whole (fst l)"
  shows "find (\<lambda>c. near (fst c) p) xs = map_option (Pair p) (map_of xs p)"
  using assms(2)
proof (induction xs)
  case (Cons a xs)
  then show ?case
    using near_whole [of "fst a" p] assms(1) by (cases a) auto
qed simp

lemma emit_removed_list:
  assumes "whole_levels olds" "whole_levels news"
  shows "emit_removed news olds s = emit_list (removed_changes news olds) s"
  using assms(1)
proof (induction olds arbitrary: s)
  case Nil
  then show ?case
    by (simp add: removed_changes_def)
next
  case (Cons a olds)
  obtain p q where a: "a = (p, q)"
    by (cases a)
  have w: "whole p" "whole q" "whole_levels olds"
    using Cons.prems a by (auto simp: whole_levels_def)
  have f: "find (\<lambda>c. near (fst c) p) news = map_option (Pair p) (map_of news p)"
    using w(1) assms(2) by (intro find_near) (auto simp: whole_levels_def)
  have wc: "whole c" if "map_of news p = Some c" for c
    using map_of_SomeD [OF that] assms(2) by (auto simp: whole_levels_def)
  show ?case
    using f w Cons.IH far_whole [OF wc w(2)]
    by (auto simp: a removed_changes_def split: option.splits Option.bind_split)
qed

lemma emit_added_list:
  assumes "whole_levels olds" "whole_levels news"
  shows "emit_added olds news s = emit_list (added_changes olds news) s"
  using assms(2)
proof (induction news arbitrary: s)
  case Nil
  then show ?case
    by (simp add: added_changes_def)
next
  case (Cons a news)
  obtain p q where a: "a = (p, q)"
    by (cases a)
  have w: "whole p" "whole_levels news"
    using Cons.prems a by (auto simp: whole_levels_def)
  have f: "find (\<lambda>c. near (fst c) p) olds = map_option (Pair p) (map_of olds p)"
    using w(1) assms(1) by (intro find_near) (auto simp: whole_levels_def)
  show ?case
    using f w Cons.IH by (auto simp: a added_changes_def split: option.splits Option.bind_split)
qed

lemma compute_diff_eq:
  assumes "whole_levels (take m olds)" "whole_levels (take n news)" "m \<le> cap" "n \<le> cap" "length out = cap"
  shows "compute_diff cap olds m news n out =
    (let cs = diff_changes (take m olds) (take n news)
     in if length cs \<le> cap then Some (length cs, cs @ drop (length cs) out) else None)"
proof -
  have added: "emit_added (take m olds) (take n news) = emit_list (added_changes (take m olds) (take n news))"
    by (rule ext) (rule emit_added_list [OF assms(1,2)])
  have "compute_diff cap olds m news n out = emit_list (diff_changes (take m olds) (take n news)) (0, out)"
    using assms by (simp add: compute_diff_def emit_removed_list emit_list_append diff_changes_def added)
  then show ?thesis
    using assms(5) emit_list_eq [of 0 out] by (simp add: Let_def)
qed


subsection \<open>Applying the changes\<close>

text \<open>What a subscriber does with a change: a zero quantity deletes the price.\<close>

definition apply_change :: "level \<Rightarrow> (f64 \<Rightarrow> f64 option) \<Rightarrow> f64 \<Rightarrow> f64 option" where
  "apply_change c m = (if snd c = Fin 0 then m(fst c := None) else m(fst c \<mapsto> snd c))"

lemma fold_apply:
  "distinct (map fst cs) \<Longrightarrow> fold apply_change cs m p =
     (case map_of cs p of None \<Rightarrow> m p | Some q \<Rightarrow> if q = Fin 0 then None else Some q)"
proof (induction cs arbitrary: m)
  case (Cons c cs)
  have "map_of cs (fst c) = None"
    using Cons.prems by (simp add: map_of_eq_None_iff)
  then show ?case
    using Cons by (auto simp: apply_change_def split: option.splits)
qed simp

lemma removed_Cons: "removed_changes news ((p, q) # olds) =
    (case map_of news p of Some c \<Rightarrow> if c \<noteq> q then [(p, c)] else [] | None \<Rightarrow> [(p, Fin 0)]) @ removed_changes news olds"
  by (simp add: removed_changes_def)

lemma map_of_removed:
  "distinct (map fst olds) \<Longrightarrow> map_of (removed_changes news olds) p =
     (case map_of olds p of None \<Rightarrow> None
      | Some q \<Rightarrow> (case map_of news p of Some c \<Rightarrow> if c \<noteq> q then Some c else None | None \<Rightarrow> Some (Fin 0)))"
proof (induction olds)
  case (Cons a olds)
  have "map_of olds (fst a) = None"
    using Cons.prems by (simp add: map_of_eq_None_iff)
  then show ?case
    using Cons by (cases a) (auto simp: removed_changes_def map_add_def split: option.splits)
qed (simp add: removed_changes_def)

lemma removed_keys: "set (map fst (removed_changes news olds)) \<subseteq> set (map fst olds)"
proof (induction olds)
  case (Cons a olds)
  then show ?case
    by (cases a) (auto simp: removed_Cons split: option.splits)
qed (simp add: removed_changes_def)

lemma distinct_removed: "distinct (map fst olds) \<Longrightarrow> distinct (map fst (removed_changes news olds))"
proof (induction olds)
  case (Cons a olds)
  have "fst a \<notin> set (map fst (removed_changes news olds))"
    using Cons.prems removed_keys [of news olds] by auto
  then show ?case
    using Cons by (cases a) (auto simp: removed_Cons split: option.splits)
qed (simp add: removed_changes_def)

lemma map_of_added: "map_of (added_changes olds news) p = (if map_of olds p = None then map_of news p else None)"
  by (induction news) (auto simp: added_changes_def)

lemma added_keys: "set (map fst (added_changes olds news)) \<subseteq> - set (map fst olds)"
  by (force simp: added_changes_def map_of_eq_None_iff)

lemma distinct_added: "distinct (map fst news) \<Longrightarrow> distinct (map fst (added_changes olds news))"
  by (simp add: added_changes_def distinct_map_filter)

lemma distinct_diff:
  assumes "distinct (map fst olds)" "distinct (map fst news)"
  shows "distinct (map fst (diff_changes olds news))"
  using distinct_removed [OF assms(1), of news] distinct_added [OF assms(2), of olds]
    removed_keys [of news olds] added_keys [of olds news]
  by (auto simp: diff_changes_def)

lemma apply_diff:
  assumes "distinct (map fst olds)" "distinct (map fst news)" "Fin 0 \<notin> set (map snd news)"
  shows "fold apply_change (diff_changes olds news) (map_of olds) = map_of news"
proof
  fix p
  have nz: "map_of news p \<noteq> Some (Fin 0)"
    using assms(3) map_of_SomeD [of news p "Fin 0"] by force
  have "map_of (diff_changes olds news) p =
    (case map_of olds p of None \<Rightarrow> map_of news p
     | Some q \<Rightarrow> (case map_of news p of Some c \<Rightarrow> if c \<noteq> q then Some c else None | None \<Rightarrow> Some (Fin 0)))"
    using assms(1) by (auto simp: diff_changes_def map_add_def map_of_removed map_of_added split: option.splits)
  then show "fold apply_change (diff_changes olds news) (map_of olds) p = map_of news p"
    using nz fold_apply [OF distinct_diff [OF assms(1,2)], of "map_of olds" p] by (auto split: option.splits)
qed


subsection \<open>Following the increments\<close>

abbreviation bid_levels :: "DepthEvent \<Rightarrow> level list" where
  "bid_levels ev \<equiv> take (ev_num_bids ev) (ev_bids ev)"

abbreviation ask_levels :: "DepthEvent \<Rightarrow> level list" where
  "ask_levels ev \<equiv> take (ev_num_asks ev) (ev_asks ev)"

text \<open>The levels of one side of a snapshot: whole numbers, one level per price, no empty level.\<close>

definition side_ok :: "level list \<Rightarrow> bool" where
  "side_ok xs \<longleftrightarrow> whole_levels xs \<and> distinct (map fst xs) \<and> Fin 0 \<notin> set (map snd xs)"

definition snap_ok :: "nat \<Rightarrow> DepthEvent \<Rightarrow> bool" where
  "snap_ok cap ev \<longleftrightarrow> length (ev_bids ev) = cap \<and> length (ev_asks ev) = cap \<and> ev_num_bids ev \<le> cap \<and> ev_num_asks ev \<le> cap \<and>
     side_ok (bid_levels ev) \<and> side_ok (ask_levels ev)"

text \<open>What the engine remembers of the last snapshot.\<close>

definition remembers50 :: "MarketDataEngine \<Rightarrow> level list \<Rightarrow> level list \<Rightarrow> bool" where
  "remembers50 e b a \<longleftrightarrow> prev_depth50_num_bids e = length b \<and> prev_depth50_num_asks e = length a \<and>
     length b \<le> 50 \<and> length a \<le> 50 \<and>
     take (length b) (prev_depth50_bids e) = b \<and> take (length a) (prev_depth50_asks e) = a"

lemma remembers50_new: "remembers50 md_new [] []"
  by (simp add: remembers50_def md_new_def)

lemma consume_depth50_eq:
  assumes "remembers50 e b a" "side_ok b" "side_ok a" "snap_ok 50 ev"
  shows "consume_depth50_snapshot ev e =
    (let cb = diff_changes b (bid_levels ev); ca = diff_changes a (ask_levels ev)
     in if length cb \<le> 50 \<and> length ca \<le> 50 then
          Some (\<lparr>ev_timestamp = ev_timestamp ev, ev_sequence = ev_sequence ev, ev_num_bids = length cb,
                 ev_num_asks = length ca, ev_bids = cb @ drop (length cb) (replicate 50 (Fin 0, Fin 0)),
                 ev_asks = ca @ drop (length ca) (replicate 50 (Fin 0, Fin 0))\<rparr>,
            e\<lparr>prev_depth50_bids := bid_levels ev @ drop (ev_num_bids ev) (prev_depth50_bids e),
              prev_depth50_num_bids := ev_num_bids ev,
              prev_depth50_asks := ask_levels ev @ drop (ev_num_asks ev) (prev_depth50_asks e),
              prev_depth50_num_asks := ev_num_asks ev\<rparr>)
        else None)"
proof -
  have b: "compute_depth_diff (prev_depth50_bids e) (prev_depth50_num_bids e) (ev_bids ev) (ev_num_bids ev) (replicate 50 (Fin 0, Fin 0)) =
    (let cs = diff_changes b (bid_levels ev) in if length cs \<le> 50 then Some (length cs, cs @ drop (length cs) (replicate 50 (Fin 0, Fin 0))) else None)"
    using assms unfolding compute_depth_diff_def
    by (subst compute_diff_eq) (simp_all add: remembers50_def side_ok_def snap_ok_def)
  have a: "compute_depth_diff (prev_depth50_asks e) (prev_depth50_num_asks e) (ev_asks ev) (ev_num_asks ev) (replicate 50 (Fin 0, Fin 0)) =
    (let cs = diff_changes a (ask_levels ev) in if length cs \<le> 50 then Some (length cs, cs @ drop (length cs) (replicate 50 (Fin 0, Fin 0))) else None)"
    using assms unfolding compute_depth_diff_def
    by (subst compute_diff_eq) (simp_all add: remembers50_def side_ok_def snap_ok_def)
  show ?thesis
    by (simp add: consume_depth50_snapshot_def depth_snap_new_def b a Let_def)
qed

text \<open>A subscriber that starts empty and applies every increment.\<close>

fun follow50 :: "DepthEvent list \<Rightarrow> MarketDataEngine \<times> (f64 \<Rightarrow> f64 option) \<times> (f64 \<Rightarrow> f64 option) \<Rightarrow>
    (MarketDataEngine \<times> (f64 \<Rightarrow> f64 option) \<times> (f64 \<Rightarrow> f64 option)) exec" where
  "follow50 [] s = Some s"
| "follow50 (ev # evs) s = (case s of (e, b, a) \<Rightarrow> do {
     (out, e) \<leftarrow> consume_depth50_snapshot ev e;
     follow50 evs (e, fold apply_change (bid_levels out) b, fold apply_change (ask_levels out) a) })"

text \<open>At most fifty changes on each side of each step.\<close>

fun fits50 :: "level list \<Rightarrow> level list \<Rightarrow> DepthEvent list \<Rightarrow> bool" where
  "fits50 b a [] = True"
| "fits50 b a (ev # evs) \<longleftrightarrow> length (diff_changes b (bid_levels ev)) \<le> 50 \<and> length (diff_changes a (ask_levels ev)) \<le> 50 \<and>
     fits50 (bid_levels ev) (ask_levels ev) evs"

lemma follow50_eq:
  assumes "remembers50 e b a" "side_ok b" "side_ok a" "\<forall>ev\<in>set evs. snap_ok 50 ev"
  shows "if fits50 b a evs
    then \<exists>e'. follow50 evs (e, map_of b, map_of a) =
      Some (e', map_of (if evs = [] then b else bid_levels (last evs)), map_of (if evs = [] then a else ask_levels (last evs)))
    else follow50 evs (e, map_of b, map_of a) = None"
  using assms
proof (induction evs arbitrary: e b a)
  case (Cons ev evs)
  have ok: "snap_ok 50 ev"
    using Cons.prems(4) by simp
  then have sides: "side_ok (bid_levels ev)" "side_ok (ask_levels ev)"
    by (simp_all add: snap_ok_def)
  note eq = consume_depth50_eq [OF Cons.prems(1-3) ok]
  show ?case
  proof (cases "length (diff_changes b (bid_levels ev)) \<le> 50 \<and> length (diff_changes a (ask_levels ev)) \<le> 50")
    case True
    then obtain out e1 where c: "consume_depth50_snapshot ev e = Some (out, e1)"
      and out: "bid_levels out = diff_changes b (bid_levels ev)" "ask_levels out = diff_changes a (ask_levels ev)"
      and rem: "remembers50 e1 (bid_levels ev) (ask_levels ev)"
      using eq ok by (auto simp: Let_def remembers50_def snap_ok_def)
    have ap: "fold apply_change (bid_levels out) (map_of b) = map_of (bid_levels ev)"
      "fold apply_change (ask_levels out) (map_of a) = map_of (ask_levels ev)"
      using sides Cons.prems(2,3) by (simp_all add: out side_ok_def apply_diff)
    have "\<forall>ev\<in>set evs. snap_ok 50 ev"
      using Cons.prems(4) by simp
    then show ?thesis
      using Cons.IH [OF rem sides] True by (auto simp: c ap split: if_splits)
  next
    case False
    then have "consume_depth50_snapshot ev e = None" "\<not> fits50 b a (ev # evs)"
      unfolding eq by (auto simp: Let_def)
    then show ?thesis
      by simp
  qed
qed simp

lemma length_added: "length (added_changes olds news) \<le> length news"
  by (simp add: added_changes_def)

lemma length_removed: "length (removed_changes news olds) \<le> length olds"
proof (induction olds)
  case (Cons a olds)
  then show ?case
    by (cases a) (auto simp: removed_Cons split: option.splits)
qed (simp add: removed_changes_def)

text \<open>Twenty-five levels on a side always fit.\<close>

lemma fits50_shallow:
  "length b \<le> 25 \<Longrightarrow> length a \<le> 25 \<Longrightarrow> \<forall>ev\<in>set evs. length (bid_levels ev) \<le> 25 \<and> length (ask_levels ev) \<le> 25 \<Longrightarrow> fits50 b a evs"
proof (induction evs arbitrary: b a)
  case (Cons ev evs)
  have "length (diff_changes x y) \<le> 50" if "length x \<le> 25" "length y \<le> 25" for x y
    using length_added [of x y] length_removed [of y x] that by (simp add: diff_changes_def)
  then have "length (diff_changes b (bid_levels ev)) \<le> 50" "length (diff_changes a (ask_levels ev)) \<le> 50"
    using Cons.prems by simp_all
  then show ?case
    using Cons by simp
qed simp

text \<open>
  C35. The increments of the depth feed are exact. A subscriber that starts with an empty book and
  applies every increment, deleting a price whose quantity is zero, holds after any sequence of
  snapshots exactly the levels of the last one, on both sides. The engine produces the increments
  if and only if no step changes more than fifty prices of a side; otherwise it panics.
\<close>

theorem depth_increments_exact:
  assumes "\<forall>ev\<in>set evs. snap_ok 50 ev" "evs \<noteq> []"
  shows "if fits50 [] [] evs
    then \<exists>e'. follow50 evs (md_new, Map.empty, Map.empty) = Some (e', map_of (bid_levels (last evs)), map_of (ask_levels (last evs)))
    else follow50 evs (md_new, Map.empty, Map.empty) = None"
  using follow50_eq [OF remembers50_new _ _ assms(1)] assms(2) by (simp add: side_ok_def whole_levels_def split: if_splits)


definition demo_snap :: "(int \<times> int) list \<Rightarrow> (int \<times> int) list \<Rightarrow> DepthEvent" where
  "demo_snap b a = \<lparr>ev_timestamp = 0, ev_sequence = 0, ev_num_bids = length b, ev_num_asks = length a,
     ev_bids = map (\<lambda>(p, q). (Fin (of_int p), Fin (of_int q))) b @ replicate (50 - length b) (Fin 0, Fin 0),
     ev_asks = map (\<lambda>(p, q). (Fin (of_int p), Fin (of_int q))) a @ replicate (50 - length a) (Fin 0, Fin 0)\<rparr>"

lemma whole_int: "\<bar>n\<bar> \<le> 2 ^ 52 \<Longrightarrow> whole (Fin (of_int n))"
  by (auto simp: whole_def)

lemma demo_side_ok:
  assumes "distinct (map fst xs)" "\<forall>(p, q)\<in>set xs. \<bar>p\<bar> \<le> 2 ^ 52 \<and> \<bar>q\<bar> \<le> 2 ^ 52 \<and> q \<noteq> 0"
  shows "side_ok (map (\<lambda>(p, q). (Fin (of_int p), Fin (of_int q))) xs)"
proof -
  let ?f = "\<lambda>(p, q). (Fin (of_int p), Fin (of_int q))"
  have "map fst (map ?f xs) = map (\<lambda>p. Fin (of_int p)) (map fst xs)"
    by (simp add: case_prod_beta comp_def)
  moreover have "inj_on (\<lambda>p. Fin (of_int p)) (set (map fst xs))"
    by (simp add: inj_on_def)
  ultimately have "distinct (map fst (map ?f xs))"
    using assms(1) by (simp only: distinct_map simp_thms)
  moreover have each: "whole (Fin (of_int p)) \<and> whole (Fin (of_int q)) \<and> q \<noteq> 0" if "(p, q) \<in> set xs" for p q
    using assms(2) that whole_int by blast
  moreover have "whole_levels (map ?f xs)" "Fin 0 \<notin> set (map snd (map ?f xs))"
    using each by (auto simp: whole_levels_def)
  ultimately show ?thesis
    by (simp add: side_ok_def)
qed

theorem depth_increments_exact_witness:
  "snap_ok 50 (demo_snap [(5, 1)] [(7, 2)]) \<and> snap_ok 50 (demo_snap [(6, 3)] [(7, 2)]) \<and>
   (\<exists>e'. follow50 [demo_snap [(5, 1)] [(7, 2)], demo_snap [(6, 3)] [(7, 2)]] (md_new, Map.empty, Map.empty) =
      Some (e', [Fin 6 \<mapsto> Fin 3], [Fin 7 \<mapsto> Fin 2]))"
proof -
  let ?evs = "[demo_snap [(5, 1)] [(7, 2)], demo_snap [(6, 3)] [(7, 2)]]"
  have ok: "snap_ok 50 (demo_snap [(p, q)] [(r, t)])"
    if "\<bar>p\<bar> \<le> 2 ^ 52 \<and> \<bar>q\<bar> \<le> 2 ^ 52 \<and> q \<noteq> 0" "\<bar>r\<bar> \<le> 2 ^ 52 \<and> \<bar>t\<bar> \<le> 2 ^ 52 \<and> t \<noteq> 0" for p q r t
    using demo_side_ok [of "[(p, q)]"] demo_side_ok [of "[(r, t)]"] that by (simp add: snap_ok_def demo_snap_def)
  have snaps: "snap_ok 50 (demo_snap [(5, 1)] [(7, 2)])" "snap_ok 50 (demo_snap [(6, 3)] [(7, 2)])"
    by (rule ok; simp)+
  have "fits50 [] [] ?evs"
    by (rule fits50_shallow) (simp_all add: demo_snap_def)
  then show ?thesis
    using depth_increments_exact [of ?evs] snaps by (simp add: demo_snap_def)
qed

text \<open>
  The array of changes has fifty entries, the number of levels, although a step can change more
  prices: when all fifty levels of a side change and one new price appears, the engine panics.
\<close>

theorem depth_diff_panics:
  assumes "remembers50 e b a" "side_ok b" "side_ok a" "snap_ok 50 ev"
    and full: "length b = 50" and moved: "set b \<inter> set (bid_levels ev) = {}"
    and fresh: "\<exists>l\<in>set (bid_levels ev). fst l \<notin> set (map fst b)"
  shows "consume_depth50_snapshot ev e = None"
proof -
  have d: "distinct (map fst (bid_levels ev))"
    using assms(4) by (simp add: snap_ok_def side_ok_def)
  have "length (removed_changes news olds) = length olds" if "set olds \<inter> set news = {}" for news olds
    using that
  proof (induction olds)
    case (Cons c olds)
    then show ?case
      by (cases c) (auto simp: removed_Cons dest: map_of_SomeD split: option.splits)
  qed (simp add: removed_changes_def)
  then have r: "length (removed_changes (bid_levels ev) b) = 50"
    using moved full by simp
  obtain l where "l \<in> set (added_changes b (bid_levels ev))"
    using fresh by (force simp: added_changes_def map_of_eq_None_iff)
  then have "0 < length (added_changes b (bid_levels ev))"
    by (rule length_pos_if_in_set)
  then show ?thesis
    using r consume_depth50_eq [OF assms(1-4)] by (simp add: diff_changes_def Let_def)
qed

end
