(* ===== verification/MdLevels.thy ===== *)
theory MdLevels
  imports MdDiff
begin

text \<open>
  The ten levels of depth stay sorted: asks ascending, bids descending, whatever trades at finite
  prices and sorted depth snapshots arrive. The contract \<open>price_order\<close> of the comparison is interpreted for asks and for bids.
\<close>

subsection \<open>Moving levels\<close>

lemma first_index_Some:
  "first_index P is = Some i \<Longrightarrow> i \<in> set is \<and> P i \<and> (sorted is \<longrightarrow> (\<forall>j\<in>set is. j < i \<longrightarrow> \<not> P j))"
  by (induction "is") (force split: if_splits)+

lemma first_index_None: "first_index P is = None \<longleftrightarrow> (\<forall>j\<in>set is. \<not> P j)"
  by (induction "is") auto

lemma first_index_upt:
  assumes "pos = (case first_index P [0..<n] of Some i \<Rightarrow> i | None \<Rightarrow> n)"
  shows "pos \<le> n" "\<forall>j<pos. \<not> P j" "pos < n \<Longrightarrow> P pos"
proof -
  have "pos \<le> n \<and> (\<forall>j<pos. \<not> P j) \<and> (pos < n \<longrightarrow> P pos)"
  proof (cases "first_index P [0..<n]")
    case None
    then have "pos = n"
      using assms by simp
    moreover have "\<forall>j<n. \<not> P j"
      using None [unfolded first_index_None] by simp
    ultimately show ?thesis
      by simp
  next
    case (Some i)
    then show ?thesis
      using assms first_index_Some [OF Some] by auto
  qed
  then show "pos \<le> n" "\<forall>j<pos. \<not> P j" "pos < n \<Longrightarrow> P pos"
    by simp_all
qed

lemma shift_front:
  "m < length xs \<Longrightarrow> length (fold (\<lambda>j ys. ys[j := ys ! (j + 1)]) [i..<m] xs) = length xs \<and>
   (\<forall>j<length xs. fold (\<lambda>j ys. ys[j := ys ! (j + 1)]) [i..<m] xs ! j = (if i \<le> j \<and> j < m then xs ! (j + 1) else xs ! j))"
proof (induction m)
  case (Suc m)
  then show ?case
    by (cases "i \<le> m") (auto simp: nth_list_update)
qed simp

lemma shift_back:
  "n < length xs \<Longrightarrow> k \<le> n \<Longrightarrow> length (fold (\<lambda>i ys. ys[i + 1 := ys ! i]) (rev [n - k..<n]) xs) = length xs \<and>
   (\<forall>j<length xs. fold (\<lambda>i ys. ys[i + 1 := ys ! i]) (rev [n - k..<n]) xs ! j = (if n - k < j \<and> j \<le> n then xs ! (j - 1) else xs ! j))"
proof (induction k)
  case (Suc k)
  have "[n - Suc k..<n] = (n - Suc k) # [n - k..<n]"
    using Suc.prems by (simp add: upt_conv_Cons Suc_diff_Suc)
  moreover have "Suc (n - Suc k) = n - k" "n - Suc k < length xs"
    using Suc.prems by simp_all
  ultimately show ?case
    using Suc by (auto simp: nth_list_update)
qed auto

lemma drop_level_take:
  assumes "i < n" "n \<le> length xs"
  shows "length (drop_level i n xs) = length xs" "take (n - 1) (drop_level i n xs) = take i xs @ drop (i + 1) (take n xs)"
proof -
  have s: "length (fold (\<lambda>j ys. ys[j := ys ! (j + 1)]) [i..<n - 1] xs) = length xs"
    "\<forall>j<length xs. fold (\<lambda>j ys. ys[j := ys ! (j + 1)]) [i..<n - 1] xs ! j = (if i \<le> j \<and> j < n - 1 then xs ! (j + 1) else xs ! j)"
    using shift_front [of "n - 1" xs i] assms by simp_all
  then show "length (drop_level i n xs) = length xs"
    by (simp add: drop_level_def)
  show "take (n - 1) (drop_level i n xs) = take i xs @ drop (i + 1) (take n xs)"
    by (rule nth_equalityI) (use s assms in \<open>auto simp: drop_level_def nth_append\<close>)
qed

lemma put_level_take:
  assumes "pos \<le> n" "n < length xs"
  shows "length (put_level pos n l xs) = length xs" "take (n + 1) (put_level pos n l xs) = take pos xs @ l # drop pos (take n xs)"
proof -
  have s: "length (fold (\<lambda>i ys. ys[i + 1 := ys ! i]) (rev [pos..<n]) xs) = length xs"
    "\<forall>j<length xs. fold (\<lambda>i ys. ys[i + 1 := ys ! i]) (rev [pos..<n]) xs ! j = (if pos < j \<and> j \<le> n then xs ! (j - 1) else xs ! j)"
    using shift_back [of n xs "n - pos"] assms by simp_all
  then show "length (put_level pos n l xs) = length xs"
    by (simp add: put_level_def)
  show "take (n + 1) (put_level pos n l xs) = take pos xs @ l # drop pos (take n xs)"
    by (rule nth_equalityI) (use s assms in \<open>auto simp: put_level_def nth_append nth_Cons' nth_list_update\<close>)
qed

subsection \<open>Sorted levels\<close>

definition levels_ok :: "(f64 \<Rightarrow> f64 \<Rightarrow> bool) \<Rightarrow> nat \<Rightarrow> level list \<Rightarrow> bool" where
  "levels_ok ahead n xs \<longleftrightarrow> length xs = 10 \<and> n \<le> 10 \<and> sorted_wrt ahead (map fst (take n xs)) \<and>
     list_all is_finite (map fst (take n xs))"

lemma near_refl: "is_finite x \<Longrightarrow> near x x"
proof -
  obtain e where e: "EPS = Fin e" "0 < e"
    using EPS_bounds by auto
  show "is_finite x \<Longrightarrow> near x x"
    by (cases x) (simp_all add: near_def f_sub_def rnd_def e)
qed

lemma sorted_wrt_delete:
  assumes "sorted_wrt P ys" "i < length ys"
  shows "sorted_wrt P (take i ys @ drop (i + 1) ys)"
proof -
  have "ys = take i ys @ ys ! i # drop (i + 1) ys"
    using assms(2) by (simp add: id_take_nth_drop)
  then have "sorted_wrt P (take i ys @ ys ! i # drop (i + 1) ys)"
    using assms(1) by simp
  then show ?thesis
    by (simp add: sorted_wrt_append)
qed

lemma list_all_take_drop: "list_all P ys \<Longrightarrow> list_all P (take i ys) \<and> list_all P (drop j ys)"
  by (auto simp: list_all_iff dest: in_set_takeD in_set_dropD)

locale price_order =
  fixes ahead :: "f64 \<Rightarrow> f64 \<Rightarrow> bool"
  assumes total: "is_finite x \<Longrightarrow> is_finite y \<Longrightarrow> ahead x y \<or> x = y \<or> ahead y x"
    and trans: "ahead x y \<Longrightarrow> ahead y z \<Longrightarrow> ahead x z"
begin

lemma sorted_insert:
  assumes "sorted_wrt ahead ys" "list_all is_finite ys" "is_finite p" "p \<notin> set ys" "pos \<le> length ys"
    and before: "\<forall>j<pos. \<not> ahead p (ys ! j)" and behind: "pos < length ys \<Longrightarrow> ahead p (ys ! pos)"
  shows "sorted_wrt ahead (take pos ys @ p # drop pos ys)"
proof -
  have front: "\<forall>x\<in>set (take pos ys). ahead x p"
  proof
    fix x
    assume "x \<in> set (take pos ys)"
    then obtain j where "j < pos" "j < length ys" "x = ys ! j"
      by (auto simp: in_set_conv_nth)
    then show "ahead x p"
      using total [of x p] assms(2-4) before by (auto simp: list_all_length)
  qed
  have rear: "\<forall>x\<in>set (drop pos ys). ahead p x"
  proof (cases "pos < length ys")
    case True
    have "drop pos ys = ys ! pos # drop (Suc pos) ys"
      using True by (simp add: Cons_nth_drop_Suc)
    moreover have "sorted_wrt ahead (drop pos ys)"
      using assms(1) by (rule sorted_wrt_drop)
    ultimately show ?thesis
      using behind [OF True] trans by auto
  qed simp
  have "sorted_wrt ahead (take pos ys)" "sorted_wrt ahead (drop pos ys)" "\<forall>x\<in>set (take pos ys). \<forall>y\<in>set (drop pos ys). ahead x y"
    using sorted_wrt_append [of ahead "take pos ys" "drop pos ys"] assms(1) by simp_all
  then show ?thesis
    using front rear by (auto simp: sorted_wrt_append)
qed

lemma update_levels_ok:
  assumes "levels_ok ahead n xs" "is_finite (te_price ev)" "update_levels ahead ev n xs = (c, n', xs')"
  shows "levels_ok ahead n' xs'"
proof (cases "first_index (\<lambda>i. near (fst (xs ! i)) (te_price ev)) [0..<n]")
  case (Some i)
  then have i: "i < n" "n \<le> 10" "length xs = 10"
    using first_index_Some [OF Some] assms(1) by (auto simp: levels_ok_def)
  let ?xs = "xs[i := (fst (xs ! i), f_sub (snd (xs ! i)) (te_quantity ev))]"
  have same: "map fst (take n ?xs) = map fst (take n xs)"
    by (rule nth_equalityI) (use i in \<open>auto simp: nth_list_update\<close>)
  then have ok: "levels_ok ahead n ?xs"
    using assms(1) by (simp add: levels_ok_def)
  have "levels_ok ahead (n - 1) (drop_level i n ?xs)"
  proof -
    have t: "length (drop_level i n ?xs) = 10" "take (n - 1) (drop_level i n ?xs) = take i ?xs @ drop (i + 1) (take n ?xs)"
      using drop_level_take [of i n ?xs] i by simp_all
    have m: "map fst (take (n - 1) (drop_level i n ?xs)) = take i (map fst (take n ?xs)) @ drop (i + 1) (map fst (take n ?xs))"
      unfolding t(2) using i by (simp add: take_map drop_map min_def)
    show ?thesis
      unfolding levels_ok_def m
      using ok t(1) i sorted_wrt_delete [of ahead "map fst (take n ?xs)" i] list_all_take_drop [of is_finite "map fst (take n ?xs)" i "i + 1"]
      by (simp add: levels_ok_def)
  qed
  then show ?thesis
    using assms(3) Some ok by (auto simp: update_levels_def Let_def split: if_splits)
next
  case None
  show ?thesis
  proof (cases "n < 10")
    case False
    then show ?thesis
      using assms(1,3) None by (simp add: update_levels_def)
  next
    case True
    let ?ys = "map fst (take n xs)"
    have ys: "length ?ys = n" "\<And>j. j < n \<Longrightarrow> ?ys ! j = fst (xs ! j)"
      using assms(1) by (simp_all add: levels_ok_def)
    define pos where "pos = (case first_index (\<lambda>i. ahead (te_price ev) (fst (xs ! i))) [0..<n] of Some i \<Rightarrow> i | None \<Rightarrow> n)"
    have pos: "pos \<le> n" "\<forall>j<pos. \<not> ahead (te_price ev) (?ys ! j)" "pos < n \<Longrightarrow> ahead (te_price ev) (?ys ! pos)"
      using first_index_upt [OF pos_def] ys(2) by simp_all
    have new: "te_price ev \<notin> set ?ys"
    proof
      assume "te_price ev \<in> set ?ys"
      then obtain j where "j < n" "fst (xs ! j) = te_price ev"
        using ys by (auto simp: in_set_conv_nth)
      then show False
        using None [unfolded first_index_None, rule_format, of j] near_refl [OF assms(2)] by simp
    qed
    have t: "length (put_level pos n (te_price ev, te_quantity ev) xs) = 10"
      "take (n + 1) (put_level pos n (te_price ev, te_quantity ev) xs) = take pos xs @ (te_price ev, te_quantity ev) # drop pos (take n xs)"
      using put_level_take [OF pos(1), of xs] True assms(1) by (simp_all add: levels_ok_def)
    have m: "map fst (take (n + 1) (put_level pos n (te_price ev, te_quantity ev) xs)) = take pos ?ys @ te_price ev # drop pos ?ys"
      unfolding t(2) using pos(1) by (simp add: take_map drop_map min_def)
    have "levels_ok ahead (n + 1) (put_level pos n (te_price ev, te_quantity ev) xs)"
      unfolding levels_ok_def m
      using sorted_insert [of ?ys "te_price ev" pos] list_all_take_drop [of is_finite ?ys pos pos] assms(1,2) new pos ys(1) t(1) True
      by (simp add: levels_ok_def)
    then show ?thesis
      using assms(3) None True by (auto simp: update_levels_def pos_def Let_def)
  qed
qed

end

interpretation asks: price_order f_lt
proof
  show "is_finite x \<Longrightarrow> is_finite y \<Longrightarrow> f_lt x y \<or> x = y \<or> f_lt y x" for x y
    by (cases x; cases y) auto
  show "f_lt x y \<Longrightarrow> f_lt y z \<Longrightarrow> f_lt x z" for x y z
    by (cases x; cases y; cases z) auto
qed

interpretation bids: price_order "\<lambda>x y. f_lt y x"
  by unfold_locales (use asks.total asks.trans in blast)+


subsection \<open>Runs\<close>

definition l2_ok :: "Level2Snapshot \<Rightarrow> bool" where
  "l2_ok s \<longleftrightarrow> levels_ok f_lt (l2_num_asks s) (l2_asks s) \<and> levels_ok (\<lambda>x y. f_lt y x) (l2_num_bids s) (l2_bids s)"

text \<open>A sorted depth event: asks ascending, bids descending, at finite prices.\<close>

definition depth_ok :: "DepthEvent \<Rightarrow> bool" where
  "depth_ok ev \<longleftrightarrow> ev_num_bids ev \<le> length (ev_bids ev) \<and> ev_num_asks ev \<le> length (ev_asks ev) \<and>
     sorted_wrt f_lt (map fst (ask_levels ev)) \<and> sorted_wrt (\<lambda>x y. f_lt y x) (map fst (bid_levels ev)) \<and>
     list_all is_finite (map fst (ask_levels ev)) \<and> list_all is_finite (map fst (bid_levels ev))"

inductive reachable_md :: "MarketDataEngine \<Rightarrow> bool" where
  start: "reachable_md md_new"
| trade: "reachable_md e \<Longrightarrow> is_finite (te_price ev) \<Longrightarrow> reachable_md (snd (consume_trade_event ev e))"
| depth: "reachable_md e \<Longrightarrow> depth_ok ev \<Longrightarrow> consume_depth_snapshot ev e = Some e' \<Longrightarrow> reachable_md e'"
| depth50: "reachable_md e \<Longrightarrow> consume_depth50_snapshot ev e = Some (out, e') \<Longrightarrow> reachable_md e'"
| level2: "reachable_md e \<Longrightarrow> consume_level2_snapshot ev e = Some (out, e') \<Longrightarrow> reachable_md e'"
| reset: "reachable_md e \<Longrightarrow> reachable_md (reset_24h_statistics ts e)"

definition append_level :: "level \<Rightarrow> nat \<times> level list \<Rightarrow> nat \<times> level list" where
  "append_level l s = (if fst s \<ge> 10 then s else (fst s + 1, (snd s)[fst s := l]))"

lemma append_levels:
  "length xs = 10 \<Longrightarrow> n \<le> 10 \<Longrightarrow> fold append_level ls (n, xs) = (n', xs') \<Longrightarrow>
   length xs' = 10 \<and> n' \<le> 10 \<and> take n' xs' = take 10 (take n xs @ ls)"
proof (induction ls arbitrary: n xs)
  case (Cons l ls)
  show ?case
  proof (cases "n < 10")
    case True
    then have step: "append_level l (n, xs) = (Suc n, xs[n := l])" and
      t: "take (Suc n) (xs[n := l]) = take n xs @ [l]"
      using Cons.prems(1) by (simp_all add: append_level_def take_Suc_conv_app_nth)
    have "take n' xs' = take 10 ((take n xs @ [l]) @ ls)"
      using Cons.IH [of "xs[n := l]" "Suc n"] Cons.prems True unfolding fold_simps step comp_def t by simp
    then show ?thesis
      using Cons.IH [of "xs[n := l]" "Suc n"] Cons.prems True unfolding fold_simps step comp_def by simp
  next
    case False
    then have step: "append_level l (n, xs) = (n, xs)" and n: "n = 10"
      using Cons.prems(2) by (simp_all add: append_level_def)
    have "fold append_level ls (n, xs) = (n', xs')"
      using Cons.prems(3) by (simp only: fold_simps step)
    then show ?thesis
      using Cons.IH [OF Cons.prems(1,2)] Cons.prems(1) n by simp
  qed
qed auto

lemma fold_add_ask:
  "(let s' = fold (\<lambda>(p, q) s. snd (l2_add_ask p q s)) ls s
    in fold append_level ls (l2_num_asks s, l2_asks s) = (l2_num_asks s', l2_asks s') \<and>
       l2_bids s' = l2_bids s \<and> l2_num_bids s' = l2_num_bids s)"
proof (induction ls arbitrary: s)
  case (Cons l ls)
  have "append_level l (l2_num_asks s, l2_asks s) =
      (l2_num_asks (snd (l2_add_ask (fst l) (snd l) s)), l2_asks (snd (l2_add_ask (fst l) (snd l) s)))"
    "l2_bids (snd (l2_add_ask (fst l) (snd l) s)) = l2_bids s" "l2_num_bids (snd (l2_add_ask (fst l) (snd l) s)) = l2_num_bids s"
    by (simp_all add: append_level_def l2_add_ask_def)
  then show ?case
    using Cons.IH [of "snd (l2_add_ask (fst l) (snd l) s)"] by (simp add: Let_def case_prod_beta)
qed simp

lemma fold_add_bid:
  "(let s' = fold (\<lambda>(p, q) s. snd (l2_add_bid p q s)) ls s
    in fold append_level ls (l2_num_bids s, l2_bids s) = (l2_num_bids s', l2_bids s') \<and>
       l2_asks s' = l2_asks s \<and> l2_num_asks s' = l2_num_asks s)"
proof (induction ls arbitrary: s)
  case (Cons l ls)
  have "append_level l (l2_num_bids s, l2_bids s) =
      (l2_num_bids (snd (l2_add_bid (fst l) (snd l) s)), l2_bids (snd (l2_add_bid (fst l) (snd l) s)))"
    "l2_asks (snd (l2_add_bid (fst l) (snd l) s)) = l2_asks s" "l2_num_asks (snd (l2_add_bid (fst l) (snd l) s)) = l2_num_asks s"
    by (simp_all add: append_level_def l2_add_bid_def)
  then show ?case
    using Cons.IH [of "snd (l2_add_bid (fst l) (snd l) s)"] by (simp add: Let_def case_prod_beta)
qed simp

lemma filled_levels_ok:
  assumes "fold append_level ls (0, replicate 10 level_default) = (n, xs)" "sorted_wrt ahead (map fst ls)" "list_all is_finite (map fst ls)"
  shows "levels_ok ahead n xs \<and> take n xs = take 10 ls"
proof -
  have "length xs = 10" "n \<le> 10" "take n xs = take 10 ls"
    using append_levels [OF _ _ assms(1)] by simp_all
  then show ?thesis
    using assms(2,3) sorted_wrt_take [of ahead "map fst ls" 10] list_all_take_drop [of is_finite "map fst ls" 10]
    by (simp add: levels_ok_def take_map)
qed

lemma consume_depth_l2:
  assumes "depth_ok ev" "consume_depth_snapshot ev e = Some e'"
  shows "l2_ok (level2_snapshot e')" "take (l2_num_asks (level2_snapshot e')) (l2_asks (level2_snapshot e')) = take 10 (ask_levels ev)"
    "take (l2_num_bids (level2_snapshot e')) (l2_bids (level2_snapshot e')) = take 10 (bid_levels ev)"
proof -
  define s1 where "s1 = fold (\<lambda>(p, q) s. snd (l2_add_bid p q s)) (bid_levels ev) (l2_clear (level2_snapshot e))"
  define s2 where "s2 = fold (\<lambda>(p, q) s. snd (l2_add_ask p q s)) (ask_levels ev) s1"
  have s1: "fold append_level (bid_levels ev) (0, replicate 10 level_default) = (l2_num_bids s1, l2_bids s1)"
    "l2_num_asks s1 = 0" "l2_asks s1 = replicate 10 level_default"
    using fold_add_bid [of "bid_levels ev" "l2_clear (level2_snapshot e)"] by (simp_all add: s1_def l2_clear_def Let_def)
  have s2: "fold append_level (ask_levels ev) (0, replicate 10 level_default) = (l2_num_asks s2, l2_asks s2)"
    "l2_num_bids s2 = l2_num_bids s1" "l2_bids s2 = l2_bids s1"
    using fold_add_ask [of "ask_levels ev" s1] by (simp_all add: s2_def s1 Let_def)
  have "level2_snapshot e' = s2\<lparr>l2_timestamp := ev_timestamp ev, l2_sequence := ev_sequence ev\<rparr>"
    using assms(2) by (auto simp: consume_depth_snapshot_def Let_def s1_def s2_def split: if_splits)
  then show "l2_ok (level2_snapshot e')" "take (l2_num_asks (level2_snapshot e')) (l2_asks (level2_snapshot e')) = take 10 (ask_levels ev)"
    "take (l2_num_bids (level2_snapshot e')) (l2_bids (level2_snapshot e')) = take 10 (bid_levels ev)"
    using filled_levels_ok [OF s1(1), of "\<lambda>x y. f_lt y x"] filled_levels_ok [OF s2(1), of f_lt] assms(1) by (simp_all add: l2_ok_def depth_ok_def s2)
qed

lemma consume_trade_l2:
  assumes "l2_ok (level2_snapshot e)" "is_finite (te_price ev)"
  shows "l2_ok (level2_snapshot (snd (consume_trade_event ev e)))"
proof -
  let ?s = "(level2_snapshot e)\<lparr>l2_timestamp := te_timestamp ev, l2_sequence := te_sequence ev\<rparr>"
  have eq: "level2_snapshot (snd (consume_trade_event ev e)) = snd (update_level2_from_trade ev ?s)"
    by (simp add: consume_trade_event_def update_aggregate_trades_from_event_def Let_def split: prod.splits)
  show ?thesis
  proof (cases "te_side ev")
    case Buy
    obtain c n xs where "update_levels f_lt ev (l2_num_asks ?s) (l2_asks ?s) = (c, n, xs)"
      by (cases "update_levels f_lt ev (l2_num_asks ?s) (l2_asks ?s)")
    then show ?thesis
      using assms asks.update_levels_ok [of "l2_num_asks ?s" "l2_asks ?s" ev] Buy
      by (simp add: eq update_level2_from_trade_def l2_ok_def)
  next
    case Sell
    obtain c n xs where "update_levels (\<lambda>x y. f_lt y x) ev (l2_num_bids ?s) (l2_bids ?s) = (c, n, xs)"
      by (cases "update_levels (\<lambda>x y. f_lt y x) ev (l2_num_bids ?s) (l2_bids ?s)")
    then show ?thesis
      using assms bids.update_levels_ok [of "l2_num_bids ?s" "l2_bids ?s" ev] Sell
      by (simp add: eq update_level2_from_trade_def l2_ok_def)
  qed
qed

lemma reachable_md_ok: "reachable_md e \<Longrightarrow> l2_ok (level2_snapshot e)"
proof (induction rule: reachable_md.induct)
  case start
  then show ?case
    by (simp add: l2_ok_def levels_ok_def md_new_def Level2Snapshot_new_def)
next
  case (trade e ev)
  then show ?case
    by (simp add: consume_trade_l2)
next
  case (depth e ev e')
  then show ?case
    by (simp add: consume_depth_l2)
next
  case (depth50 e ev out e')
  then show ?case
    by (auto simp: consume_depth50_snapshot_def Let_def split: Option.bind_splits prod.splits)
next
  case (level2 e ev out e')
  then show ?case
    by (auto simp: consume_level2_snapshot_def Let_def split: Option.bind_splits prod.splits)
qed (simp add: reset_24h_statistics_def)

definition demo_buy_tick :: "int \<Rightarrow> TradeEvent" where
  "demo_buy_tick price = \<lparr>te_sequence = 1, te_order_id = 1, te_maker_order_id = 2, te_timestamp = 0,
     te_price = Fin (of_int price), te_quantity = Fin 1, te_taker_id = 1, te_maker_id = 2, te_side = Buy\<rparr>"

end
