(* ===== verification/MdFeed.thy ===== *)
theory MdFeed
  imports EngineRuns MdLevels
begin

text \<open>
  From the matching engine to the market data: the depth events the matching engine builds are sorted,
  and the market data engine that consumes one shows the best levels of the book.
\<close>

definition prices_exact :: "MatchingEngine \<Rightarrow> bool" where
  "prices_exact m \<longleftrightarrow> list_all (\<lambda>(p, _). \<bar>p\<bar> \<le> 2 ^ 53) (side_makers m Buy @ side_makers m Sell)"

lemma level_f64_exact: "\<bar>fst l\<bar> \<le> 2 ^ 53 \<Longrightarrow> fst (level_f64 l) = Fin (of_int (fst l))"
  by (simp add: level_f64_def)

lemma level_prices:
  assumes "sorted_wrt R (map fst L)" "\<forall>l \<in> set L. \<bar>fst l\<bar> \<le> 2 ^ 53"
    and "\<And>p q. R p q \<Longrightarrow> S (Fin (of_int p)) (Fin (of_int q))"
  shows "sorted_wrt S (map fst (map level_f64 L))" "list_all is_finite (map fst (map level_f64 L))"
proof -
  have eq: "map fst (map level_f64 L) = map (\<lambda>l. Fin (of_int (fst l))) L"
    using assms(2) level_f64_exact by auto
  show "sorted_wrt S (map fst (map level_f64 L))"
    unfolding eq sorted_wrt_map
    by (rule sorted_wrt_mono_rel [OF _ assms(1) [unfolded sorted_wrt_map]]) (rule assms(3))
  show "list_all is_finite (map fst (map level_f64 L))"
    unfolding eq by (simp add: list_all_iff)
qed

lemma level_sums_prices: "l \<in> set (level_sums ms) \<Longrightarrow> fst l \<in> fst ` set ms"
proof (induction ms arbitrary: l rule: level_sums.induct)
  case (2 p i q ms)
  have "fst l = p \<or> l \<in> set (level_sums ms)"
    using "2.prems" by (auto split: list.splits if_splits)
  then show ?case
    using "2.IH" [of l] by (simp only: list.set image_insert fst_conv insert_iff) blast
qed simp

lemma engine_level_sums:
  assumes "engine_inv m"
  shows "depth (view (own_book m side)) = level_sums (side_makers m side)"
    "sorted_wrt (before (side_order side)) (map fst (level_sums (side_makers m side)))"
proof -
  have core: "engine_core {} m"
    using assms by (simp add: engine_inv_def)
  note D = engine_coreD(8,9,11) [OF core, of side]
  show eq: "depth (view (own_book m side)) = level_sums (side_makers m side)"
    using depth_level_sums [OF D(3) view_sorted [OF D(1)]] by (simp add: side_makers_def)
  have "map fst (depth (view (own_book m side))) = map fst (view (own_book m side))"
    by (simp add: depth_def case_prod_unfold)
  then show "sorted_wrt (before (side_order side)) (map fst (level_sums (side_makers m side)))"
    using view_sorted [OF D(1)] D(2) eq by simp
qed

lemma engine_depth_sorted:
  assumes "engine_inv m" "prices_exact m"
  obtains ev where "depth_event n now seq m = Some ev" "depth_ok ev"
    "bid_levels ev = map level_f64 (take n (level_sums (side_makers m Buy)))"
    "ask_levels ev = map level_f64 (take n (level_sums (side_makers m Sell)))"
proof -
  obtain ev where ev: "depth_event n now seq m = Some ev"
    "ev_num_bids ev = min n (length (view (me_buy_book m)))" "ev_num_asks ev = min n (length (view (me_sell_book m)))"
    "take (ev_num_bids ev) (ev_bids ev) = map level_f64 (take n (depth (view (me_buy_book m))))"
    "take (ev_num_asks ev) (ev_asks ev) = map level_f64 (take n (depth (view (me_sell_book m))))"
    by (rule depth_event_ok [OF assms(1)])
  have eq: "bid_levels ev = map level_f64 (take n (level_sums (side_makers m Buy)))"
    "ask_levels ev = map level_f64 (take n (level_sums (side_makers m Sell)))"
    using ev(4,5) engine_level_sums(1) [OF assms(1)] by (simp_all add: own_book_def flip: engine_level_sums(1) [OF assms(1)])
  have exact: "\<forall>l \<in> set (take n (level_sums (side_makers m side))). \<bar>fst l\<bar> \<le> 2 ^ 53" for side
  proof
    fix l assume "l \<in> set (take n (level_sums (side_makers m side)))"
    then obtain x where "fst l = fst x" "x \<in> set (side_makers m side)"
      using level_sums_prices [OF in_set_takeD] by blast
    then show "\<bar>fst l\<bar> \<le> 2 ^ 53"
      using assms(2) by (cases side) (auto simp: prices_exact_def list_all_iff case_prod_unfold)
  qed
  have sorted: "sorted_wrt (before (side_order side)) (map fst (take n (level_sums (side_makers m side))))" for side
    using engine_level_sums(2) [OF assms(1), of side] by (simp add: take_map [symmetric] sorted_wrt_take)
  have "ev_num_bids ev \<le> length (ev_bids ev)" "ev_num_asks ev \<le> length (ev_asks ev)"
    using arg_cong [OF ev(4), of length] arg_cong [OF ev(5), of length] ev(2,3) by (simp_all add: depth_def min_def split: if_splits)
  then have "depth_ok ev"
    unfolding depth_ok_def eq
    using level_prices [OF sorted [of Sell] exact, of f_lt] level_prices [OF sorted [of Buy] exact, of "\<lambda>x y. f_lt y x"]
    by (simp add: side_order_def before_def)
  then show ?thesis
    using that ev(1) eq by blast
qed

text \<open>
  C36. The published depth is always sorted. However trades at finite prices and sorted depth snapshots
  interleave, the market data engine keeps at most ten levels a side, asks strictly ascending and bids
  strictly descending, all at finite prices. The snapshots the matching engine builds are sorted when its
  prices have an exact \<open>f64\<close>, and after consuming one, the levels shown are exactly the ten best
  prices of each side of the book with the lots that rest there. (A comment of
  \<open>consume_depth_snapshot\<close> promises twenty levels.)
\<close>

theorem depth_stays_sorted:
  assumes "reachable_md e"
  shows "l2_ok (level2_snapshot e) \<and>
    (\<forall>ev e'. depth_ok ev \<and> consume_depth_snapshot ev e = Some e' \<longrightarrow>
      take (l2_num_asks (level2_snapshot e')) (l2_asks (level2_snapshot e')) = take 10 (ask_levels ev) \<and>
      take (l2_num_bids (level2_snapshot e')) (l2_bids (level2_snapshot e')) = take 10 (bid_levels ev)) \<and>
    (\<forall>m now seq. engine_inv m \<and> prices_exact m \<longrightarrow>
      (\<exists>ev e'. depth_event 20 now seq m = Some ev \<and> depth_ok ev \<and> consume_depth_snapshot ev e = Some e' \<and> reachable_md e' \<and>
        take (l2_num_asks (level2_snapshot e')) (l2_asks (level2_snapshot e')) =
          map level_f64 (take 10 (level_sums (side_makers m Sell))) \<and>
        take (l2_num_bids (level2_snapshot e')) (l2_bids (level2_snapshot e')) =
          map level_f64 (take 10 (level_sums (side_makers m Buy)))))"
proof -
  have "\<exists>ev e'. depth_event 20 now seq m = Some ev \<and> depth_ok ev \<and> consume_depth_snapshot ev e = Some e' \<and> reachable_md e' \<and>
      take (l2_num_asks (level2_snapshot e')) (l2_asks (level2_snapshot e')) = map level_f64 (take 10 (level_sums (side_makers m Sell))) \<and>
      take (l2_num_bids (level2_snapshot e')) (l2_bids (level2_snapshot e')) = map level_f64 (take 10 (level_sums (side_makers m Buy)))"
    if m: "engine_inv m" "prices_exact m" for m now seq
  proof -
    obtain ev where ev: "depth_event 20 now seq m = Some ev" "depth_ok ev"
      "bid_levels ev = map level_f64 (take 20 (level_sums (side_makers m Buy)))"
      "ask_levels ev = map level_f64 (take 20 (level_sums (side_makers m Sell)))"
      by (rule engine_depth_sorted [OF m])
    obtain e' where e': "consume_depth_snapshot ev e = Some e'"
      using ev(2) by (auto simp: consume_depth_snapshot_def depth_ok_def Let_def not_less)
    show ?thesis
      using ev(1,2) e' reachable_md.depth [OF assms ev(2) e'] consume_depth_l2(2,3) [OF ev(2) e'] ev(3,4)
      by (auto simp: take_map)
  qed
  then show ?thesis
    using reachable_md_ok [OF assms] consume_depth_l2(2,3) by blast
qed

theorem depth_stays_sorted_witness:
  "let e = snd (consume_trade_event (demo_buy_tick 9) (snd (consume_trade_event (demo_buy_tick 5) md_new)))
   in reachable_md e \<and> l2_ok (level2_snapshot e) \<and> engine_inv demo_book \<and> prices_exact demo_book \<and>
     (\<exists>ev e'. depth_event 20 7 1 demo_book = Some ev \<and> consume_depth_snapshot ev e = Some e' \<and>
        take (l2_num_asks (level2_snapshot e')) (l2_asks (level2_snapshot e')) = [(Fin 100, Fin 5)])"
proof -
  let ?e = "snd (consume_trade_event (demo_buy_tick 9) (snd (consume_trade_event (demo_buy_tick 5) md_new)))"
  have r: "reachable_md ?e"
    by (intro reachable_md.intros) (simp_all add: demo_buy_tick_def)
  have m: "engine_inv demo_book" "prices_exact demo_book"
    by (simp_all add: demo_book_facts prices_exact_def)
  then obtain ev e' where "depth_event 20 7 1 demo_book = Some ev" "consume_depth_snapshot ev ?e = Some e'"
    "take (l2_num_asks (level2_snapshot e')) (l2_asks (level2_snapshot e')) = map level_f64 (take 10 (level_sums (side_makers demo_book Sell)))"
    using depth_stays_sorted [OF r] by blast
  moreover have "map level_f64 (take 10 (level_sums (side_makers demo_book Sell))) = [(Fin 100, Fin 5)]"
    by (simp add: demo_book_facts level_f64_def)
  ultimately show ?thesis
    using r m depth_stays_sorted [OF r] by (auto simp: Let_def)
qed

end
