(* ===== verification/Spec2Isabelle.thy ===== *)
theory Spec2Isabelle
  imports EngineProps RiskProps RiskAdl RiskCas RiskTiers Funding Snowflake RateLimit Trigger IndexPrice SymbolRules Aeron MdCandles MdFeed
begin

text \<open>
  Verification of LightningX, an exchange for perpetual contracts written in Rust (\<open>src/src\<close>).

  \<^bold>\<open>The program.\<close> The matching layer (\<open>matching\<close>) keeps, for one symbol, two price-sorted books and a
  store of resting orders, matches incoming orders by price and time, and derives market data from
  its trades and depth. The desk layer (\<open>desk\<close>) normalises orders, issues their ids, limits their
  rate, and keeps margin accounts, positions, risk, funding, index prices and trigger orders. The
  transport layer (\<open>transport\<close>) carries orders, updates and persistence events between desks,
  engines and writers as packed binary messages over Aeron. The binaries (\<open>bin\<close>) wire them together.

  \<^bold>\<open>Shared vocabulary.\<close> \<open>Prelude\<close>: machine integers and the execution monad. \<open>Text\<close>: the string
  operations and integer parsers. \<open>Float64\<close>: \<open>f64\<close> arithmetic with its rounding. \<open>Wire\<close>: bytes and
  the contract \<open>wire\<close> of a packed message.

  \<^bold>\<open>Matching.\<close>
  \<^item> \<open>Orders\<close>: \<open>order.rs\<close>, \<open>trade.rs\<close>, \<open>error.rs\<close>. \<open>Pools\<close>: \<open>pools.rs\<close>. \<open>ListPool\<close>: \<open>list_pool.rs\<close>,
    doubly linked queues in a shared pool.
  \<^item> \<open>SkipList\<close>: \<open>skiplist.rs\<close> over raw pointers. \<open>SkipListInv\<close>: its shape invariant and the
    correctness of search, insertion and removal of price levels.
  \<^item> \<open>PriceTime\<close>: the specification of a side of the book as the list of its makers in priority
    order. \<open>OrderBook\<close>: the contract of the trait \<open>OrderBook\<close> as a locale and its interpretation on
    the skip list.
  \<^item> \<open>Engine\<close>: \<open>engine.rs\<close> and \<open>snapshot.rs\<close>. \<open>EngineInv\<close>: the engine invariant and the
    correctness of the matching loops. \<open>EngineSpec\<close>: the specification of the order types and the
    refinement proof. \<open>EngineRuns\<close>: consequences for runs. \<open>EngineProps\<close>: the properties (refinement of
    price-time priority, safety of every run, conservation of lots, order types, cancellation,
    errors, depth and published trades).
  \<^item> \<open>MarketData\<close>: \<open>market_data.rs\<close>. \<open>MdCandles\<close>: candles are the summaries of the trades of their
    windows. \<open>MdDiff\<close>: depth increments lead exactly from one snapshot to the next. \<open>MdLevels\<close>:
    the ten published levels stay sorted. \<open>MdFeed\<close>: the snapshots of the matching engine meet the
    condition of \<open>MdLevels\<close>, and the levels shown are those of the book.

  \<^bold>\<open>Desk.\<close>
  \<^item> \<open>RiskCalc\<close>, \<open>RiskTiers\<close>: \<open>risk/calc.rs\<close>, margin arithmetic, liquidation rounds and the tier table.
  \<^item> \<open>RiskEngine\<close>: \<open>risk/types.rs\<close> and \<open>risk/engine.rs\<close>. \<open>RiskInv\<close>, \<open>RiskRuns\<close>: invariants and their
    preservation by every call. \<open>RiskProps\<close>: the ledger, open interest, margins and risk ticks.
    \<open>RiskAdl\<close>: deleveraging. \<open>RiskCas\<close>: the lock-free margin operations under interleaving.
  \<^item> \<open>Money\<close>, \<open>MoneyFloat\<close>: \<open>money.rs\<close>. \<open>Funding\<close>: \<open>funding.rs\<close>. \<open>Snowflake\<close>: \<open>snowflake.rs\<close>.
    \<open>RateLimit\<close>: \<open>rate_limit.rs\<close>. \<open>Trigger\<close>: \<open>trigger.rs\<close>. \<open>IndexPrice\<close>: \<open>index_price.rs\<close>.
    \<open>SymbolRules\<close>: \<open>symbol_rules.rs\<close>. Each holds the model and the properties of its file.

  \<^bold>\<open>Transport.\<close> \<open>Sbe\<close>: \<open>sbe.rs\<close>. \<open>PersistEvent\<close>: \<open>persist_event.rs\<close>. \<open>CounterForward\<close>:
  \<open>counter_forward.rs\<close>. \<open>Aeron\<close>: the publishers and callbacks of \<open>aeron_transport.rs\<close>, up to the theorem
  that a published order is what the engine receives.

  \<^bold>\<open>Correspondence.\<close> A struct is a record with a prefix for its fields, an enum a datatype, a method
  a definition of the same name (a prefix is added where two types share a name, e.g.
  \<open>ObjectPool::acquire\<close> is \<open>op_acquire\<close> and \<open>ListNodePool::acquire\<close> is \<open>lp_acquire\<close>). Methods that
  mutate return the new state. \<open>None\<close> of the execution monad is a panic, an invalid pointer or
  divergence; an error of a Rust \<open>Result\<close> is \<open>Inl\<close>. Clocks and environment variables are arguments.
  Aeron is a parameter of the publishers, and a ring buffer is either a parameter or the record
  \<open>producer\<close>, whose data say which pushes find it full.

  \<^bold>\<open>Loops and bounds.\<close> Loops over pointers and the matching loops are \<open>partial_function (option)\<close>:
  no fuel is chosen, and that they return is proved from the invariant. The other loops are
  recursive functions with a termination proof; the retry loop of a publisher ends after the 100000
  attempts of the code. Integers that can leave their width carry the wrap-around. The theorems on
  matching assume that the lots resting on one side fit an \<open>i64\<close>, which the code needs for its
  level totals; conversions of ticks and lots to \<open>f64\<close> are exact up to \<open>2^53\<close>, and the round trips
  through scaled prices hold up to \<open>2^48\<close>.

  \<^bold>\<open>Not modelled.\<close> Of the matching layer: \<open>event.rs\<close>, whose events go to a \<open>publish_event\<close> with an
  empty body; the clock of \<open>time_provider.rs\<close>; and \<open>engine_snapshot.rs\<close>, the byte form of a resting
  snapshot and its table (the resting snapshot itself is modelled in \<open>Engine\<close>). Of the desk layer: the
  PostgreSQL and Redis stores and their writers, HTTP and WebSocket handlers, actors, users,
  leadership, reconciliation, the legacy \<open>f64\<close> accounts, and the polling of index sources. Of the
  transport layer: connections, channels, journal, tracer, the WebSocket frames of \<open>ws_sbe.rs\<close> and the
  records of \<open>order_update.rs\<close>. The binaries are event loops around the modelled parts.
\<close>

end
